(* ===== verification/Illinix_Prelude.thy ===== *)
theory Illinix_Prelude
  imports Main "HOL-Library.Word" "HOL-Library.Monad_Syntax"
begin

text \<open>
  Shared vocabulary of the development: the machine integers of
  \<^verbatim>\<open>src/student-distrib/types.h\<close>, the named collections of rewrite rules, counted loops, and
  the general facts on words, lists and folds that several components use.

  \<^item> \<open>u8\<close>, \<open>u16\<close>, \<open>u32\<close> are the C types \<open>uint8_t\<close>, \<open>uint16_t\<close>, \<open>uint32_t\<close>.
    An \<open>int32_t\<close> is also a 32-bit word; where the C code compares it as a signed number the
    model reads it with \<open>sint\<close>.
  \<^item> \<open>machine_simps\<close> collects how memory reads and device accesses commute,
    \<open>frame_simps\<close> collects which part of the state an operation leaves alone.
\<close>

unbundle bit_operations_syntax

type_synonym u8 = "8 word"
type_synonym u16 = "16 word"
type_synonym u32 = "32 word"
type_synonym i32 = "32 word"
type_synonym addr = "32 word"

named_theorems machine_simps "reads, writes and port accesses of the machine"
named_theorems frame_simps "parts of the state an operation does not change"
named_theorems inv_intros "operations that keep a component's invariant"

section \<open>Counted loops\<close>

text \<open>\<open>for (i = a; i < b; i++) body\<close>, with the loop body as a state transformer.\<close>

definition for_loop :: "nat \<Rightarrow> nat \<Rightarrow> (nat \<Rightarrow> 's \<Rightarrow> 's) \<Rightarrow> 's \<Rightarrow> 's" where
  "for_loop a b body s = fold body [a..<b] s"

lemma for_loop_empty [simp]: "b \<le> a \<Longrightarrow> for_loop a b f s = s"
  by (simp add: for_loop_def)

lemma for_loop_last: "a \<le> b \<Longrightarrow> for_loop a (Suc b) f s = f b (for_loop a b f s)"
  by (simp add: for_loop_def)

text \<open>The loop rule: what holds before the loop and is kept by each turn holds after it.\<close>

lemma for_loop_invariant:
  assumes "P s" and "\<And>i t. a \<le> i \<Longrightarrow> i < b \<Longrightarrow> P t \<Longrightarrow> P (f i t)"
  shows "P (for_loop a b f s)"
proof -
  have "P (fold f xs s)" if "set xs \<subseteq> {a..<b}" "P s" for xs s
    using that by (induction xs arbitrary: s) (auto intro: assms(2))
  then show ?thesis using assms(1) by (simp add: for_loop_def)
qed

text \<open>The indexed loop rule: the invariant may speak about the number of turns done.\<close>

lemma for_loop_indexed:
  assumes "a \<le> b" and "P a s" and "\<And>i t. a \<le> i \<Longrightarrow> i < b \<Longrightarrow> P i t \<Longrightarrow> P (Suc i) (f i t)"
  shows "P b (for_loop a b f s)"
  using assms(1,3)
proof (induction b rule: nat_induct_at_least)
  case base
  then show ?case using assms(2) by simp
next
  case (Suc n)
  then show ?case by (simp add: for_loop_last)
qed

section \<open>Words\<close>

lemma word_add_of_nat_eq_iff:
  fixes a :: "'a::len word"
  assumes "i < 2 ^ LENGTH('a)" "j < 2 ^ LENGTH('a)"
  shows "a + word_of_nat i = a + word_of_nat j \<longleftrightarrow> i = j"
proof -
  have "unat (word_of_nat i :: 'a word) = i" "unat (word_of_nat j :: 'a word) = j"
    using assms by (simp_all add: unat_of_nat take_bit_nat_eq_self)
  then show ?thesis by (metis add_left_cancel)
qed

lemma word_diff_of_nat:
  fixes a p :: "'a::len word"
  assumes "i < 2 ^ LENGTH('a)"
  shows "p = a + word_of_nat i \<longleftrightarrow> unat (p - a) = i"
proof
  assume "p = a + word_of_nat i"
  then show "unat (p - a) = i" using assms by (simp add: unat_of_nat take_bit_nat_eq_self)
next
  assume "unat (p - a) = i"
  then have "word_of_nat i = p - a" by auto
  then show "p = a + word_of_nat i" by simp
qed

lemma unat_dec: "(w :: 'a::len word) \<noteq> 0 \<Longrightarrow> unat (w - 1) = unat w - 1"
  by (metis measure_unat unat_minus_one)

lemma unat_dec_less: "(w :: 'a::len word) \<noteq> 0 \<Longrightarrow> unat (w - 1) < unat w"
  by (rule measure_unat)

lemma unat_inc_less: "(i :: 'a::len word) < n \<Longrightarrow> unat (n - (i + 1)) < unat (n - i)"
  by (metis diff_diff_eq eq_iff_diff_eq_0 less_irrefl measure_unat)

lemma unat_add_small:
  fixes a :: "'a::len word"
  assumes "unat a + i < 2 ^ LENGTH('a)"
  shows "unat (a + word_of_nat i) = unat a + i"
  using assms by (simp add: unat_word_ariths unat_of_nat take_bit_eq_mod)

lemma unat_ucast_mod: "unat (ucast (w :: 'a::len word) :: 'b::len word) = unat w mod 2 ^ LENGTH('b)"
  by (simp add: unsigned_ucast_eq take_bit_eq_mod)

lemma unat_u8_lt [simp]: "unat (b :: u8) < 256"
  using unsigned_less [of b, where ?'a = nat] by simp

lemma unat_u32_lt [simp]: "unat (w :: u32) < 4294967296"
  using unsigned_less [of w, where ?'a = nat] by simp

lemma unat_sub_of_nat:
  fixes w :: "'a::len word"
  assumes "k \<le> unat w"
  shows "unat (w - word_of_nat k) = unat w - k"
proof -
  have "w - word_of_nat k = word_of_nat (unat w - k)" using assms by (simp add: of_nat_diff)
  moreover have "unat w - k < 2 ^ LENGTH('a)"
    using unsigned_less [of w, where ?'a = nat] by linarith
  ultimately show ?thesis by (simp add: unat_of_nat take_bit_nat_eq_self)
qed

lemma unat_of_nat_u32: "i < 4294967296 \<Longrightarrow> unat (word_of_nat i :: u32) = i"
  by (simp add: unat_of_nat take_bit_nat_eq_self)

lemma unat_of_nat_le_u32: "i \<le> unat (n :: u32) \<Longrightarrow> unat (word_of_nat i :: u32) = i"
  by (rule unat_of_nat_u32) (rule le_less_trans [OF _ unat_u32_lt])

section \<open>Lists\<close>

text \<open>The bytes of a C string literal.\<close>

definition bytes_of :: "string \<Rightarrow> u8 list" where
  "bytes_of str = map (\<lambda>c. word_of_nat (of_char c)) str"

lemma length_bytes_of [simp]: "length (bytes_of str) = length str"
  by (simp add: bytes_of_def)

end
