(* ===== verification/Machine.thy ===== *)
theory Machine
  imports Illinix_Prelude
begin

text \<open>
  The machine the kernel runs on, as far as the C code sees it.

  \<^item> \<open>phys\<close> is physical memory; \<open>xl\<close> is the translation from linear to physical
    addresses currently in force (the identity until paging is switched on, afterwards what the
    page tables of \<^verbatim>\<open>paging.c\<close> say). Every C pointer access goes through \<open>ld\<close> and \<open>st\<close>, so
    two linear addresses may alias, as the user video page and the text-mode screen do.
  \<^item> \<open>outs\<close> is the sequence of bytes written to I/O ports. What a device answers on
    \<open>inb\<close> is not decided by the kernel: \<open>dev n p\<close> is the answer to the \<open>n\<close>-th
    port read if it is on port \<open>p\<close>, and \<open>clk\<close> counts the reads.
  \<^item> \<open>iflag\<close> is the interrupt flag that \<open>cli\<close> and \<open>sti\<close> change; \<open>esp\<close> and
    \<open>ebp\<close> are the stack registers of the kernel frame that is running.

  The state of every further component extends this record, so the operations here act on each of
  those states.
\<close>

record machine =
  phys :: "u32 \<Rightarrow> u8"
  xl :: "addr \<Rightarrow> u32"
  outs :: "(u16 \<times> u8) list"
  dev :: "nat \<Rightarrow> u16 \<Rightarrow> u8"
  clk :: nat
  iflag :: bool
  esp :: u32
  ebp :: u32

section \<open>Memory accesses\<close>

definition ld :: "'a machine_scheme \<Rightarrow> addr \<Rightarrow> u8" where
  "ld s a = phys s (xl s a)"

definition st :: "addr \<Rightarrow> u8 \<Rightarrow> 'a machine_scheme \<Rightarrow> 'a machine_scheme" where
  "st a v s = s\<lparr>phys := (phys s)(xl s a := v)\<rparr>"

text \<open>A 32-bit access is four byte accesses, least significant byte first.\<close>

definition ld32 :: "'a machine_scheme \<Rightarrow> addr \<Rightarrow> u32" where
  "ld32 s a = word_of_nat (unat (ld s a) + 256 * unat (ld s (a + 1))
                           + 65536 * unat (ld s (a + 2)) + 16777216 * unat (ld s (a + 3)))"

definition st32 :: "addr \<Rightarrow> u32 \<Rightarrow> 'a machine_scheme \<Rightarrow> 'a machine_scheme" where
  "st32 a v s = st (a + 3) (ucast (drop_bit 24 v))
                 (st (a + 2) (ucast (drop_bit 16 v))
                   (st (a + 1) (ucast (drop_bit 8 v))
                     (st a (ucast v) s)))"

definition read_bytes :: "'a machine_scheme \<Rightarrow> addr \<Rightarrow> nat \<Rightarrow> u8 list" where
  "read_bytes s a n = map (\<lambda>i. ld s (a + word_of_nat i)) [0..<n]"

section \<open>Ports and the interrupt flag\<close>

definition outb :: "u8 \<Rightarrow> u16 \<Rightarrow> 'a machine_scheme \<Rightarrow> 'a machine_scheme" where
  "outb data port s = s\<lparr>outs := outs s @ [(port, data)]\<rparr>"

definition inb :: "u16 \<Rightarrow> 'a machine_scheme \<Rightarrow> u32 \<times> 'a machine_scheme" where
  "inb port s = (ucast (dev s (clk s) port), s\<lparr>clk := Suc (clk s)\<rparr>)"

definition cli :: "'a machine_scheme \<Rightarrow> 'a machine_scheme" where
  "cli s = s\<lparr>iflag := False\<rparr>"

definition sti :: "'a machine_scheme \<Rightarrow> 'a machine_scheme" where
  "sti s = s\<lparr>iflag := True\<rparr>"

text \<open>\<open>cli_and_save\<close> and \<open>restore_flags\<close>; of EFLAGS only the interrupt flag matters here.\<close>

definition cli_and_save :: "'a machine_scheme \<Rightarrow> bool \<times> 'a machine_scheme" where
  "cli_and_save s = (iflag s, s\<lparr>iflag := False\<rparr>)"

definition restore_flags :: "bool \<Rightarrow> 'a machine_scheme \<Rightarrow> 'a machine_scheme" where
  "restore_flags flags s = s\<lparr>iflag := flags\<rparr>"

section \<open>How the accesses commute\<close>

lemma ld_st: "ld (st a v s) b = (if xl s b = xl s a then v else ld s b)"
  by (simp add: ld_def st_def)

lemma phys_st: "phys (st a v s) = (phys s)(xl s a := v)"
  by (simp add: st_def)

lemma st_fields [simp, frame_simps]:
  "xl (st a v s) = xl s" "outs (st a v s) = outs s" "dev (st a v s) = dev s"
  "clk (st a v s) = clk s" "iflag (st a v s) = iflag s" "esp (st a v s) = esp s"
  "ebp (st a v s) = ebp s" "machine.more (st a v s) = machine.more s"
  by (simp_all add: st_def)

lemma st32_fields [simp, frame_simps]:
  "xl (st32 a v s) = xl s" "outs (st32 a v s) = outs s" "dev (st32 a v s) = dev s"
  "clk (st32 a v s) = clk s" "iflag (st32 a v s) = iflag s" "esp (st32 a v s) = esp s"
  "ebp (st32 a v s) = ebp s" "machine.more (st32 a v s) = machine.more s"
  by (simp_all add: st32_def)

lemma outb_fields [simp, frame_simps]:
  "xl (outb d p s) = xl s" "phys (outb d p s) = phys s" "dev (outb d p s) = dev s"
  "clk (outb d p s) = clk s" "iflag (outb d p s) = iflag s" "esp (outb d p s) = esp s"
  "ebp (outb d p s) = ebp s" "machine.more (outb d p s) = machine.more s"
  "outs (outb d p s) = outs s @ [(p, d)]"
  by (simp_all add: outb_def)

lemma ld_outb [simp, machine_simps]: "ld (outb d p s) a = ld s a"
  by (simp add: ld_def)

lemma length_read_bytes [simp]: "length (read_bytes s a n) = n"
  by (simp add: read_bytes_def)

lemma nth_read_bytes [simp]: "i < n \<Longrightarrow> read_bytes s a n ! i = ld s (a + word_of_nat i)"
  by (simp add: read_bytes_def)

lemma read_bytes_eqI:
  "(\<And>i. i < n \<Longrightarrow> ld s (a + word_of_nat i) = ld t (b + word_of_nat i)) \<Longrightarrow>
   read_bytes s a n = read_bytes t b n"
  by (simp add: read_bytes_def)

lemma read_bytes_append:
  "read_bytes s a (m + n) = read_bytes s a m @ read_bytes s (a + word_of_nat m) n"
  by (rule nth_equalityI) (auto simp: nth_append ac_simps of_nat_diff)

section \<open>The pieces of a 32-bit value\<close>

lemma unat_byte0: "unat (ucast (v :: u32) :: u8) = unat v mod 256"
  by (simp add: unat_ucast_mod)

lemma unat_byte:
  "unat (ucast (drop_bit n (v :: u32)) :: u8) = unat v div 2 ^ n mod 256"
  by (simp add: unat_ucast_mod unat_drop_bit_eq drop_bit_nat_def del: drop_bit_eq_div)

lemma nat_byte_join:
  fixes b0 b1 b2 b3 :: nat
  assumes "b0 < 256" "b1 < 256" "b2 < 256" "b3 < 256"
  defines "v \<equiv> b0 + 256 * b1 + 65536 * b2 + 16777216 * b3"
  shows "v < 4294967296" "v mod 256 = b0" "v div 2 ^ 8 mod 256 = b1" "v div 2 ^ 16 mod 256 = b2"
    "v div 2 ^ 24 mod 256 = b3"
proof -
  have digit: "(b + 256 * w) mod 256 = b" "(b + 256 * w) div 256 = w" if "b < 256" for b w :: nat
    using that by simp_all
  have v: "v = b0 + 256 * (b1 + 256 * (b2 + 256 * b3))" by (simp add: v_def)
  have d1: "v div 256 = b1 + 256 * (b2 + 256 * b3)"
    by (simp only: v digit(2) [OF assms(1)])
  have d2: "v div 65536 = b2 + 256 * b3"
    using div_mult2_eq [of v 256 256] by (simp only: d1 digit(2) [OF assms(2)]) simp
  have d3: "v div 16777216 = b3"
    using div_mult2_eq [of v 65536 256] by (simp only: d2 digit(2) [OF assms(3)]) simp
  show "v < 4294967296" using assms(1-4) by (simp add: v_def)
  show "v mod 256 = b0" by (simp only: v digit(1) [OF assms(1)])
  have pow: "(2::nat) ^ 8 = 256" "(2::nat) ^ 16 = 65536" by simp_all
  show "v div 2 ^ 8 mod 256 = b1" by (simp only: pow d1 digit(1) [OF assms(2)])
  show "v div 2 ^ 16 mod 256 = b2" by (simp only: pow d2 digit(1) [OF assms(3)])
  show "v div 2 ^ 24 mod 256 = b3" using assms(4) d3 by simp
qed

lemma byte_of_sum:
  fixes b0 b1 b2 b3 :: u8
  defines "v \<equiv> word_of_nat (unat b0 + 256 * unat b1 + 65536 * unat b2 + 16777216 * unat b3) :: u32"
  shows "ucast v = b0" "ucast (drop_bit 8 v) = b1" "ucast (drop_bit 16 v) = b2"
    "ucast (drop_bit 24 v) = b3"
proof -
  note join = nat_byte_join [OF unat_u8_lt unat_u8_lt unat_u8_lt unat_u8_lt, of b0 b1 b2 b3]
  have "unat v = unat b0 + 256 * unat b1 + 65536 * unat b2 + 16777216 * unat b3"
    using join(1) by (simp only: v_def unat_of_nat) (simp add: take_bit_nat_eq_self)
  note v = this
  have "unat (ucast v :: u8) = unat b0" by (simp only: unat_byte0 v join(2))
  moreover have "unat (ucast (drop_bit 8 v) :: u8) = unat b1"
    "unat (ucast (drop_bit 16 v) :: u8) = unat b2" "unat (ucast (drop_bit 24 v) :: u8) = unat b3"
    by (simp_all only: unat_byte v join(3-5))
  ultimately show "ucast v = b0" "ucast (drop_bit 8 v) = b1" "ucast (drop_bit 16 v) = b2"
    "ucast (drop_bit 24 v) = b3"
    by (simp_all only: word_unat_eq_iff)
qed

lemma st32_ld32:
  "st32 a (ld32 t b) s = st (a + 3) (ld t (b + 3)) (st (a + 2) (ld t (b + 2))
                          (st (a + 1) (ld t (b + 1)) (st a (ld t b) s)))"
  by (simp only: st32_def ld32_def byte_of_sum)

end
