(* ===== verification/Pic.thy ===== *)
theory Pic
  imports Machine
begin

text \<open>
  The driver of the two 8259 interrupt controllers (\<^verbatim>\<open>i8259.c\<close>). Its state is the pair of mask
  bytes the driver remembers; its effect on the hardware is the sequence of port writes. The lemmas
  show that the remembered masks are the last ones written to the controllers, and what each
  operation does to the set of enabled interrupt lines.
\<close>

record pic = machine +
  master_mask :: u8
  slave_mask :: u8

definition MASTER_8259_PORT :: u16 where "MASTER_8259_PORT = 0x20"
definition SLAVE_8259_PORT :: u16 where "SLAVE_8259_PORT = 0xA0"
definition MASTER_8259_DATA :: u16 where "MASTER_8259_DATA = 0x21"
definition SLAVE_8259_DATA :: u16 where "SLAVE_8259_DATA = 0xA1"
definition ICW1 :: u8 where "ICW1 = 0x11"
definition ICW2_MASTER :: u8 where "ICW2_MASTER = 0x20"
definition ICW2_SLAVE :: u8 where "ICW2_SLAVE = 0x28"
definition ICW3_MASTER :: u8 where "ICW3_MASTER = 0x04"
definition ICW3_SLAVE :: u8 where "ICW3_SLAVE = 0x02"
definition ICW4 :: u8 where "ICW4 = 0x01"
definition EOI :: u8 where "EOI = 0x60"
definition IRQ_NUMBER :: u32 where "IRQ_NUMBER = 15"
definition MASTER_BOUND :: u32 where "MASTER_BOUND = 8"

lemmas pic_consts = MASTER_8259_PORT_def SLAVE_8259_PORT_def MASTER_8259_DATA_def
  SLAVE_8259_DATA_def ICW1_def ICW2_MASTER_def ICW2_SLAVE_def ICW3_MASTER_def ICW3_SLAVE_def
  ICW4_def EOI_def IRQ_NUMBER_def MASTER_BOUND_def

definition i8259_init :: "'a pic_scheme \<Rightarrow> 'a pic_scheme" where
  "i8259_init s =
     (let s = s\<lparr>master_mask := 0xFF, slave_mask := 0xFF\<rparr>;
          s = outb (master_mask s) MASTER_8259_DATA s;
          s = outb (slave_mask s) SLAVE_8259_DATA s;
          s = outb ICW1 MASTER_8259_PORT s;
          s = outb ICW2_MASTER MASTER_8259_DATA s;
          s = outb ICW3_MASTER MASTER_8259_DATA s;
          s = outb ICW4 MASTER_8259_DATA s;
          s = outb ICW1 SLAVE_8259_PORT s;
          s = outb ICW2_SLAVE SLAVE_8259_DATA s;
          s = outb ICW3_SLAVE SLAVE_8259_DATA s;
          s = outb ICW4 SLAVE_8259_DATA s;
          s = outb (master_mask s) MASTER_8259_DATA s
      in outb (slave_mask s) SLAVE_8259_DATA s)"

text \<open>\<open>1 << irq_num\<close> has type \<open>int\<close> in C; the \<open>uint8_t\<close> mask keeps its low byte.\<close>

definition enable_irq :: "u32 \<Rightarrow> 'a pic_scheme \<Rightarrow> 'a pic_scheme" where
  "enable_irq irq_num s =
     (if irq_num < 0 \<or> irq_num > IRQ_NUMBER then s
      else if irq_num < MASTER_BOUND
      then let s = s\<lparr>master_mask := master_mask s AND NOT (push_bit (unat irq_num) 1)\<rparr>
           in outb (master_mask s) MASTER_8259_DATA s
      else let s = s\<lparr>slave_mask := slave_mask s AND NOT (push_bit (unat (irq_num - MASTER_BOUND)) 1)\<rparr>
           in outb (slave_mask s) SLAVE_8259_DATA s)"

definition disable_irq :: "u32 \<Rightarrow> 'a pic_scheme \<Rightarrow> 'a pic_scheme" where
  "disable_irq irq_num s =
     (if irq_num < 0 \<or> irq_num > IRQ_NUMBER then s
      else if irq_num < MASTER_BOUND
      then let s = s\<lparr>master_mask := master_mask s OR push_bit (unat irq_num) 1\<rparr>
           in outb (master_mask s) MASTER_8259_DATA s
      else let s = s\<lparr>slave_mask := slave_mask s OR push_bit (unat (irq_num - MASTER_BOUND)) 1\<rparr>
           in outb (slave_mask s) SLAVE_8259_DATA s)"

definition send_eoi :: "u32 \<Rightarrow> 'a pic_scheme \<Rightarrow> 'a pic_scheme" where
  "send_eoi irq_num s =
     (if irq_num < 0 \<or> irq_num > IRQ_NUMBER then s
      else if irq_num < MASTER_BOUND then outb (EOI OR ucast irq_num) MASTER_8259_PORT s
      else outb (EOI OR ICW3_SLAVE) MASTER_8259_PORT
             (outb (EOI OR ucast (irq_num - MASTER_BOUND)) SLAVE_8259_PORT s))"

section \<open>The set of enabled interrupt lines\<close>

definition irq_enabled :: "'a pic_scheme \<Rightarrow> nat \<Rightarrow> bool" where
  "irq_enabled s i = (if i < 8 then \<not> bit (master_mask s) i else i < 16 \<and> \<not> bit (slave_mask s) (i - 8))"

text \<open>The mask a controller holds is the last byte written to its data port.\<close>

definition last_out :: "'a machine_scheme \<Rightarrow> u16 \<Rightarrow> u8 option" where
  "last_out s p = map_option snd (find (\<lambda>(q, d). q = p) (rev (outs s)))"

definition masks_written :: "'a pic_scheme \<Rightarrow> bool" where
  "masks_written s \<longleftrightarrow> last_out s MASTER_8259_DATA = Some (master_mask s)
                      \<and> last_out s SLAVE_8259_DATA = Some (slave_mask s)"

lemma last_out_outb: "last_out (outb d p s) q = (if q = p then Some d else last_out s q)"
  by (auto simp: last_out_def)

lemma last_out_update [simp]:
  "last_out (s\<lparr>master_mask := m\<rparr>) q = last_out s q" "last_out (s\<lparr>slave_mask := m\<rparr>) q = last_out s q"
  by (simp_all add: last_out_def)

lemma outb_pic [simp, frame_simps]:
  "master_mask (outb d p s) = master_mask s" "slave_mask (outb d p s) = slave_mask s"
  by (simp_all add: outb_def)

lemma masks_written_init: "masks_written (i8259_init s)"
  by (simp add: masks_written_def i8259_init_def Let_def last_out_outb pic_consts)

lemma masks_written_enable: "masks_written s \<Longrightarrow> masks_written (enable_irq i s)"
  by (simp add: masks_written_def enable_irq_def Let_def last_out_outb pic_consts)

lemma masks_written_disable: "masks_written s \<Longrightarrow> masks_written (disable_irq i s)"
  by (simp add: masks_written_def disable_irq_def Let_def last_out_outb pic_consts)

lemma masks_written_eoi: "masks_written s \<Longrightarrow> masks_written (send_eoi i s)"
  by (simp add: masks_written_def send_eoi_def last_out_outb pic_consts)

lemma u32_15_cases: "(i :: u32) \<le> 15 \<longleftrightarrow> unat i < 16" "(i :: u32) < 8 \<longleftrightarrow> unat i < 8"
  "15 < (i :: u32) \<longleftrightarrow> 15 < unat i"
  by (simp_all add: word_le_nat_alt word_less_nat_alt less_Suc_eq_le [symmetric])

lemma unat_sub8: "\<not> (i :: u32) < 8 \<Longrightarrow> unat (i - 8) = unat i - 8"
  by (simp add: unat_sub word_le_nat_alt not_less)

lemma bit_0xFF: "bit (255 :: int) i \<longleftrightarrow> i < 8"
  using bit_mask_iff [of 8 i, where ?'a = int] by (simp add: mask_eq_exp_minus_1)

lemma irq_enabled_init: "\<not> irq_enabled (i8259_init s) i"
  by (auto simp: irq_enabled_def i8259_init_def Let_def bit_0xFF)

lemma irq_enabled_enable:
  "irq_enabled (enable_irq i s) j \<longleftrightarrow> irq_enabled s j \<or> (unat i < 16 \<and> j = unat i)"
  by (auto simp: irq_enabled_def enable_irq_def Let_def pic_consts u32_15_cases not_less
      unat_sub8 bit_simps word_le_nat_alt unat_sub split: if_splits)

lemma irq_enabled_disable:
  "irq_enabled (disable_irq i s) j \<longleftrightarrow> irq_enabled s j \<and> j \<noteq> unat i"
  by (auto simp: irq_enabled_def disable_irq_def Let_def pic_consts u32_15_cases not_less
      unat_sub8 bit_simps word_le_nat_alt unat_sub split: if_splits)

section \<open>The set of enabled lines\<close>

text \<open>What the kernel does with the controllers after their initialisation, and the abstract meaning: a set of lines.\<close>

datatype pic_op = Enable u32 | Disable u32 | Eoi u32

fun run_pic :: "pic_op \<Rightarrow> 'a pic_scheme \<Rightarrow> 'a pic_scheme" where
  "run_pic (Enable i) s = enable_irq i s"
| "run_pic (Disable i) s = disable_irq i s"
| "run_pic (Eoi i) s = send_eoi i s"

fun set_lines :: "pic_op \<Rightarrow> nat set \<Rightarrow> nat set" where
  "set_lines (Enable i) L = (if unat i < 16 then insert (unat i) L else L)"
| "set_lines (Disable i) L = L - {unat i}"
| "set_lines (Eoi i) L = L"

lemma irq_enabled_eoi: "irq_enabled (send_eoi i s) j = irq_enabled s j"
  by (simp add: irq_enabled_def send_eoi_def)

lemma run_pic_lines: "{j. irq_enabled (run_pic a s) j} = set_lines a {j. irq_enabled s j}"
  by (cases a) (auto simp: irq_enabled_enable irq_enabled_disable irq_enabled_eoi)

lemma run_pic_masks: "masks_written s \<Longrightarrow> masks_written (run_pic a s)"
  by (cases a) (simp_all add: masks_written_enable masks_written_disable masks_written_eoi)

text \<open>C37. The interrupt controllers implement a set of lines: after \<open>i8259_init\<close> and any sequence of \<open>enable_irq\<close>, \<open>disable_irq\<close> and
  \<open>send_eoi\<close> calls, with numbers in or out of range, exactly the lines enabled since and not disabled again are unmasked, and the masks
  the two chips were last given are the driver's copies of them.\<close>

theorem pic_lines:
  "{j. irq_enabled (fold run_pic ops (i8259_init s)) j} = fold set_lines ops {} \<and> masks_written (fold run_pic ops (i8259_init s))"
proof -
  have "{j. irq_enabled (fold run_pic ops s) j} = fold set_lines ops {j. irq_enabled s j}" for s :: "'a pic_scheme"
    by (induction ops arbitrary: s) (simp_all add: run_pic_lines)
  moreover have "masks_written (fold run_pic ops s)" if "masks_written s" for s :: "'a pic_scheme"
    using that by (induction ops arbitrary: s) (simp_all add: run_pic_masks)
  ultimately show ?thesis by (simp add: masks_written_init irq_enabled_init)
qed

end
