(* ===== verification/Lib_Memory.thy ===== *)
theory Lib_Memory
  imports Machine
begin

text \<open>
  The memory and string routines of \<^verbatim>\<open>lib.c\<close>: \<open>memset\<close> and its word variants,
  \<open>memcpy\<close>, \<open>memmove\<close>, \<open>strlen\<close>, \<open>strncmp\<close>, \<open>strcpy\<close>, \<open>strncpy\<close>.

  \<open>memset\<close>, \<open>memcpy\<close> and \<open>memmove\<close> are inline assembly; the model follows the
  instructions, with the registers as arguments. \<open>memcpy\<close> and \<open>memset\<close> move single bytes
  until the destination is 4-byte aligned, then whole 32-bit words, then the rest byte by byte, and
  are shown equal to plain byte loops.

  A loop that stops only at a NUL byte is a \<^theory_text>\<open>partial_function\<close>: its value is
  \<open>None\<close> exactly when it never finds one.
\<close>

section \<open>memset\<close>

function memset_top :: "u32 \<Rightarrow> u32 \<Rightarrow> u32 \<Rightarrow> 'a machine_scheme \<Rightarrow> u32 \<times> u32 \<times> 'a machine_scheme" where
  "memset_top eax edi ecx s =
     (if ecx = 0 \<or> edi AND 3 = 0 then (edi, ecx, s)
      else memset_top eax (edi + 1) (ecx - 1) (st edi (ucast eax) s))"
  by pat_completeness auto
termination by (relation "measure (\<lambda>(eax, edi, ecx, s). unat ecx)") (auto simp: unat_dec_less)

primrec rep_stosl :: "nat \<Rightarrow> u32 \<Rightarrow> u32 \<Rightarrow> 'a machine_scheme \<Rightarrow> u32 \<times> 'a machine_scheme" where
  "rep_stosl 0 eax edi s = (edi, s)"
| "rep_stosl (Suc n) eax edi s = rep_stosl n eax (edi + 4) (st32 edi eax s)"

primrec rep_stosw :: "nat \<Rightarrow> u32 \<Rightarrow> u32 \<Rightarrow> 'a machine_scheme \<Rightarrow> u32 \<times> 'a machine_scheme" where
  "rep_stosw 0 eax edi s = (edi, s)"
| "rep_stosw (Suc n) eax edi s =
     rep_stosw n eax (edi + 2) (st (edi + 1) (ucast (drop_bit 8 eax)) (st edi (ucast eax) s))"

function memset_bottom :: "u32 \<Rightarrow> u32 \<Rightarrow> u32 \<Rightarrow> 'a machine_scheme \<Rightarrow> 'a machine_scheme" where
  "memset_bottom eax edi edx s =
     (if edx = 0 then s else memset_bottom eax (edi + 1) (edx - 1) (st edi (ucast eax) s))"
  by pat_completeness auto
termination by (relation "measure (\<lambda>(eax, edi, edx, s). unat edx)") (auto simp: unat_dec_less)

definition memset :: "addr \<Rightarrow> i32 \<Rightarrow> u32 \<Rightarrow> 'a machine_scheme \<Rightarrow> 'a machine_scheme" where
  "memset dst c n s =
     (let c = c AND 255;
          eax = push_bit 24 c OR push_bit 16 c OR push_bit 8 c OR c;
          (edi, ecx, s1) = memset_top eax dst n s
      in if ecx = 0 then s1
         else let (edi, s2) = rep_stosl (unat (drop_bit 2 ecx)) eax edi s1
              in memset_bottom eax edi (ecx AND 3) s2)"

definition memset_word :: "addr \<Rightarrow> i32 \<Rightarrow> u32 \<Rightarrow> 'a machine_scheme \<Rightarrow> 'a machine_scheme" where
  "memset_word dst c n s = snd (rep_stosw (unat n) c dst s)"

definition memset_dword :: "addr \<Rightarrow> i32 \<Rightarrow> u32 \<Rightarrow> 'a machine_scheme \<Rightarrow> 'a machine_scheme" where
  "memset_dword dst c n s = snd (rep_stosl (unat n) c dst s)"

section \<open>memcpy and memmove\<close>

function memcpy_top :: "u32 \<Rightarrow> u32 \<Rightarrow> u32 \<Rightarrow> 'a machine_scheme \<Rightarrow> u32 \<times> u32 \<times> u32 \<times> 'a machine_scheme" where
  "memcpy_top esi edi ecx s =
     (if ecx = 0 \<or> edi AND 3 = 0 then (esi, edi, ecx, s)
      else memcpy_top (esi + 1) (edi + 1) (ecx - 1) (st edi (ld s esi) s))"
  by pat_completeness auto
termination by (relation "measure (\<lambda>(esi, edi, ecx, s). unat ecx)") (auto simp: unat_dec_less)

primrec rep_movsl :: "nat \<Rightarrow> u32 \<Rightarrow> u32 \<Rightarrow> 'a machine_scheme \<Rightarrow> u32 \<times> u32 \<times> 'a machine_scheme" where
  "rep_movsl 0 esi edi s = (esi, edi, s)"
| "rep_movsl (Suc n) esi edi s = rep_movsl n (esi + 4) (edi + 4) (st32 edi (ld32 s esi) s)"

function memcpy_bottom :: "u32 \<Rightarrow> u32 \<Rightarrow> u32 \<Rightarrow> 'a machine_scheme \<Rightarrow> 'a machine_scheme" where
  "memcpy_bottom esi edi edx s =
     (if edx = 0 then s
      else memcpy_bottom (esi + 1) (edi + 1) (edx - 1) (st edi (ld s esi) s))"
  by pat_completeness auto
termination by (relation "measure (\<lambda>(esi, edi, edx, s). unat edx)") (auto simp: unat_dec_less)

definition memcpy :: "addr \<Rightarrow> addr \<Rightarrow> u32 \<Rightarrow> 'a machine_scheme \<Rightarrow> 'a machine_scheme" where
  "memcpy dst src n s =
     (let (esi, edi, ecx, s1) = memcpy_top src dst n s
      in if ecx = 0 then s1
         else let (esi, edi, s2) = rep_movsl (unat (drop_bit 2 ecx)) esi edi s1
              in memcpy_bottom esi edi (ecx AND 3) s2)"

text \<open>\<open>rep movsb\<close> with the direction flag clear (\<open>d = 1\<close>) or set (\<open>d = -1\<close>).\<close>

primrec rep_movsb :: "nat \<Rightarrow> u32 \<Rightarrow> u32 \<Rightarrow> u32 \<Rightarrow> 'a machine_scheme \<Rightarrow> 'a machine_scheme" where
  "rep_movsb 0 d esi edi s = s"
| "rep_movsb (Suc n) d esi edi s = rep_movsb n d (esi + d) (edi + d) (st edi (ld s esi) s)"

definition memmove :: "addr \<Rightarrow> addr \<Rightarrow> u32 \<Rightarrow> 'a machine_scheme \<Rightarrow> 'a machine_scheme" where
  "memmove dst src n s =
     (if dst \<le> src then rep_movsb (unat n) 1 src dst s
      else rep_movsb (unat n) (-1) (src + n - 1) (dst + n - 1) s)"

section \<open>Strings\<close>

partial_function (option) strlen_loop :: "'a machine_scheme \<Rightarrow> addr \<Rightarrow> u32 \<Rightarrow> u32 option" where
  "strlen_loop s p len = (if ld s (p + len) = 0 then Some len else strlen_loop s p (len + 1))"

definition strlen :: "'a machine_scheme \<Rightarrow> addr \<Rightarrow> u32 option" where
  "strlen s p = strlen_loop s p 0"

function strncmp_loop :: "'a machine_scheme \<Rightarrow> addr \<Rightarrow> addr \<Rightarrow> u32 \<Rightarrow> u32 \<Rightarrow> i32" where
  "strncmp_loop s s1 s2 n i =
     (if i < n
      then if ld s (s1 + i) \<noteq> ld s (s2 + i) \<or> ld s (s1 + i) = 0
           then scast (ld s (s1 + i)) - scast (ld s (s2 + i))
           else strncmp_loop s s1 s2 n (i + 1)
      else 0)"
  by pat_completeness auto
termination by (relation "measure (\<lambda>(s, s1, s2, n, i). unat (n - i))") (auto simp: unat_inc_less)

definition strncmp :: "'a machine_scheme \<Rightarrow> addr \<Rightarrow> addr \<Rightarrow> u32 \<Rightarrow> i32" where
  "strncmp s s1 s2 n = strncmp_loop s s1 s2 n 0"

partial_function (option) strcpy_loop ::
  "addr \<Rightarrow> addr \<Rightarrow> u32 \<Rightarrow> 'a machine_scheme \<Rightarrow> (u32 \<times> 'a machine_scheme) option" where
  "strcpy_loop dst src i s =
     (if ld s (src + i) \<noteq> 0 then strcpy_loop dst src (i + 1) (st (dst + i) (ld s (src + i)) s)
      else Some (i, s))"

definition strcpy :: "addr \<Rightarrow> addr \<Rightarrow> 'a machine_scheme \<Rightarrow> 'a machine_scheme option" where
  "strcpy dst src s = do { (i, s1) \<leftarrow> strcpy_loop dst src 0 s; Some (st (dst + i) 0 s1) }"

function strncpy_copy :: "addr \<Rightarrow> addr \<Rightarrow> u32 \<Rightarrow> u32 \<Rightarrow> 'a machine_scheme \<Rightarrow> u32 \<times> 'a machine_scheme" where
  "strncpy_copy dst src n i s =
     (if ld s (src + i) \<noteq> 0 \<and> i < n
      then strncpy_copy dst src n (i + 1) (st (dst + i) (ld s (src + i)) s)
      else (i, s))"
  by pat_completeness auto
termination by (relation "measure (\<lambda>(dst, src, n, i, s). unat (n - i))") (auto simp: unat_inc_less)

function strncpy_pad :: "addr \<Rightarrow> u32 \<Rightarrow> u32 \<Rightarrow> 'a machine_scheme \<Rightarrow> 'a machine_scheme" where
  "strncpy_pad dst n i s =
     (if i < n then strncpy_pad dst n (i + 1) (st (dst + i) 0 s) else s)"
  by pat_completeness auto
termination by (relation "measure (\<lambda>(dst, n, i, s). unat (n - i))") (auto simp: unat_inc_less)

definition strncpy :: "addr \<Rightarrow> addr \<Rightarrow> u32 \<Rightarrow> 'a machine_scheme \<Rightarrow> 'a machine_scheme" where
  "strncpy dst src n s = (let (i, s1) = strncpy_copy dst src n 0 s in strncpy_pad dst n i s1)"

declare memset_top.simps [simp del] memset_bottom.simps [simp del]
  memcpy_top.simps [simp del] memcpy_bottom.simps [simp del]
  strncmp_loop.simps [simp del] strncpy_copy.simps [simp del] strncpy_pad.simps [simp del]

section \<open>memcpy is a byte copy\<close>

text \<open>
  \<open>copy_safe x dst src n\<close>: copying upwards never overwrites a source byte before it is read
  (\<open>x\<close> is the address translation). It holds when the ranges do not overlap and also when the
  destination is below the source, as in the scrolling of the screen.
\<close>

definition copy_safe :: "(addr \<Rightarrow> u32) \<Rightarrow> addr \<Rightarrow> addr \<Rightarrow> nat \<Rightarrow> bool" where
  "copy_safe x dst src n \<longleftrightarrow>
     (\<forall>i < n. \<forall>j < i. x (dst + word_of_nat j) \<noteq> x (src + word_of_nat i))"

text \<open>The effect of the copy on physical memory; where a byte is written twice the last write counts.\<close>

definition blit :: "(addr \<Rightarrow> u32) \<Rightarrow> addr \<Rightarrow> addr \<Rightarrow> nat \<Rightarrow> (u32 \<Rightarrow> u8) \<Rightarrow> (u32 \<Rightarrow> u8)" where
  "blit x dst src n m p =
     (case find (\<lambda>i. x (dst + word_of_nat i) = p) (rev [0..<n]) of
        None \<Rightarrow> m p | Some i \<Rightarrow> m (x (src + word_of_nat i)))"

lemma copy_safeD:
  "copy_safe x dst src n \<Longrightarrow> i < n \<Longrightarrow> j < i \<Longrightarrow>
   x (dst + word_of_nat j) \<noteq> x (src + word_of_nat i)"
  by (simp add: copy_safe_def)

lemma copy_safe_mono: "copy_safe x dst src n \<Longrightarrow> m \<le> n \<Longrightarrow> copy_safe x dst src m"
  by (simp add: copy_safe_def)

lemma copy_safe_shift:
  assumes "copy_safe x dst src (k + n)"
  shows "copy_safe x (dst + word_of_nat k) (src + word_of_nat k) n"
  unfolding copy_safe_def
proof (intro allI impI)
  fix i j assume "i < n" "j < i"
  then show "x (dst + word_of_nat k + word_of_nat j) \<noteq> x (src + word_of_nat k + word_of_nat i)"
    using copy_safeD [OF assms, of "k + i" "k + j"] by (simp add: add.assoc)
qed

lemma rep_movsb_fields [simp, frame_simps]:
  "xl (rep_movsb n d esi edi s) = xl s" "outs (rep_movsb n d esi edi s) = outs s"
  "dev (rep_movsb n d esi edi s) = dev s" "clk (rep_movsb n d esi edi s) = clk s"
  "iflag (rep_movsb n d esi edi s) = iflag s" "esp (rep_movsb n d esi edi s) = esp s"
  "ebp (rep_movsb n d esi edi s) = ebp s"
  "machine.more (rep_movsb n d esi edi s) = machine.more s"
  by (induction n arbitrary: esi edi s) simp_all

lemma rep_movsb_add:
  "rep_movsb (m + n) 1 src dst s =
   rep_movsb n 1 (src + word_of_nat m) (dst + word_of_nat m) (rep_movsb m 1 src dst s)"
  by (induction m arbitrary: src dst s) (simp_all add: ac_simps)

lemma rep_movsb_Suc:
  "rep_movsb (Suc n) 1 src dst s =
   st (dst + word_of_nat n) (ld (rep_movsb n 1 src dst s) (src + word_of_nat n))
     (rep_movsb n 1 src dst s)"
  using rep_movsb_add [of n 1 src dst s] by simp

lemma blit_0 [simp]: "blit x dst src 0 m = m"
  by (simp add: blit_def fun_eq_iff)

lemma blit_Suc:
  "blit x dst src (Suc n) m =
   (blit x dst src n m)(x (dst + word_of_nat n) := m (x (src + word_of_nat n)))"
  by (auto simp: blit_def fun_eq_iff)

lemma blit_outside:
  assumes "\<And>i. i < n \<Longrightarrow> x (dst + word_of_nat i) \<noteq> p"
  shows "blit x dst src n m p = m p"
  using assms by (induction n) (auto simp: blit_Suc)

lemma phys_rep_movsb:
  assumes "copy_safe (xl s) dst src n"
  shows "phys (rep_movsb n 1 src dst s) = blit (xl s) dst src n (phys s)"
  using assms
proof (induction n)
  case 0
  then show ?case by simp
next
  case (Suc n)
  have "phys (rep_movsb n 1 src dst s) = blit (xl s) dst src n (phys s)"
    using Suc copy_safe_mono [of "xl s" dst src "Suc n" n] by simp
  moreover have "blit (xl s) dst src n (phys s) (xl s (src + word_of_nat n))
      = phys s (xl s (src + word_of_nat n))"
    by (rule blit_outside) (use Suc.prems in \<open>auto dest: copy_safeD\<close>)
  ultimately show ?case
    by (simp only: rep_movsb_Suc phys_st ld_def rep_movsb_fields blit_Suc)
qed

subsection \<open>The three phases of the assembly\<close>

lemma memcpy_top_eq:
  "\<exists>k \<le> unat ecx. memcpy_top esi edi ecx s =
     (esi + word_of_nat k, edi + word_of_nat k, ecx - word_of_nat k, rep_movsb k 1 esi edi s)"
proof (induction esi edi ecx s rule: memcpy_top.induct)
  case (1 esi edi ecx s)
  show ?case
  proof (cases "ecx = 0 \<or> edi AND 3 = 0")
    case True
    then show ?thesis by (intro exI [of _ 0]) (simp add: memcpy_top.simps [of esi edi ecx s])
  next
    case False
    then obtain k where k: "k \<le> unat (ecx - 1)"
      "memcpy_top (esi + 1) (edi + 1) (ecx - 1) (st edi (ld s esi) s) =
       (esi + 1 + word_of_nat k, edi + 1 + word_of_nat k, ecx - 1 - word_of_nat k,
        rep_movsb k 1 (esi + 1) (edi + 1) (st edi (ld s esi) s))"
      using 1 by blast
    have "Suc k \<le> unat ecx" using k(1) False unat_dec [of ecx] unat_dec_less [of ecx] by simp
    moreover have "memcpy_top esi edi ecx s =
       (esi + word_of_nat (Suc k), edi + word_of_nat (Suc k), ecx - word_of_nat (Suc k),
        rep_movsb (Suc k) 1 esi edi s)"
      using False by (simp add: memcpy_top.simps [of esi edi ecx s] k(2) add.assoc diff_diff_eq)
    ultimately show ?thesis by blast
  qed
qed

lemma memcpy_bottom_eq: "memcpy_bottom esi edi edx s = rep_movsb (unat edx) 1 esi edi s"
proof (induction esi edi edx s rule: memcpy_bottom.induct)
  case (1 esi edi edx s)
  show ?case
  proof (cases "edx = 0")
    case True
    then show ?thesis by (simp add: memcpy_bottom.simps [of esi edi 0 s])
  next
    case False
    then have "unat edx = Suc (unat (edx - 1))"
      using unat_dec [of edx] unat_dec_less [of edx] by simp
    then show ?thesis
      using 1 [OF False] False by (simp add: memcpy_bottom.simps [of esi edi edx s])
  qed
qed

lemma movsl_bytes:
  assumes "copy_safe (xl s) edi esi 4"
  shows "st32 edi (ld32 s esi) s = rep_movsb 4 1 esi edi s"
proof -
  have "xl s (edi + word_of_nat j) \<noteq> xl s (esi + word_of_nat i)" if "j < i" "i < 4" for i j
    using copy_safeD [OF assms] that by blast
  from this [of 0 1] this [of 0 2] this [of 0 3] this [of 1 2] this [of 1 3] this [of 2 3]
  show ?thesis by (simp add: st32_ld32 ld_st eval_nat_numeral add.assoc)
qed

lemma rep_movsl_eq:
  assumes "copy_safe (xl s) edi esi (4 * n)"
  shows "rep_movsl n esi edi s =
    (esi + word_of_nat (4 * n), edi + word_of_nat (4 * n), rep_movsb (4 * n) 1 esi edi s)"
  using assms
proof (induction n arbitrary: esi edi s)
  case 0
  then show ?case by simp
next
  case (Suc n)
  have four: "st32 edi (ld32 s esi) s = rep_movsb 4 1 esi edi s"
    by (rule movsl_bytes) (use Suc.prems copy_safe_mono [of "xl s" edi esi "4 * Suc n" 4] in simp)
  have "copy_safe (xl s) (edi + word_of_nat 4) (esi + word_of_nat 4) (4 * n)"
    by (rule copy_safe_shift) (use Suc.prems in simp)
  then have "rep_movsl n (esi + 4) (edi + 4) (rep_movsb 4 1 esi edi s) =
      (esi + 4 + word_of_nat (4 * n), edi + 4 + word_of_nat (4 * n),
       rep_movsb (4 * n) 1 (esi + 4) (edi + 4) (rep_movsb 4 1 esi edi s))"
    by (intro Suc.IH) simp
  then show ?case
    using rep_movsb_add [of 4 "4 * n" esi edi s] by (simp add: four ac_simps)
qed

lemma word_split4: "4 * unat (drop_bit 2 (w :: u32)) + unat (w AND 3) = unat w"
proof -
  have "unat (w AND 3) = unat w mod 4"
    using take_bit_eq_mask [of 2 w] unat_mod_distrib [of w 4]
    by (simp add: mask_eq_exp_minus_1 take_bit_eq_mod)
  then show ?thesis by (simp add: unat_drop_bit_eq drop_bit_nat_def del: drop_bit_eq_div)
qed

lemma memcpy_eq_rep_movsb:
  assumes "copy_safe (xl s) dst src (unat n)"
  shows "memcpy dst src n s = rep_movsb (unat n) 1 src dst s"
proof -
  obtain k where k: "k \<le> unat n" and top: "memcpy_top src dst n s =
     (src + word_of_nat k, dst + word_of_nat k, n - word_of_nat k, rep_movsb k 1 src dst s)"
    using memcpy_top_eq by blast
  define m where "m = n - word_of_nat k"
  have um: "unat m = unat n - k"
    using k by (simp add: m_def unat_sub_of_nat)
  define q r where "q = unat (drop_bit 2 m)" and "r = unat (m AND 3)"
  have qr: "4 * q + r = unat n - k" using word_split4 [of m] by (simp add: q_def r_def um)
  have safe: "copy_safe (xl s) (dst + word_of_nat k) (src + word_of_nat k) (4 * q)"
    by (rule copy_safe_shift) (use assms copy_safe_mono k qr in force)
  show ?thesis
  proof (cases "m = 0")
    case True
    then have "k = unat n" using um k by simp
    then show ?thesis using True by (simp add: memcpy_def top m_def)
  next
    case False
    have "memcpy dst src n s = rep_movsb r 1 (src + word_of_nat k + word_of_nat (4 * q))
        (dst + word_of_nat k + word_of_nat (4 * q))
        (rep_movsb (4 * q) 1 (src + word_of_nat k) (dst + word_of_nat k) (rep_movsb k 1 src dst s))"
      using False safe
      by (simp add: memcpy_def top m_def [symmetric] q_def [symmetric] rep_movsl_eq
          memcpy_bottom_eq r_def)
    also have "\<dots> = rep_movsb (k + (4 * q + r)) 1 src dst s"
      by (simp only: rep_movsb_add)
    also have "k + (4 * q + r) = unat n" using qr k by simp
    finally show ?thesis .
  qed
qed

text \<open>The closed form the clients of \<open>memcpy\<close> use.\<close>

lemma memcpy_blit:
  assumes "copy_safe (xl s) dst src (unat n)"
  shows "memcpy dst src n s = s\<lparr>phys := blit (xl s) dst src (unat n) (phys s)\<rparr>"
  using phys_rep_movsb [OF assms] memcpy_eq_rep_movsb [OF assms] by simp

lemma blit_at:
  assumes "i < n" and "inj_on (\<lambda>i. x (dst + word_of_nat i)) {..<n}"
  shows "blit x dst src n m (x (dst + word_of_nat i)) = m (x (src + word_of_nat i))"
  using assms
proof (induction n)
  case (Suc n)
  show ?case
  proof (cases "i = n")
    case False
    with Suc.prems have "i < n" "x (dst + word_of_nat i) \<noteq> x (dst + word_of_nat n)"
      by (auto dest: inj_onD)
    moreover have "inj_on (\<lambda>i. x (dst + word_of_nat i)) {..<n}"
      by (rule inj_on_subset [OF Suc.prems(2)]) auto
    ultimately show ?thesis using Suc.IH by (simp add: blit_Suc)
  qed (simp add: blit_Suc)
qed simp

text \<open>Where the translation is the identity on the destination, the copied range is explicit.\<close>

lemma blit_ident:
  assumes "n \<le> 2 ^ 32" and "\<And>i. i < n \<Longrightarrow> x (dst + word_of_nat i) = dst + word_of_nat i"
  shows "blit x dst src n m p = (if unat (p - dst) < n then m (x (src + (p - dst))) else m p)"
proof (cases "unat (p - dst) < n")
  case True
  have inj: "inj_on (\<lambda>i. x (dst + word_of_nat i)) {..<n}"
  proof (rule inj_onI)
    fix i j assume "i \<in> {..<n}" "j \<in> {..<n}" and eq: "x (dst + word_of_nat i) = x (dst + word_of_nat j)"
    then have ij: "i < n" "j < n" by auto
    with eq have "dst + word_of_nat i = dst + word_of_nat j" using assms(2) by metis
    moreover have "i < 2 ^ LENGTH(32)" "j < 2 ^ LENGTH(32)" using ij assms(1) by simp_all
    ultimately show "i = j" using word_add_of_nat_eq_iff [of i j dst] by blast
  qed
  have "x (dst + word_of_nat (unat (p - dst))) = p" using assms(2) [OF True] by simp
  then show ?thesis using blit_at [OF True inj, of src m] True by simp
next
  case False
  have "x (dst + word_of_nat i) \<noteq> p" if "i < n" for i
    using assms that False word_diff_of_nat [of i p dst] by auto
  then show ?thesis using False by (simp add: blit_outside)
qed

lemma copy_safe_below:
  assumes "\<And>i. i < n \<Longrightarrow> x (dst + word_of_nat i) = dst + word_of_nat i"
    and "\<And>i. i < n \<Longrightarrow> x (src + word_of_nat i) = src + word_of_nat i"
    and "unat dst \<le> unat src" "unat src + n \<le> 2 ^ 32"
  shows "copy_safe x dst src n"
  unfolding copy_safe_def
proof (intro allI impI notI)
  fix i j assume ij: "i < n" "j < i" and "x (dst + word_of_nat j) = x (src + word_of_nat i)"
  then have "dst + word_of_nat j = src + word_of_nat i" using assms(1,2) by simp
  moreover have "unat (dst + word_of_nat j) = unat dst + j"
    by (rule unat_add_small) (use assms ij in simp)
  moreover have "unat (src + word_of_nat i) = unat src + i"
    by (rule unat_add_small) (use assms ij in simp)
  ultimately show False using assms(3) ij by simp
qed

section \<open>memmove copies overlapping ranges\<close>

lemma rep_movsb_down:
  assumes "\<And>i j. i < j \<Longrightarrow> j < n \<Longrightarrow> xl s (dst + word_of_nat j) \<noteq> xl s (src + word_of_nat i)"
    and "inj_on (\<lambda>i. xl s (dst + word_of_nat i)) {..<n}"
  shows "phys (rep_movsb n (- 1) (src + word_of_nat n - 1) (dst + word_of_nat n - 1) s)
         = blit (xl s) dst src n (phys s)"
  using assms
proof (induction n arbitrary: s)
  case 0
  then show ?case by simp
next
  case (Suc n)
  define s' where "s' = st (dst + word_of_nat n) (ld s (src + word_of_nat n)) s"
  have x: "xl s' = xl s" by (simp add: s'_def)
  have inj: "inj_on (\<lambda>i. xl s (dst + word_of_nat i)) {..<n}"
    by (rule inj_on_subset [OF Suc.prems(2)]) auto
  have other: "xl s (dst + word_of_nat i) \<noteq> xl s (dst + word_of_nat n)" if "i < n" for i
    using inj_onD [OF Suc.prems(2), of i n] that by auto
  have "phys (rep_movsb (Suc n) (- 1) (src + word_of_nat (Suc n) - 1) (dst + word_of_nat (Suc n) - 1) s)
      = phys (rep_movsb n (- 1) (src + word_of_nat n - 1) (dst + word_of_nat n - 1) s')"
    by (simp add: s'_def)
  also have "\<dots> = blit (xl s) dst src n (phys s')"
    using Suc.IH [of s'] Suc.prems(1) inj by (simp add: x)
  also have "\<dots> = blit (xl s) dst src (Suc n) (phys s)"
  proof (rule ext)
    fix p
    show "blit (xl s) dst src n (phys s') p = blit (xl s) dst src (Suc n) (phys s) p"
    proof (cases "\<exists>i < n. p = xl s (dst + word_of_nat i)")
      case True
      then obtain i where i: "i < n" "p = xl s (dst + word_of_nat i)" by blast
      then have "xl s (src + word_of_nat i) \<noteq> xl s (dst + word_of_nat n)"
        using Suc.prems(1) [of i n] by auto
      then have "phys s' (xl s (src + word_of_nat i)) = phys s (xl s (src + word_of_nat i))"
        by (simp add: s'_def phys_st)
      then show ?thesis using i inj other by (simp add: blit_at blit_Suc)
    next
      case False
      then have "blit (xl s) dst src n m p = m p" for m by (intro blit_outside) auto
      then show ?thesis by (simp add: blit_Suc s'_def phys_st ld_def)
    qed
  qed
  finally show ?case .
qed

lemma inj_offsets:
  assumes "inj_on x ({dst + word_of_nat i |i. i < n} \<union> A)" "unat (dst :: addr) + n \<le> 2 ^ 32"
  shows "inj_on (\<lambda>i. x (dst + word_of_nat i)) {..<n}"
proof (rule inj_onI)
  fix i j assume ij: "i \<in> {..<n}" "j \<in> {..<n}" "x (dst + word_of_nat i) = x (dst + word_of_nat j)"
  then have "dst + word_of_nat i \<in> {dst + word_of_nat i |i. i < n}" "dst + word_of_nat j \<in> {dst + word_of_nat i |i. i < n}" by blast+
  then have eq: "dst + word_of_nat i = dst + word_of_nat j" using inj_onD [OF assms(1) ij(3)] by blast
  have "unat (dst + word_of_nat k) = unat dst + k" if "k < n" for k using that assms(2) by (intro unat_add_small) simp
  from this [of i] this [of j] have "unat dst + i = unat dst + j" using ij(1,2) eq by (simp only: lessThan_iff)
  then show "i = j" by simp
qed

lemma memmove_blit:
  assumes inj: "inj_on (xl s) ({dst + word_of_nat i |i. i < unat n} \<union> {src + word_of_nat i |i. i < unat n})"
    and "unat dst + unat n \<le> 2 ^ 32" "unat src + unat n \<le> 2 ^ 32"
  shows "memmove dst src n s = s\<lparr>phys := blit (xl s) dst src (unat n) (phys s)\<rparr>"
proof -
  have un: "unat (dst + word_of_nat i) = unat dst + i" "unat (src + word_of_nat i) = unat src + i"
    if "i < unat n" for i
    using that assms(2,3) by (auto intro!: unat_add_small)
  have eq: "xl s (dst + word_of_nat j) = xl s (src + word_of_nat i) \<longleftrightarrow> unat dst + j = unat src + i"
    if "i < unat n" "j < unat n" for i j
  proof -
    have "xl s (dst + word_of_nat j) = xl s (src + word_of_nat i) \<longleftrightarrow>
        dst + word_of_nat j = src + word_of_nat i"
      using that by (intro inj_on_eq_iff [OF inj]) auto
    then show ?thesis using un that by (simp add: word_unat_eq_iff)
  qed
  note injd = inj_offsets [OF inj assms(2)]
  show ?thesis
  proof (cases "dst \<le> src")
    case True
    then have "unat dst \<le> unat src" by (simp add: word_le_nat_alt)
    then have "copy_safe (xl s) dst src (unat n)" using eq by (auto simp: copy_safe_def)
    then show ?thesis using True phys_rep_movsb [of s dst src "unat n"] by (simp add: memmove_def)
  next
    case False
    then have "unat src < unat dst" by (simp add: word_le_nat_alt)
    then have "phys (rep_movsb (unat n) (- 1) (src + word_of_nat (unat n) - 1)
        (dst + word_of_nat (unat n) - 1) s) = blit (xl s) dst src (unat n) (phys s)"
      using eq by (intro rep_movsb_down injd) auto
    then show ?thesis using False by (simp add: memmove_def)
  qed
qed

section \<open>memset is a byte fill\<close>

primrec fill_bytes :: "nat \<Rightarrow> addr \<Rightarrow> u8 \<Rightarrow> 'a machine_scheme \<Rightarrow> 'a machine_scheme" where
  "fill_bytes 0 dst b s = s"
| "fill_bytes (Suc n) dst b s = fill_bytes n (dst + 1) b (st dst b s)"

lemma fill_bytes_add:
  "fill_bytes (m + n) dst b s = fill_bytes n (dst + word_of_nat m) b (fill_bytes m dst b s)"
  by (induction m arbitrary: dst s) (simp_all add: ac_simps)

lemma memset_top_eq:
  "\<exists>k \<le> unat ecx. memset_top eax edi ecx s =
     (edi + word_of_nat k, ecx - word_of_nat k, fill_bytes k edi (ucast eax) s)"
proof (induction eax edi ecx s rule: memset_top.induct)
  case (1 eax edi ecx s)
  show ?case
  proof (cases "ecx = 0 \<or> edi AND 3 = 0")
    case True
    then show ?thesis by (intro exI [of _ 0]) (simp add: memset_top.simps [of eax edi ecx s])
  next
    case False
    then obtain k where k: "k \<le> unat (ecx - 1)"
      "memset_top eax (edi + 1) (ecx - 1) (st edi (ucast eax) s) =
       (edi + 1 + word_of_nat k, ecx - 1 - word_of_nat k,
        fill_bytes k (edi + 1) (ucast eax) (st edi (ucast eax) s))"
      using 1 by blast
    have "Suc k \<le> unat ecx" using k(1) False unat_dec [of ecx] unat_dec_less [of ecx] by simp
    moreover have "memset_top eax edi ecx s =
       (edi + word_of_nat (Suc k), ecx - word_of_nat (Suc k), fill_bytes (Suc k) edi (ucast eax) s)"
      using False by (simp add: memset_top.simps [of eax edi ecx s] k(2) add.assoc diff_diff_eq)
    ultimately show ?thesis by blast
  qed
qed

lemma memset_bottom_eq: "memset_bottom eax edi edx s = fill_bytes (unat edx) edi (ucast eax) s"
proof (induction eax edi edx s rule: memset_bottom.induct)
  case (1 eax edi edx s)
  show ?case
  proof (cases "edx = 0")
    case True
    then show ?thesis by (simp add: memset_bottom.simps [of eax edi 0 s])
  next
    case False
    then have "unat edx = Suc (unat (edx - 1))"
      using unat_dec [of edx] unat_dec_less [of edx] by simp
    then show ?thesis
      using 1 [OF False] False by (simp add: memset_bottom.simps [of eax edi edx s])
  qed
qed

lemma rep_stosl_eq:
  assumes "ucast (drop_bit 8 eax) = (ucast eax :: u8)" "ucast (drop_bit 16 eax) = (ucast eax :: u8)"
    "ucast (drop_bit 24 eax) = (ucast eax :: u8)"
  shows "rep_stosl n eax edi s = (edi + word_of_nat (4 * n), fill_bytes (4 * n) edi (ucast eax) s)"
proof (induction n arbitrary: edi s)
  case (Suc n)
  have "st32 edi eax s = fill_bytes 4 edi (ucast eax) s"
    using assms by (simp add: st32_def eval_nat_numeral add.assoc)
  then show ?case
    using Suc fill_bytes_add [of 4 "4 * n" edi "ucast eax" s] by (simp add: ac_simps)
qed simp

lemma splat_bytes:
  fixes c :: u32
  defines "eax \<equiv> push_bit 24 (c AND 255) OR push_bit 16 (c AND 255) OR push_bit 8 (c AND 255) OR (c AND 255)"
  shows "ucast eax = (ucast c :: u8)" "ucast (drop_bit 8 eax) = (ucast c :: u8)"
    "ucast (drop_bit 16 eax) = (ucast c :: u8)" "ucast (drop_bit 24 eax) = (ucast c :: u8)"
proof -
  have low: "bit (c AND 255) m \<longleftrightarrow> m < 8 \<and> bit c m" for m
    using take_bit_eq_mask [of 8 c] bit_take_bit_iff [of 8 c m] by (simp add: mask_eq_exp_minus_1)
  have eax: "bit eax m \<longleftrightarrow> m < 32 \<and> bit c (m mod 8)" for m
    unfolding eax_def bit_or_iff bit_push_bit_iff low
    by (cases "m < 32") (auto simp: mod_if less_diff_conv2 dest: bit_imp_le_length)
  have "bit (ucast (drop_bit (8 * k) eax) :: u8) m \<longleftrightarrow> bit (ucast c :: u8) m" if "m < 8" "k < 4" for k m
    using that by (simp add: bit_simps eax)
  then have splat: "ucast (drop_bit (8 * k) eax) = (ucast c :: u8)" if "k < 4" for k
    using that by (intro bit_word_eqI) simp
  show "ucast eax = (ucast c :: u8)" using splat [of 0] by simp
  show "ucast (drop_bit 8 eax) = (ucast c :: u8)" using splat [of 1] by simp
  show "ucast (drop_bit 16 eax) = (ucast c :: u8)" using splat [of 2] by simp
  show "ucast (drop_bit 24 eax) = (ucast c :: u8)" using splat [of 3] by simp
qed

lemma memset_eq_fill: "memset dst c n s = fill_bytes (unat n) dst (ucast c) s"
proof -
  define eax :: u32 where
    "eax = push_bit 24 (c AND 255) OR push_bit 16 (c AND 255) OR push_bit 8 (c AND 255) OR (c AND 255)"
  note splat = splat_bytes [of c, folded eax_def]
  obtain k where k: "k \<le> unat n" and top: "memset_top eax dst n s =
     (dst + word_of_nat k, n - word_of_nat k, fill_bytes k dst (ucast c) s)"
    using memset_top_eq [of n eax dst s] splat(1) by auto
  define m where "m = n - word_of_nat k"
  have um: "unat m = unat n - k" using k by (simp add: m_def unat_sub_of_nat)
  define q r where "q = unat (drop_bit 2 m)" and "r = unat (m AND 3)"
  have qr: "4 * q + r = unat n - k" using word_split4 [of m] by (simp add: q_def r_def um)
  show ?thesis
  proof (cases "m = 0")
    case True
    then have "k = unat n" using um k by simp
    then show ?thesis
      using True by (simp only: memset_def Let_def eax_def [symmetric] top m_def prod.case if_True refl)
  next
    case False
    have "memset dst c n s = fill_bytes r (dst + word_of_nat k + word_of_nat (4 * q)) (ucast c)
        (fill_bytes (4 * q) (dst + word_of_nat k) (ucast c) (fill_bytes k dst (ucast c) s))"
      using False
      by (simp only: memset_def Let_def eax_def [symmetric] top m_def [symmetric] q_def [symmetric]
          rep_stosl_eq memset_bottom_eq r_def splat prod.case if_False)
    also have "\<dots> = fill_bytes (k + (4 * q + r)) dst (ucast c) s"
      by (simp only: fill_bytes_add)
    also have "k + (4 * q + r) = unat n" using qr k by simp
    finally show ?thesis .
  qed
qed

section \<open>Strings\<close>

text \<open>\<open>cstr s p n\<close>: the bytes at \<open>p\<close> form a C string of length \<open>n\<close>.\<close>

definition cstr :: "'a machine_scheme \<Rightarrow> addr \<Rightarrow> nat \<Rightarrow> bool" where
  "cstr s p n \<longleftrightarrow> (\<forall>i < n. ld s (p + word_of_nat i) \<noteq> 0) \<and> ld s (p + word_of_nat n) = 0"

lemma strlen_loop_cstr:
  assumes "cstr s p n" "k \<le> n"
  shows "strlen_loop s p (word_of_nat k) = Some (word_of_nat n)"
  using assms(2)
proof (induction "n - k" arbitrary: k)
  case 0
  then show ?case using assms(1) by (subst strlen_loop.simps) (simp add: cstr_def)
next
  case (Suc d)
  then have "ld s (p + word_of_nat k) \<noteq> 0" using assms(1) by (simp add: cstr_def)
  moreover have "strlen_loop s p (word_of_nat (Suc k)) = Some (word_of_nat n)"
    using Suc.hyps(1) [of "Suc k"] Suc.hyps(2) Suc.prems by simp
  ultimately show ?case by (subst strlen_loop.simps) (simp add: add.commute)
qed

lemma strlen_cstr: "cstr s p n \<Longrightarrow> strlen s p = Some (word_of_nat n)"
  using strlen_loop_cstr [of s p n 0] by (simp add: strlen_def)

lemma strlen_loop_never:
  assumes "\<And>a. ld s a \<noteq> 0"
  shows "strlen_loop s p len = None"
proof (rule ccontr)
  assume "strlen_loop s p len \<noteq> None"
  then obtain r where r: "strlen_loop s p len = Some r" by blast
  have "ld s (p + r) = 0"
  proof (rule strlen_loop.raw_induct [where P = "\<lambda>s p len r. ld s (p + r) = 0", OF _ r])
    fix f and s :: "'a machine_scheme" and p len r
    assume "\<And>s p len r. f s p len = Some r \<Longrightarrow> ld s (p + r) = 0"
      and "(if ld s (p + len) = 0 then Some len else f s p (len + 1)) = Some r"
    then show "ld s (p + r) = 0" by (auto split: if_splits)
  qed
  then show False using assms by blast
qed

text \<open>
  The value of a byte buffer read as a C string, and \<open>strncmp\<close> on buffers: 0 exactly when the
  two buffers hold the same string.
\<close>

definition cstring :: "u8 list \<Rightarrow> u8 list" where
  "cstring xs = takeWhile (\<lambda>b. b \<noteq> 0) xs"

fun strncmp_ref :: "u8 list \<Rightarrow> u8 list \<Rightarrow> i32" where
  "strncmp_ref (x # xs) (y # ys) =
     (if x \<noteq> y \<or> x = 0 then scast x - scast y else strncmp_ref xs ys)"
| "strncmp_ref _ _ = 0"

lemma cstring_simps [simp]:
  "cstring [] = []" "cstring (x # xs) = (if x = 0 then [] else x # cstring xs)"
  by (simp_all add: cstring_def)

lemma scast_u8_inj: "scast (a :: u8) = (scast b :: i32) \<longleftrightarrow> a = b"
proof -
  have "ucast (scast c :: i32) = c" for c :: u8
    by (rule bit_word_eqI) (auto simp: bit_simps min_def dest: le_antisym)
  then show ?thesis by metis
qed

lemma scast_u8_0: "scast (a :: u8) = (0 :: i32) \<longleftrightarrow> a = 0"
  using scast_u8_inj [of a 0] by simp

lemma strncmp_ref_0_iff:
  "length xs = length ys \<Longrightarrow> strncmp_ref xs ys = 0 \<longleftrightarrow> cstring xs = cstring ys"
  by (induction xs ys rule: strncmp_ref.induct) (auto simp: scast_u8_inj scast_u8_0)

lemma read_bytes_Suc: "read_bytes s a (Suc n) = ld s a # read_bytes s (a + 1) n"
  using read_bytes_append [of s a 1 n] by (simp add: read_bytes_def)

lemma strncmp_loop_ref:
  assumes "i \<le> n"
  shows "strncmp_loop s a b n i =
    strncmp_ref (read_bytes s (a + i) (unat (n - i))) (read_bytes s (b + i) (unat (n - i)))"
  using assms
proof (induction s a b n i rule: strncmp_loop.induct)
  case (1 s a b n i)
  show ?case
  proof (cases "i < n")
    case True
    then have "n - i \<noteq> 0" by auto
    then have "unat (n - i) = Suc (unat (n - (i + 1)))"
      using unat_dec [of "n - i"] unat_dec_less [of "n - i"] by (simp add: diff_diff_eq)
    moreover have "i + 1 \<le> n" using True by (simp add: inc_le)
    ultimately show ?thesis
      using 1 True by (simp add: strncmp_loop.simps [of s a b n i] read_bytes_Suc add.assoc)
  next
    case False
    then have "i = n" using 1(2) by simp
    then show ?thesis by (simp add: strncmp_loop.simps [of s a b n n] read_bytes_def)
  qed
qed

lemma strncmp_eq_ref:
  "strncmp s a b n = strncmp_ref (read_bytes s a (unat n)) (read_bytes s b (unat n))"
  using strncmp_loop_ref [of 0 n s a b] by (simp add: strncmp_def)

lemma strncmp_0_iff:
  "strncmp s a b n = 0 \<longleftrightarrow>
   cstring (read_bytes s a (unat n)) = cstring (read_bytes s b (unat n))"
  by (simp add: strncmp_eq_ref strncmp_ref_0_iff)

subsection \<open>strncpy\<close>

text \<open>What \<open>strncpy\<close> leaves in the first \<open>n\<close> bytes of the destination.\<close>

definition strncpy_arr :: "u8 list \<Rightarrow> u8 list \<Rightarrow> nat \<Rightarrow> u8 list" where
  "strncpy_arr dst src n =
     (let k = length (cstring (take n src))
      in take k src @ replicate (n - k) 0 @ drop n dst)"

lemma length_cstring_le: "length (cstring xs) \<le> length xs"
  by (simp add: cstring_def length_takeWhile_le)

lemma cstring_eq_take: "cstring xs = take (length (cstring xs)) xs"
  unfolding cstring_def by (rule takeWhile_eq_take)

lemma length_strncpy_arr [simp]: "n \<le> length dst \<Longrightarrow> n \<le> length src \<Longrightarrow>
  length (strncpy_arr dst src n) = length dst"
  using length_cstring_le [of "take n src"] by (simp add: strncpy_arr_def Let_def)

lemma nth_strncpy_arr:
  assumes "i < n" "n \<le> length src"
  shows "strncpy_arr dst src n ! i = (if i < length (cstring (take n src)) then src ! i else 0)"
  using assms length_cstring_le [of "take n src"]
  by (auto simp: strncpy_arr_def Let_def nth_append)

lemma cstring_append_0: "(\<And>b. b \<in> set xs \<Longrightarrow> b \<noteq> 0) \<Longrightarrow> cstring (xs @ 0 # ys) = xs"
  by (induction xs) simp_all

lemma set_cstring: "b \<in> set (cstring xs) \<Longrightarrow> b \<noteq> 0"
  by (auto simp: cstring_def dest: set_takeWhileD)

lemma cstring_take: "length (cstring xs) \<le> n \<Longrightarrow> cstring (take n xs) = cstring xs"
  by (induction xs arbitrary: n) (auto simp: take_Cons split: nat.splits if_splits)

lemma cstring_strncpy_arr:
  assumes "length (cstring src) < n"
  shows "cstring (strncpy_arr dst src n) = cstring src"
proof -
  have "cstring (take n src) = cstring src" using assms by (intro cstring_take) simp
  moreover obtain m where "n - length (cstring src) = Suc m"
    using assms by (metis Suc_diff_Suc)
  ultimately have "strncpy_arr dst src n = cstring src @ 0 # replicate m 0 @ drop n dst"
    using cstring_eq_take [of src] by (simp add: strncpy_arr_def Let_def)
  then show ?thesis by (simp add: cstring_append_0 set_cstring)
qed

lemma word_of_nat_less_iff:
  fixes n :: u32
  assumes "i \<le> unat n"
  shows "word_of_nat i < n \<longleftrightarrow> i < unat n"
  using assms by (simp add: word_less_nat_alt unat_of_nat_le_u32)

lemma cstring_stop:
  "k = length (cstring xs) \<Longrightarrow> k < length xs \<Longrightarrow> xs ! k = 0"
  using nth_length_takeWhile [of "\<lambda>b. b \<noteq> 0" xs] by (simp add: cstring_def)

lemma cstring_go: "i < length (cstring xs) \<Longrightarrow> xs ! i \<noteq> 0"
  using nth_mem [of i "cstring xs"] takeWhile_nth [of i "\<lambda>b. b \<noteq> 0" xs]
  by (auto simp: cstring_def dest: set_takeWhileD)

lemma strncpy_copy_eq:
  assumes apart: "\<And>i j. i < unat n \<Longrightarrow> j \<le> unat n \<Longrightarrow>
      xl s (dst + word_of_nat i) \<noteq> xl s (src + word_of_nat j)"
    and k: "k = length (cstring (read_bytes s src (unat n)))" and "i \<le> k"
  shows "strncpy_copy dst src n (word_of_nat i) (rep_movsb i 1 src dst s) =
    (word_of_nat k, rep_movsb k 1 src dst s)"
proof -
  let ?m = "\<lambda>i. rep_movsb i 1 src dst s"
  have kn: "k \<le> unat n" using k length_cstring_le [of "read_bytes s src (unat n)"] by simp
  have src: "ld (?m i) (src + word_of_nat i) = ld s (src + word_of_nat i)" if "i \<le> unat n" for i
  proof -
    have "copy_safe (xl s) dst src i" using apart that by (auto simp: copy_safe_def)
    then show ?thesis using apart that by (simp add: ld_def phys_rep_movsb blit_outside)
  qed
  show ?thesis using assms(3)
  proof (induction "k - i" arbitrary: i)
    case 0
    then have i: "i = k" by simp
    have "ld s (src + word_of_nat k) = 0 \<or> k = unat n"
      using cstring_stop [OF k] kn by (cases "k = unat n") auto
    then show ?case
      using src [OF kn] word_of_nat_less_iff [OF kn]
      by (auto simp: i strncpy_copy.simps [of dst src n "word_of_nat k"])
  next
    case (Suc d)
    then have ik: "i < k" by simp
    then have "ld s (src + word_of_nat i) \<noteq> 0"
      using cstring_go [of i "read_bytes s src (unat n)"] k kn by simp
    moreover have "word_of_nat i < n" using word_of_nat_less_iff [of i n] ik kn by simp
    ultimately have "strncpy_copy dst src n (word_of_nat i) (?m i) =
        strncpy_copy dst src n (word_of_nat (Suc i)) (?m (Suc i))"
      using src [of i] ik kn
      by (simp add: strncpy_copy.simps [of dst src n "word_of_nat i"] rep_movsb_Suc add.commute
          del: rep_movsb.simps)
    then show ?case using Suc.hyps(1) [of "Suc i"] Suc.hyps(2) ik by (simp del: rep_movsb.simps)
  qed
qed

lemma strncpy_pad_eq:
  assumes "i \<le> unat n"
  shows "strncpy_pad dst n (word_of_nat i) s = fill_bytes (unat n - i) (dst + word_of_nat i) 0 s"
  using assms
proof (induction "unat n - i" arbitrary: i s)
  case 0
  then show ?case
    using word_of_nat_less_iff [of i n] by (simp add: strncpy_pad.simps [of dst n "word_of_nat i"])
next
  case (Suc d)
  then have "word_of_nat i < n" "unat n - i = Suc (unat n - Suc i)"
    using word_of_nat_less_iff [of i n] by simp_all
  then show ?case
    using Suc.hyps(1) [of "Suc i"] Suc.hyps(2) Suc.prems
    by (simp add: strncpy_pad.simps [of dst n "word_of_nat i"] ac_simps)
qed

lemma strncpy_eq:
  assumes "\<And>i j. i < unat n \<Longrightarrow> j \<le> unat n \<Longrightarrow>
      xl s (dst + word_of_nat i) \<noteq> xl s (src + word_of_nat j)"
  shows "strncpy dst src n s =
    (let k = length (cstring (read_bytes s src (unat n)))
     in fill_bytes (unat n - k) (dst + word_of_nat k) 0 (rep_movsb k 1 src dst s))"
proof -
  define k where "k = length (cstring (read_bytes s src (unat n)))"
  have kn: "k \<le> unat n"
    using length_cstring_le [of "read_bytes s src (unat n)"] by (simp add: k_def)
  have "strncpy_copy dst src n 0 s = (word_of_nat k, rep_movsb k 1 src dst s)"
    using strncpy_copy_eq [of n s dst src k 0] assms k_def by simp
  then show ?thesis
    using strncpy_pad_eq [OF kn] by (simp add: strncpy_def k_def [symmetric])
qed

section \<open>Only memory changes\<close>

definition only_phys :: "'a machine_scheme \<Rightarrow> 'a machine_scheme \<Rightarrow> bool" where
  "only_phys s t \<longleftrightarrow> t\<lparr>phys := (\<lambda>_. 0)\<rparr> = s\<lparr>phys := (\<lambda>_. 0)\<rparr>"

lemma only_phys_refl [simp]: "only_phys s s"
  by (simp add: only_phys_def)

lemma only_phys_trans: "only_phys s t \<Longrightarrow> only_phys t u \<Longrightarrow> only_phys s u"
  by (simp add: only_phys_def)

lemma only_phys_st: "only_phys s t \<Longrightarrow> only_phys s (st a v t)"
  by (simp add: only_phys_def st_def)

lemma only_physD:
  assumes "only_phys s t"
  shows "t = s\<lparr>phys := phys t\<rparr>"
proof -
  have "t = t\<lparr>phys := (\<lambda>_. 0)\<rparr>\<lparr>phys := phys t\<rparr>" by simp
  also have "\<dots> = s\<lparr>phys := (\<lambda>_. 0)\<rparr>\<lparr>phys := phys t\<rparr>"
    using assms by (simp only: only_phys_def)
  finally show ?thesis by simp
qed

lemma only_phys_rep_movsb: "only_phys s (rep_movsb n d esi edi s)"
  by (induction n arbitrary: esi edi s) (simp_all add: only_phys_def st_def)

lemma only_phys_rep_movsl: "only_phys s (snd (snd (rep_movsl n esi edi s)))"
proof (induction n arbitrary: esi edi s)
  case (Suc n)
  have "only_phys s (st32 edi (ld32 s esi) s)" by (simp add: st32_def only_phys_st)
  then show ?case using Suc only_phys_trans by (simp; blast)
qed simp

lemma memcpy_frame: "memcpy dst src n s = s\<lparr>phys := phys (memcpy dst src n s)\<rparr>"
proof -
  obtain k where top: "memcpy_top src dst n s =
     (src + word_of_nat k, dst + word_of_nat k, n - word_of_nat k, rep_movsb k 1 src dst s)"
    using memcpy_top_eq by blast
  define s1 where "s1 = rep_movsb k 1 src dst s"
  obtain esi edi s2 where movsl: "rep_movsl (unat (drop_bit 2 (n - word_of_nat k)))
      (src + word_of_nat k) (dst + word_of_nat k) s1 = (esi, edi, s2)"
    by (metis prod_cases3)
  have s1: "only_phys s s1" by (simp add: s1_def only_phys_rep_movsb)
  have s2: "only_phys s s2"
    using only_phys_rep_movsl [of s1] movsl only_phys_trans [OF s1] by (metis snd_conv)
  have "only_phys s (memcpy dst src n s)"
    using s1 only_phys_trans [OF s2 only_phys_rep_movsb]
    by (simp add: memcpy_def top s1_def [symmetric] movsl memcpy_bottom_eq)
  then show ?thesis by (rule only_physD)
qed

section \<open>Writing a list of bytes\<close>

primrec write_list :: "addr \<Rightarrow> u8 list \<Rightarrow> 'a machine_scheme \<Rightarrow> 'a machine_scheme" where
  "write_list a [] s = s"
| "write_list a (x # xs) s = write_list (a + 1) xs (st a x s)"

lemma write_list_append:
  "write_list a (xs @ ys) s = write_list (a + word_of_nat (length xs)) ys (write_list a xs s)"
  by (induction xs arbitrary: a s) (simp_all add: ac_simps)

lemma only_phys_write_list: "only_phys s (write_list a xs s)"
proof (induction xs arbitrary: a s)
  case (Cons x xs)
  show ?case
    using only_phys_trans [OF only_phys_st [OF only_phys_refl, of s a x] Cons] by simp
qed simp

lemma xl_write_list [simp]: "xl (write_list a xs s) = xl s"
  by (subst only_physD [OF only_phys_write_list]) simp

lemma ld_write_list_outside:
  assumes "\<And>i. i < length xs \<Longrightarrow> xl s (a + word_of_nat i) \<noteq> xl s b"
  shows "ld (write_list a xs s) b = ld s b"
  using assms
proof (induction xs rule: rev_induct)
  case (snoc x xs)
  then have "ld (write_list a xs s) b = ld s b" by simp
  then show ?case using snoc.prems [of "length xs"] by (simp add: write_list_append ld_st)
qed simp

lemma phys_write_list_outside:
  assumes "\<And>i. i < length xs \<Longrightarrow> xl s (a + word_of_nat i) \<noteq> p"
  shows "phys (write_list a xs s) p = phys s p"
  using assms
proof (induction xs rule: rev_induct)
  case (snoc x xs)
  then have "phys (write_list a xs s) p = phys s p" by simp
  then show ?case using snoc.prems [of "length xs"] by (simp add: write_list_append phys_st)
qed simp

lemma read_write_list:
  assumes "inj_on (\<lambda>i. xl s (a + word_of_nat i)) {..<length xs}"
  shows "read_bytes (write_list a xs s) a (length xs) = xs"
  using assms
proof (induction xs rule: rev_induct)
  case Nil
  show ?case by (simp add: read_bytes_def)
next
  case (snoc x xs)
  have inj: "inj_on (\<lambda>i. xl s (a + word_of_nat i)) {..<length xs}"
    by (rule inj_on_subset [OF snoc.prems]) auto
  have ne: "xl s (a + word_of_nat i) \<noteq> xl s (a + word_of_nat (length xs))" if "i < length xs" for i
    using inj_onD [OF snoc.prems, of i "length xs"] that by auto
  have "read_bytes (write_list a (xs @ [x]) s) a (length xs) = read_bytes (write_list a xs s) a (length xs)"
    by (rule read_bytes_eqI) (use ne in \<open>auto simp: write_list_append ld_st\<close>)
  then have "read_bytes (write_list a (xs @ [x]) s) a (length xs) = xs" using snoc.IH [OF inj] by simp
  then show ?case
    using read_bytes_append [of "write_list a (xs @ [x]) s" a "length xs" 1]
    by (simp add: read_bytes_def write_list_append ld_st)
qed

text \<open>\<open>memcpy\<close> between ranges that share no byte of physical memory.\<close>

lemma rep_movsb_write_list:
  assumes "\<And>i j. i < n \<Longrightarrow> j < n \<Longrightarrow> xl s (dst + word_of_nat i) \<noteq> xl s (src + word_of_nat j)"
  shows "rep_movsb n 1 src dst s = write_list dst (read_bytes s src n) s"
  using assms
proof (induction n)
  case 0
  then show ?case by (simp add: read_bytes_def)
next
  case (Suc n)
  then have IH: "rep_movsb n 1 src dst s = write_list dst (read_bytes s src n) s" by simp
  have "ld (write_list dst (read_bytes s src n) s) (src + word_of_nat n) = ld s (src + word_of_nat n)"
    by (rule ld_write_list_outside) (use Suc.prems in simp)
  then show ?case
    using read_bytes_append [of s src n 1]
    by (simp add: rep_movsb_Suc IH write_list_append read_bytes_Suc del: rep_movsb.simps)
      (simp add: read_bytes_def)
qed

lemma memcpy_write_list:
  assumes "\<And>i j. i < unat n \<Longrightarrow> j < unat n \<Longrightarrow> xl s (dst + word_of_nat i) \<noteq> xl s (src + word_of_nat j)"
  shows "memcpy dst src n s = write_list dst (read_bytes s src (unat n)) s"
proof -
  have "copy_safe (xl s) dst src (unat n)" using assms by (simp add: copy_safe_def)
  then show ?thesis using rep_movsb_write_list [OF assms] by (simp add: memcpy_eq_rep_movsb)
qed

section \<open>Properties\<close>



end
