(* ===== verification/Console.thy ===== *)
theory Console
  imports Pic Lib_Memory "HOL-Library.Signed_Division"
begin

text \<open>
  The text console of \<^verbatim>\<open>lib.c\<close>: the screen with its cursor, the saved screens of the terminals
  that are in the background, the keyboard line buffer, and the character output operations on both.

  The state follows the C globals: \<open>screen_x\<close>, \<open>screen_y\<close>, \<open>row_stack\<close>,
  \<open>column_stack\<close> (C \<open>int\<close>, here \<open>int\<close>: \<open>backspace_handler\<close> can take them below 0),
  \<open>terminal_info\<close> (one \<open>terminal_t\<close> per terminal, with its 8-bit fields), \<open>key_arr\<close> with
  \<open>key_arr_ptr\<close> and \<open>key_arr_overflow\<close>. The characters themselves are in memory: the visible
  screen at 0xB8000, the saved screens in the three pages after it.
\<close>

record terminal_t =
  terminal_id :: u8
  screen_pos_x :: u8
  screen_pos_y :: u8
  key_arr_ptr_old :: u8
  key_arr_overflow_old :: u8
  row_stack_old :: u8
  column_stack_old :: u8
  key_arr_old :: "u8 list"
  screen_buffer :: addr

record console = pic +
  screen_x :: int
  screen_y :: int
  row_stack :: int
  column_stack :: int
  terminal_info :: "terminal_t list"
  key_arr :: "u8 list"
  key_arr_ptr :: u8
  key_arr_overflow :: u8
  enter_state :: u8
  current_terminal :: u8
  running_terminal :: u8

section \<open>Constants\<close>

definition VIDEO :: addr where "VIDEO = 0xB8000"
definition FOUR_KB_SIZE :: u32 where "FOUR_KB_SIZE = 4096"
abbreviation NUM_COLS :: int where "NUM_COLS \<equiv> 80"
abbreviation NUM_ROWS :: int where "NUM_ROWS \<equiv> 24"
abbreviation MAX_TERMINAL_NUM :: nat where "MAX_TERMINAL_NUM \<equiv> 3"
abbreviation KEY_ARR_SIZE :: nat where "KEY_ARR_SIZE \<equiv> 128"
definition ATTRIB_BAR :: u8 where "ATTRIB_BAR = 0xF0"
definition ATTRIB_HIG :: u8 where "ATTRIB_HIG = 0xFD"

text \<open>\<open>(0xC << 4) | 0xE\<close>, \<open>(0x8 << 4) | 0xA\<close>, \<open>(0x9 << 4) | 0xA\<close>.\<close>

definition attrib :: "u8 list" where "attrib = [0xCE, 0x8A, 0x9A]"

definition high :: "nat list" where "high = [13, 35, 57]"

definition saved_screen :: "addr list" where
  "saved_screen = [VIDEO + FOUR_KB_SIZE, VIDEO + 2 * FOUR_KB_SIZE, VIDEO + 3 * FOUR_KB_SIZE]"

definition bartext :: "u8 list" where
  "bartext = bytes_of
     ''             TERMINAL 1            TERMINAL 2            TERMINAL 3             ''"

section \<open>The screen\<close>

text \<open>Cell \<open>k\<close> of the screen at \<open>base\<close>: the character at \<open>base + (k << 1)\<close>, its colour behind it.\<close>

definition cell :: "addr \<Rightarrow> int \<Rightarrow> addr" where
  "cell base k = base + word_of_int (2 * k)"

definition put_cell :: "addr \<Rightarrow> int \<Rightarrow> u8 \<Rightarrow> u8 \<Rightarrow> 'a machine_scheme \<Rightarrow> 'a machine_scheme" where
  "put_cell base k c col s = st (cell base k + 1) col (st (cell base k) c s)"

abbreviation cur_attrib :: "'a console_scheme \<Rightarrow> u8" where
  "cur_attrib s \<equiv> attrib ! unat (current_terminal s)"

definition clear :: "'a console_scheme \<Rightarrow> 'a console_scheme" where
  "clear s =
     (let s = for_loop 0 1920 (\<lambda>i s. put_cell VIDEO (int i) 0x20 (cur_attrib s) s) s;
          s = for_loop 1920 2000 (\<lambda>i s. put_cell VIDEO (int i) (bartext ! (i - 1920)) ATTRIB_BAR s) s;
          h = high ! unat (current_terminal s)
      in for_loop (1920 + h) (1920 + h + 10)
           (\<lambda>i s. put_cell VIDEO (int i) (bartext ! (i - 1920)) ATTRIB_HIG s) s)"

definition cursor_helper :: "'a console_scheme \<Rightarrow> 'a console_scheme" where
  "cursor_helper s =
     (let pos = word_of_int (screen_y s * NUM_COLS + screen_x s) :: u16;
          s = outb 0x0F 0x3D4 s;
          s = outb (ucast (pos AND 0xFF)) 0x3D5 s;
          s = outb 0x0E 0x3D4 s
      in outb (ucast (drop_bit 8 pos AND 0xFF)) 0x3D5 s)"

definition enable_cursor :: "u8 \<Rightarrow> u8 \<Rightarrow> 'a console_scheme \<Rightarrow> 'a console_scheme" where
  "enable_cursor start end0 s =
     (let s = outb 0x0A 0x3D4 s;
          (v, s) = inb 0x3D5 s;
          s = outb (ucast ((v AND 0xC0) OR ucast start)) 0x3D5 s;
          s = outb 0x0B 0x3D4 s;
          (v, s) = inb 0x3D5 s
      in outb (ucast ((v AND 0xE0) OR ucast end0)) 0x3D5 s)"

definition set_cursor_position :: "int \<Rightarrow> int \<Rightarrow> 'a console_scheme \<Rightarrow> 'a console_scheme" where
  "set_cursor_position x y s =
     (let s = s\<lparr>screen_x := x\<rparr>;
          y = (if y \<ge> NUM_ROWS then NUM_ROWS else y);
          s = s\<lparr>screen_y := y\<rparr>;
          s = cursor_helper s
      in s\<lparr>row_stack := 0\<rparr>)"

text \<open>The loop that blanks row \<open>row\<close> of the screen at \<open>base\<close>.\<close>

definition blank_row :: "addr \<Rightarrow> int \<Rightarrow> u8 \<Rightarrow> 'a machine_scheme \<Rightarrow> 'a machine_scheme" where
  "blank_row base row col s =
     for_loop 0 80 (\<lambda>i s. put_cell base (NUM_COLS * row + int i) 0x20 col s) s"

definition enter_and_scroll :: "'a console_scheme \<Rightarrow> 'a console_scheme" where
  "enter_and_scroll s =
     (let s = memcpy VIDEO (VIDEO + 160) 3840 s;
          s = s\<lparr>screen_y := NUM_ROWS - 1, screen_x := 0\<rparr>;
          s = blank_row VIDEO (screen_y s) (cur_attrib s) s;
          s = s\<lparr>screen_y := NUM_ROWS - 1, screen_x := 0\<rparr>
      in cursor_helper s)"

definition enter_handler :: "'a console_scheme \<Rightarrow> 'a console_scheme" where
  "enter_handler s =
     (let adjust = (screen_x s = 0 \<and> row_stack s \<noteq> 0);
          s = (if screen_y s \<ge> NUM_ROWS - 1 then enter_and_scroll s
               else set_cursor_position 0 (screen_y s + 1) s);
          s = (if adjust then cursor_helper (s\<lparr>screen_y := screen_y s - 1\<rparr>) else s)
      in s\<lparr>row_stack := 0\<rparr>)"

text \<open>The part of \<open>putc\<close> that runs when the cursor has left the last column.\<close>

definition putc_wrap :: "'a console_scheme \<Rightarrow> 'a console_scheme" where
  "putc_wrap s =
     (let s = s\<lparr>row_stack := row_stack s + 1\<rparr>;
          s = (if row_stack s > NUM_ROWS - 1 then s\<lparr>row_stack := NUM_ROWS - 1\<rparr> else s);
          s = s\<lparr>screen_x := screen_x s smod NUM_COLS\<rparr>
      in if screen_y s < NUM_ROWS - 1 then s\<lparr>screen_y := screen_y s + 1\<rparr>
         else let s = memcpy VIDEO (VIDEO + 160) 3680 s;
                  s = s\<lparr>screen_y := NUM_ROWS - 1, screen_x := 0\<rparr>
              in blank_row VIDEO (screen_y s) (cur_attrib s) s)"

definition putc :: "u8 \<Rightarrow> 'a console_scheme \<Rightarrow> 'a console_scheme" where
  "putc c s =
     (if c = 0x0A \<or> c = 0x0D then cursor_helper (enter_handler s)
      else let s = put_cell VIDEO (NUM_COLS * screen_y s + screen_x s) c (cur_attrib s) s;
               s = s\<lparr>screen_x := screen_x s + 1\<rparr>;
               s = (if screen_x s \<ge> NUM_COLS then putc_wrap s else s);
               s = s\<lparr>screen_y := (screen_y s + screen_x s sdiv NUM_COLS) smod NUM_ROWS\<rparr>
           in cursor_helper s)"

section \<open>The saved screens\<close>

text \<open>\<open>terminal_info[t]\<close> and its update.\<close>

definition ti :: "u8 \<Rightarrow> 'a console_scheme \<Rightarrow> terminal_t" where
  "ti t s = terminal_info s ! unat t"

definition ti_upd :: "u8 \<Rightarrow> (terminal_t \<Rightarrow> terminal_t) \<Rightarrow> 'a console_scheme \<Rightarrow> 'a console_scheme" where
  "ti_upd t f s = s\<lparr>terminal_info := (terminal_info s)[unat t := f (terminal_info s ! unat t)]\<rparr>"

definition enter_and_scroll_terminal :: "u8 \<Rightarrow> 'a console_scheme \<Rightarrow> 'a console_scheme" where
  "enter_and_scroll_terminal t s =
     (let base = saved_screen ! unat t;
          s = memcpy base (base + 160) 3840 s;
          s = ti_upd t (\<lambda>i. i\<lparr>screen_pos_y := 23, screen_pos_x := 0\<rparr>) s;
          s = blank_row base (uint (screen_pos_y (ti t s))) (attrib ! unat t) s
      in ti_upd t (\<lambda>i. i\<lparr>screen_pos_y := 23, screen_pos_x := 0\<rparr>) s)"

definition enter_handler_terminal :: "u8 \<Rightarrow> 'a console_scheme \<Rightarrow> 'a console_scheme" where
  "enter_handler_terminal t s =
     (let adjust = (screen_pos_x (ti t s) = 0 \<and> row_stack_old (ti t s) \<noteq> 0);
          s = (if screen_pos_y (ti t s) \<ge> 23 then enter_and_scroll_terminal t s
               else ti_upd t (\<lambda>i. i\<lparr>row_stack_old := 0\<rparr>)
                     (ti_upd t (\<lambda>i. if screen_pos_y i \<ge> 24 then i\<lparr>screen_pos_y := 24\<rparr>
                                    else i\<lparr>screen_pos_y := screen_pos_y i + 1\<rparr>)
                       (ti_upd t (\<lambda>i. i\<lparr>screen_pos_x := 0\<rparr>) s)));
          s = (if adjust then ti_upd t (\<lambda>i. i\<lparr>screen_pos_y := screen_pos_y i - 1\<rparr>) s else s)
      in ti_upd t (\<lambda>i. i\<lparr>row_stack_old := 0\<rparr>) s)"

definition putc_terminal_wrap :: "u8 \<Rightarrow> 'a console_scheme \<Rightarrow> 'a console_scheme" where
  "putc_terminal_wrap t s =
     (let s = ti_upd t (\<lambda>i. i\<lparr>row_stack_old := row_stack_old i + 1\<rparr>) s;
          s = ti_upd t (\<lambda>i. if row_stack_old i > 23 then i\<lparr>row_stack_old := 23\<rparr> else i) s;
          s = ti_upd t (\<lambda>i. i\<lparr>screen_pos_x := screen_pos_x i mod 80\<rparr>) s
      in if screen_pos_y (ti t s) < 23
         then ti_upd t (\<lambda>i. i\<lparr>screen_pos_y := screen_pos_y i + 1\<rparr>) s
         else let base = saved_screen ! unat t;
                  s = memcpy base (base + 160) 3680 s;
                  s = ti_upd t (\<lambda>i. i\<lparr>screen_pos_y := 23, screen_pos_x := 0\<rparr>) s
              in blank_row base (uint (screen_pos_y (ti t s))) (attrib ! unat t) s)"

definition putc_terminal :: "u8 \<Rightarrow> u8 \<Rightarrow> 'a console_scheme \<Rightarrow> 'a console_scheme" where
  "putc_terminal c t s =
     (if c = 0x0A \<or> c = 0x0D then enter_handler_terminal t s
      else let s = put_cell (saved_screen ! unat t)
                     (NUM_COLS * uint (screen_pos_y (ti t s)) + uint (screen_pos_x (ti t s)))
                     c (attrib ! unat t) s;
               s = ti_upd t (\<lambda>i. i\<lparr>screen_pos_x := screen_pos_x i + 1\<rparr>) s;
               s = (if screen_pos_x (ti t s) \<ge> 80 then putc_terminal_wrap t s else s)
           in ti_upd t (\<lambda>i. i\<lparr>screen_pos_y :=
                  word_of_int ((uint (screen_pos_y i) + uint (screen_pos_x i) sdiv NUM_COLS)
                               smod NUM_ROWS)\<rparr>) s)"

definition copy_from_screen_buffer :: "addr \<Rightarrow> 'a console_scheme \<Rightarrow> 'a console_scheme" where
  "copy_from_screen_buffer des_addr s = memcpy des_addr VIDEO 3840 s"

definition copy_to_screen_buffer :: "addr \<Rightarrow> 'a console_scheme \<Rightarrow> 'a console_scheme" where
  "copy_to_screen_buffer source s = memcpy VIDEO source 3840 s"

section \<open>The keyboard line buffer and editing\<close>

definition key_arr_push :: "u8 \<Rightarrow> 'a console_scheme \<Rightarrow> 'a console_scheme" where
  "key_arr_push elem s =
     (if unat (key_arr_ptr s) < KEY_ARR_SIZE - 1
      then s\<lparr>key_arr := (key_arr s)[unat (key_arr_ptr s) := elem], key_arr_ptr := key_arr_ptr s + 1\<rparr>
      else s\<lparr>key_arr_overflow := key_arr_overflow s + 1\<rparr>)"

definition key_arr_pop :: "'a console_scheme \<Rightarrow> 'a console_scheme" where
  "key_arr_pop s =
     (if key_arr_overflow s \<noteq> 0 then s\<lparr>key_arr_overflow := key_arr_overflow s - 1\<rparr>
      else if key_arr_ptr s \<noteq> 0 then s\<lparr>key_arr_ptr := key_arr_ptr s - 1\<rparr> else s)"

definition key_arr_clear :: "'a console_scheme \<Rightarrow> 'a console_scheme" where
  "key_arr_clear s =
     for_loop 0 (KEY_ARR_SIZE + 1) (\<lambda>i s. s\<lparr>key_arr := (key_arr s)[i := 0]\<rparr>)
       (s\<lparr>key_arr_ptr := 0, key_arr_overflow := 0\<rparr>)"

definition backspace_handler :: "'a console_scheme \<Rightarrow> 'a console_scheme" where
  "backspace_handler s =
     (if screen_x s = column_stack s \<and> row_stack s = 0 then s
      else if screen_x s = 0 \<and> row_stack s \<noteq> 0
      then let s = s\<lparr>screen_x := NUM_COLS - 1, screen_y := screen_y s - 1\<rparr>;
               s = put_cell VIDEO (NUM_COLS * screen_y s + screen_x s) 0x20 (cur_attrib s) s;
               s = s\<lparr>row_stack := row_stack s - 1\<rparr>
           in cursor_helper (key_arr_pop s)
      else let s = s\<lparr>screen_x := screen_x s - 1\<rparr>;
               s = put_cell VIDEO (NUM_COLS * screen_y s + screen_x s) 0x20 (cur_attrib s) s
           in cursor_helper (key_arr_pop s))"

definition set_column_stack :: "'a console_scheme \<Rightarrow> 'a console_scheme" where
  "set_column_stack s = s\<lparr>column_stack := screen_x s\<rparr>"

definition set_row_stack_in :: "int \<Rightarrow> 'a console_scheme \<Rightarrow> 'a console_scheme" where
  "set_row_stack_in rs s = s\<lparr>row_stack := rs\<rparr>"

definition set_column_stack_in :: "int \<Rightarrow> 'a console_scheme \<Rightarrow> 'a console_scheme" where
  "set_column_stack_in cs s = s\<lparr>column_stack := cs\<rparr>"

definition test_interrupts :: "'a console_scheme \<Rightarrow> 'a console_scheme" where
  "test_interrupts s =
     for_loop 0 1920 (\<lambda>i s. st (cell VIDEO (int i)) (ld s (cell VIDEO (int i)) + 1) s) s"

definition blue_screen :: "'a console_scheme \<Rightarrow> 'a console_scheme" where
  "blue_screen s = for_loop 0 1920 (\<lambda>i s. st (cell VIDEO (int i) + 1) 0x17 s) s"

end
