(* ===== verification/FileSystem.thy ===== *)
theory FileSystem
  imports Console
begin

text \<open>
  The read-only file system of \<^verbatim>\<open>filesystem.c\<close>. The image is a boot block with directory entries of
  64 bytes, \<open>num_inodes\<close> inode blocks (file size, then block indices) and the data blocks,
  all of 4096 bytes; it lies in memory from \<open>fs_addr\<close> on and every operation reads it through
  \<open>ld\<close>.

  The pointer arguments that C code passes for a local \<open>dentry_t\<close> are results here: a directory
  lookup returns its \<open>int32_t\<close> and, on success, the 40 bytes copied to the caller as a record. A
  \<open>strlen\<close> that finds no terminator does not return, so the lookup is an option.
\<close>

record fs = console +
  fs_addr :: addr
  dentry_addr :: addr
  inode_addr :: addr
  d_block_addr :: addr
  num_dentries :: u32
  num_inodes :: u32
  num_d_blocks :: u32
  dir_location :: u32

record dentry_t =
  f_name :: "u8 list"
  f_type :: u32
  i_node :: u32

definition BLOCKSIZE :: u32 where "BLOCKSIZE = 4096"
definition ENTRY_OFFSET :: u32 where "ENTRY_OFFSET = 64"
definition F_TYPE_OFFSET :: u32 where "F_TYPE_OFFSET = 32"

section \<open>Initialisation and the directory\<close>

definition filesystem_init :: "addr \<Rightarrow> 'a fs_scheme \<Rightarrow> 'a fs_scheme" where
  "filesystem_init starting_addr s =
     (let s = s\<lparr>fs_addr := starting_addr\<rparr>;
          s = s\<lparr>num_dentries := ld32 s (fs_addr s)\<rparr>;
          s = s\<lparr>num_inodes := ld32 s (fs_addr s + 4)\<rparr>;
          s = s\<lparr>num_d_blocks := ld32 s (fs_addr s + 8)\<rparr>;
          s = s\<lparr>dentry_addr := fs_addr s + ENTRY_OFFSET\<rparr>;
          s = s\<lparr>inode_addr := fs_addr s + BLOCKSIZE\<rparr>;
          s = s\<lparr>d_block_addr := inode_addr s + num_inodes s * BLOCKSIZE\<rparr>
      in s\<lparr>dir_location := 0\<rparr>)"

text \<open>The 40 bytes that \<open>memcpy\<close> moves into the caller's \<open>dentry_t\<close>.\<close>

definition dentry_at :: "'a machine_scheme \<Rightarrow> addr \<Rightarrow> dentry_t" where
  "dentry_at s a = \<lparr>f_name = read_bytes s a 32, f_type = ld32 s (a + 32), i_node = ld32 s (a + 36)\<rparr>"

text \<open>Whether the entry at \<open>temp_addr\<close> has the name \<open>fname\<close>, whose length is known.\<close>

definition same_name :: "addr \<Rightarrow> u32 \<Rightarrow> addr \<Rightarrow> 'a machine_scheme \<Rightarrow> bool option" where
  "same_name fname fnlength temp_addr s =
     (let cmp_res = strncmp s fname temp_addr fnlength
      in do {
           cmp_res_len \<leftarrow>
             (if fnlength \<ge> 32
              then do { l \<leftarrow> strlen s temp_addr;
                        if l \<ge> 32 then Some True
                        else do { a \<leftarrow> strlen s fname; b \<leftarrow> strlen s temp_addr; Some (a = b) } }
              else do { a \<leftarrow> strlen s fname; b \<leftarrow> strlen s temp_addr; Some (a = b) });
           Some (cmp_res = 0 \<and> cmp_res_len)
         })"

function dentry_loop ::
  "addr \<Rightarrow> u32 \<Rightarrow> u32 \<Rightarrow> addr \<Rightarrow> 'a fs_scheme \<Rightarrow> (i32 \<times> dentry_t option) option" where
  "dentry_loop fname fnlength i temp_addr s =
     (if i < num_dentries s
      then do {
        found \<leftarrow> same_name fname fnlength temp_addr s;
        if found then Some (0, Some (dentry_at s temp_addr))
        else dentry_loop fname fnlength (i + 1) (temp_addr + ENTRY_OFFSET) s
      }
      else Some (-1, None))"
  by pat_completeness auto
termination
  by (relation "measure (\<lambda>(fname, l, i, a, s). unat (num_dentries s - i))") (auto simp: unat_inc_less)

declare dentry_loop.simps [simp del]

definition read_dentry_by_name :: "addr \<Rightarrow> 'a fs_scheme \<Rightarrow> (i32 \<times> dentry_t option) option" where
  "read_dentry_by_name fname s =
     do {
       fnlength \<leftarrow> strlen s fname;
       if fnlength > F_TYPE_OFFSET then Some (-1, None)
       else dentry_loop fname fnlength 0 (dentry_addr s) s
     }"

definition read_dentry_by_index :: "u32 \<Rightarrow> 'a fs_scheme \<Rightarrow> i32 \<times> dentry_t option" where
  "read_dentry_by_index index s =
     (if index \<ge> num_dentries s then (-1, None)
      else (0, Some (dentry_at s (dentry_addr s + index * ENTRY_OFFSET))))"

section \<open>Reading file data\<close>

lemma unat_minus_block: "BLOCKSIZE < n \<Longrightarrow> unat (n - BLOCKSIZE) = unat n - 4096"
  using unat_sub_of_nat [of 4096 n] by (simp add: BLOCKSIZE_def word_less_nat_alt)

lemma unat_block_less: "BLOCKSIZE < n \<Longrightarrow> unat (n - BLOCKSIZE) < unat n"
  using unat_minus_block [of n] by (simp add: BLOCKSIZE_def word_less_nat_alt)

text \<open>The \<open>while (bytes_to_copy)\<close> loop over the blocks after the first; the result is the return value
  of \<open>read_data\<close>.\<close>

function read_data_loop ::
  "addr \<Rightarrow> u32 \<Rightarrow> u32 \<Rightarrow> addr \<Rightarrow> u32 \<Rightarrow> 'a fs_scheme \<Rightarrow> i32 \<times> 'a fs_scheme" where
  "read_data_loop d_block_idx_ptr d_block_idx_offset bytes_to_copy temp_buf real_length s =
     (if bytes_to_copy = 0 then (real_length, s)
      else if bytes_to_copy > BLOCKSIZE
      then let bytes_to_copy = bytes_to_copy - BLOCKSIZE;
               d_block_idx_offset = d_block_idx_offset + 1;
               d_block_real_index = ld32 s (d_block_idx_ptr + d_block_idx_offset * 4)
           in if d_block_real_index > num_d_blocks s then (-1, s)
              else read_data_loop d_block_idx_ptr d_block_idx_offset bytes_to_copy (temp_buf + BLOCKSIZE)
                     real_length
                     (memcpy temp_buf (d_block_addr s + d_block_real_index * BLOCKSIZE) BLOCKSIZE s)
      else let d_block_idx_offset = d_block_idx_offset + 1;
               d_block_real_index = ld32 s (d_block_idx_ptr + d_block_idx_offset * 4)
           in (real_length,
               memcpy temp_buf (d_block_addr s + d_block_real_index * BLOCKSIZE) bytes_to_copy s))"
  by pat_completeness auto
termination
  by (relation "measure (\<lambda>(p, ofs, n, buf, r, s). unat n)") (auto simp: unat_block_less)

declare read_data_loop.simps [simp del]

definition read_data :: "u32 \<Rightarrow> u32 \<Rightarrow> addr \<Rightarrow> u32 \<Rightarrow> 'a fs_scheme \<Rightarrow> i32 \<times> 'a fs_scheme" where
  "read_data inode ofs buf len s =
     (if inode \<ge> num_inodes s - 1 then (-1, s)
      else let cur_inode_addr = inode_addr s + BLOCKSIZE * inode;
               file_size = ld32 s cur_inode_addr
           in if ofs \<ge> file_size then (0, s)
              else let real_length = (if file_size - ofs < len then file_size - ofs else len);
                       d_block_idx_ptr = cur_inode_addr + 4;
                       d_block_idx_offset = ofs div BLOCKSIZE;
                       d_block_byte_offset = ofs mod BLOCKSIZE;
                       d_block_real_index = ld32 s (d_block_idx_ptr + d_block_idx_offset * 4)
                   in if d_block_real_index > num_d_blocks s then (-1, s)
                      else let src = d_block_addr s + d_block_real_index * BLOCKSIZE + d_block_byte_offset
                           in if BLOCKSIZE - d_block_byte_offset \<ge> real_length
                              then (real_length, memcpy buf src real_length s)
                              else read_data_loop d_block_idx_ptr d_block_idx_offset
                                     (real_length - (BLOCKSIZE - d_block_byte_offset))
                                     (buf + (BLOCKSIZE - d_block_byte_offset)) real_length
                                     (memcpy buf src (BLOCKSIZE - d_block_byte_offset) s))"

section \<open>The directory and file drivers\<close>

definition dir_open :: "addr \<Rightarrow> 'a fs_scheme \<Rightarrow> i32 \<times> 'a fs_scheme" where
  "dir_open filename s = (0, s\<lparr>dir_location := 0\<rparr>)"

definition dir_close :: "i32 \<Rightarrow> 'a fs_scheme \<Rightarrow> i32 \<times> 'a fs_scheme" where
  "dir_close fd s = (0, s)"

text \<open>
  \<open>strncpy\<close> from the name in a local \<open>dentry_t\<close> to the caller's buffer; \<open>src\<close> are the
  40 bytes of the local variable, \<open>n\<close> is at most their number. As in \<open>strncpy\<close>, bytes are copied up
  to the first zero and zeros are written after it.
\<close>

definition strncpy_local :: "addr \<Rightarrow> u8 list \<Rightarrow> nat \<Rightarrow> 'a machine_scheme \<Rightarrow> 'a machine_scheme" where
  "strncpy_local dst src n s =
     (let k = length (cstring (take n src))
      in for_loop k n (\<lambda>i s. st (dst + word_of_nat i) 0 s)
           (for_loop 0 k (\<lambda>i s. st (dst + word_of_nat i) (src ! i) s) s))"

text \<open>The bytes from \<open>f_name\<close> on in a \<open>dentry_t\<close>.\<close>

definition dentry_bytes :: "dentry_t \<Rightarrow> u8 list" where
  "dentry_bytes d = f_name d @
     map (\<lambda>i. ucast (drop_bit (8 * i) (f_type d))) [0..<4] @
     map (\<lambda>i. ucast (drop_bit (8 * i) (i_node d))) [0..<4]"

text \<open>
  \<open>strlen\<close> of the name in the local variable: it stops inside the 40 copied bytes unless neither the
  name nor the two fields after it hold a zero byte; then the result depends on what the stack
  holds behind them, and the model has no result.
\<close>

definition dir_read :: "i32 \<Rightarrow> addr \<Rightarrow> i32 \<Rightarrow> 'a fs_scheme \<Rightarrow> (i32 \<times> 'a fs_scheme) option" where
  "dir_read fd buf nbytes s =
     (case read_dentry_by_index (dir_location s) s of
        (_, Some dentry) \<Rightarrow>
          if 0 \<notin> set (dentry_bytes dentry) then None
          else let fname_len = word_of_nat (length (cstring (dentry_bytes dentry))) :: u32;
                   s = for_loop 0 32 (\<lambda>i s. st (buf + word_of_nat i) 0 s) s;
                   fname_len = (if nbytes < fname_len then nbytes else fname_len);
                   s = strncpy_local buf (dentry_bytes dentry) (unat fname_len) s
               in Some (fname_len, s\<lparr>dir_location := dir_location s + 1\<rparr>)
      | (_, None) \<Rightarrow> Some (0, s\<lparr>dir_location := 0\<rparr>))"

definition dir_write :: "i32 \<Rightarrow> addr \<Rightarrow> i32 \<Rightarrow> 'a fs_scheme \<Rightarrow> i32 \<times> 'a fs_scheme" where
  "dir_write fd buf nbytes s = (-1, s)"

definition file_open :: "addr \<Rightarrow> 'a fs_scheme \<Rightarrow> i32 \<times> 'a fs_scheme" where
  "file_open filename s = (0, s)"

definition file_close :: "i32 \<Rightarrow> 'a fs_scheme \<Rightarrow> i32 \<times> 'a fs_scheme" where
  "file_close fd s = (0, s)"

definition file_write :: "i32 \<Rightarrow> addr \<Rightarrow> i32 \<Rightarrow> 'a fs_scheme \<Rightarrow> i32 \<times> 'a fs_scheme" where
  "file_write fd buf nbytes s = (-1, s)"

end
