(* ===== verification/Console_Spec.thy ===== *)
theory Console_Spec
  imports Console
begin

text \<open>
  An abstract text screen and the proof that both ways of printing a character implement it:
  \<open>putc\<close> on the visible screen and \<open>putc_terminal\<close> on the saved screen of a terminal in
  the background. The contract between a character printer and the code that prints strings is the
  locale \<open>char_printer\<close>, interpreted for both.
\<close>

section \<open>The abstract screen\<close>

text \<open>24 rows of 80 cells (character, colour), a cursor, and how many rows the line being typed has
  wrapped over.\<close>

record text_screen =
  cells :: "nat \<Rightarrow> u8 \<times> u8"
  cur_x :: nat
  cur_y :: nat
  wrapped :: nat

definition scroll_cells :: "u8 \<Rightarrow> (nat \<Rightarrow> u8 \<times> u8) \<Rightarrow> (nat \<Rightarrow> u8 \<times> u8)" where
  "scroll_cells col f k = (if k < 1840 then f (k + 80) else if k < 1920 then (0x20, col) else (0, 0))"

definition text_newline :: "u8 \<Rightarrow> text_screen \<Rightarrow> text_screen" where
  "text_newline col t =
     (let up = (if cur_x t = 0 \<and> wrapped t \<noteq> 0 then 1 else 0)
      in if cur_y t \<ge> 23
         then \<lparr>cells = scroll_cells col (cells t), cur_x = 0, cur_y = 23 - up, wrapped = 0\<rparr>
         else t\<lparr>cur_x := 0, cur_y := cur_y t + 1 - up, wrapped := 0\<rparr>)"

definition text_put :: "u8 \<Rightarrow> u8 \<Rightarrow> text_screen \<Rightarrow> text_screen" where
  "text_put col c t =
     (if c = 0x0A \<or> c = 0x0D then text_newline col t
      else let f = (cells t)(80 * cur_y t + cur_x t := (c, col))
           in if cur_x t + 1 < 80 then t\<lparr>cells := f, cur_x := cur_x t + 1\<rparr>
              else if cur_y t < 23
              then \<lparr>cells = f, cur_x = 0, cur_y = cur_y t + 1, wrapped = min 23 (wrapped t + 1)\<rparr>
              else \<lparr>cells = scroll_cells col f, cur_x = 0, cur_y = 23,
                    wrapped = min 23 (wrapped t + 1)\<rparr>)"

definition text_ok :: "text_screen \<Rightarrow> bool" where
  "text_ok t \<longleftrightarrow> cur_x t < 80 \<and> cur_y t < 24 \<and> wrapped t \<le> cur_y t"

lemma text_ok_put: "text_ok t \<Longrightarrow> text_ok (text_put col c t)"
  by (auto simp: text_ok_def text_put_def text_newline_def Let_def)

section \<open>Screen memory\<close>

text \<open>The visible screen and the three saved screens are four consecutive pages from 0xB8000 on.\<close>

definition off :: "nat \<Rightarrow> addr" where
  "off a = VIDEO + word_of_nat a"

definition page :: "nat \<Rightarrow> addr" where
  "page j = off (4096 * j)"

definition screen_mapped :: "'a machine_scheme \<Rightarrow> bool" where
  "screen_mapped s \<longleftrightarrow> (\<forall>a < 16384. xl s (off a) = off a)"

lemma off_inject: "a < 16384 \<Longrightarrow> b < 16384 \<Longrightarrow> off a = off b \<longleftrightarrow> a = b"
  unfolding off_def by (rule word_add_of_nat_eq_iff) simp_all

lemma page_0: "VIDEO = page 0"
  by (simp add: page_def off_def)

lemma saved_screen_page: "t < 3 \<Longrightarrow> saved_screen ! t = page (Suc t)"
proof -
  assume "t < 3"
  then have "t = 0 \<or> t = 1 \<or> t = 2" by auto
  then show ?thesis by (auto simp: saved_screen_def page_def off_def FOUR_KB_SIZE_def)
qed

lemma cell_page: "cell (page j) (int k) = off (4096 * j + 2 * k)"
  by (simp add: cell_def page_def off_def)

lemma cell_page_1: "cell (page j) (int k) + 1 = off (4096 * j + 2 * k + 1)"
  by (simp add: cell_def page_def off_def ac_simps)

lemma page_plus: "page j + word_of_nat a = off (4096 * j + a)"
  by (simp add: page_def off_def ac_simps)

lemma ld_off: "screen_mapped s \<Longrightarrow> a < 16384 \<Longrightarrow> ld s (off a) = phys s (off a)"
  by (simp add: ld_def screen_mapped_def)

lemma ld_st_off:
  "screen_mapped s \<Longrightarrow> a < 16384 \<Longrightarrow> b < 16384 \<Longrightarrow>
   ld (st (off a) v s) (off b) = (if a = b then v else ld s (off b))"
  by (auto simp: ld_st screen_mapped_def off_inject)

lemma screen_mapped_xl: "xl t = xl s \<Longrightarrow> screen_mapped t = screen_mapped s"
  by (simp add: screen_mapped_def)

lemma screen_mapped_simps [simp]:
  "screen_mapped (st a v s) = screen_mapped s" "screen_mapped (outb d p s) = screen_mapped s"
  by (simp_all add: screen_mapped_def)

subsection \<open>What the screen shows\<close>

definition view :: "nat \<Rightarrow> 'a machine_scheme \<Rightarrow> nat \<Rightarrow> u8 \<times> u8" where
  "view j s k = (if k < 1920 then (ld s (cell (page j) (int k)), ld s (cell (page j) (int k) + 1))
                 else (0, 0))"

lemma view_cong: "(\<And>a. ld t a = ld s a) \<Longrightarrow> view j t = view j s"
  by (simp add: view_def fun_eq_iff)

lemma page_off_inject:
  fixes j j' a b :: nat
  assumes "a < 4096" "b < 4096"
  shows "4096 * j + a = 4096 * j' + b \<longleftrightarrow> j = j' \<and> a = b"
proof
  assume eq: "4096 * j + a = 4096 * j' + b"
  have "(4096 * j + a) div 4096 = j" "(4096 * j' + b) div 4096 = j'" using assms by simp_all
  then have "j = j'" using eq by simp
  then show "j = j' \<and> a = b" using eq by simp
qed simp

lemma view_off:
  "view j s k = (if k < 1920 then (ld s (off (4096 * j + 2 * k)), ld s (off (4096 * j + (2 * k + 1))))
                 else (0, 0))"
  using cell_page_1 [of j k] by (simp add: view_def cell_page add.assoc)

lemma put_cell_off:
  "put_cell (page j) (int k) c col s =
   st (off (4096 * j + (2 * k + 1))) col (st (off (4096 * j + 2 * k)) c s)"
  using cell_page_1 [of j k] by (simp add: put_cell_def cell_page add.assoc)

lemma view_put_cell:
  assumes "screen_mapped s" "j < 4" "j' < 4" "k < 1920"
  shows "view j' (put_cell (page j) (int k) c col s) =
         (if j' = j then (view j s)(k := (c, col)) else view j' s)"
proof (rule ext)
  fix i
  show "view j' (put_cell (page j) (int k) c col s) i =
      (if j' = j then (view j s)(k := (c, col)) else view j' s) i"
  proof (cases "i < 1920")
    case True
    define A A1 B B1 where "A = 4096 * j + 2 * k" and "A1 = 4096 * j + (2 * k + 1)"
      and "B = 4096 * j' + 2 * i" and "B1 = 4096 * j' + (2 * i + 1)"
    have lt: "A < 16384" "A1 < 16384" "B < 16384" "B1 < 16384"
      using assms True by (simp_all add: A_def A1_def B_def B1_def)
    have b: "2 * k < 4096" "2 * k + 1 < 4096" "2 * i < 4096" "2 * i + 1 < 4096"
      using assms(4) True by simp_all
    have odd: "2 * k + 1 \<noteq> 2 * i" "2 * k \<noteq> 2 * i + 1" by presburger+
    have eq: "A = B \<longleftrightarrow> j' = j \<and> i = k" "A1 = B1 \<longleftrightarrow> j' = j \<and> i = k" "A1 \<noteq> B" "A \<noteq> B1"
      unfolding A_def A1_def B_def B1_def page_off_inject [OF b(1) b(3)] page_off_inject [OF b(2) b(4)]
        page_off_inject [OF b(2) b(3)] page_off_inject [OF b(1) b(4)]
      using odd by auto
    have "ld (put_cell (page j) (int k) c col s) (off B) = (if A = B then c else ld s (off B))"
      "ld (put_cell (page j) (int k) c col s) (off B1) = (if A1 = B1 then col else ld s (off B1))"
      using assms(1) lt eq(3,4)
      by (simp_all only: put_cell_off A_def [symmetric] A1_def [symmetric] ld_st_off
          screen_mapped_simps if_False)
    then have "view j' (put_cell (page j) (int k) c col s) i =
        (if A = B then c else ld s (off B), if A1 = B1 then col else ld s (off B1))"
      using True by (simp only: view_off B_def [symmetric] B1_def [symmetric] if_True)
    moreover have "view j' s i = (ld s (off B), ld s (off B1))"
      using True by (simp only: view_off B_def [symmetric] B1_def [symmetric] if_True)
    ultimately show ?thesis using eq(1,2) by (cases "j' = j") auto
  qed (use assms in \<open>simp add: view_def\<close>)
qed

lemma for_loop_put_cells:
  assumes "screen_mapped s" "j < 4" "j' < 4" "m + n \<le> 1920"
  shows "view j' (for_loop 0 n (\<lambda>i. put_cell (page j) (int (m + i)) c col) s) =
      (\<lambda>k. if j' = j \<and> m \<le> k \<and> k < m + n then (c, col) else view j' s k)
    \<and> screen_mapped (for_loop 0 n (\<lambda>i. put_cell (page j) (int (m + i)) c col) s)"
  using assms(4)
proof (induction n)
  case 0
  then show ?case using assms(1) by (auto simp: fun_eq_iff)
next
  case (Suc n)
  let ?u = "for_loop 0 n (\<lambda>i. put_cell (page j) (int (m + i)) c col) s"
  have IH: "view j' ?u = (\<lambda>k. if j' = j \<and> m \<le> k \<and> k < m + n then (c, col) else view j' s k)"
    and ok: "screen_mapped ?u" using Suc by auto
  have "screen_mapped (put_cell (page j) (int (m + n)) c col ?u)"
    using ok by (simp add: put_cell_def)
  moreover have "view j' (put_cell (page j) (int (m + n)) c col ?u) =
      (if j' = j then (view j' ?u)(m + n := (c, col)) else view j' ?u)"
    using view_put_cell [OF ok assms(2,3), of "m + n"] Suc.prems by auto
  ultimately show ?case using IH by (auto simp: for_loop_last fun_eq_iff)
qed

lemma view_blank_row:
  assumes "screen_mapped s" "j < 4" "j' < 4" "row < 24"
  shows "view j' (blank_row (page j) (int row) col s) =
    (\<lambda>k. if j' = j \<and> 80 * row \<le> k \<and> k < 80 * row + 80 then (0x20, col) else view j' s k)"
  using for_loop_put_cells [OF assms(1-3), of "80 * row" 80 "0x20" col] assms(4)
  by (simp add: blank_row_def)

text \<open>Both copies that scroll the screen, 3840 bytes long in one place and 3680 in the other.\<close>

lemma memcpy_scroll:
  assumes "screen_mapped s" "j < 4" "unat n \<le> 3840"
  shows "phys (memcpy (page j) (page j + 160) n s) p =
    (if unat (p - page j) < unat n then phys s (p + 160) else phys s p)"
proof -
  have map: "xl s (page j + word_of_nat a) = page j + word_of_nat a" if "a < 4096" for a
    using assms(1,2) that by (simp add: page_plus screen_mapped_def)
  have src: "page j + 160 = page j + word_of_nat 160" by simp
  have map_src: "xl s (page j + 160 + word_of_nat i) = page j + 160 + word_of_nat i" if "i < unat n" for i
    using map [of "160 + i"] that assms(3) by (simp add: add.assoc)
  have up: "unat (page j) = 0xB8000 + 4096 * j"
    using assms(2) by (simp add: page_def off_def VIDEO_def unat_word_ariths unat_of_nat_u32)
  have safe: "copy_safe (xl s) (page j) (page j + 160) (unat n)"
  proof (rule copy_safe_below)
    have "unat (page j + 160) = 0xB8000 + 4096 * j + 160"
      using up assms(2) by (simp add: unat_word_ariths)
    then show "unat (page j) \<le> unat (page j + 160)" "unat (page j + 160) + unat n \<le> 2 ^ 32"
      using up assms(2,3) by simp_all
  qed (use map map_src assms(3) in auto)
  have "xl s (page j + 160 + (p - page j)) = p + 160" if "unat (p - page j) < unat n"
    using map_src [OF that] by (simp add: algebra_simps)
  then show ?thesis
    using map assms(3) by (simp add: memcpy_blit [OF safe] blit_ident)
qed

lemma ld_memcpy_scroll:
  assumes "screen_mapped s" "j < 4" "unat n \<le> 3840" "j' < 4" "a < 3840"
  shows "ld (memcpy (page j) (page j + 160) n s) (off (4096 * j' + a)) =
    (if j' = j \<and> a < unat n then ld s (off (4096 * j + (a + 160))) else ld s (off (4096 * j' + a)))"
proof -
  have lt: "4096 * j' + a < 16384" "a + 160 < 4096" using assms(4,5) by simp_all
  have xl: "xl (memcpy (page j) (page j + 160) n s) = xl s" by (subst memcpy_frame) simp
  have inside: "unat (off (4096 * j' + a) - page j) < unat n \<longleftrightarrow> j' = j \<and> a < unat n"
  proof (cases "unat (off (4096 * j' + a) - page j) < unat n")
    case True
    define b where "b = unat (off (4096 * j' + a) - page j)"
    have "off (4096 * j' + a) = page j + word_of_nat b" by (simp add: b_def)
    then have "off (4096 * j' + a) = off (4096 * j + b)" by (simp add: page_plus)
    moreover have "b < 3840" using True assms(3) b_def by simp
    ultimately have "4096 * j' + a = 4096 * j + b"
      using lt assms(2) by (simp add: off_inject)
    then show ?thesis using True \<open>b < 3840\<close> assms(5) page_off_inject [of a b j' j] b_def by auto
  next
    case False
    have "off (4096 * j + a) - page j = word_of_nat a" by (simp add: page_plus [symmetric])
    then show ?thesis using False assms(5) by (auto simp: unat_of_nat_u32)
  qed
  have "ld (memcpy (page j) (page j + 160) n s) (off (4096 * j' + a)) =
      (if j' = j \<and> a < unat n then phys s (off (4096 * j' + a) + 160) else phys s (off (4096 * j' + a)))"
    using assms(1) lt
    by (simp add: ld_def xl memcpy_scroll [OF assms(1-3)] inside screen_mapped_def)
  moreover have "off (4096 * j' + a) + 160 = off (4096 * j' + (a + 160))"
    by (simp add: off_def ac_simps)
  moreover have "4096 * j' + (a + 160) < 16384" using assms(4,5) by simp
  ultimately show ?thesis
    using lt ld_off [OF assms(1)] by (cases "j' = j") simp_all
qed

lemma view_scroll:
  assumes "screen_mapped s" "j < 4" "j' < 4" "n = 3840 \<or> n = 3680"
  shows "view j' (blank_row (page j) 23 col (memcpy (page j) (page j + 160) n s)) =
    (if j' = j then scroll_cells col (view j s) else view j' s)"
proof -
  let ?m = "memcpy (page j) (page j + 160) n s"
  have n: "unat n \<le> 3840" "3680 \<le> unat n" using assms(4) by auto
  have ok: "screen_mapped ?m"
    using assms(1) by (subst memcpy_frame) (simp add: screen_mapped_def)
  have moved: "view j' ?m k = (if j' = j \<and> k < 1840 then view j s (k + 80) else view j' s k)"
    if "j' = j \<longrightarrow> k < 1840" for k
  proof (cases "k < 1920")
    case True
    then have lt: "2 * k < 3840" "2 * k + 1 < 3840" by simp_all
    have "2 * (k + 80) = 2 * k + 160" "2 * (k + 80) + 1 = 2 * k + 1 + 160" by simp_all
    then show ?thesis
      using True that n
      by (auto simp only: view_off ld_memcpy_scroll [OF assms(1,2) n(1) assms(3) lt(1)]
          ld_memcpy_scroll [OF assms(1,2) n(1) assms(3) lt(2)])
        auto
  next
    case False
    then show ?thesis using that by (auto simp: view_def)
  qed
  have "int 23 = 23" by simp
  then have "view j' (blank_row (page j) 23 col ?m) =
      (\<lambda>k. if j' = j \<and> 1840 \<le> k \<and> k < 1920 then (0x20, col) else view j' ?m k)"
    using view_blank_row [OF ok assms(2,3), of 23 col] by simp
  then show ?thesis
    using moved by (auto simp: fun_eq_iff scroll_cells_def view_def [of _ _ k for k] not_less)
qed

section \<open>What the screen operations leave alone\<close>

lemma only_phys_put_cell: "only_phys s (put_cell base k c col s)"
  by (simp add: put_cell_def only_phys_st)

lemma only_phys_blank_row: "only_phys s (blank_row base row col s)"
  unfolding blank_row_def
  by (rule for_loop_invariant) (auto intro: only_phys_trans only_phys_put_cell)

lemma only_phys_memcpy: "only_phys s (memcpy dst src n s)"
  by (subst memcpy_frame) (simp add: only_phys_def)

lemma only_phys_console:
  assumes "only_phys s t"
  shows "screen_x t = screen_x s" "screen_y t = screen_y s" "row_stack t = row_stack s"
    "column_stack t = column_stack s" "terminal_info t = terminal_info s" "key_arr t = key_arr s"
    "key_arr_ptr t = key_arr_ptr s" "key_arr_overflow t = key_arr_overflow s"
    "enter_state t = enter_state s" "current_terminal t = current_terminal s"
    "running_terminal t = running_terminal s" "console.more t = console.more s"
    "master_mask t = master_mask s" "slave_mask t = slave_mask s" "xl t = xl s" "outs t = outs s"
    "dev t = dev s" "clk t = clk s" "iflag t = iflag s" "esp t = esp s" "ebp t = ebp s"
  by (subst only_physD [OF assms], simp)+

lemmas put_cell_frame [simp, frame_simps] = only_phys_console [OF only_phys_put_cell]
lemmas blank_row_frame [simp, frame_simps] = only_phys_console [OF only_phys_blank_row]
lemmas memcpy_console [simp, frame_simps] = only_phys_console [OF only_phys_memcpy]

lemma outb_console [simp, frame_simps]:
  "screen_x (outb d p t) = screen_x t" "screen_y (outb d p t) = screen_y t"
  "row_stack (outb d p t) = row_stack t" "column_stack (outb d p t) = column_stack t"
  "terminal_info (outb d p t) = terminal_info t" "key_arr (outb d p t) = key_arr t"
  "key_arr_ptr (outb d p t) = key_arr_ptr t" "key_arr_overflow (outb d p t) = key_arr_overflow t"
  "enter_state (outb d p t) = enter_state t" "current_terminal (outb d p t) = current_terminal t"
  "running_terminal (outb d p t) = running_terminal t" "console.more (outb d p t) = console.more t"
  by (simp_all add: outb_def)

lemma cursor_helper_console [simp, frame_simps]:
  "screen_x (cursor_helper t) = screen_x t" "screen_y (cursor_helper t) = screen_y t"
  "row_stack (cursor_helper t) = row_stack t" "column_stack (cursor_helper t) = column_stack t"
  "terminal_info (cursor_helper t) = terminal_info t" "key_arr (cursor_helper t) = key_arr t"
  "key_arr_ptr (cursor_helper t) = key_arr_ptr t"
  "key_arr_overflow (cursor_helper t) = key_arr_overflow t"
  "enter_state (cursor_helper t) = enter_state t"
  "current_terminal (cursor_helper t) = current_terminal t"
  "running_terminal (cursor_helper t) = running_terminal t"
  "console.more (cursor_helper t) = console.more t" "xl (cursor_helper t) = xl t"
  "phys (cursor_helper t) = phys t" "ld (cursor_helper t) = ld t"
  by (simp_all add: cursor_helper_def Let_def ld_def fun_eq_iff)

section \<open>The visible screen\<close>

definition screen_of :: "'a console_scheme \<Rightarrow> text_screen" where
  "screen_of s = \<lparr>cells = view 0 s, cur_x = nat (screen_x s), cur_y = nat (screen_y s),
                  wrapped = nat (row_stack s)\<rparr>"

definition console_ok :: "'a console_scheme \<Rightarrow> bool" where
  "console_ok s \<longleftrightarrow> screen_mapped s \<and> 0 \<le> screen_x s \<and> screen_x s < NUM_COLS
     \<and> 0 \<le> screen_y s \<and> screen_y s < NUM_ROWS \<and> 0 \<le> row_stack s \<and> row_stack s \<le> screen_y s
     \<and> unat (current_terminal s) < MAX_TERMINAL_NUM \<and> length (terminal_info s) = MAX_TERMINAL_NUM"

lemma view_cursor_helper [simp]: "view j (cursor_helper s) = view j s"
  by (rule view_cong) simp

lemma view_update [simp]:
  "view j (s\<lparr>screen_x := a\<rparr>) = view j s" "view j (s\<lparr>screen_y := a\<rparr>) = view j s"
  "view j (s\<lparr>row_stack := a\<rparr>) = view j s" "view j (s\<lparr>terminal_info := ts\<rparr>) = view j s"
  "view j (s\<lparr>key_arr := ks\<rparr>) = view j s" "view j (s\<lparr>key_arr_ptr := b\<rparr>) = view j s"
  "view j (s\<lparr>key_arr_overflow := b\<rparr>) = view j s"
  by (simp_all add: view_def ld_def fun_eq_iff)

lemma screen_mapped_console [simp]:
  "screen_mapped (s\<lparr>screen_x := a\<rparr>) = screen_mapped s" "screen_mapped (s\<lparr>screen_y := a\<rparr>) = screen_mapped s"
  "screen_mapped (s\<lparr>row_stack := a\<rparr>) = screen_mapped s"
  "screen_mapped (s\<lparr>terminal_info := ts\<rparr>) = screen_mapped s"
  "screen_mapped (s\<lparr>key_arr := ks\<rparr>) = screen_mapped s" "screen_mapped (s\<lparr>key_arr_ptr := b\<rparr>) = screen_mapped s"
  "screen_mapped (s\<lparr>key_arr_overflow := b\<rparr>) = screen_mapped s"
  "screen_mapped (cursor_helper s) = screen_mapped s"
  by (simp_all add: screen_mapped_def)

lemma screen_mapped_only_phys [simp]:
  "screen_mapped (put_cell base k c col s) = screen_mapped s"
  "screen_mapped (blank_row base i col s) = screen_mapped s"
  "screen_mapped (memcpy dst src n s) = screen_mapped s"
proof -
  have "screen_mapped t = screen_mapped s" if "only_phys s t" for t
    by (subst only_physD [OF that]) (simp add: screen_mapped_def)
  then show "screen_mapped (put_cell base k c col s) = screen_mapped s"
    "screen_mapped (blank_row base i col s) = screen_mapped s"
    "screen_mapped (memcpy dst src n s) = screen_mapped s"
    using only_phys_put_cell only_phys_blank_row only_phys_memcpy by blast+
qed

lemma view_put_cell_int:
  assumes "screen_mapped s" "j < 4" "j' < 4" "0 \<le> k" "k < 1920"
  shows "view j' (put_cell (page j) k c col s) =
         (if j' = j then (view j s)(nat k := (c, col)) else view j' s)"
  using view_put_cell [OF assms(1-3), of "nat k"] assms(4,5) by simp

text \<open>The two ways in which a line feed moves the cursor, and the wrap at the end of a row.\<close>

lemma view_scroll_via:
  fixes s u :: "'a machine_scheme"
  assumes "screen_mapped s" "j < 4" "j' < 4" "n = 3840 \<or> n = 3680"
    and u: "view j' u = view j' (memcpy (page j) (page j + 160) n s)" "screen_mapped u"
  shows "view j' (blank_row (page j) 23 col u) =
    (if j' = j then scroll_cells col (view j s) else view j' s)"
proof -
  have "screen_mapped (memcpy (page j) (page j + 160) n s)" using assms(1) by simp
  note row = view_blank_row [OF this assms(2,3), of 23 col] view_blank_row [OF u(2) assms(2,3), of 23 col]
  have "view j' (blank_row (page j) 23 col u) =
      view j' (blank_row (page j) 23 col (memcpy (page j) (page j + 160) n s))"
    using row unfolding u(1) by simp
  then show ?thesis using view_scroll [OF assms(1-4)] by (rule trans)
qed

lemma view_scroll_cursor:
  assumes "screen_mapped s" "j < 4" "n = 3840 \<or> n = 3680"
  shows "view j (blank_row (page 0) 23 col
      (memcpy (page 0) (page 0 + 160) n s\<lparr>screen_y := y, screen_x := x\<rparr>)) =
    (if j = 0 then scroll_cells col (view 0 s) else view j s)"
  by (rule view_scroll_via) (use assms in simp_all)

lemma view_enter_and_scroll:
  assumes "console_ok s" "j < 4"
  shows "view j (enter_and_scroll s) =
    (if j = 0 then scroll_cells (cur_attrib s) (view 0 s) else view j s)"
  unfolding enter_and_scroll_def Let_def page_0 using assms
  by (simp add: view_scroll_cursor console_ok_def)

lemma enter_and_scroll_fields:
  "screen_x (enter_and_scroll s) = 0" "screen_y (enter_and_scroll s) = 23"
  "row_stack (enter_and_scroll s) = row_stack s"
  "current_terminal (enter_and_scroll s) = current_terminal s"
  "terminal_info (enter_and_scroll s) = terminal_info s" "xl (enter_and_scroll s) = xl s"
  by (simp_all add: enter_and_scroll_def Let_def)

lemma enter_handler_refines:
  assumes "console_ok s"
  shows "screen_of (enter_handler s) = text_newline (cur_attrib s) (screen_of s)"
    and "console_ok (enter_handler s)"
    and "0 < j \<Longrightarrow> j < 4 \<Longrightarrow> view j (enter_handler s) = view j s"
    and "terminal_info (enter_handler s) = terminal_info s"
    and "current_terminal (enter_handler s) = current_terminal s"
  using assms
  by (auto simp: enter_handler_def set_cursor_position_def Let_def screen_of_def text_newline_def
      enter_and_scroll_fields view_enter_and_scroll console_ok_def screen_mapped_xl [of "enter_and_scroll s" s])

lemma putc_wrap_refines:
  assumes "screen_mapped s" "screen_x s = 80" "0 \<le> screen_y s" "screen_y s < 24" "0 \<le> row_stack s"
    "row_stack s \<le> screen_y s"
  shows "j < 4 \<Longrightarrow> view j (putc_wrap s) =
      (if j = 0 \<and> 23 \<le> screen_y s then scroll_cells (cur_attrib s) (view 0 s) else view j s)"
    and "screen_x (putc_wrap s) = 0" "screen_y (putc_wrap s) = min 23 (screen_y s + 1)"
    "row_stack (putc_wrap s) = min 23 (row_stack s + 1)"
    "current_terminal (putc_wrap s) = current_terminal s"
    "terminal_info (putc_wrap s) = terminal_info s" "xl (putc_wrap s) = xl s"
  using assms unfolding putc_wrap_def Let_def page_0
  by (auto simp: view_scroll_cursor)

lemma sdiv_smod_small:
  "0 \<le> a \<Longrightarrow> a < n \<Longrightarrow> a sdiv n = (0 :: int)" "0 \<le> a \<Longrightarrow> a < n \<Longrightarrow> a smod n = (a :: int)"
  by (auto simp: signed_divide_int_def signed_modulo_int_def sgn_if)

text \<open>What a printable character does: the last column wraps, any other moves the cursor.\<close>

lemma putc_plain:
  assumes "console_ok s" "c \<noteq> 0x0A" "c \<noteq> 0x0D"
  defines "s1 \<equiv> put_cell VIDEO (80 * screen_y s + screen_x s) c (cur_attrib s) s\<lparr>screen_x := screen_x s + 1\<rparr>"
  shows "putc c s = (if screen_x s < 79 then cursor_helper s1 else cursor_helper (putc_wrap s1))"
proof -
  have eq: "t\<lparr>screen_y := screen_y t\<rparr> = t" for t :: "'a console_scheme" by simp
  have ok: "screen_mapped s" "0 \<le> screen_x s" "screen_x s < 80" "0 \<le> screen_y s" "screen_y s < 24"
    "0 \<le> row_stack s" "row_stack s \<le> screen_y s"
    using assms(1) by (simp_all add: console_ok_def)
  show ?thesis
  proof (cases "screen_x s < 79")
    case True
    then have "putc c s = cursor_helper (s1\<lparr>screen_y := screen_y s1\<rparr>)"
      using assms(2,3) ok by (simp add: putc_def Let_def sdiv_smod_small s1_def)
    then show ?thesis using True by simp
  next
    case False
    then have x: "screen_x s = 79" using ok by simp
    have "screen_x (putc_wrap s1) = 0" "screen_y (putc_wrap s1) = min 23 (screen_y s + 1)"
      using putc_wrap_refines(2,3) [of s1] ok x by (simp_all add: s1_def)
    then have "(screen_y (putc_wrap s1) + screen_x (putc_wrap s1) sdiv 80) smod 24 = screen_y (putc_wrap s1)"
      using ok by (simp add: sdiv_smod_small)
    moreover have "putc c s = cursor_helper (putc_wrap s1\<lparr>screen_y :=
        (screen_y (putc_wrap s1) + screen_x (putc_wrap s1) sdiv 80) smod 24\<rparr>)"
      using assms(2,3) x by (simp add: putc_def Let_def s1_def)
    ultimately show ?thesis using False eq by metis
  qed
qed

lemma putc_refines:
  assumes "console_ok s"
  shows "screen_of (putc c s) = text_put (cur_attrib s) c (screen_of s)"
    and "console_ok (putc c s)"
    and "0 < j \<Longrightarrow> j < 4 \<Longrightarrow> view j (putc c s) = view j s"
    and "terminal_info (putc c s) = terminal_info s"
    and "current_terminal (putc c s) = current_terminal s"
proof -
  let ?k = "80 * screen_y s + screen_x s"
  let ?s1 = "put_cell VIDEO ?k c (cur_attrib s) s\<lparr>screen_x := screen_x s + 1\<rparr>"
  have ok: "screen_mapped s" "0 \<le> screen_x s" "screen_x s < 80" "0 \<le> screen_y s" "screen_y s < 24"
    "0 \<le> row_stack s" "row_stack s \<le> screen_y s" "unat (current_terminal s) < 3"
    "length (terminal_info s) = 3"
    using assms by (simp_all add: console_ok_def)
  have k: "nat ?k = 80 * nat (screen_y s) + nat (screen_x s)" "0 \<le> ?k" "?k < 1920"
    using ok by (simp_all add: nat_add_distrib nat_mult_distrib)
  have v1: "view j ?s1 = (if j = 0 then (view 0 s)(nat ?k := (c, cur_attrib s)) else view j s)"
    if "j < 4" for j
    using ok(1) k(2,3) that by (simp add: page_0 view_put_cell_int)
  consider "c = 0x0A \<or> c = 0x0D" | "c \<noteq> 0x0A" "c \<noteq> 0x0D" "screen_x s < 79"
    | "c \<noteq> 0x0A" "c \<noteq> 0x0D" "screen_x s = 79" using ok(3) by linarith
  then have "screen_of (putc c s) = text_put (cur_attrib s) c (screen_of s) \<and> console_ok (putc c s)
      \<and> (\<forall>j. 0 < j \<longrightarrow> j < 4 \<longrightarrow> view j (putc c s) = view j s) \<and> terminal_info (putc c s) = terminal_info s
      \<and> current_terminal (putc c s) = current_terminal s"
  proof cases
    case 1
    then have "putc c s = cursor_helper (enter_handler s)" by (simp add: putc_def)
    then show ?thesis
      using 1 enter_handler_refines [OF assms]
      by (auto simp: text_put_def screen_of_def console_ok_def)
  next
    case 2
    then show ?thesis
      using v1 k(1) ok nat_add_distrib [of "screen_x s" 1] zless_nat_conj [of "screen_x s" 79]
      by (simp add: putc_plain [OF assms] text_put_def Let_def screen_of_def console_ok_def)
  next
    case 3
    then have "screen_of (putc c s) = text_put (cur_attrib s) c (screen_of s)"
      using v1 k(1) ok putc_wrap_refines [of ?s1]
      by (auto simp: putc_plain [OF assms] text_put_def Let_def screen_of_def)
    moreover have "console_ok (putc c s)"
      using 3 ok putc_wrap_refines(2-7) [of ?s1]
      by (auto simp: putc_plain [OF assms] console_ok_def screen_mapped_def)
    ultimately show ?thesis
      using 3 ok v1 putc_wrap_refines(1,5,6) [of ?s1] by (simp add: putc_plain [OF assms])
  qed
  then show "screen_of (putc c s) = text_put (cur_attrib s) c (screen_of s)" "console_ok (putc c s)"
    "0 < j \<Longrightarrow> j < 4 \<Longrightarrow> view j (putc c s) = view j s" "terminal_info (putc c s) = terminal_info s"
    "current_terminal (putc c s) = current_terminal s"
    by blast+
qed

section \<open>The saved screens\<close>

definition saved_of :: "u8 \<Rightarrow> 'a console_scheme \<Rightarrow> text_screen" where
  "saved_of t s = \<lparr>cells = view (Suc (unat t)) s, cur_x = unat (screen_pos_x (ti t s)),
                   cur_y = unat (screen_pos_y (ti t s)), wrapped = unat (row_stack_old (ti t s))\<rparr>"

definition saved_ok :: "u8 \<Rightarrow> 'a console_scheme \<Rightarrow> bool" where
  "saved_ok t s \<longleftrightarrow> screen_mapped s \<and> unat t < MAX_TERMINAL_NUM
     \<and> length (terminal_info s) = MAX_TERMINAL_NUM \<and> text_ok (saved_of t s)"

lemma ti_ti_upd [simp]: "unat t < length (terminal_info s) \<Longrightarrow> ti t (ti_upd t f s) = f (ti t s)"
  by (simp add: ti_def ti_upd_def)

lemma ti_ti_upd_other: "t' \<noteq> t \<Longrightarrow> ti t' (ti_upd t f s) = ti t' s"
  by (simp add: ti_def ti_upd_def word_unat_eq_iff)

lemma ti_upd_frame [simp, frame_simps]:
  "screen_x (ti_upd t f s) = screen_x s" "screen_y (ti_upd t f s) = screen_y s"
  "row_stack (ti_upd t f s) = row_stack s" "column_stack (ti_upd t f s) = column_stack s"
  "length (terminal_info (ti_upd t f s)) = length (terminal_info s)"
  "current_terminal (ti_upd t f s) = current_terminal s" "running_terminal (ti_upd t f s) = running_terminal s"
  "key_arr (ti_upd t f s) = key_arr s" "key_arr_ptr (ti_upd t f s) = key_arr_ptr s"
  "key_arr_overflow (ti_upd t f s) = key_arr_overflow s" "xl (ti_upd t f s) = xl s"
  "phys (ti_upd t f s) = phys s" "screen_mapped (ti_upd t f s) = screen_mapped s"
  "view j (ti_upd t f s) = view j s" "console.more (ti_upd t f s) = console.more s"
  by (simp_all add: ti_upd_def)

lemma ti_frame [simp]:
  "ti t (put_cell base k c col s) = ti t s" "ti t (blank_row base i col s) = ti t s"
  "ti t (memcpy dst src n s) = ti t s" "ti t (cursor_helper s) = ti t s"
  by (simp_all add: ti_def)

lemma view_scroll_saved:
  assumes "screen_mapped s" "unat t < 3" "j < 4" "n = 3840 \<or> n = 3680"
  shows "view j (blank_row (page (Suc (unat t))) 23 col
      (ti_upd t f (memcpy (page (Suc (unat t))) (page (Suc (unat t)) + 160) n s))) =
    (if j = Suc (unat t) then scroll_cells col (view (Suc (unat t)) s) else view j s)"
  by (rule view_scroll_via) (use assms in simp_all)

lemma u8_inc: "unat (w :: u8) < 255 \<Longrightarrow> unat (w + 1) = unat w + 1"
  using unat_add_small [of w 1] by simp

lemma enter_handler_terminal_refines:
  assumes "saved_ok t s"
  shows "saved_of t (enter_handler_terminal t s) = text_newline (attrib ! unat t) (saved_of t s)"
    and "j < 4 \<Longrightarrow> j \<noteq> Suc (unat t) \<Longrightarrow> view j (enter_handler_terminal t s) = view j s"
    and "t' \<noteq> t \<Longrightarrow> ti t' (enter_handler_terminal t s) = ti t' s"
    and "xl (enter_handler_terminal t s) = xl s"
    and "length (terminal_info (enter_handler_terminal t s)) = length (terminal_info s)"
  using assms
  by (auto simp: saved_ok_def text_ok_def enter_handler_terminal_def enter_and_scroll_terminal_def Let_def
      saved_of_def text_newline_def saved_screen_page view_scroll_saved ti_ti_upd_other
      word_le_nat_alt u8_inc unat_dec unsigned_eq_0_iff)

lemma putc_terminal_wrap_refines:
  assumes "screen_mapped s" "unat t < 3" "length (terminal_info s) = 3"
    "unat (screen_pos_x (ti t s)) = 80" "unat (screen_pos_y (ti t s)) < 24"
    "unat (row_stack_old (ti t s)) \<le> unat (screen_pos_y (ti t s))"
  shows "j < 4 \<Longrightarrow> view j (putc_terminal_wrap t s) =
      (if j = Suc (unat t) \<and> 23 \<le> unat (screen_pos_y (ti t s))
       then scroll_cells (attrib ! unat t) (view (Suc (unat t)) s) else view j s)"
    and "unat (screen_pos_x (ti t (putc_terminal_wrap t s))) = 0"
    "unat (screen_pos_y (ti t (putc_terminal_wrap t s))) = min 23 (unat (screen_pos_y (ti t s)) + 1)"
    "unat (row_stack_old (ti t (putc_terminal_wrap t s))) = min 23 (unat (row_stack_old (ti t s)) + 1)"
    "t' \<noteq> t \<Longrightarrow> ti t' (putc_terminal_wrap t s) = ti t' s"
    "length (terminal_info (putc_terminal_wrap t s)) = 3" "xl (putc_terminal_wrap t s) = xl s"
  using assms
  by (auto simp: putc_terminal_wrap_def Let_def saved_screen_page view_scroll_saved ti_ti_upd_other
      word_less_nat_alt u8_inc unat_mod)

lemma uint_less_nat: "unat w < n \<Longrightarrow> uint w < int n"
  by (simp only: uint_nat of_nat_less_iff)

lemma putc_terminal_plain:
  assumes "saved_ok t s" "c \<noteq> 0x0A" "c \<noteq> 0x0D"
  defines "s1 \<equiv> ti_upd t (\<lambda>i. i\<lparr>screen_pos_x := screen_pos_x i + 1\<rparr>)
      (put_cell (page (Suc (unat t))) (int (80 * cur_y (saved_of t s) + cur_x (saved_of t s)))
         c (attrib ! unat t) s)"
  shows "putc_terminal c t s = (if cur_x (saved_of t s) < 79 then s1 else putc_terminal_wrap t s1)"
proof -
  have stay: "ti_upd t (\<lambda>i. i\<lparr>screen_pos_y :=
      word_of_int ((uint (screen_pos_y i) + uint (screen_pos_x i) sdiv 80) smod 24)\<rparr>) u = u"
    if "unat (screen_pos_x (ti t u)) < 80" "unat (screen_pos_y (ti t u)) < 24" for u :: "'a console_scheme"
  proof -
    have "uint (screen_pos_x (ti t u)) < 80" "uint (screen_pos_y (ti t u)) < 24"
      using uint_less_nat [OF that(1)] uint_less_nat [OF that(2)] by simp_all
    then have "(uint (screen_pos_y (ti t u)) + uint (screen_pos_x (ti t u)) sdiv 80) smod 24
        = uint (screen_pos_y (ti t u))"
      by (simp only: sdiv_smod_small uint_ge_0 add_0_right)
    then show ?thesis by (simp add: ti_upd_def ti_def)
  qed
  have ok: "screen_mapped s" "unat t < 3" "length (terminal_info s) = 3"
    "unat (screen_pos_x (ti t s)) < 80" "unat (screen_pos_y (ti t s)) < 24"
    "unat (row_stack_old (ti t s)) \<le> unat (screen_pos_y (ti t s))"
    using assms(1) by (simp_all add: saved_ok_def text_ok_def saved_of_def)
  have s1: "putc_terminal c t s = (let s = (if screen_pos_x (ti t s1) \<ge> 80 then putc_terminal_wrap t s1 else s1)
      in ti_upd t (\<lambda>i. i\<lparr>screen_pos_y :=
           word_of_int ((uint (screen_pos_y i) + uint (screen_pos_x i) sdiv 80) smod 24)\<rparr>) s)"
    using assms(2,3) ok by (simp add: putc_terminal_def Let_def saved_screen_page saved_of_def s1_def)
  show ?thesis
  proof (cases "cur_x (saved_of t s) < 79")
    case True
    then show ?thesis using ok
      by (simp only: s1 Let_def) (simp add: stay s1_def saved_of_def u8_inc word_le_nat_alt)
  next
    case False
    then have "unat (screen_pos_x (ti t s)) = 79" using ok by (simp add: saved_of_def)
    then have x: "unat (screen_pos_x (ti t s1)) = 80" using ok by (simp add: s1_def u8_inc)
    then have "unat (screen_pos_x (ti t (putc_terminal_wrap t s1))) < 80"
      "unat (screen_pos_y (ti t (putc_terminal_wrap t s1))) < 24"
      using putc_terminal_wrap_refines(2,3) [of s1 t] ok by (simp_all add: s1_def)
    then show ?thesis using False x by (simp only: s1 Let_def) (simp add: stay word_le_nat_alt)
  qed
qed

lemma putc_terminal_refines:
  assumes "saved_ok t s"
  shows "saved_of t (putc_terminal c t s) = text_put (attrib ! unat t) c (saved_of t s)"
    and "j < 4 \<Longrightarrow> j \<noteq> Suc (unat t) \<Longrightarrow> view j (putc_terminal c t s) = view j s"
    and "t' \<noteq> t \<Longrightarrow> ti t' (putc_terminal c t s) = ti t' s"
    and "xl (putc_terminal c t s) = xl s"
    and "length (terminal_info (putc_terminal c t s)) = length (terminal_info s)"
proof -
  let ?k = "80 * cur_y (saved_of t s) + cur_x (saved_of t s)"
  let ?s1 = "ti_upd t (\<lambda>i. i\<lparr>screen_pos_x := screen_pos_x i + 1\<rparr>)
      (put_cell (page (Suc (unat t))) (int ?k) c (attrib ! unat t) s)"
  have ok: "screen_mapped s" "unat t < 3" "length (terminal_info s) = 3"
    "unat (screen_pos_x (ti t s)) < 80" "unat (screen_pos_y (ti t s)) < 24"
    "unat (row_stack_old (ti t s)) \<le> unat (screen_pos_y (ti t s))"
    using assms by (simp_all add: saved_ok_def text_ok_def saved_of_def)
  have v1: "view j ?s1 = (if j = Suc (unat t) then (view (Suc (unat t)) s)(?k := (c, attrib ! unat t)) else view j s)"
    if "j < 4" for j
    using ok that by (simp add: view_put_cell saved_of_def del: of_nat_add of_nat_mult)
  have goal: "saved_of t (putc_terminal c t s) = text_put (attrib ! unat t) c (saved_of t s)
      \<and> (\<forall>j. j < 4 \<longrightarrow> j \<noteq> Suc (unat t) \<longrightarrow> view j (putc_terminal c t s) = view j s)
      \<and> (\<forall>t'. t' \<noteq> t \<longrightarrow> ti t' (putc_terminal c t s) = ti t' s)
      \<and> xl (putc_terminal c t s) = xl s \<and> length (terminal_info (putc_terminal c t s)) = 3"
  proof (cases "c = 0x0A \<or> c = 0x0D")
    case True
    then have "putc_terminal c t s = enter_handler_terminal t s" by (simp add: putc_terminal_def)
    then show ?thesis
      using True enter_handler_terminal_refines [OF assms] ok by (auto simp: text_put_def)
  next
    case False
    then have c: "c \<noteq> 0x0A" "c \<noteq> 0x0D" by auto
    show ?thesis
    proof (cases "cur_x (saved_of t s) < 79")
      case True
      then have "putc_terminal c t s = ?s1" by (simp add: putc_terminal_plain [OF assms c])
      moreover have "unat (screen_pos_x (ti t s) + 1) = unat (screen_pos_x (ti t s)) + 1"
        using True by (simp add: saved_of_def u8_inc)
      ultimately show ?thesis
        using v1 True c ok by (simp add: text_put_def Let_def ti_ti_upd_other) (simp add: saved_of_def)
    next
      case 79: False
      then have eq: "putc_terminal c t s = putc_terminal_wrap t ?s1"
        by (simp add: putc_terminal_plain [OF assms c])
      have x: "unat (screen_pos_x (ti t s)) = 79" using 79 ok by (simp add: saved_of_def)
      then have "unat (screen_pos_x (ti t ?s1)) = 80" using ok by (simp add: u8_inc)
      note w = putc_terminal_wrap_refines [of ?s1 t, OF _ _ _ this]
      then have "saved_of t (putc_terminal_wrap t ?s1) = text_put (attrib ! unat t) c (saved_of t s)"
        using v1 c ok x by (simp add: saved_of_def text_put_def Let_def)
      moreover have "\<forall>j. j < 4 \<longrightarrow> j \<noteq> Suc (unat t) \<longrightarrow> view j (putc_terminal_wrap t ?s1) = view j s"
        using v1 ok w(1) by simp
      ultimately show ?thesis unfolding eq using ok w(5-7) by (simp add: ti_ti_upd_other)
    qed
  qed
  then show "saved_of t (putc_terminal c t s) = text_put (attrib ! unat t) c (saved_of t s)"
    "j < 4 \<Longrightarrow> j \<noteq> Suc (unat t) \<Longrightarrow> view j (putc_terminal c t s) = view j s"
    "t' \<noteq> t \<Longrightarrow> ti t' (putc_terminal c t s) = ti t' s" "xl (putc_terminal c t s) = xl s"
    "length (terminal_info (putc_terminal c t s)) = length (terminal_info s)"
    using ok(3) by (blast, blast, blast, blast, simp)
qed

section \<open>Saving a screen and bringing it back\<close>

lemma page_add_mapped:
  "screen_mapped s \<Longrightarrow> j < 4 \<Longrightarrow> i < 4096 \<Longrightarrow> xl s (page j + word_of_nat i) = page j + word_of_nat i"
  by (simp add: page_plus screen_mapped_def)

lemma copy_safe_pages:
  assumes "screen_mapped s" "d < 4" "e < 4" "d \<noteq> e" "n \<le> 4096"
  shows "copy_safe (xl s) (page d) (page e) n"
  unfolding copy_safe_def
proof (intro allI impI)
  fix i j assume ij: "i < n" "j < i"
  then have "4096 * d + j \<noteq> 4096 * e + i" using page_off_inject [of j i d e] assms(4,5) by simp
  then have "page d + word_of_nat j \<noteq> page e + word_of_nat i"
    using ij assms by (simp add: page_plus off_inject)
  then show "xl s (page d + word_of_nat j) \<noteq> xl s (page e + word_of_nat i)"
    using ij assms by (simp add: page_add_mapped)
qed

lemma ld_memcpy_page:
  assumes "screen_mapped s" "d < 4" "e < 4" "d \<noteq> e" "j < 4" "a < 3840"
  shows "ld (memcpy (page d) (page e) 3840 s) (off (4096 * j + a)) =
    (if j = d then ld s (off (4096 * e + a)) else ld s (off (4096 * j + a)))"
proof -
  have lt: "4096 * j + a < 16384" "4096 * e + a < 16384" using assms by simp_all
  have xl: "xl (memcpy (page d) (page e) 3840 s) = xl s" by (subst memcpy_frame) simp
  have blit: "phys (memcpy (page d) (page e) 3840 s) = blit (xl s) (page d) (page e) 3840 (phys s)"
    using memcpy_blit [OF copy_safe_pages [OF assms(1-4), of "unat (3840 :: u32)"]] by simp
  have atp: "off (4096 * j + a) = page j + word_of_nat a" by (simp add: page_plus)
  show ?thesis
  proof (cases "j = d")
    case True
    have "unat (word_of_nat a :: u32) = a" using assms(6) by (simp add: unat_of_nat_u32)
    then have "blit (xl s) (page d) (page e) 3840 (phys s) (page d + word_of_nat a) =
        phys s (xl s (page e + word_of_nat a))"
      using assms page_add_mapped [OF assms(1,2)] by (subst blit_ident) simp_all
    then show ?thesis
      using True assms lt by (simp add: ld_def xl blit atp page_add_mapped page_plus [symmetric])
  next
    case False
    have "xl s (page d + word_of_nat i) \<noteq> off (4096 * j + a)" if "i < 3840" for i
    proof -
      have "4096 * d + i \<noteq> 4096 * j + a" using page_off_inject [of i a d j] False that assms(6) by simp
      then show ?thesis using that assms(1,2) lt by (simp add: page_add_mapped) (simp add: page_plus off_inject)
    qed
    then have "blit (xl s) (page d) (page e) 3840 (phys s) (off (4096 * j + a)) = phys s (off (4096 * j + a))"
      by (intro blit_outside) simp
    then show ?thesis using False assms(1) lt by (simp add: ld_def xl blit screen_mapped_def)
  qed
qed

lemma view_memcpy_page:
  assumes "screen_mapped s" "d < 4" "e < 4" "d \<noteq> e" "j < 4"
  shows "view j (memcpy (page d) (page e) 3840 s) = (if j = d then view e s else view j s)"
proof (rule ext)
  fix k show "view j (memcpy (page d) (page e) 3840 s) k = (if j = d then view e s else view j s) k"
  proof (cases "k < 1920")
    case True
    then have "2 * k < 3840" "2 * k + 1 < 3840" by simp_all
    from ld_memcpy_page [OF assms this(1)] ld_memcpy_page [OF assms this(2)]
    show ?thesis using True by (simp only: view_off if_True) (auto simp: view_off)
  qed (simp add: view_def)
qed

section \<open>The contract of a character printer\<close>

text \<open>
  What the code that prints strings relies on: each character has its effect on the abstract
  screen, and the state stays usable.
\<close>

locale char_printer =
  fixes put :: "u8 \<Rightarrow> 's \<Rightarrow> 's" and inv :: "'s \<Rightarrow> bool" and abst :: "'s \<Rightarrow> text_screen"
    and colour :: "'s \<Rightarrow> u8"
  assumes put_abst: "inv s \<Longrightarrow> abst (put c s) = text_put (colour s) c (abst s)"
    and put_inv: "inv s \<Longrightarrow> inv (put c s)"
    and put_colour: "inv s \<Longrightarrow> colour (put c s) = colour s"
    and inv_text_ok: "inv s \<Longrightarrow> text_ok (abst s)"
begin

lemma put_all:
  assumes "inv s"
  shows "abst (fold put cs s) = fold (text_put (colour s)) cs (abst s)" "inv (fold put cs s)"
    "colour (fold put cs s) = colour s"
  using assms by (induction cs arbitrary: s) (simp_all add: put_abst put_inv put_colour)

end

interpretation visible: char_printer putc console_ok screen_of cur_attrib
proof
  fix s :: "'a console_scheme" and c
  assume ok: "console_ok s"
  show "screen_of (putc c s) = text_put (cur_attrib s) c (screen_of s)" "console_ok (putc c s)"
    "cur_attrib (putc c s) = cur_attrib s"
    using putc_refines [OF ok] by simp_all
  show "text_ok (screen_of s)"
    using ok by (auto simp: text_ok_def screen_of_def console_ok_def)
qed

interpretation saved: char_printer "\<lambda>c. putc_terminal c t" "saved_ok t" "saved_of t" "\<lambda>_. attrib ! unat t"
  for t
proof
  fix s :: "'a console_scheme" and c
  assume ok: "saved_ok t s"
  show "saved_of t (putc_terminal c t s) = text_put (attrib ! unat t) c (saved_of t s)"
    using putc_terminal_refines(1) [OF ok] .
  then show "saved_ok t (putc_terminal c t s)"
    using ok putc_terminal_refines(4,5) [OF ok, of c] text_ok_put
    by (simp add: saved_ok_def screen_mapped_def)
  show "text_ok (saved_of t s)" using ok by (simp add: saved_ok_def)
qed simp

lemma put_all_visible_frame:
  assumes "console_ok s" "0 < j" "j < 4"
  shows "view j (fold putc cs s) = view j s \<and> terminal_info (fold putc cs s) = terminal_info s
     \<and> current_terminal (fold putc cs s) = current_terminal s"
  using assms by (induction cs arbitrary: s) (simp_all add: putc_refines)

lemma put_all_saved_frame:
  assumes "saved_ok t s"
  shows "j < 4 \<Longrightarrow> j \<noteq> Suc (unat t) \<Longrightarrow> view j (fold (\<lambda>c. putc_terminal c t) cs s) = view j s"
    and "t' \<noteq> t \<Longrightarrow> ti t' (fold (\<lambda>c. putc_terminal c t) cs s) = ti t' s"
  using assms by (induction cs arbitrary: s) (simp_all add: putc_terminal_refines saved.put_inv)

section \<open>Editing the line being typed\<close>

lemma key_arr_pop_frame [simp, frame_simps]:
  "screen_x (key_arr_pop s) = screen_x s" "screen_y (key_arr_pop s) = screen_y s"
  "row_stack (key_arr_pop s) = row_stack s" "column_stack (key_arr_pop s) = column_stack s"
  "terminal_info (key_arr_pop s) = terminal_info s" "current_terminal (key_arr_pop s) = current_terminal s"
  "screen_mapped (key_arr_pop s) = screen_mapped s" "view j (key_arr_pop s) = view j s"
  "key_arr (key_arr_pop s) = key_arr s"
  by (simp_all add: key_arr_pop_def)

text \<open>The abstract erase: one cell back, over a wrapped row if need be.\<close>

definition text_erase :: "u8 \<Rightarrow> text_screen \<Rightarrow> text_screen" where
  "text_erase col t =
     (if cur_x t = 0
      then t\<lparr>cells := (cells t)(80 * cur_y t - 1 := (0x20, col)), cur_x := 79, cur_y := cur_y t - 1,
             wrapped := wrapped t - 1\<rparr>
      else t\<lparr>cells := (cells t)(80 * cur_y t + cur_x t - 1 := (0x20, col)), cur_x := cur_x t - 1\<rparr>)"

text \<open>Backspace is idle at the start of the line that is typed; elsewhere it erases, provided the
  cursor is not in column 0 of a row that the line has not wrapped into.\<close>

definition at_line_start :: "'a console_scheme \<Rightarrow> bool" where
  "at_line_start s \<longleftrightarrow> screen_x s = column_stack s \<and> row_stack s = 0"

lemma backspace_refines:
  assumes "console_ok s" "\<not> at_line_start s" "screen_x s = 0 \<longrightarrow> row_stack s \<noteq> 0"
  shows "screen_of (backspace_handler s) = text_erase (cur_attrib s) (screen_of s)"
    and "console_ok (backspace_handler s)"
proof -
  have ok: "screen_mapped s" "0 \<le> screen_x s" "screen_x s < 80" "0 \<le> screen_y s" "screen_y s < 24"
    "0 \<le> row_stack s" "row_stack s \<le> screen_y s" "unat (current_terminal s) < 3"
    "length (terminal_info s) = 3"
    using assms(1) by (simp_all add: console_ok_def)
  have "screen_of (backspace_handler s) = text_erase (cur_attrib s) (screen_of s)
      \<and> console_ok (backspace_handler s)"
  proof (cases "screen_x s = 0")
    case True
    then have rs: "1 \<le> row_stack s" "1 \<le> screen_y s" using assms(3) ok by auto
    let ?s1 = "s\<lparr>screen_x := 79, screen_y := screen_y s - 1\<rparr>"
    have v: "view 0 (put_cell VIDEO (80 * (screen_y s - 1) + 79) 0x20 col ?s1) =
        (view 0 s)(nat (80 * screen_y s - 1) := (0x20, col))" for col
      using ok rs by (simp add: page_0 view_put_cell_int algebra_simps)
    show ?thesis
      using True rs assms(2) ok v
      by (auto simp: backspace_handler_def Let_def at_line_start_def screen_of_def text_erase_def
          console_ok_def nat_diff_distrib nat_mult_distrib algebra_simps)
  next
    case False
    let ?s1 = "s\<lparr>screen_x := screen_x s - 1\<rparr>"
    have v: "view 0 (put_cell VIDEO (80 * screen_y s + (screen_x s - 1)) 0x20 col ?s1) =
        (view 0 s)(nat (80 * screen_y s + screen_x s - 1) := (0x20, col))" for col
      using ok False by (simp add: page_0 view_put_cell_int algebra_simps)
    have k: "nat (80 * screen_y s + screen_x s - 1) = 80 * nat (screen_y s) + nat (screen_x s) - 1"
      using ok False by (simp add: nat_diff_distrib nat_add_distrib nat_mult_distrib)
    show ?thesis
      using False assms(2) ok v k
      by (auto simp: backspace_handler_def Let_def at_line_start_def screen_of_def text_erase_def
          console_ok_def nat_diff_distrib)
  qed
  then show "screen_of (backspace_handler s) = text_erase (cur_attrib s) (screen_of s)"
    "console_ok (backspace_handler s)" by auto
qed

text \<open>Erasing undoes a printed character, as long as printing it did not scroll.\<close>

lemma text_erase_put:
  assumes "text_ok t" "c \<noteq> 0x0A" "c \<noteq> 0x0D" "cur_y t < 23 \<or> cur_x t < 79"
  shows "text_erase col (text_put col c t) =
      t\<lparr>cells := (cells t)(80 * cur_y t + cur_x t := (0x20, col))\<rparr>"
proof -
  have eq: "80 * Suc y - Suc 0 = 80 * y + 79" for y :: nat by simp
  show ?thesis using assms
    by (cases "cur_x t < 79")
      (auto simp: text_put_def text_erase_def text_ok_def Let_def eq intro!: text_screen.equality)
qed

section \<open>The keyboard line\<close>

text \<open>The characters kept for the line, and the number of keys typed, the dropped ones included.\<close>

definition key_line :: "'a console_scheme \<Rightarrow> u8 list" where
  "key_line s = take (unat (key_arr_ptr s)) (key_arr s)"

definition keys_typed :: "'a console_scheme \<Rightarrow> nat" where
  "keys_typed s = unat (key_arr_ptr s) + unat (key_arr_overflow s)"

definition key_ok :: "'a console_scheme \<Rightarrow> bool" where
  "key_ok s \<longleftrightarrow> length (key_arr s) = KEY_ARR_SIZE + 1 \<and> unat (key_arr_ptr s) \<le> KEY_ARR_SIZE - 1
     \<and> (key_arr_overflow s = 0 \<or> unat (key_arr_ptr s) = KEY_ARR_SIZE - 1)"

lemma key_push:
  assumes "key_ok s" "keys_typed s < 382"
  shows "key_ok (key_arr_push e s)" "keys_typed (key_arr_push e s) = Suc (keys_typed s)"
    "key_line (key_arr_push e s) =
       (if keys_typed s < 127 then key_line s @ [e] else key_line s)"
proof -
  have len: "length (key_arr s) = 129" using assms(1) by (simp add: key_ok_def)
  consider "unat (key_arr_ptr s) < 127" "key_arr_overflow s = 0"
    | "unat (key_arr_ptr s) = 127" "unat (key_arr_overflow s) < 255"
    using assms by (fastforce simp: key_ok_def keys_typed_def le_less)
  then have "key_ok (key_arr_push e s) \<and> keys_typed (key_arr_push e s) = Suc (keys_typed s)
      \<and> key_line (key_arr_push e s) = (if keys_typed s < 127 then key_line s @ [e] else key_line s)"
  proof cases
    case 1
    then show ?thesis using len
      by (simp add: key_arr_push_def key_ok_def keys_typed_def key_line_def u8_inc
          take_Suc_conv_app_nth)
  next
    case 2
    then show ?thesis using len
      by (simp add: key_arr_push_def key_ok_def keys_typed_def key_line_def u8_inc)
  qed
  then show "key_ok (key_arr_push e s)" "keys_typed (key_arr_push e s) = Suc (keys_typed s)"
    "key_line (key_arr_push e s) = (if keys_typed s < 127 then key_line s @ [e] else key_line s)"
    by auto
qed

lemma key_pop:
  assumes "key_ok s"
  shows "key_ok (key_arr_pop s)" "keys_typed (key_arr_pop s) = keys_typed s - 1"
    "key_line (key_arr_pop s) = take (keys_typed s - 1) (key_line s)"
proof -
  consider "key_arr_overflow s \<noteq> 0" "126 < 126 + unat (key_arr_overflow s)" "unat (key_arr_ptr s) = 127"
    | "key_arr_overflow s = 0" "key_arr_ptr s \<noteq> 0" | "key_arr_overflow s = 0" "key_arr_ptr s = 0"
    using assms unat_gt_0 [of "key_arr_overflow s"] by (auto simp: key_ok_def)
  then have "key_ok (key_arr_pop s) \<and> keys_typed (key_arr_pop s) = keys_typed s - 1
      \<and> key_line (key_arr_pop s) = take (keys_typed s - 1) (key_line s)"
  proof cases
    case 1
    then have "take (keys_typed s - 1) (key_line s) = key_line s"
      by (intro take_all) (simp add: key_line_def keys_typed_def)
    then show ?thesis using 1 assms
      by (simp add: key_arr_pop_def key_ok_def keys_typed_def key_line_def unat_dec)
  qed (use assms in \<open>auto simp: key_arr_pop_def key_ok_def keys_typed_def key_line_def unat_dec\<close>)
  then show "key_ok (key_arr_pop s)" "keys_typed (key_arr_pop s) = keys_typed s - 1"
    "key_line (key_arr_pop s) = take (keys_typed s - 1) (key_line s)" by auto
qed

lemma key_push_all:
  assumes "key_ok s" "keys_typed s + length es \<le> 382"
  shows "key_ok (fold key_arr_push es s)" "keys_typed (fold key_arr_push es s) = keys_typed s + length es"
    "key_line (fold key_arr_push es s) = take 127 (key_line s @ es)"
proof -
  have "key_ok (fold key_arr_push es s) \<and> keys_typed (fold key_arr_push es s) = keys_typed s + length es
      \<and> key_line (fold key_arr_push es s) = take 127 (key_line s @ es)"
    using assms
  proof (induction es rule: rev_induct)
    case Nil
    then show ?case by (simp add: key_line_def key_ok_def)
  next
    case (snoc e es)
    then have IH: "key_ok (fold key_arr_push es s)" "keys_typed (fold key_arr_push es s) = keys_typed s + length es"
      "key_line (fold key_arr_push es s) = take 127 (key_line s @ es)" by simp_all
    have "length (key_line s) = min (keys_typed s) 127"
      using snoc.prems(1) by (auto simp: key_line_def key_ok_def keys_typed_def min_def unsigned_eq_0_iff)
    then show ?case using key_push [OF IH(1), of e] IH(2,3) snoc.prems(2) by auto
  qed
  then show "key_ok (fold key_arr_push es s)" "keys_typed (fold key_arr_push es s) = keys_typed s + length es"
    "key_line (fold key_arr_push es s) = take 127 (key_line s @ es)" by auto
qed

lemma key_pop_all:
  assumes "key_ok s"
  shows "key_ok ((key_arr_pop ^^ n) s)" "keys_typed ((key_arr_pop ^^ n) s) = keys_typed s - n"
    "key_line ((key_arr_pop ^^ n) s) = take (keys_typed s - n) (key_line s)"
proof -
  have "key_ok ((key_arr_pop ^^ n) s) \<and> keys_typed ((key_arr_pop ^^ n) s) = keys_typed s - n
      \<and> key_line ((key_arr_pop ^^ n) s) = take (keys_typed s - n) (key_line s)"
  proof (induction n)
    case 0
    show ?case using assms by (simp add: key_line_def keys_typed_def)
  next
    case (Suc n)
    then show ?case using key_pop [of "(key_arr_pop ^^ n) s"] by (simp add: min_def)
  qed
  then show "key_ok ((key_arr_pop ^^ n) s)" "keys_typed ((key_arr_pop ^^ n) s) = keys_typed s - n"
    "key_line ((key_arr_pop ^^ n) s) = take (keys_typed s - n) (key_line s)" by auto
qed

section \<open>Properties\<close>

text \<open>A console whose screens are mapped, all cells zero and the cursor in the top left corner.\<close>

definition terminal0 :: "u8 \<Rightarrow> terminal_t" where
  "terminal0 t = \<lparr>terminal_id = t, screen_pos_x = 0, screen_pos_y = 0, key_arr_ptr_old = 0,
     key_arr_overflow_old = 0, row_stack_old = 0, column_stack_old = 0,
     key_arr_old = replicate 129 0, screen_buffer = saved_screen ! unat t\<rparr>"

definition console0 :: console where
  "console0 = \<lparr>phys = (\<lambda>_. 0), xl = (\<lambda>a. a), outs = [], dev = (\<lambda>_ _. 0), clk = 0, iflag = True,
     esp = 0x7FFFFC, ebp = 0, master_mask = 0xFF, slave_mask = 0xFF,
     screen_x = 0, screen_y = 0, row_stack = 0, column_stack = 0,
     terminal_info = map terminal0 [0, 1, 2], key_arr = replicate 129 0, key_arr_ptr = 0,
     key_arr_overflow = 0, enter_state = 0, current_terminal = 0, running_terminal = 0\<rparr>"

lemma console0_ok [simp]: "console_ok console0" "key_ok console0" "keys_typed console0 = 0"
  by (simp_all add: console0_def console_ok_def screen_mapped_def key_ok_def keys_typed_def)

lemma console0_saved [simp]: "unat t < 3 \<Longrightarrow> saved_ok t console0"
proof -
  assume "unat t < 3"
  then have "unat t = 0 \<or> unat t = 1 \<or> unat t = 2" by auto
  then show ?thesis
    by (auto simp: console0_def saved_ok_def screen_mapped_def text_ok_def saved_of_def ti_def terminal0_def)
qed

text \<open>C27. Printing a string on the visible screen with \<open>putc\<close> is printing it on the abstract
  screen: line feeds, the wrap at column 80 and scrolling at row 24 included. The cursor stays on
  the screen, and the saved screens and the bookkeeping of every terminal are untouched.\<close>

theorem putc_prints:
  assumes "console_ok s"
  shows "screen_of (fold putc cs s) = fold (text_put (cur_attrib s)) cs (screen_of s)
    \<and> console_ok (fold putc cs s)
    \<and> view 1 (fold putc cs s) = view 1 s \<and> view 2 (fold putc cs s) = view 2 s
    \<and> view 3 (fold putc cs s) = view 3 s \<and> terminal_info (fold putc cs s) = terminal_info s"
  using visible.put_all(1,2) [OF assms, of cs] put_all_visible_frame [OF assms, of 1 cs]
    put_all_visible_frame [OF assms, of 2 cs] put_all_visible_frame [OF assms, of 3 cs] by simp

theorem putc_prints_witness:
  "screen_of (fold putc [0x48, 0x69, 0x0A] console0) =
     fold (text_put 0xCE) [0x48, 0x69, 0x0A] (screen_of console0)"
proof -
  have "cur_attrib console0 = 0xCE" by (simp add: console0_def attrib_def)
  then show ?thesis using putc_prints [OF console0_ok(1), of "[0x48, 0x69, 0x0A]"] by simp
qed

text \<open>C28. Printing for a terminal in the background with \<open>putc_terminal\<close> implements the same
  abstract screen on the saved screen of that terminal, and touches neither the visible screen nor
  the screens and the bookkeeping of the other terminals.\<close>

theorem putc_terminal_prints:
  assumes "saved_ok t s"
  shows "saved_of t (fold (\<lambda>c. putc_terminal c t) cs s) = fold (text_put (attrib ! unat t)) cs (saved_of t s)
    \<and> saved_ok t (fold (\<lambda>c. putc_terminal c t) cs s)
    \<and> view 0 (fold (\<lambda>c. putc_terminal c t) cs s) = view 0 s
    \<and> (t' \<noteq> t \<longrightarrow> unat t' < 3 \<longrightarrow> saved_of t' (fold (\<lambda>c. putc_terminal c t) cs s) = saved_of t' s)"
  using saved.put_all [OF assms] put_all_saved_frame [OF assms]
  by (simp add: saved_of_def [of t'] word_unat_eq_iff)

theorem putc_terminal_prints_witness:
  "saved_of 1 (fold (\<lambda>c. putc_terminal c 1) [0x48, 0x0A] console0) =
     fold (text_put 0x8A) [0x48, 0x0A] (saved_of 1 console0)
   \<and> saved_of 2 (fold (\<lambda>c. putc_terminal c 1) [0x48, 0x0A] console0) = saved_of 2 console0"
proof -
  have "saved_ok 1 console0" by (rule console0_saved) simp
  from putc_terminal_prints [OF this, of "[0x48, 0x0A]" 2] show ?thesis by (simp add: attrib_def)
qed

text \<open>Foreground and background printing agree: a terminal whose saved screen looks like the
  visible one and has its colour looks like it after any text printed on both.\<close>

theorem foreground_background_agree:
  assumes "console_ok s" "saved_ok t s'" "saved_of t s' = screen_of s" "attrib ! unat t = cur_attrib s"
  shows "saved_of t (fold (\<lambda>c. putc_terminal c t) cs s') = screen_of (fold putc cs s)"
  using visible.put_all(1) [OF assms(1)] saved.put_all(1) [OF assms(2)] assms(3,4) by simp

theorem foreground_background_agree_witness:
  "saved_of 0 (fold (\<lambda>c. putc_terminal c 0) [0x41, 0x0A, 0x42] console0) =
     screen_of (fold putc [0x41, 0x0A, 0x42] console0)"
proof (rule foreground_background_agree)
  show "saved_ok 0 console0" by (rule console0_saved) simp
  show "saved_of 0 console0 = screen_of console0"
    by (simp add: saved_of_def screen_of_def view_def ld_def fun_eq_iff)
      (simp add: console0_def ti_def terminal0_def)
  show "attrib ! unat (0 :: u8) = cur_attrib console0" by (simp add: console0_def)
qed simp

text \<open>Backspace undoes a typed character: printing a character and pressing backspace leaves the
  cursor and every cell as they were, except that the cell at the cursor is blank. This holds on
  the last column too, where the character wraps, unless it scrolled the screen.\<close>

theorem backspace_undoes_putc:
  assumes "console_ok s" "c \<noteq> 0x0A" "c \<noteq> 0x0D" "screen_y s < 23 \<or> screen_x s < 79"
    "\<not> at_line_start (putc c s)"
  shows "screen_of (backspace_handler (putc c s)) =
    (screen_of s)\<lparr>cells := (cells (screen_of s))
       (80 * cur_y (screen_of s) + cur_x (screen_of s) := (0x20, cur_attrib s))\<rparr>"
proof -
  let ?u = "putc c s"
  have ok: "console_ok ?u" and scr: "screen_of ?u = text_put (cur_attrib s) c (screen_of s)"
    and col: "cur_attrib ?u = cur_attrib s"
    using putc_refines [OF assms(1)] by simp_all
  have wf: "text_ok (screen_of s)" by (rule visible.inv_text_ok [OF assms(1)])
  have pos: "cur_x (screen_of ?u) = 0 \<longrightarrow> wrapped (screen_of ?u) \<noteq> 0"
    using scr assms(2,3) by (auto simp: text_put_def Let_def)
  have "screen_x ?u = 0 \<longrightarrow> row_stack ?u \<noteq> 0" using pos ok by (auto simp: screen_of_def console_ok_def)
  from backspace_refines(1) [OF ok assms(5) this]
  have "screen_of (backspace_handler ?u) = text_erase (cur_attrib s) (text_put (cur_attrib s) c (screen_of s))"
    by (simp add: col scr)
  moreover have "cur_y (screen_of s) < 23 \<or> cur_x (screen_of s) < 79"
    using assms(1,4) by (auto simp: screen_of_def console_ok_def)
  ultimately show ?thesis using text_erase_put [OF wf assms(2,3)] by simp
qed

theorem backspace_undoes_putc_witness:
  "screen_of (backspace_handler (putc 0x41 console0)) =
    (screen_of console0)\<lparr>cells := (cells (screen_of console0))(0 := (0x20, 0xCE))\<rparr>"
proof -
  have start: "\<not> at_line_start (putc 0x41 console0)" and col: "cur_attrib console0 = 0xCE"
    by (simp_all add: at_line_start_def putc_def Let_def console0_def attrib_def)
  have y: "screen_y console0 < 23 \<or> screen_x console0 < 79" by (simp add: console0_def)
  have "80 * cur_y (screen_of console0) + cur_x (screen_of console0) = 0"
    by (simp add: screen_of_def console0_def)
  then show ?thesis
    using backspace_undoes_putc [OF console0_ok(1) _ _ y start] by (simp add: col)
qed

text \<open>The keyboard line: up to 382 keys can be typed and taken back. What is kept of the line is
  its first 127 characters; erasing as many keys as were typed since gives back the line.\<close>

theorem key_line_edit:
  assumes "key_ok s" "keys_typed s + length es \<le> 382"
  shows "key_line (fold key_arr_push es s) = take 127 (key_line s @ es)
    \<and> key_line ((key_arr_pop ^^ length es) (fold key_arr_push es s)) = key_line s
    \<and> key_ok ((key_arr_pop ^^ length es) (fold key_arr_push es s))"
proof -
  have "length (key_line s) = min (keys_typed s) 127"
    using assms(1) by (auto simp: key_line_def key_ok_def keys_typed_def min_def unsigned_eq_0_iff)
  then have "take (keys_typed s) (take 127 (key_line s @ es)) = key_line s"
    by (simp add: min_def)
  then show ?thesis
    using key_push_all [OF assms] key_pop_all [OF key_push_all(1) [OF assms], of "length es"] by simp
qed

theorem key_line_edit_witness:
  "key_line (fold key_arr_push [0x61, 0x62] console0) = [0x61, 0x62]
   \<and> key_line ((key_arr_pop ^^ 2) (fold key_arr_push [0x61, 0x62] console0)) = []"
proof -
  have "key_line console0 = []" by (simp add: key_line_def console0_def)
  then show ?thesis using key_line_edit [of console0 "[0x61, 0x62]"] by (simp add: numeral_2_eq_2)
qed

text \<open>The count of dropped keys is a single byte: with 255 keys dropped, typing one more and erasing it
  shortens the kept line although the keyboard line was longer than the buffer.\<close>

lemma key_overflow_wraps:
  assumes "key_ok s" "keys_typed s = 382"
  shows "key_line (key_arr_pop (key_arr_push e s)) = butlast (key_line s)
    \<and> length (key_line s) = 127"
proof -
  have *: "unat (key_arr_ptr s) = 127" "unat (key_arr_overflow s) = 255"
    using assms unat_u8_lt [of "key_arr_overflow s"] by (auto simp: key_ok_def keys_typed_def)
  have "key_arr_overflow s + 1 = 0" using *(2) by (simp add: word_unat_eq_iff unat_word_ariths)
  moreover have "key_arr_ptr s \<noteq> 0" using *(1) by auto
  ultimately show ?thesis
    using * assms(1)
    by (simp add: key_arr_push_def key_arr_pop_def key_line_def key_ok_def unat_dec butlast_take)
qed

text \<open>Backspace in column 0 of a line that started further right and has not wrapped, as after
  a line feed, takes the cursor off the screen.\<close>

lemma backspace_leaves_screen:
  assumes "screen_x s = 0" "row_stack s = 0" "column_stack s \<noteq> 0"
  shows "screen_x (backspace_handler s) = -1 \<and> \<not> console_ok (backspace_handler s)"
  using assms by (simp add: backspace_handler_def Let_def console_ok_def)

end
