(* ===== verification/FileSystem_Spec.thy ===== *)
theory FileSystem_Spec
  imports FileSystem Console_Spec
begin

text \<open>
  What the file system promises. The image in memory is read as a directory (a list of names) and a
  byte list per inode; \<open>read_data\<close> returns exactly the requested slice of that list and writes
  nothing but the buffer, and the lookup by name finds the first entry with exactly that name. The
  contract the system calls use is the locale \<open>file_store\<close>.
\<close>

section \<open>The image\<close>

definition img :: "'a fs_scheme \<Rightarrow> nat \<Rightarrow> u8" where
  "img s m = ld s (fs_addr s + word_of_nat m)"

definition img32 :: "'a fs_scheme \<Rightarrow> nat \<Rightarrow> u32" where
  "img32 s m = ld32 s (fs_addr s + word_of_nat m)"

definition fs_bytes :: "'a fs_scheme \<Rightarrow> nat" where
  "fs_bytes s = 4096 * (1 + unat (num_inodes s) + unat (num_d_blocks s))"

abbreviation inode_pos :: "nat \<Rightarrow> nat" where
  "inode_pos i \<equiv> 4096 + 4096 * i"

definition file_size :: "'a fs_scheme \<Rightarrow> nat \<Rightarrow> nat" where
  "file_size s i = unat (img32 s (inode_pos i))"

definition file_block :: "'a fs_scheme \<Rightarrow> nat \<Rightarrow> nat \<Rightarrow> nat" where
  "file_block s i k = unat (img32 s (inode_pos i + 4 + 4 * k))"

definition data_pos :: "'a fs_scheme \<Rightarrow> nat \<Rightarrow> nat" where
  "data_pos s b = 4096 + 4096 * unat (num_inodes s) + 4096 * b"

definition file_byte :: "'a fs_scheme \<Rightarrow> nat \<Rightarrow> nat \<Rightarrow> u8" where
  "file_byte s i k = img s (data_pos s (file_block s i (k div 4096)) + k mod 4096)"

definition file_content :: "'a fs_scheme \<Rightarrow> nat \<Rightarrow> u8 list" where
  "file_content s i = map (file_byte s i) [0..<file_size s i]"

lemma length_file_content [simp]: "length (file_content s i) = file_size s i"
  by (simp add: file_content_def)

text \<open>A well-formed image: the derived addresses are those of \<open>filesystem_init\<close>, the blocks of every
  file are data blocks of the image, and no directory entry has a type with a non-zero top byte.\<close>

definition file_ok :: "'a fs_scheme \<Rightarrow> nat \<Rightarrow> bool" where
  "file_ok s i \<longleftrightarrow> i + 1 < unat (num_inodes s) \<and> file_size s i \<le> 1023 * 4096
     \<and> (\<forall>k. 4096 * k < file_size s i \<longrightarrow> file_block s i k < unat (num_d_blocks s))"

definition image_ok :: "'a fs_scheme \<Rightarrow> bool" where
  "image_ok s \<longleftrightarrow> fs_bytes s \<le> 2 ^ 32 \<and> dentry_addr s = fs_addr s + 64
     \<and> inode_addr s = fs_addr s + 4096
     \<and> d_block_addr s = fs_addr s + word_of_nat (data_pos s 0)
     \<and> unat (num_dentries s) \<le> 63
     \<and> (\<forall>i < unat (num_dentries s). img s (64 + 64 * i + 35) = 0)"

text \<open>A buffer of \<open>n\<close> bytes: distinct bytes of physical memory, none of them in the image.\<close>

definition buffer_ok :: "'a fs_scheme \<Rightarrow> addr \<Rightarrow> nat \<Rightarrow> bool" where
  "buffer_ok s buf n \<longleftrightarrow> inj_on (\<lambda>i. xl s (buf + word_of_nat i)) {..<n}
     \<and> (\<forall>i < n. \<forall>m < fs_bytes s. xl s (buf + word_of_nat i) \<noteq> xl s (fs_addr s + word_of_nat m))"

section \<open>Writes to a buffer do not change the image\<close>

lemma only_phys_fs:
  assumes "only_phys s t"
  shows "fs_addr t = fs_addr s" "dentry_addr t = dentry_addr s" "inode_addr t = inode_addr s"
    "d_block_addr t = d_block_addr s" "num_dentries t = num_dentries s"
    "num_inodes t = num_inodes s" "num_d_blocks t = num_d_blocks s" "dir_location t = dir_location s"
    "xl t = xl s" "fs.more t = fs.more s"
  by (subst only_physD [OF assms], simp)+

definition same_image :: "'a fs_scheme \<Rightarrow> 'a fs_scheme \<Rightarrow> bool" where
  "same_image s t \<longleftrightarrow> fs_addr t = fs_addr s \<and> dentry_addr t = dentry_addr s \<and> inode_addr t = inode_addr s
     \<and> d_block_addr t = d_block_addr s \<and> num_dentries t = num_dentries s
     \<and> num_inodes t = num_inodes s \<and> num_d_blocks t = num_d_blocks s \<and> (\<forall>m < fs_bytes s. img t m = img s m)"

lemma same_imageD:
  assumes "same_image s t"
  shows "fs_addr t = fs_addr s" "dentry_addr t = dentry_addr s" "inode_addr t = inode_addr s"
    "d_block_addr t = d_block_addr s" "num_dentries t = num_dentries s"
    "num_inodes t = num_inodes s" "num_d_blocks t = num_d_blocks s"
    "fs_bytes t = fs_bytes s" "data_pos t b = data_pos s b"
    "m < fs_bytes s \<Longrightarrow> img t m = img s m"
  using assms by (simp_all add: same_image_def fs_bytes_def data_pos_def)

lemma same_image_trans: "same_image s t \<Longrightarrow> same_image t u \<Longrightarrow> same_image s u"
  by (simp add: same_image_def fs_bytes_def)

lemma img32_bytes:
  "img32 s m = word_of_nat (unat (img s m) + 256 * unat (img s (m + 1))
     + 65536 * unat (img s (m + 2)) + 16777216 * unat (img s (m + 3)))"
  by (simp add: img32_def img_def ld32_def algebra_simps)

lemma block_in_image: "b < unat (num_d_blocks s) \<Longrightarrow> r < 4096 \<Longrightarrow> data_pos s b + r < fs_bytes s"
  by (simp add: data_pos_def fs_bytes_def)

lemma same_image_img32: "same_image s t \<Longrightarrow> m + 3 < fs_bytes s \<Longrightarrow> img32 t m = img32 s m"
  by (simp add: img32_bytes same_imageD)

lemma write_same_image:
  assumes "buffer_ok s buf (length xs)"
  shows "same_image s (write_list buf xs s)"
  unfolding same_image_def
proof (intro conjI only_phys_fs [OF only_phys_write_list] allI impI)
  fix m assume "m < fs_bytes s"
  moreover have "fs_addr (write_list buf xs s) = fs_addr s"
    by (rule only_phys_fs [OF only_phys_write_list])
  ultimately show "img (write_list buf xs s) m = img s m"
    using assms by (simp add: img_def) (intro ld_write_list_outside, simp add: buffer_ok_def)
qed

lemma file_same_image:
  assumes "same_image s t" "file_ok s i"
  shows "file_size t i = file_size s i" "file_ok t i" "k < file_size s i \<Longrightarrow> file_byte t i k = file_byte s i k"
    "4096 * k < file_size s i \<Longrightarrow> file_block t i k = file_block s i k"
proof -
  have lt: "inode_pos i + 4095 < fs_bytes s" using assms(2) by (simp add: file_ok_def fs_bytes_def)
  show size: "file_size t i = file_size s i"
    using lt same_image_img32 [OF assms(1), of "inode_pos i"] by (simp add: file_size_def)
  have blk: "file_block t i k = file_block s i k" if "4096 * k < file_size s i" for k
  proof -
    have "k < 1023" using that assms(2) by (simp add: file_ok_def)
    then have "inode_pos i + 4 + 4 * k + 3 < fs_bytes s" using lt by simp
    then show ?thesis using same_image_img32 [OF assms(1)] by (simp add: file_block_def)
  qed
  then show "4096 * k < file_size s i \<Longrightarrow> file_block t i k = file_block s i k" .
  show "file_ok t i" using assms(2) size blk same_imageD(6,7) [OF assms(1)] by (simp add: file_ok_def)
  assume k: "k < file_size s i"
  have "4096 * (k div 4096) \<le> k" by simp
  then have k': "4096 * (k div 4096) < file_size s i" using k by linarith
  then have "file_block s i (k div 4096) < unat (num_d_blocks s)" using assms(2) by (simp add: file_ok_def)
  then have "data_pos s (file_block s i (k div 4096)) + k mod 4096 < fs_bytes s"
    by (rule block_in_image) simp
  then show "file_byte t i k = file_byte s i k"
    using blk [OF k'] same_imageD(9,10) [OF assms(1)] by (simp add: file_byte_def)
qed

lemma buffer_same_image: "same_image s t \<Longrightarrow> xl t = xl s \<Longrightarrow> buffer_ok t buf n = buffer_ok s buf n"
  by (simp add: buffer_ok_def same_imageD)

lemma buffer_mono: "buffer_ok s buf n \<Longrightarrow> m \<le> n \<Longrightarrow> buffer_ok s buf m"
  by (auto simp: buffer_ok_def intro: inj_on_subset)

lemma buffer_shift:
  assumes "buffer_ok s buf (m + n)"
  shows "buffer_ok s (buf + word_of_nat m) n"
proof -
  have "inj_on (\<lambda>i. xl s (buf + word_of_nat m + word_of_nat i)) {..<n}"
  proof (rule inj_onI)
    fix i j assume "i \<in> {..<n}" "j \<in> {..<n}"
      "xl s (buf + word_of_nat m + word_of_nat i) = xl s (buf + word_of_nat m + word_of_nat j)"
    then show "i = j"
      using assms inj_onD [of "\<lambda>i. xl s (buf + word_of_nat i)" "{..<m + n}" "m + i" "m + j"]
      by (simp add: buffer_ok_def add.assoc)
  qed
  moreover have "xl s (buf + word_of_nat m + word_of_nat i) \<noteq> xl s (fs_addr s + word_of_nat k)"
    if "i < n" "k < fs_bytes s" for i k
  proof -
    have "m + i < m + n" using that by simp
    then have "xl s (buf + word_of_nat (m + i)) \<noteq> xl s (fs_addr s + word_of_nat k)"
      using assms that(2) unfolding buffer_ok_def by blast
    then show ?thesis by (simp add: add.assoc)
  qed
  ultimately show ?thesis by (simp add: buffer_ok_def)
qed

section \<open>Copying data blocks\<close>

text \<open>The addresses that \<open>read_data\<close> computes, as positions in the image.\<close>

lemma read_block_index:
  assumes "image_ok s"
  shows "ld32 s (inode_addr s + BLOCKSIZE * inode + 4 + word_of_nat k * 4) =
    word_of_nat (file_block s (unat inode) k)"
  using assms by (simp add: image_ok_def file_block_def img32_def BLOCKSIZE_def ac_simps)

lemma block_addr:
  assumes "image_ok s"
  shows "d_block_addr s + word_of_nat b * BLOCKSIZE + word_of_nat r = fs_addr s + word_of_nat (data_pos s b + r)"
  using assms by (simp add: image_ok_def data_pos_def BLOCKSIZE_def ac_simps)

lemma read_bytes_img: "read_bytes s (fs_addr s + word_of_nat m) n = map (img s) [m..<m + n]"
  by (rule nth_equalityI) (simp_all add: img_def add.assoc)

text \<open>One piece of a file that lies in one block.\<close>

lemma file_piece:
  assumes "4096 * q + 4096 \<ge> 4096 * q + r + n"
  shows "map (img s) [data_pos s (file_block s i q) + r..<data_pos s (file_block s i q) + r + n] =
    map (file_byte s i) [4096 * q + r..<4096 * q + r + n]"
proof (rule nth_equalityI)
  fix j assume "j < length (map (img s) [data_pos s (file_block s i q) + r..<data_pos s (file_block s i q) + r + n])"
  then have j: "j < n" by simp
  then have "r + j < 4096" using assms by simp
  then have "(4096 * q + (r + j)) div 4096 = q" "(4096 * q + (r + j)) mod 4096 = r + j" by simp_all
  then show "map (img s) [data_pos s (file_block s i q) + r..<data_pos s (file_block s i q) + r + n] ! j =
      map (file_byte s i) [4096 * q + r..<4096 * q + r + n] ! j"
    using j by (simp add: file_byte_def add.assoc)
qed simp

lemma copy_piece:
  assumes "image_ok s" "file_ok s i" "buffer_ok s buf (unat n)"
    "4096 * q < file_size s i" "r + unat n \<le> 4096"
  shows "memcpy buf (d_block_addr s + word_of_nat (file_block s i q) * BLOCKSIZE + word_of_nat r) n s =
    write_list buf (map (file_byte s i) [4096 * q + r..<4096 * q + r + unat n]) s"
proof -
  let ?b = "file_block s i q"
  have b: "?b < unat (num_d_blocks s)" using assms(2,4) by (simp add: file_ok_def)
  have src: "d_block_addr s + word_of_nat ?b * BLOCKSIZE + word_of_nat r = fs_addr s + word_of_nat (data_pos s ?b + r)"
    by (rule block_addr [OF assms(1)])
  have "memcpy buf (fs_addr s + word_of_nat (data_pos s ?b + r)) n s =
      write_list buf (read_bytes s (fs_addr s + word_of_nat (data_pos s ?b + r)) (unat n)) s"
  proof (rule memcpy_write_list)
    fix j k assume jk: "j < unat n" "k < unat n"
    then have "data_pos s ?b + (r + k) < fs_bytes s" using block_in_image [OF b, of "r + k"] assms(5) by simp
    then show "xl s (buf + word_of_nat j) \<noteq> xl s (fs_addr s + word_of_nat (data_pos s ?b + r) + word_of_nat k)"
      using assms(3) jk by (simp add: buffer_ok_def) (metis (no_types, lifting) add.assoc of_nat_add)
  qed
  then show ?thesis using file_piece [of q r "unat n" s i] assms(5)
    by (simp add: src read_bytes_img del: of_nat_add)
qed

section \<open>read\_data\<close>

lemma map_upt_append: "m \<le> n \<Longrightarrow> n \<le> p \<Longrightarrow> map f [m..<n] @ map f [n..<p] = map f [m..<p]"
  by (metis le_add_diff_inverse map_append upt_add_eq_append)

lemma write_list_upt:
  assumes "m \<le> n" "n \<le> p"
  shows "write_list (buf + word_of_nat (n - m)) (map f [n..<p]) (write_list buf (map f [m..<n]) s) =
    write_list buf (map f [m..<p]) s"
  unfolding map_upt_append [OF assms, symmetric] write_list_append by simp

lemma image_same_image: "same_image s t \<Longrightarrow> image_ok s \<Longrightarrow> image_ok t"
proof -
  assume im: "same_image s t" and ok: "image_ok s"
  have "img t (64 + 64 * i + 35) = img s (64 + 64 * i + 35)" if "i < unat (num_dentries s)" for i
  proof -
    have "unat (num_dentries s) \<le> 63" using ok by (simp add: image_ok_def)
    then have "64 + 64 * i + 35 < fs_bytes s" using that by (simp add: fs_bytes_def)
    then show ?thesis by (rule same_imageD(10) [OF im])
  qed
  then show ?thesis using ok by (simp add: image_ok_def same_imageD [OF im])
qed

lemma file_block_word:
  assumes "file_ok s i" "4096 * k < file_size s i"
  shows "\<not> word_of_nat (file_block s i k) > num_d_blocks s"
proof -
  have "file_block s i k < unat (num_d_blocks s)" using assms by (simp add: file_ok_def)
  then show ?thesis using unat_of_nat_le_u32 [of "file_block s i k" "num_d_blocks s"]
    by (simp add: word_less_nat_alt)
qed

lemma read_data_loop_block:
  assumes "image_ok s" "file_ok s (unat inode)" "buffer_ok s buf (unat n)" "BLOCKSIZE < n"
    "4096 * (q + 1) + unat n \<le> file_size s (unat inode)"
    and t: "t = write_list buf (map (file_byte s (unat inode)) [4096 * (q + 1)..<4096 * (q + 1) + 4096]) s"
  shows "same_image s t" "buffer_ok t (buf + BLOCKSIZE) (unat (n - BLOCKSIZE))"
    "4096 * (q + 1 + 1) + unat (n - BLOCKSIZE) \<le> file_size s (unat inode)"
    "write_list (buf + BLOCKSIZE) (map (file_byte t (unat inode))
         [4096 * (q + 1 + 1)..<4096 * (q + 1 + 1) + unat (n - BLOCKSIZE)]) t =
       write_list buf (map (file_byte s (unat inode)) [4096 * (q + 1)..<4096 * (q + 1) + unat n]) s"
proof -
  let ?i = "unat inode"
  have n': "unat (n - BLOCKSIZE) = unat n - 4096" "4096 < unat n"
    using unat_minus_block [OF assms(4)] assms(4) by (simp_all add: BLOCKSIZE_def word_less_nat_alt)
  show same: "same_image s t"
    unfolding t by (rule write_same_image) (use assms(3) n' in \<open>simp add: buffer_mono\<close>)
  show "buffer_ok t (buf + BLOCKSIZE) (unat (n - BLOCKSIZE))"
    using buffer_shift [of s buf 4096 "unat n - 4096"] assms(3) n'
      buffer_same_image [OF same, of "buf + BLOCKSIZE"] by (simp add: t BLOCKSIZE_def)
  show end_le: "4096 * (q + 1 + 1) + unat (n - BLOCKSIZE) \<le> file_size s ?i"
    using assms(5) n' by simp
  have "map (file_byte t ?i) [4096 * (q + 1 + 1)..<4096 * (q + 1 + 1) + unat (n - BLOCKSIZE)] =
      map (file_byte s ?i) [4096 * (q + 1 + 1)..<4096 * (q + 1) + unat n]"
    using end_le n' file_same_image(3) [OF same assms(2)] by (intro map_cong) (auto simp: add.assoc)
  then show "write_list (buf + BLOCKSIZE) (map (file_byte t ?i)
         [4096 * (q + 1 + 1)..<4096 * (q + 1 + 1) + unat (n - BLOCKSIZE)]) t =
       write_list buf (map (file_byte s ?i) [4096 * (q + 1)..<4096 * (q + 1) + unat n]) s"
    unfolding t
    using write_list_upt [of "4096 * (q + 1)" "4096 * (q + 1 + 1)" "4096 * (q + 1) + unat n"] n'
    by (simp add: BLOCKSIZE_def)
qed

lemma read_data_loop_eq:
  assumes "image_ok s" "file_ok s (unat inode)" "buffer_ok s buf (unat n)"
    "4096 * (q + 1) + unat n \<le> file_size s (unat inode)"
  shows "read_data_loop (inode_addr s + BLOCKSIZE * inode + 4) (word_of_nat q) n buf r s =
    (r, write_list buf (map (file_byte s (unat inode)) [4096 * (q + 1)..<4096 * (q + 1) + unat n]) s)"
  using assms
proof (induction "unat n" arbitrary: n q buf s rule: less_induct)
  case less
  let ?i = "unat inode"
  have idx: "ld32 s (inode_addr s + BLOCKSIZE * inode + 4 + (word_of_nat q + 1) * 4) =
      word_of_nat (file_block s ?i (q + 1))"
    using read_block_index [OF less.prems(1), of inode "q + 1"] by (simp add: ac_simps)
  show ?case
  proof (cases "n = 0")
    case True
    then show ?thesis by (simp add: read_data_loop.simps)
  next
    case n0: False
    then have size: "4096 * (q + 1) < file_size s ?i" using less.prems(4) unat_gt_0 [of n] by simp
    have piece: "memcpy buf (d_block_addr s + word_of_nat (file_block s ?i (q + 1)) * BLOCKSIZE) m s =
        write_list buf (map (file_byte s ?i) [4096 * (q + 1)..<4096 * (q + 1) + unat m]) s"
      if "unat m \<le> unat n" "unat m \<le> 4096" for m
      using copy_piece [OF less.prems(1,2) buffer_mono [OF less.prems(3) that(1)] size, of 0] that(2)
      by simp
    show ?thesis
    proof (cases "n > BLOCKSIZE")
      case False
      then have "unat n \<le> 4096" by (simp add: BLOCKSIZE_def word_less_nat_alt)
      then show ?thesis
        using n0 False piece [of n] by (simp add: read_data_loop.simps Let_def idx [simplified])
    next
      case True
      then have n': "unat (n - BLOCKSIZE) < unat n" "4096 < unat n"
        using unat_minus_block [OF True] by (simp_all add: BLOCKSIZE_def word_less_nat_alt)
      define t where "t = write_list buf (map (file_byte s ?i) [4096 * (q + 1)..<4096 * (q + 1) + 4096]) s"
      note b = read_data_loop_block [OF less.prems(1-3) True less.prems(4) t_def]
      note f = file_same_image [OF b(1) less.prems(2)]
      have "read_data_loop (inode_addr t + BLOCKSIZE * inode + 4) (word_of_nat (q + 1)) (n - BLOCKSIZE)
          (buf + BLOCKSIZE) r t = (r, write_list (buf + BLOCKSIZE)
          (map (file_byte t ?i) [4096 * (q + 1 + 1)..<4096 * (q + 1 + 1) + unat (n - BLOCKSIZE)]) t)"
        by (rule less.hyps) (use n' image_same_image [OF b(1) less.prems(1)] f b in simp_all)
      moreover have "memcpy buf (d_block_addr s + word_of_nat (file_block s ?i (q + 1)) * BLOCKSIZE) BLOCKSIZE s = t"
        using piece [of BLOCKSIZE] n' by (simp add: BLOCKSIZE_def t_def)
      moreover have "inode_addr t = inode_addr s" by (rule same_imageD(3) [OF b(1)])
      moreover have "\<not> word_of_nat (file_block s ?i (q + 1)) > num_d_blocks s"
        by (rule file_block_word [OF less.prems(2) size])
      ultimately show ?thesis
        using n0 True unfolding b(4)
        by (subst read_data_loop.simps) (simp only: Let_def idx if_False if_True of_nat_add of_nat_1)
    qed
  qed
qed

lemma word_of_nat_unat: "word_of_nat (unat (w :: u32)) = w"
  by simp

lemma slice_content:
  "take l (drop m (file_content s i)) = map (file_byte s i) [m..<m + min (file_size s i - m) l]"
  by (rule nth_equalityI) (auto simp: file_content_def)

text \<open>A range that starts in block \<open>q\<close> at byte \<open>r\<close> and goes beyond it.\<close>

lemma read_across_blocks:
  assumes "image_ok s" "file_ok s (unat inode)" "buffer_ok s buf (unat n)" "m + r = 4096" "m < unat n"
    "4096 * q + r + unat n \<le> file_size s (unat inode)"
  shows "read_data_loop (inode_addr s + BLOCKSIZE * inode + 4) (word_of_nat q)
      (n - word_of_nat m) (buf + word_of_nat m) rl
      (memcpy buf (d_block_addr s + word_of_nat (file_block s (unat inode) q) * BLOCKSIZE + word_of_nat r)
         (word_of_nat m) s) =
    (rl, write_list buf (map (file_byte s (unat inode)) [4096 * q + r..<4096 * q + r + unat n]) s)"
proof -
  let ?i = "unat inode" and ?o = "4096 * q + r"
  let ?t = "write_list buf (map (file_byte s ?i) [?o..<?o + m]) s"
  have m: "unat (word_of_nat m :: u32) = m" using assms(4) by (simp add: unat_of_nat_u32)
  have bm: "buffer_ok s buf m" by (rule buffer_mono [OF assms(3)]) (use assms(5) in simp)
  have first: "memcpy buf (d_block_addr s + word_of_nat (file_block s ?i q) * BLOCKSIZE + word_of_nat r)
      (word_of_nat m) s = ?t"
    using copy_piece [OF assms(1,2), of buf "word_of_nat m" q r] bm assms(4-6) by (simp add: m)
  have same: "same_image s ?t" by (rule write_same_image) (simp add: bm)
  note f = file_same_image [OF same assms(2)]
  have left: "unat (n - word_of_nat m) = unat n - m" using assms(5) by (simp add: unat_sub_of_nat)
  have sum: "m + (unat n - m) = unat n" using assms(5) by simp
  have rest: "buffer_ok ?t (buf + word_of_nat m) (unat (n - word_of_nat m))"
    unfolding buffer_same_image [OF same xl_write_list] left by (rule buffer_shift) (simp only: sum assms(3))
  have o: "4096 * (q + 1) = ?o + m" using assms(4) by simp
  have le: "4096 * (q + 1) + unat (n - word_of_nat m) \<le> file_size ?t ?i"
    unfolding f(1) left o using assms(6) sum by linarith
  have "read_data_loop (inode_addr ?t + BLOCKSIZE * inode + 4) (word_of_nat q) (n - word_of_nat m)
      (buf + word_of_nat m) rl ?t =
      (rl, write_list (buf + word_of_nat m) (map (file_byte ?t ?i) [?o + m..<?o + unat n]) ?t)"
    using read_data_loop_eq [OF image_same_image [OF same assms(1)] f(2) rest le] sum
    by (simp only: o left add.assoc)
  moreover have "map (file_byte ?t ?i) [?o + m..<?o + unat n] = map (file_byte s ?i) [?o + m..<?o + unat n]"
    using f(3) assms(6) by (intro map_cong) auto
  moreover have "write_list (buf + word_of_nat m) (map (file_byte s ?i) [?o + m..<?o + unat n]) ?t =
      write_list buf (map (file_byte s ?i) [?o..<?o + unat n]) s"
    using write_list_upt [of ?o "?o + m" "?o + unat n"] assms(5) by simp
  ultimately show ?thesis using same_imageD(3) [OF same] by (simp only: first)
qed

text \<open>The guards of \<open>read_data\<close> pass for a file of the image and an offset in it.\<close>

lemma read_data_start:
  fixes len :: u32
  assumes "image_ok s" "file_ok s (unat inode)" "unat ofs = 4096 * q + r" "r < 4096"
    "unat ofs < file_size s (unat inode)"
  defines "n \<equiv> word_of_nat (min (file_size s (unat inode) - unat ofs) (unat len)) :: u32"
    and "src \<equiv> d_block_addr s + word_of_nat (file_block s (unat inode) q) * BLOCKSIZE + word_of_nat r"
  shows "read_data inode ofs buf len s =
    (if word_of_nat (4096 - r) \<ge> n then (n, memcpy buf src n s)
     else read_data_loop (inode_addr s + BLOCKSIZE * inode + 4) (word_of_nat q)
            (n - word_of_nat (4096 - r)) (buf + word_of_nat (4096 - r)) n
            (memcpy buf src (word_of_nat (4096 - r)) s))"
proof -
  let ?i = "unat inode" and ?size = "file_size s (unat inode)"
  have i: "Suc ?i < unat (num_inodes s)" using assms(2) by (simp add: file_ok_def)
  then have "num_inodes s \<noteq> 0" by auto
  then have small: "\<not> num_inodes s - 1 \<le> inode" using i by (simp add: word_le_nat_alt unat_dec)
  have size: "ld32 s (inode_addr s + BLOCKSIZE * inode) = word_of_nat ?size"
    using assms(1) by (simp add: file_size_def img32_def image_ok_def BLOCKSIZE_def ac_simps)
  have size': "unat (word_of_nat ?size :: u32) = ?size" by (simp add: file_size_def)
  have "unat (word_of_nat ?size - ofs) = ?size - unat ofs"
    using assms(5) unat_sub_of_nat [of "unat ofs" "word_of_nat ?size :: u32"] size' by simp
  moreover have "unat n = min (?size - unat ofs) (unat len)"
    unfolding n_def by (rule unat_of_nat_le_u32 [of _ len]) simp
  ultimately have rl: "(if word_of_nat ?size - ofs < len then word_of_nat ?size - ofs else len) = n"
    unfolding word_unat_eq_iff by (simp add: word_less_nat_alt)
  have "unat ofs div 4096 = q" "unat ofs mod 4096 = r" using assms(3,4) by simp_all
  then have ofs: "ofs div BLOCKSIZE = word_of_nat q" "ofs mod BLOCKSIZE = word_of_nat r"
    unfolding word_unat_eq_iff BLOCKSIZE_def using assms(3) unat_u32_lt [of ofs]
    by (simp_all add: unat_div_distrib unat_mod_distrib unat_of_nat_u32)
  have r: "BLOCKSIZE - word_of_nat r = word_of_nat (4096 - r)"
    using assms(4) by (simp add: BLOCKSIZE_def of_nat_diff)
  have "\<not> word_of_nat ?size \<le> ofs" using assms(5) size' by (simp add: word_le_nat_alt)
  moreover have "4096 * q < ?size" using assms(3,5) by simp
  ultimately show ?thesis
    using small file_block_word [OF assms(2), of q]
    by (simp only: read_data_def Let_def size if_False rl ofs r src_def [symmetric]
        read_block_index [OF assms(1)])
qed

lemma read_data_eq:
  assumes "image_ok s" "file_ok s (unat inode)"
    "buffer_ok s buf (min (file_size s (unat inode) - unat ofs) (unat len))"
  shows "read_data inode ofs buf len s =
    (word_of_nat (min (file_size s (unat inode) - unat ofs) (unat len)),
     write_list buf (take (unat len) (drop (unat ofs) (file_content s (unat inode)))) s)"
proof (cases "unat ofs < file_size s (unat inode)")
  case False
  have i: "Suc (unat inode) < unat (num_inodes s)" using assms(2) by (simp add: file_ok_def)
  then have "num_inodes s \<noteq> 0" by auto
  then have small: "\<not> num_inodes s - 1 \<le> inode" using i by (simp add: word_le_nat_alt unat_dec)
  moreover have "ld32 s (inode_addr s + BLOCKSIZE * inode) \<le> ofs"
    using False assms(1) by (simp add: file_size_def img32_def image_ok_def BLOCKSIZE_def word_le_nat_alt ac_simps)
  ultimately show ?thesis using False by (simp add: read_data_def Let_def slice_content)
next
  case True
  define q r m where "q = unat ofs div 4096" and "r = unat ofs mod 4096" and "m = 4096 - r"
  define n :: u32 where "n = word_of_nat (min (file_size s (unat inode) - unat ofs) (unat len))"
  have o: "unat ofs = 4096 * q + r" "r < 4096" "m + r = 4096" by (simp_all add: q_def r_def m_def)
  have n: "unat n = min (file_size s (unat inode) - unat ofs) (unat len)"
    unfolding n_def by (rule unat_of_nat_le_u32 [of _ len]) simp
  have end_le: "4096 * q + r + unat n \<le> file_size s (unat inode)" using True n o(1) by simp
  have mw: "unat (word_of_nat m :: u32) = m" using o(3) by (simp add: unat_of_nat_u32)
  note start = read_data_start [OF assms(1,2) o(1,2) True, of buf len, folded n_def m_def]
  have buf: "buffer_ok s buf (unat n)" using assms(3) n by simp
  show ?thesis
  proof (cases "unat n \<le> m")
    case le: True
    then have "4096 * q < file_size s (unat inode)" "r + unat n \<le> 4096" using True o by simp_all
    then show ?thesis
      using copy_piece [OF assms(1,2) buf, of q r] le
      by (simp only: start slice_content n [symmetric] word_of_nat_unat)
        (simp add: o(1) word_le_nat_alt mw)
  next
    case False
    then show ?thesis
      using read_across_blocks [OF assms(1,2) buf o(3) _ end_le]
      by (simp only: start slice_content n [symmetric] word_of_nat_unat)
        (simp add: o(1) word_le_nat_alt mw)
  qed
qed

section \<open>Directory lookup\<close>

definition entry_addr :: "'a fs_scheme \<Rightarrow> nat \<Rightarrow> addr" where
  "entry_addr s i = fs_addr s + word_of_nat (64 + 64 * i)"

definition entry_name :: "'a fs_scheme \<Rightarrow> nat \<Rightarrow> u8 list" where
  "entry_name s i = cstring (read_bytes s (entry_addr s i) 32)"

text \<open>The specification of the lookup: the first entry with that name.\<close>

definition lookup :: "'a fs_scheme \<Rightarrow> u8 list \<Rightarrow> dentry_t option" where
  "lookup s name =
     map_option (\<lambda>i. dentry_at s (entry_addr s i)) (find (\<lambda>i. entry_name s i = name) [0..<unat (num_dentries s)])"

lemma entry_same_image:
  assumes "same_image s t" "image_ok s" "i < unat (num_dentries s)"
  shows "entry_name t i = entry_name s i" "dentry_at t (entry_addr t i) = dentry_at s (entry_addr s i)"
proof -
  have byte: "ld u (entry_addr u i + word_of_nat j) = img u (64 + 64 * i + j)" for u :: "'a fs_scheme" and j
    by (simp add: img_def entry_addr_def add.assoc)
  have word: "ld32 u (entry_addr u i + word_of_nat j) = img32 u (64 + 64 * i + j)" for u :: "'a fs_scheme" and j
    by (simp add: img32_def entry_addr_def add.assoc)
  have inside: "64 + 64 * i + 40 < fs_bytes s" using assms(2,3) by (simp add: image_ok_def fs_bytes_def)
  have bytes: "read_bytes t (entry_addr t i) 32 = read_bytes s (entry_addr s i) 32"
    by (rule read_bytes_eqI, unfold byte, rule same_imageD(10) [OF assms(1)]) (use inside in simp)
  then show "entry_name t i = entry_name s i" by (simp add: entry_name_def)
  have "ld32 t (entry_addr t i + word_of_nat 32) = ld32 s (entry_addr s i + word_of_nat 32)"
    "ld32 t (entry_addr t i + word_of_nat 36) = ld32 s (entry_addr s i + word_of_nat 36)"
    unfolding word by (rule same_image_img32 [OF assms(1)]; use inside in simp)+
  then show "dentry_at t (entry_addr t i) = dentry_at s (entry_addr s i)" using bytes by (simp add: dentry_at_def)
qed

lemma lookup_same_image:
  assumes "same_image s t" "image_ok s"
  shows "lookup t name = lookup s name"
proof -
  note name = entry_same_image(1) [OF assms] and entry = entry_same_image(2) [OF assms]
  have find: "find P xs = find Q xs" if "\<And>x. x \<in> set xs \<Longrightarrow> P x = Q x" for P Q :: "nat \<Rightarrow> bool" and xs
    using that by (induction xs) auto
  have same: "find (\<lambda>i. entry_name t i = name) [0..<unat (num_dentries s)] = find (\<lambda>i. entry_name s i = name) [0..<unat (num_dentries s)]"
    by (rule find) (simp add: name)
  show ?thesis
  proof (cases "find (\<lambda>i. entry_name s i = name) [0..<unat (num_dentries s)]")
    case None
    then show ?thesis using same by (simp add: lookup_def same_imageD(5) [OF assms(1)])
  next
    case (Some i)
    then have "i < unat (num_dentries s)" by (auto simp: find_Some_iff)
    then show ?thesis using same Some entry by (simp add: lookup_def same_imageD(5) [OF assms(1)])
  qed
qed

lemma cstring_take_eq: "cstring (take n xs) = take n (cstring xs)"
  by (induction xs arbitrary: n) (auto simp: take_Cons split: nat.splits)

lemma cstring_nonzero: "0 \<notin> set xs \<Longrightarrow> cstring xs = xs"
  by (induction xs) auto

lemma cstr_read_bytes: "cstr s p n \<Longrightarrow> cstring (read_bytes s p n) = read_bytes s p n"
  by (rule cstring_nonzero) (auto simp: cstr_def read_bytes_def)

lemma cstr_short:
  assumes "k = length (cstring (read_bytes s a n))" "k < n"
  shows "cstr s a k"
proof -
  have "ld s (a + word_of_nat i) \<noteq> 0" if "i < k" for i
    using cstring_go [of i "read_bytes s a n"] that assms by simp
  moreover have "ld s (a + word_of_nat k) = 0"
    using cstring_stop [of k "read_bytes s a n"] assms by simp
  ultimately show ?thesis by (simp add: cstr_def)
qed

lemma cstr_exists:
  assumes "ld s (a + word_of_nat n) = 0"
  shows "\<exists>m \<le> n. cstr s a m"
proof -
  let ?m = "LEAST m. ld s (a + word_of_nat m) = 0"
  have "ld s (a + word_of_nat ?m) = 0" using assms by (rule LeastI)
  moreover have "?m \<le> n" using assms by (rule Least_le)
  ultimately show ?thesis using not_less_Least [of _ "\<lambda>m. ld s (a + word_of_nat m) = 0"]
    unfolding cstr_def by blast
qed

lemma same_name_eq:
  assumes fname: "cstr s fname n" "n \<le> 32" and top: "ld s (a + 35) = 0"
  shows "same_name fname (word_of_nat n) a s = Some (cstring (read_bytes s a 32) = read_bytes s fname n)"
proof -
  let ?E = "read_bytes s a 32" and ?N = "read_bytes s fname n"
  define k where "k = length (cstring ?E)"
  have k32: "k \<le> 32" using length_cstring_le [of ?E] by (simp add: k_def)
  have n: "unat (word_of_nat n :: u32) = n" using fname(2) by (simp add: unat_of_nat_u32)
  have "take n ?E = read_bytes s a n"
    using fname(2) by (intro nth_equalityI) simp_all
  then have cmp: "strncmp s fname a (word_of_nat n) = 0 \<longleftrightarrow> ?N = take n (cstring ?E)"
    using cstring_take_eq [of n ?E] cstr_read_bytes [OF fname(1)] by (simp add: strncmp_0_iff n)
  obtain m where m: "cstr s a m" "m \<le> 35" using cstr_exists [of s a 35] top by auto
  have mk: "m = k \<or> 32 \<le> m \<and> k = 32"
  proof (cases "k < 32")
    case True
    then have "cstr s a k" by (intro cstr_short [of _ _ _ 32]) (simp_all add: k_def)
    then have "m = k" using m(1) unfolding cstr_def by (metis linorder_neqE_nat)
    then show ?thesis by simp
  next
    case False
    then have "ld s (a + word_of_nat i) \<noteq> 0" if "i < 32" for i
      using cstring_go [of i ?E] that by (simp add: k_def)
    then have "32 \<le> m" using m(1) by (metis cstr_def not_le)
    then show ?thesis using False k32 by simp
  qed
  have m': "unat (word_of_nat m :: u32) = m" using m(2) by (simp add: unat_of_nat_u32)
  have len: "strlen s fname = Some (word_of_nat n)" "strlen s a = Some (word_of_nat m)"
    using fname(1) m(1) by (simp_all add: strlen_cstr)
  have eq: "(word_of_nat n :: u32) = word_of_nat m \<longleftrightarrow> n = m" using n m' by metis
  have "(?N = take n (cstring ?E) \<and> (n = 32 \<and> 32 \<le> m \<or> n = m)) \<longleftrightarrow> cstring ?E = ?N"
  proof
    assume "?N = take n (cstring ?E) \<and> (n = 32 \<and> 32 \<le> m \<or> n = m)"
    moreover from this have "k \<le> n" using mk k32 by auto
    ultimately show "cstring ?E = ?N" by (simp add: k_def)
  next
    assume E: "cstring ?E = ?N"
    then have "k = n" by (simp add: k_def)
    then show "?N = take n (cstring ?E) \<and> (n = 32 \<and> 32 \<le> m \<or> n = m)" using mk by (auto simp: E)
  qed
  note iff = this
  have ge: "(32 :: u32) \<le> word_of_nat n \<longleftrightarrow> n = 32" "(32 :: u32) \<le> word_of_nat m \<longleftrightarrow> 32 \<le> m"
    using n m' fname(2) by (auto simp: word_le_nat_alt)
  show ?thesis
    unfolding same_name_def Let_def cmp len bind.bind_lunit eq ge iff [symmetric] by auto
qed

lemma dentry_loop_eq:
  assumes "image_ok s" "cstr s fname n" "n \<le> 32" "i \<le> unat (num_dentries s)"
  shows "dentry_loop fname (word_of_nat n) (word_of_nat i) (entry_addr s i) s =
    Some (case find (\<lambda>i. entry_name s i = read_bytes s fname n) [i..<unat (num_dentries s)] of
            None \<Rightarrow> (-1, None) | Some j \<Rightarrow> (0, Some (dentry_at s (entry_addr s j))))"
  using assms(4)
proof (induction "unat (num_dentries s) - i" arbitrary: i)
  case 0
  then have "unat (num_dentries s) = i" by simp
  then show ?case using unat_of_nat_le_u32 [of i "num_dentries s"]
    by (simp add: dentry_loop.simps word_less_nat_alt)
next
  case (Suc x)
  then have i: "i < unat (num_dentries s)" by simp
  have "ld s (entry_addr s i + 35) = img s (64 + 64 * i + 35)"
    by (simp add: entry_addr_def img_def ac_simps)
  also have "\<dots> = 0" using assms(1) i by (simp add: image_ok_def)
  finally have same: "same_name fname (word_of_nat n) (entry_addr s i) s =
      Some (entry_name s i = read_bytes s fname n)"
    using same_name_eq [OF assms(2,3)] by (simp add: entry_name_def)
  have nxt: "entry_addr s i + ENTRY_OFFSET = entry_addr s (Suc i)"
    by (simp add: entry_addr_def ENTRY_OFFSET_def ac_simps)
  have lt: "word_of_nat i < num_dentries s"
    using i unat_of_nat_le_u32 [of i "num_dentries s"] by (simp add: word_less_nat_alt)
  have "dentry_loop fname (word_of_nat n) (word_of_nat (Suc i)) (entry_addr s (Suc i)) s =
      Some (case find (\<lambda>i. entry_name s i = read_bytes s fname n) [Suc i..<unat (num_dentries s)] of
              None \<Rightarrow> (-1, None) | Some j \<Rightarrow> (0, Some (dentry_at s (entry_addr s j))))"
    by (rule Suc.hyps(1)) (use Suc.hyps(2) i in simp_all)
  then show ?case using lt i same nxt
    by (subst dentry_loop.simps) (simp add: upt_conv_Cons add.commute)
qed

lemma read_dentry_by_name_eq:
  assumes "image_ok s" "cstr s fname n" "n < 2 ^ 32"
  shows "read_dentry_by_name fname s =
    Some (if n > 32 then (-1, None)
          else case lookup s (read_bytes s fname n) of None \<Rightarrow> (-1, None) | Some d \<Rightarrow> (0, Some d))"
proof -
  have n: "unat (word_of_nat n :: u32) = n" using assms(3) by (simp add: unat_of_nat_u32)
  have "dentry_addr s = entry_addr s 0" using assms(1) by (simp add: image_ok_def entry_addr_def)
  then show ?thesis
    using dentry_loop_eq [OF assms(1,2), of 0] n
    by (auto simp: read_dentry_by_name_def strlen_cstr [OF assms(2)] F_TYPE_OFFSET_def word_less_nat_alt
        lookup_def split: option.splits)
qed

section \<open>Listing the directory\<close>

text \<open>The three loops of \<open>dir_read\<close> write consecutive bytes.\<close>

lemma for_loop_write_list:
  assumes "a \<le> b"
  shows "for_loop a b (\<lambda>i s. st (buf + word_of_nat i) (f i) s) s =
    write_list (buf + word_of_nat a) (map f [a..<b]) s"
  using assms
proof (induction b rule: nat_induct_at_least)
  case (Suc b)
  then show ?case
    by (simp add: for_loop_last write_list_append of_nat_diff)
qed simp

lemma strncpy_local_eq:
  "strncpy_local dst src n s =
    write_list dst (take n (cstring src) @ replicate (n - length (cstring src)) 0) s"
proof -
  let ?k = "length (cstring (take n src))"
  have k: "?k \<le> n" "?k \<le> length src" using length_cstring_le [of "take n src"] by simp_all
  have copied: "map ((!) src) [0..<?k] = take n (cstring src)"
  proof -
    have "map ((!) src) [0..<?k] = take ?k src"
      using k by (intro nth_equalityI) simp_all
    also have "\<dots> = take ?k (take n src)" using k(1) by simp
    also have "\<dots> = cstring (take n src)" by (rule cstring_eq_take [symmetric])
    finally show ?thesis by (simp add: cstring_take_eq)
  qed
  have pad: "map (\<lambda>_. 0) [?k..<n] = replicate (n - length (cstring src)) (0 :: u8)"
    by (simp add: map_replicate_const cstring_take_eq min_def)
  have "strncpy_local dst src n s =
      write_list (dst + word_of_nat ?k) (map (\<lambda>_. 0) [?k..<n]) (write_list dst (map ((!) src) [0..<?k]) s)"
    using for_loop_write_list [OF k(1), of dst "\<lambda>_. 0"] for_loop_write_list [of 0 ?k dst "(!) src" s]
    by (simp add: strncpy_local_def Let_def)
  then show ?thesis unfolding copied pad
    by (simp only: write_list_append) (simp add: cstring_take_eq)
qed

lemma cstring_append_nonzero: "0 \<notin> set xs \<Longrightarrow> cstring (xs @ ys) = xs @ cstring ys"
  by (induction xs) auto

lemma cstring_append_zero: "0 \<in> set xs \<Longrightarrow> cstring (xs @ ys) = cstring xs"
  by (induction xs) auto

text \<open>For a name shorter than 32 bytes the search stops inside the name field.\<close>

lemma dentry_bytes_name:
  assumes "length (cstring (f_name d)) < length (f_name d)"
  shows "0 \<in> set (dentry_bytes d)" "cstring (dentry_bytes d) = cstring (f_name d)"
proof -
  have zero: "0 \<in> set (f_name d)"
    by (rule ccontr) (use assms cstring_nonzero [of "f_name d"] in simp)
  then show "0 \<in> set (dentry_bytes d)" by (simp add: dentry_bytes_def)
  show "cstring (dentry_bytes d) = cstring (f_name d)"
    unfolding dentry_bytes_def by (rule cstring_append_zero [OF zero])
qed

lemma dir_read_entry:
  assumes "image_ok s" "dir_location s < num_dentries s"
    and short: "length (entry_name s (unat (dir_location s))) < 32"
  defines "name \<equiv> entry_name s (unat (dir_location s))"
  shows "dir_read fd buf nbytes s =
    Some (word_of_nat (min (unat nbytes) (length name)),
      write_list buf (take (unat nbytes) name)
        (write_list buf (replicate 32 0) s)\<lparr>dir_location := dir_location s + 1\<rparr>)"
proof -
  let ?d = "dentry_at s (dentry_addr s + dir_location s * ENTRY_OFFSET)"
  have a: "dentry_addr s + dir_location s * ENTRY_OFFSET = entry_addr s (unat (dir_location s))"
    using assms(1) by (simp add: image_ok_def entry_addr_def ENTRY_OFFSET_def)
  have fname: "cstring (f_name ?d) = name" "length (f_name ?d) = 32"
    by (simp_all add: dentry_at_def a name_def entry_name_def)
  have bytes: "0 \<in> set (dentry_bytes ?d)" "cstring (dentry_bytes ?d) = name"
    using dentry_bytes_name [of ?d] fname short by (simp_all add: name_def)
  have ln: "unat (word_of_nat (length name) :: u32) = length name"
    using short by (simp add: name_def unat_of_nat_u32)
  let ?n = "min (unat nbytes) (length name)"
  have len: "(if nbytes < word_of_nat (length name) then nbytes else word_of_nat (length name)) = word_of_nat ?n"
    using ln by (auto simp: word_less_nat_alt min_def)
  have n: "unat (word_of_nat ?n :: u32) = ?n" by (rule unat_of_nat_le_u32 [of _ nbytes]) simp
  have "length (dentry_bytes ?d) \<ge> length name" using length_cstring_le [of "dentry_bytes ?d"] bytes by simp
  then have cpy: "strncpy_local buf (dentry_bytes ?d) ?n u = write_list buf (take (unat nbytes) name) u" for u :: "'a fs_scheme"
    by (subst strncpy_local_eq) (simp_all add: bytes min_def)
  have clear: "for_loop 0 32 (\<lambda>i s. st (buf + word_of_nat i) 0 s) s = write_list buf (replicate 32 0) s"
    using for_loop_write_list [of 0 32 buf "\<lambda>_. 0" s] by (simp add: map_replicate_const)
  have loc: "dir_location (write_list buf xs (write_list buf ys s)) = dir_location s" for xs ys
    by (simp add: only_phys_fs [OF only_phys_write_list])
  have entry: "read_dentry_by_index (dir_location s) s = (0, Some ?d)"
    using assms(2) by (simp add: read_dentry_by_index_def not_le [symmetric])
  show ?thesis
    unfolding dir_read_def entry prod.case option.case Let_def bytes(2) len n clear cpy loc
    using bytes(1) by simp
qed

section \<open>The contract of a file store\<close>

text \<open>Reading a file piece by piece, advancing the position by what each read returned, as
  \<open>file_read\<close> does with \<open>file_pos\<close>; the result is what each read left in the buffer.\<close>

primrec read_chunks ::
  "(u32 \<Rightarrow> u32 \<Rightarrow> addr \<Rightarrow> u32 \<Rightarrow> 's \<Rightarrow> i32 \<times> 's) \<Rightarrow> ('s \<Rightarrow> addr \<Rightarrow> nat \<Rightarrow> u8 list)
   \<Rightarrow> u32 \<Rightarrow> addr \<Rightarrow> u32 list \<Rightarrow> u32 \<Rightarrow> 's \<Rightarrow> u8 list list" where
  "read_chunks rd bytes i buf [] pos s = []"
| "read_chunks rd bytes i buf (l # ls) pos s =
     (let (n, s') = rd i pos buf l s
      in bytes s' buf (unat n) # read_chunks rd bytes i buf ls (pos + n) s')"

locale file_store =
  fixes rd :: "u32 \<Rightarrow> u32 \<Rightarrow> addr \<Rightarrow> u32 \<Rightarrow> 's \<Rightarrow> i32 \<times> 's"
    and bytes :: "'s \<Rightarrow> addr \<Rightarrow> nat \<Rightarrow> u8 list"
    and content :: "'s \<Rightarrow> nat \<Rightarrow> u8 list"
    and stored :: "'s \<Rightarrow> nat \<Rightarrow> bool"
    and room :: "'s \<Rightarrow> addr \<Rightarrow> nat \<Rightarrow> bool"
  assumes rd_slice: "stored s (unat i) \<Longrightarrow> room s buf (unat l) \<Longrightarrow> rd i pos buf l s = (n, s') \<Longrightarrow>
      bytes s' buf (unat n) = take (unat l) (drop (unat pos) (content s (unat i)))
      \<and> unat n = length (take (unat l) (drop (unat pos) (content s (unat i))))"
    and rd_keeps: "stored s (unat i) \<Longrightarrow> room s buf (unat l) \<Longrightarrow> rd i pos buf l s = (n, s') \<Longrightarrow>
      stored s' (unat i) \<and> content s' (unat i) = content s (unat i)
      \<and> (\<forall>b m. room s' b m = room s b m)"
    and content_bound: "stored s j \<Longrightarrow> length (content s j) < 2 ^ 32"
begin

lemma chunks_content:
  assumes "stored s (unat i)" "\<And>l. l \<in> set ls \<Longrightarrow> room s buf (unat l)"
    "unat pos \<le> length (content s (unat i))"
  shows "concat (read_chunks rd bytes i buf ls pos s) =
    take (sum_list (map unat ls)) (drop (unat pos) (content s (unat i)))"
  using assms
proof (induction ls arbitrary: pos s)
  case (Cons l ls)
  obtain n s' where rd: "rd i pos buf l s = (n, s')" by fastforce
  let ?c = "content s (unat i)"
  have slice: "bytes s' buf (unat n) = take (unat l) (drop (unat pos) ?c)
      \<and> unat n = length (take (unat l) (drop (unat pos) ?c))"
    by (rule rd_slice [OF Cons.prems(1) Cons.prems(2) rd]) simp
  note keeps = rd_keeps [OF Cons.prems(1) Cons.prems(2) rd, simplified]
  have le: "unat pos + unat n \<le> length ?c" using slice Cons.prems(3) by simp
  then have "unat (pos + n) = unat pos + unat n"
    using content_bound [OF Cons.prems(1)] by (simp add: unat_word_ariths)
  moreover from this have "concat (read_chunks rd bytes i buf ls (pos + n) s') =
      take (sum_list (map unat ls)) (drop (unat (pos + n)) ?c)"
    using Cons.IH [of s' "pos + n"] keeps Cons.prems(2) le by simp
  moreover have "drop (unat pos + unat n) ?c = drop (unat l) (drop (unat pos) ?c)"
    using slice by (cases "unat l \<le> length ?c - unat pos") (auto simp: add.commute)
  ultimately show ?case using rd conjunct1 [OF slice] by (simp add: take_add)
qed simp

end

definition valid_file :: "'a fs_scheme \<Rightarrow> nat \<Rightarrow> bool" where
  "valid_file s i \<longleftrightarrow> image_ok s \<and> file_ok s i"

lemma content_same_image:
  "same_image s t \<Longrightarrow> file_ok s i \<Longrightarrow> file_content t i = file_content s i"
  by (simp add: file_content_def file_same_image)

interpretation disk: file_store read_data read_bytes file_content valid_file buffer_ok
proof
  fix s s' :: "'a fs_scheme" and i l pos n buf
  assume fileI: "valid_file s (unat i)" and room: "buffer_ok s buf (unat l)"
    and rd: "read_data i pos buf l s = (n, s')"
  let ?xs = "take (unat l) (drop (unat pos) (file_content s (unat i)))"
  have buf: "buffer_ok s buf (length ?xs)" by (rule buffer_mono [OF room]) simp
  have n: "n = word_of_nat (length ?xs)" and s': "s' = write_list buf ?xs s"
    using read_data_eq [of s i buf pos l] fileI buf rd by (auto simp: valid_file_def)
  have "unat n = length ?xs" unfolding n by (rule unat_of_nat_le_u32 [of _ l]) simp
  moreover have "read_bytes (write_list buf ?xs s) buf (length ?xs) = ?xs"
    by (rule read_write_list) (use buf in \<open>simp add: buffer_ok_def\<close>)
  ultimately show "read_bytes s' buf (unat n) = ?xs \<and> unat n = length ?xs" by (simp only: s')
  have same: "same_image s s'" unfolding s' by (rule write_same_image [OF buf])
  then show "valid_file s' (unat i) \<and> file_content s' (unat i) = file_content s (unat i)
      \<and> (\<forall>b m. buffer_ok s' b m = buffer_ok s b m)"
    using fileI image_same_image [OF same] file_same_image(2) [OF same] content_same_image [OF same]
    by (simp add: valid_file_def buffer_same_image s')
next
  fix s :: "'a fs_scheme" and i
  assume "valid_file s i"
  then show "length (file_content s i) < 2 ^ 32"
    by (simp add: valid_file_def file_ok_def file_content_def)
qed

section \<open>Properties\<close>

text \<open>A concrete image at 4 MB: one directory entry, three inodes, two data blocks, and a file of three
  bytes.\<close>

definition disk0 :: "u32 \<Rightarrow> u8" where
  "disk0 a = (case map_of [(0x400000, 1), (0x400004, 3), (0x400008, 2),
      (0x400040, 0x61), (0x400041, 0x62), (0x400060, 2), (0x400064, 1),
      (0x402000, 3), (0x402004, 1), (0x405000, 0x68), (0x405001, 0x69), (0x405002, 0x21),
      (0x8000000, 0x61), (0x8000001, 0x62)] a of
      Some v \<Rightarrow> v | None \<Rightarrow> 0)"

definition fs0 :: fs where
  "fs0 = filesystem_init 0x400000 (console.extend (console0\<lparr>phys := disk0\<rparr>) (fs.fields 0 0 0 0 0 0 0 0))"

lemma fs0_ld: "ld fs0 a = disk0 a"
  by (simp add: fs0_def filesystem_init_def Let_def console0_def console.defs fs.defs ld_def)

lemma fs0_ld32: "ld32 fs0 a = word_of_nat (unat (disk0 a) + 256 * unat (disk0 (a + 1))
    + 65536 * unat (disk0 (a + 2)) + 16777216 * unat (disk0 (a + 3)))"
  by (simp only: ld32_def fs0_ld)

lemma fs0_fields [simp]:
  "fs_addr fs0 = 0x400000" "num_dentries fs0 = 1" "num_inodes fs0 = 3" "num_d_blocks fs0 = 2"
  "dentry_addr fs0 = 0x400040" "inode_addr fs0 = 0x401000" "d_block_addr fs0 = 0x404000"
  "dir_location fs0 = 0" "xl fs0 = (\<lambda>a. a)" "current_terminal fs0 = 0"
  "running_terminal fs0 = 0" "esp fs0 = 0x7FFFFC"
  by (simp_all add: fs0_def filesystem_init_def Let_def console0_def console.defs fs.defs ld_def
      ld32_def disk0_def ENTRY_OFFSET_def BLOCKSIZE_def)

lemma fs0_ok: "valid_file fs0 1" "file_size fs0 1 = 3" "file_content fs0 1 = [0x68, 0x69, 0x21]"
proof -
  show size: "file_size fs0 1 = 3"
    by (simp add: file_size_def img32_def fs0_ld32 disk0_def)
  have block: "file_block fs0 1 0 = 1" by (simp add: file_block_def img32_def fs0_ld32 disk0_def)
  have "file_block fs0 1 k < 2" if "4096 * k < 3" for k
    using that block by (cases k) simp_all
  then have "file_ok fs0 1" using size by (simp add: file_ok_def)
  moreover have "image_ok fs0"
    by (simp add: image_ok_def fs_bytes_def data_pos_def img_def fs0_ld disk0_def)
  ultimately show "valid_file fs0 1" by (simp add: valid_file_def)
  show "file_content fs0 1 = [0x68, 0x69, 0x21]"
  proof -
    have "[0..<3] = [0, 1, 2 :: nat]" by (simp add: upt_rec)
    then show ?thesis
      unfolding file_content_def size using block
      by (simp add: file_byte_def img_def fs0_ld data_pos_def disk0_def)
  qed
qed

lemma fs0_name: "entry_name fs0 0 = [0x61, 0x62]"
proof -
  have "read_bytes fs0 0x400040 32 = read_bytes fs0 0x400040 3 @ read_bytes fs0 0x400043 29"
    using read_bytes_append [of fs0 "0x400040" 3 29] by simp
  moreover have "read_bytes fs0 0x400040 3 = [0x61, 0x62, 0]"
    by (simp add: read_bytes_def fs0_ld disk0_def upt_rec)
  ultimately show ?thesis by (simp add: entry_name_def entry_addr_def)
qed

lemma fs0_buffer: "n \<le> 4096 \<Longrightarrow> buffer_ok fs0 0x8000100 n"
proof -
  assume n: "n \<le> 4096"
  have off: "unat ((0x8000100 :: u32) + word_of_nat i) = 0x8000100 + i" if "i < 4096" for i
    using unat_add_small [of "0x8000100 :: u32" i] that by simp
  have img: "unat ((0x400000 :: u32) + word_of_nat m) = 0x400000 + m" if "m < 24576" for m
    using unat_add_small [of "0x400000 :: u32" m] that by simp
  have "(0x8000100 :: u32) + word_of_nat i \<noteq> 0x400000 + word_of_nat m" if "i < n" "m < 24576" for i m
  proof
    assume "(0x8000100 :: u32) + word_of_nat i = 0x400000 + word_of_nat m"
    then have "unat ((0x8000100 :: u32) + word_of_nat i) = unat ((0x400000 :: u32) + word_of_nat m)"
      by (rule arg_cong)
    then have "0x8000100 + i = 0x400000 + m" using that n by (simp only: off img)
    then show False using that by simp
  qed
  moreover have "inj_on (\<lambda>i. (0x8000100 :: u32) + word_of_nat i) {..<n}"
    by (rule inj_onI, subst (asm) word_add_of_nat_eq_iff) (use n in auto)
  ultimately show ?thesis by (simp add: buffer_ok_def fs_bytes_def)
qed

text \<open>C1. \<open>read_data\<close> on a file of a well-formed image, with a buffer outside the image, returns the
  number of bytes between the offset and the end of the file, at most \<open>len\<close>; the buffer then
  holds exactly these bytes of the file, whatever number of blocks they span; every other byte of
  memory and the rest of the state are unchanged. At or past the end of the file it returns 0.\<close>

theorem read_data_slice:
  assumes "valid_file s (unat inode)" "buffer_ok s buf (unat len)"
    "read_data inode ofs buf len s = (n, s')"
  shows "unat n = min (file_size s (unat inode) - unat ofs) (unat len)
    \<and> read_bytes s' buf (unat n) = take (unat len) (drop (unat ofs) (file_content s (unat inode)))
    \<and> (\<forall>p. (\<forall>i < unat n. xl s (buf + word_of_nat i) \<noteq> p) \<longrightarrow> phys s' p = phys s p)
    \<and> s' = s\<lparr>phys := phys s'\<rparr>"
proof -
  let ?xs = "take (unat len) (drop (unat ofs) (file_content s (unat inode)))"
  note slice = disk.rd_slice [OF assms]
  have s': "s' = write_list buf ?xs s"
    using read_data_eq [of s inode buf ofs len] assms(1,3) buffer_mono [OF assms(2)]
    by (simp add: valid_file_def)
  have "\<forall>p. (\<forall>i < unat n. xl s (buf + word_of_nat i) \<noteq> p) \<longrightarrow> phys s' p = phys s p"
    unfolding s' using slice by (auto intro!: phys_write_list_outside)
  moreover have "s' = s\<lparr>phys := phys s'\<rparr>"
    unfolding s' by (rule only_physD [OF only_phys_write_list])
  moreover have "unat n = min (file_size s (unat inode) - unat ofs) (unat len)" using slice by simp
  ultimately show ?thesis using conjunct1 [OF slice] by blast
qed

theorem read_data_slice_witness:
  "unat (fst (read_data 1 1 0x8000100 4096 fs0)) = 2
   \<and> read_bytes (snd (read_data 1 1 0x8000100 4096 fs0)) 0x8000100 2 = [0x69, 0x21]"
proof -
  obtain n s' where rd: "read_data 1 1 0x8000100 4096 fs0 = (n, s')" by fastforce
  have "valid_file fs0 (unat (1 :: u32))" "buffer_ok fs0 0x8000100 (unat (4096 :: u32))"
    using fs0_ok(1) fs0_buffer [of 4096] by simp_all
  note res = read_data_slice [OF this rd]
  have n: "unat n = 2" using conjunct1 [OF res] fs0_ok(2) by simp
  have "read_bytes s' 0x8000100 2 = [0x69, 0x21]"
    using conjunct1 [OF conjunct2 [OF res]] fs0_ok(3) unfolding n by simp
  then show ?thesis using n by (simp add: rd)
qed

text \<open>C30. The lookup by name finds the first directory entry whose name is exactly the C string
  \<open>fname\<close>, names that fill all 32 bytes included, and fails with -1 when there is none or when the
  string is longer than 32 bytes.\<close>

theorem read_dentry_by_name_finds:
  assumes "image_ok s" "cstr s fname n" "n < 2 ^ 32"
  shows "read_dentry_by_name fname s =
    Some (if n > 32 then (-1, None)
          else case find (\<lambda>i. entry_name s i = read_bytes s fname n) [0..<unat (num_dentries s)] of
                 None \<Rightarrow> (-1, None)
               | Some i \<Rightarrow> (0, Some (dentry_at s (entry_addr s i))))"
  using read_dentry_by_name_eq [OF assms] by (auto simp: lookup_def split: option.splits)

theorem read_dentry_by_name_finds_witness:
  "\<exists>d. read_dentry_by_name 0x8000000 fs0 = Some (0, Some d) \<and> i_node d = 1 \<and> f_type d = 2"
proof -
  have img: "image_ok fs0" using fs0_ok(1) by (simp add: valid_file_def)
  have name: "cstr fs0 0x8000000 2"
  proof -
    have "ld fs0 (0x8000000 + word_of_nat i) \<noteq> 0" if "i < 2" for i
    proof -
      have "i = 0 \<or> i = 1" using that by auto
      then show ?thesis by (auto simp: fs0_ld disk0_def)
    qed
    then show ?thesis by (simp add: cstr_def fs0_ld disk0_def)
  qed
  have "read_bytes fs0 0x8000000 2 = [0x61, 0x62]"
    by (simp add: read_bytes_def fs0_ld disk0_def upt_rec)
  then have "entry_name fs0 0 = read_bytes fs0 0x8000000 2" by (simp add: fs0_name)
  then have "find (\<lambda>i. entry_name fs0 i = read_bytes fs0 0x8000000 2) [0..<unat (num_dentries fs0)] = Some 0"
    by simp
  with read_dentry_by_name_finds [OF img name] show ?thesis
    by (simp add: dentry_at_def entry_addr_def fs0_ld32 disk0_def)
qed

text \<open>The last inode of an image cannot be read: \<open>read_data\<close> rejects it although its block is
  part of the image.\<close>

theorem read_data_rejects_last_inode:
  assumes "0 < num_inodes s"
  shows "read_data (num_inodes s - 1) ofs buf len s = (-1, s)"
  by (simp add: read_data_def)

theorem read_data_rejects_last_inode_witness:
  "read_data 2 0 0x8000100 1 fs0 = (-1, fs0)"
  using read_data_rejects_last_inode [of fs0 0 "0x8000100" 1] by simp

end
