(* ===== verification/Paging.thy ===== *)
theory Paging
  imports FileSystem_Spec
begin

text \<open>
  Virtual memory (\<^verbatim>\<open>paging.c\<close>): the page directory, the page table of the low 4 MB and the page table
  of the user's video page, as the code fills them, and the translation the processor derives from
  them. The three arrays are placed by the linker; where the code takes the address of an array
  the model uses the fields \<open>page_table_addr\<close> and \<open>page_table_vidmem_addr\<close>.

  \<open>walk\<close> is the two-level walk of the processor with 4 MB pages switched on, \<open>None\<close> being a page
  fault; \<open>user_walk\<close> is the walk for user code, which needs the U/S bit on both levels. The
  translation \<open>xl\<close> in force is the one of the last time the TLB was flushed, so \<open>flush_tlb\<close> is
  where the tables take effect. An address with no translation is never accessed by code the
  model runs to completion, and \<open>xl\<close> is the identity there.
\<close>

record paging = fs +
  page_directory :: "u32 list"
  page_table :: "u32 list"
  page_table_vidmem :: "u32 list"
  page_table_addr :: addr
  page_table_vidmem_addr :: addr
  paging_on :: bool

section \<open>Constants\<close>

definition VIDEO_OFFSET :: u32 where "VIDEO_OFFSET = 0xB8000"
definition KERNEL_OFFSET :: u32 where "KERNEL_OFFSET = 0x400000"
definition PRESENT_MASK :: u32 where "PRESENT_MASK = 1"
definition R_W_MASK :: u32 where "R_W_MASK = 2"
definition U_S_MASK :: u32 where "U_S_MASK = 4"
definition PS_MASK :: u32 where "PS_MASK = 0x80"
definition FOUR_LB_PB_MASK :: u32 where "FOUR_LB_PB_MASK = 0xFFFFF000"
definition FOUR_MB_SIZE :: u32 where "FOUR_MB_SIZE = 0x400000"
definition EIGHT_MB_SIZE :: u32 where "EIGHT_MB_SIZE = 0x800000"
definition USER_VIDEO :: addr where "USER_VIDEO = 0xD000000"
abbreviation PROGRAM_VIRTUAL :: nat where "PROGRAM_VIRTUAL \<equiv> 32"
abbreviation USER_VIDEO_PDE :: nat where "USER_VIDEO_PDE \<equiv> 52"

lemmas paging_consts = VIDEO_OFFSET_def KERNEL_OFFSET_def PRESENT_MASK_def R_W_MASK_def U_S_MASK_def
  PS_MASK_def FOUR_LB_PB_MASK_def FOUR_MB_SIZE_def EIGHT_MB_SIZE_def

section \<open>The page walk\<close>

definition table_of :: "'a paging_scheme \<Rightarrow> u32 \<Rightarrow> u32 list option" where
  "table_of s base =
     (if base = page_table_addr s then Some (page_table s)
      else if base = page_table_vidmem_addr s then Some (page_table_vidmem s) else None)"

definition walk_bits :: "u32 \<Rightarrow> 'a paging_scheme \<Rightarrow> addr \<Rightarrow> u32 option" where
  "walk_bits need s a =
     (let pde = page_directory s ! unat (drop_bit 22 a)
      in if pde AND need \<noteq> need then None
         else if pde AND PS_MASK \<noteq> 0 then Some ((pde AND 0xFFC00000) OR (a AND 0x3FFFFF))
         else case table_of s (pde AND FOUR_LB_PB_MASK) of
                None \<Rightarrow> None
              | Some t \<Rightarrow>
                  let pte = t ! unat (drop_bit 12 a AND 0x3FF)
                  in if pte AND need \<noteq> need then None
                     else Some ((pte AND FOUR_LB_PB_MASK) OR (a AND 0xFFF)))"

definition walk :: "'a paging_scheme \<Rightarrow> addr \<Rightarrow> u32 option" where
  "walk s a = walk_bits PRESENT_MASK s a"

definition user_walk :: "'a paging_scheme \<Rightarrow> addr \<Rightarrow> u32 option" where
  "user_walk s a = walk_bits (PRESENT_MASK OR U_S_MASK) s a"

definition flush_tlb :: "'a paging_scheme \<Rightarrow> 'a paging_scheme" where
  "flush_tlb s =
     (if paging_on s then s\<lparr>xl := (\<lambda>a. case walk s a of Some p \<Rightarrow> p | None \<Rightarrow> a)\<rparr> else s)"

section \<open>Filling the tables\<close>

definition set_pde :: "nat \<Rightarrow> u32 \<Rightarrow> 'a paging_scheme \<Rightarrow> 'a paging_scheme" where
  "set_pde i v s = s\<lparr>page_directory := (page_directory s)[i := v]\<rparr>"

definition set_pte :: "nat \<Rightarrow> u32 \<Rightarrow> 'a paging_scheme \<Rightarrow> 'a paging_scheme" where
  "set_pte i v s = s\<lparr>page_table := (page_table s)[i := v]\<rparr>"

definition set_vid_pte :: "nat \<Rightarrow> u32 \<Rightarrow> 'a paging_scheme \<Rightarrow> 'a paging_scheme" where
  "set_vid_pte i v s = s\<lparr>page_table_vidmem := (page_table_vidmem s)[i := v]\<rparr>"

definition map_kernel :: "'a paging_scheme \<Rightarrow> 'a paging_scheme" where
  "map_kernel s = set_pde 1 (PRESENT_MASK OR PS_MASK OR (KERNEL_OFFSET AND FOUR_LB_PB_MASK)) s"

definition initialize_page_table :: "'a paging_scheme \<Rightarrow> 'a paging_scheme" where
  "initialize_page_table s = set_pde 0 (PRESENT_MASK OR (page_table_addr s AND FOUR_LB_PB_MASK)) s"

definition map_video :: "'a paging_scheme \<Rightarrow> 'a paging_scheme" where
  "map_video s =
     (let s = set_pte (unat (drop_bit 12 VIDEO_OFFSET)) (PRESENT_MASK OR VIDEO_OFFSET OR R_W_MASK) s;
          s = set_pte (unat (drop_bit 12 (saved_screen ! 0))) (PRESENT_MASK OR saved_screen ! 0 OR R_W_MASK) s;
          s = set_pte (unat (drop_bit 12 (saved_screen ! 1))) (PRESENT_MASK OR saved_screen ! 1 OR R_W_MASK) s;
          s = set_pte (unat (drop_bit 12 (saved_screen ! 2))) (PRESENT_MASK OR saved_screen ! 2 OR R_W_MASK) s
      in flush_tlb s)"

definition map_user_video :: "'a paging_scheme \<Rightarrow> 'a paging_scheme" where
  "map_user_video s =
     (let s = set_pde (unat (drop_bit 22 USER_VIDEO))
                (PRESENT_MASK OR page_table_vidmem_addr s OR R_W_MASK OR U_S_MASK) s;
          s = set_vid_pte 0 (U_S_MASK OR R_W_MASK OR PRESENT_MASK OR VIDEO_OFFSET) s
      in flush_tlb s)"

definition map_terminal_video :: "u8 \<Rightarrow> 'a paging_scheme \<Rightarrow> 'a paging_scheme" where
  "map_terminal_video tid s =
     (let s = set_pde (unat (drop_bit 22 USER_VIDEO))
                (PRESENT_MASK OR page_table_vidmem_addr s OR R_W_MASK OR U_S_MASK) s;
          s = set_vid_pte 0 (U_S_MASK OR R_W_MASK OR PRESENT_MASK OR
                (VIDEO_OFFSET + (ucast tid + 1) * FOUR_KB_SIZE)) s
      in flush_tlb s)"

definition map_user_video_to_buffer :: "u8 \<Rightarrow> 'a paging_scheme \<Rightarrow> 'a paging_scheme" where
  "map_user_video_to_buffer tid s =
     (if tid = current_terminal s then map_user_video s else map_terminal_video tid s)"

definition map_program :: "u32 \<Rightarrow> 'a paging_scheme \<Rightarrow> 'a paging_scheme" where
  "map_program pid s =
     flush_tlb (set_pde PROGRAM_VIRTUAL
       (PRESENT_MASK OR PS_MASK OR U_S_MASK OR R_W_MASK OR (pid * FOUR_MB_SIZE + EIGHT_MB_SIZE)) s)"

text \<open>The assembly at the end loads \<open>cr3\<close>, switches 4 MB pages on in \<open>cr4\<close> and paging in \<open>cr0\<close>.\<close>

definition init_page :: "'a paging_scheme \<Rightarrow> 'a paging_scheme" where
  "init_page s =
     (let s = for_loop 0 1024 (\<lambda>i s. set_pde i (0 OR R_W_MASK) s) s;
          s = for_loop 0 1024 (\<lambda>i s. set_pte i (0 OR R_W_MASK OR word_of_nat i * FOUR_KB_SIZE) s) s;
          s = map_video (initialize_page_table (map_kernel s))
      in flush_tlb (s\<lparr>paging_on := True\<rparr>))"

section \<open>Addresses\<close>

text \<open>Page number and offset of an address, for pages of \<open>2 ^ n\<close> bytes.\<close>

lemma page_split:
  assumes "n < 32" "2 ^ n * k < 2 ^ 32" "unat r < 2 ^ n"
  shows "unat (drop_bit n (word_of_nat (2 ^ n * k) + r :: u32)) = k"
    and "(word_of_nat (2 ^ n * k) + r :: u32) AND mask n = r"
proof -
  let ?a = "word_of_nat (2 ^ n * k) + r :: u32"
  have pow: "(2 :: nat) ^ 32 = 2 ^ n * 2 ^ (32 - n)" using assms(1) by (simp flip: power_add)
  have "2 ^ n * k < 2 ^ n * 2 ^ (32 - n)" using assms(2) unfolding pow .
  then have "k < 2 ^ (32 - n)" by simp
  then have "Suc k \<le> 2 ^ (32 - n)" by simp
  then have "2 ^ n * Suc k \<le> 2 ^ 32" unfolding pow by (rule mult_le_mono2)
  then have lt: "2 ^ n * k + unat r < 2 ^ 32" using assms(3) by simp
  have "unat (word_of_nat (2 ^ n * k) :: u32) = 2 ^ n * k"
    by (rule unat_of_nat_u32) (use assms(2) in simp)
  then have a: "unat ?a = 2 ^ n * k + unat r" using lt by (simp only: unat_word_ariths) simp
  show "unat (drop_bit n ?a) = k"
    unfolding unat_drop_bit_eq a using assms(3) by (simp add: drop_bit_nat_def)
  have "unat (take_bit n ?a) = unat r"
    unfolding unsigned_take_bit_eq a using assms(3) by (simp add: take_bit_nat_def)
  then show "?a AND mask n = r" by (simp add: word_unat_eq_iff take_bit_eq_mask)
qed

lemma four_mb_split:
  assumes "k < 1024" "unat r < 0x400000"
  shows "unat (drop_bit 22 (word_of_nat (0x400000 * k) + r :: u32)) = k"
    "(word_of_nat (0x400000 * k) + r :: u32) AND 0x3FFFFF = r"
  using page_split [of 22 k r] assms by (simp_all add: mask_eq_exp_minus_1)

lemma four_kb_split:
  assumes "k < 0x100000" "unat r < 4096"
  shows "unat (drop_bit 12 (word_of_nat (4096 * k) + r :: u32)) = k"
    "(word_of_nat (4096 * k) + r :: u32) AND 0xFFF = r"
  using page_split [of 12 k r] assms by (simp_all add: mask_eq_exp_minus_1)

text \<open>Every address is in one 4 MB region.\<close>

lemma region_exhaust:
  obtains k r where "a = word_of_nat (0x400000 * k) + r" "k < 1024" "unat (r :: u32) < 0x400000"
proof
  let ?k = "unat a div 0x400000" and ?r = "word_of_nat (unat a mod 0x400000) :: u32"
  have "unat a < 4294967296" by simp
  then show "?k < 1024" by (simp add: less_mult_imp_div_less)
  show "unat ?r < 0x400000" by (simp add: unat_of_nat_u32 order_less_trans [OF mod_less_divisor])
  have "a = word_of_nat (0x400000 * ?k + unat a mod 0x400000)" by (simp only: mult_div_mod_eq) simp
  then show "a = word_of_nat (0x400000 * ?k) + ?r" by (simp only: of_nat_add)
qed

text \<open>Putting a frame and an offset together.\<close>

lemma frame_or:
  assumes "unat f mod 2 ^ n = 0" "unat (r :: u32) < 2 ^ n" "n \<le> 32"
  shows "f OR r = f + r"
proof -
  have "f AND r = 0"
  proof (rule bit_word_eqI)
    fix i assume "i < LENGTH(32)"
    show "bit (f AND r) i = bit (0 :: u32) i"
    proof (cases "i < n")
      case True
      have "unat (take_bit n f) = 0"
        unfolding unsigned_take_bit_eq using assms(1) by (simp add: take_bit_nat_def)
      then have "take_bit n f = 0" by (simp only: unsigned_eq_0_iff)
      then show ?thesis using True by (metis bit_0_eq bit_and_iff bit_take_bit_iff bot_apply bot_bool_def)
    next
      case False
      have "take_bit n r = r" using assms(2) by (simp add: word_unat_eq_iff unsigned_take_bit_eq take_bit_nat_eq_self)
      then show ?thesis using False by (metis bit_0_eq bit_and_iff bit_take_bit_iff bot_apply bot_bool_def)
    qed
  qed
  then show ?thesis by (simp add: disjunctive_add_eq_or)
qed

section \<open>What the tables mean\<close>

text \<open>
  The address space in force: the kernel's pages, the page of the program that runs, and the frame
  behind the user's video page. \<open>space\<close> is the translation, \<open>user_space\<close> the part of it that
  user code may use.
\<close>

definition user_space :: "u32 option \<Rightarrow> u32 option \<Rightarrow> addr \<Rightarrow> u32 option" where
  "user_space prog vid a =
     (if 0x8000000 \<le> a \<and> a < 0x8400000
      then map_option (\<lambda>pid. pid * FOUR_MB_SIZE + EIGHT_MB_SIZE + (a - 0x8000000)) prog
      else if USER_VIDEO \<le> a \<and> a < USER_VIDEO + 4096 then map_option (\<lambda>f. f + (a - USER_VIDEO)) vid
      else None)"

definition space :: "u32 option \<Rightarrow> u32 option \<Rightarrow> addr \<Rightarrow> u32 option" where
  "space prog vid a =
     (if 0xB8000 \<le> a \<and> a < 0xBC000 \<or> 0x400000 \<le> a \<and> a < 0x800000 then Some a
      else user_space prog vid a)"

definition page_aligned :: "u32 \<Rightarrow> bool" where
  "page_aligned f \<longleftrightarrow> f AND 0xFFF = 0"

text \<open>The frames of the visible screen and of the three saved screens.\<close>

definition screen_frame :: "u32 \<Rightarrow> bool" where
  "screen_frame f \<longleftrightarrow> f \<in> {0xB8000, 0xB9000, 0xBA000, 0xBB000}"

lemma screen_frame_aligned: "screen_frame f \<Longrightarrow> page_aligned f"
  by (auto simp: screen_frame_def page_aligned_def)

text \<open>The directory and the tables represent an address space.\<close>

definition tables :: "'a paging_scheme \<Rightarrow> u32 option \<Rightarrow> u32 option \<Rightarrow> bool" where
  "tables s prog vid \<longleftrightarrow>
     length (page_directory s) = 1024 \<and> length (page_table s) = 1024
     \<and> length (page_table_vidmem s) = 1024
     \<and> page_aligned (page_table_addr s) \<and> page_aligned (page_table_vidmem_addr s)
     \<and> page_table_addr s \<noteq> page_table_vidmem_addr s
     \<and> page_directory s ! 0 = 1 OR page_table_addr s
     \<and> page_directory s ! 1 = 0x400081
     \<and> page_directory s ! 32 = (case prog of None \<Rightarrow> 2 | Some pid \<Rightarrow> 0x87 OR (pid * FOUR_MB_SIZE + EIGHT_MB_SIZE))
     \<and> (vid = None \<longrightarrow> page_directory s ! 52 = 2)
     \<and> (vid \<noteq> None \<longrightarrow> page_directory s ! 52 = 7 OR page_table_vidmem_addr s)
     \<and> (\<forall>i < 1024. i \<notin> {0, 1, 32, 52} \<longrightarrow> page_directory s ! i = 2)
     \<and> (\<forall>i < 1024. page_table s ! i = word_of_nat (4096 * i) OR (if 0xB8 \<le> i \<and> i < 0xBC then 3 else 2))
     \<and> (\<forall>i < 1024. 0 < i \<longrightarrow> page_table_vidmem s ! i = 0)
     \<and> (\<forall>pid. prog = Some pid \<longrightarrow> pid < 6)
     \<and> (\<forall>f. vid = Some f \<longrightarrow> screen_frame f \<and> page_table_vidmem s ! 0 = 7 OR f)"

lemma aligned_bits:
  assumes "page_aligned f" "unat l < 4096" "unat m < 4096"
  shows "(l OR f) AND FOUR_LB_PB_MASK = f" "(l OR f) AND m = l AND m"
    "(f OR l) AND FOUR_LB_PB_MASK = f" "(f OR l) AND m = l AND m"
proof -
  have f: "f AND mask 12 = 0" using assms(1) by (simp add: page_aligned_def mask_eq_exp_minus_1)
  have low: "w AND mask 12 = w" if "unat w < 4096" for w :: u32
  proof -
    have "unat (take_bit 12 w) = unat w" unfolding unsigned_take_bit_eq using that by (simp add: take_bit_nat_def)
    then show ?thesis by (simp only: word_unat_eq_iff take_bit_eq_mask)
  qed
  have high: "FOUR_LB_PB_MASK = NOT (mask 12)" by (simp add: FOUR_LB_PB_MASK_def mask_eq_exp_minus_1)
  have "f AND NOT (mask 12) = f"
  proof -
    have "f = f AND (mask 12 OR NOT (mask 12))" by simp
    also have "\<dots> = f AND NOT (mask 12)" unfolding bit.conj_disj_distrib f by simp
    finally show ?thesis by (rule sym)
  qed
  moreover have "l AND NOT (mask 12) = 0"
  proof -
    have "l AND NOT (mask 12) = (l AND mask 12) AND NOT (mask 12)" by (simp only: low [OF assms(2)])
    also have "\<dots> = 0" unfolding and.assoc by simp
    finally show ?thesis .
  qed
  ultimately have "(l OR f) AND NOT (mask 12) = f" unfolding bit.conj_disj_distrib2 by simp
  then show frame: "(l OR f) AND FOUR_LB_PB_MASK = f" by (simp only: high)
  have "f AND m = 0"
  proof -
    have "f AND m = (f AND mask 12) AND m" unfolding and.assoc and.commute [of "mask 12"] low [OF assms(3)] ..
    then show ?thesis unfolding f by simp
  qed
  then show bits: "(l OR f) AND m = l AND m" unfolding bit.conj_disj_distrib2 by simp
  show "(f OR l) AND FOUR_LB_PB_MASK = f" "(f OR l) AND m = l AND m"
    using frame bits by (simp_all only: or.commute)
qed

lemma unat_region:
  assumes "k < 1024" "unat (r :: u32) < 0x400000"
  shows "unat (word_of_nat (0x400000 * k) + r) = 0x400000 * k + unat r"
proof -
  have "unat (word_of_nat (0x400000 * k) :: u32) = 0x400000 * k"
    by (rule unat_of_nat_u32) (use assms(1) in simp)
  then show ?thesis using assms by (simp only: unat_word_ariths) simp
qed

lemma table_index:
  assumes "k < 1024" "unat (r :: u32) < 0x400000"
  defines "a \<equiv> word_of_nat (0x400000 * k) + r"
  shows "unat (drop_bit 12 a AND 0x3FF) = unat r div 4096" "a AND 0xFFF = word_of_nat (unat r mod 4096)"
proof -
  define i q where "i = unat r div 4096" and "q = unat r mod 4096"
  have q: "unat (word_of_nat q :: u32) = q" "q < 4096" "i < 1024"
    using assms(2) by (simp_all add: q_def i_def unat_of_nat_u32 less_mult_imp_div_less)
  have "r = word_of_nat (4096 * i + q)" unfolding i_def q_def mult_div_mod_eq by simp
  then have a: "a = word_of_nat (4096 * (1024 * k + i)) + word_of_nat q"
    by (simp add: a_def algebra_simps)
  have n: "1024 * k + i < 0x100000" using assms(1) q(3) by simp
  show "a AND 0xFFF = word_of_nat (unat r mod 4096)"
    unfolding a using four_kb_split(2) [OF n] q(1,2) by (simp only: q_def [symmetric])
  have "unat (drop_bit 12 a) = 1024 * k + i"
    unfolding a using four_kb_split(1) [OF n] q(1,2) by simp
  moreover have "unat (w AND 0x3FF) = unat w mod 1024" for w :: u32
  proof -
    have "unat (take_bit 10 w) = unat w mod 1024" unfolding unsigned_take_bit_eq by (simp add: take_bit_nat_def)
    then show ?thesis by (simp only: take_bit_eq_mask) (simp add: mask_eq_exp_minus_1)
  qed
  ultimately show "unat (drop_bit 12 a AND 0x3FF) = unat r div 4096"
    using q(3) by (simp add: i_def [symmetric])
qed

lemma walk_at:
  assumes "k < 1024" "unat r < 0x400000"
  shows "walk_bits need s (word_of_nat (0x400000 * k) + r) =
     (let pde = page_directory s ! k
      in if pde AND need \<noteq> need then None
         else if pde AND PS_MASK \<noteq> 0 then Some ((pde AND 0xFFC00000) OR r)
         else case table_of s (pde AND FOUR_LB_PB_MASK) of
                None \<Rightarrow> None
              | Some t \<Rightarrow>
                  let pte = t ! (unat r div 4096)
                  in if pte AND need \<noteq> need then None
                     else Some ((pte AND FOUR_LB_PB_MASK) OR word_of_nat (unat r mod 4096)))"
  unfolding walk_bits_def four_mb_split [OF assms] table_index [OF assms] ..

lemma frame_or_4kb: "page_aligned f \<Longrightarrow> n < 4096 \<Longrightarrow> f OR word_of_nat n = f + word_of_nat n"
proof (rule frame_or)
  assume "page_aligned f"
  then have "take_bit 12 f = 0" by (simp add: page_aligned_def take_bit_eq_mask mask_eq_exp_minus_1)
  then have "unat (take_bit 12 f) = 0" by simp
  then show "unat f mod 2 ^ 12 = 0" unfolding unsigned_take_bit_eq by (simp add: take_bit_nat_def)
qed (simp_all add: unat_of_nat_u32)

text \<open>The four regions of the directory that are used.\<close>

lemma pid_range:
  assumes "(pid :: u32) < 6"
  shows "pid \<in> {0, 1, 2, 3, 4, 5}"
proof -
  have "unat pid < 6" using assms by (simp add: word_less_nat_alt)
  then have "unat pid \<in> {0, 1, 2, 3, 4, 5}" by auto
  then have "word_of_nat (unat pid) \<in> (word_of_nat :: nat \<Rightarrow> u32) ` {0, 1, 2, 3, 4, 5}" by (rule imageI)
  then show ?thesis by simp
qed

lemma program_entry:
  assumes "pid < 6" "unat r < 0x400000"
  shows "((0x87 OR (pid * FOUR_MB_SIZE + EIGHT_MB_SIZE)) AND 0xFFC00000) OR r =
      pid * FOUR_MB_SIZE + EIGHT_MB_SIZE + r"
    "(0x87 OR (pid * FOUR_MB_SIZE + EIGHT_MB_SIZE)) AND 1 = 1"
    "(0x87 OR (pid * FOUR_MB_SIZE + EIGHT_MB_SIZE)) AND 5 = 5"
    "(0x87 OR (pid * FOUR_MB_SIZE + EIGHT_MB_SIZE)) AND PS_MASK \<noteq> 0"
proof -
  have pid: "pid \<in> {0, 1, 2, 3, 4, 5}" by (rule pid_range [OF assms(1)])
  have "(0x87 OR (pid * FOUR_MB_SIZE + EIGHT_MB_SIZE)) AND 0xFFC00000 = pid * FOUR_MB_SIZE + EIGHT_MB_SIZE"
    using pid by (auto simp: FOUR_MB_SIZE_def EIGHT_MB_SIZE_def)
  moreover have "unat (pid * FOUR_MB_SIZE + EIGHT_MB_SIZE) mod 2 ^ 22 = 0"
    using pid by (auto simp: FOUR_MB_SIZE_def EIGHT_MB_SIZE_def)
  ultimately show "((0x87 OR (pid * FOUR_MB_SIZE + EIGHT_MB_SIZE)) AND 0xFFC00000) OR r =
      pid * FOUR_MB_SIZE + EIGHT_MB_SIZE + r"
    using frame_or [of "pid * FOUR_MB_SIZE + EIGHT_MB_SIZE" 22 r] assms(2) by simp
  show "(0x87 OR (pid * FOUR_MB_SIZE + EIGHT_MB_SIZE)) AND 1 = 1"
    "(0x87 OR (pid * FOUR_MB_SIZE + EIGHT_MB_SIZE)) AND 5 = 5"
    "(0x87 OR (pid * FOUR_MB_SIZE + EIGHT_MB_SIZE)) AND PS_MASK \<noteq> 0"
    using pid by (auto simp: FOUR_MB_SIZE_def EIGHT_MB_SIZE_def PS_MASK_def)
qed

lemma walk_low:
  assumes "tables s prog vid" "unat r < 0x400000"
  shows "walk s r = (if 0xB8000 \<le> unat r \<and> unat r < 0xBC000 then Some r else None)"
    "user_walk s r = None"
proof -
  define i where "i = unat r div 4096"
  have i: "i < 1024" using assms(2) by (simp add: i_def less_mult_imp_div_less)
  have pde: "page_directory s ! 0 = 1 OR page_table_addr s" and al: "page_aligned (page_table_addr s)"
    and pte: "page_table s ! i = word_of_nat (4096 * i) OR (if 0xB8 \<le> i \<and> i < 0xBC then 3 else 2)"
    using assms(1) i by (simp_all add: tables_def)
  note w = walk_at [of 0 r _ s, simplified, OF assms(2)]
  show "user_walk s r = None"
    unfolding user_walk_def w pde using aligned_bits(2) [OF al, of 1 5] by (simp add: PRESENT_MASK_def U_S_MASK_def)
  have ai: "page_aligned (word_of_nat (4096 * i))"
  proof -
    have "(word_of_nat (4096 * i) + 0 :: u32) AND 0xFFF = 0" by (rule four_kb_split) (use i in simp_all)
    then show ?thesis by (simp add: page_aligned_def)
  qed
  have r: "word_of_nat (4096 * i) + word_of_nat (unat r mod 4096) = r"
    unfolding i_def of_nat_add [symmetric] mult_div_mod_eq by simp
  have range: "0xB8 \<le> i \<and> i < 0xBC \<longleftrightarrow> 0xB8000 \<le> unat r \<and> unat r < 0xBC000"
    unfolding i_def by (simp add: less_eq_div_iff_mult_less_eq div_less_iff_less_mult)
  show "walk s r = (if 0xB8000 \<le> unat r \<and> unat r < 0xBC000 then Some r else None)"
    unfolding walk_def w pde range [symmetric]
    using aligned_bits [OF al, of 1 1] aligned_bits(2) [OF al, of 1 PS_MASK] pte
      aligned_bits(3,4) [OF ai, of 3 1] aligned_bits(4) [OF ai, of 2 1] frame_or_4kb [OF ai, of "unat r mod 4096"] r
    by (simp add: PRESENT_MASK_def PS_MASK_def table_of_def i_def [symmetric])
qed

lemma walk_video:
  assumes "tables s prog vid" "unat r < 0x400000"
  shows "walk s (USER_VIDEO + r) = (if unat r < 4096 then map_option (\<lambda>f. f + r) vid else None)"
    "user_walk s (USER_VIDEO + r) = (if unat r < 4096 then map_option (\<lambda>f. f + r) vid else None)"
proof -
  let ?p = "page_table_vidmem_addr s"
  have pde: "page_directory s ! 52 = (case vid of None \<Rightarrow> 2 | Some f \<Rightarrow> 7 OR ?p)" and al: "page_aligned ?p"
    and ne: "page_table_addr s \<noteq> ?p"
    and rest: "\<And>i. i < 1024 \<Longrightarrow> 0 < i \<Longrightarrow> page_table_vidmem s ! i = 0"
    using assms(1) by (auto simp: tables_def split: option.splits)
  note w = walk_at [of 52 r _ s, simplified, OF assms(2)]
  have tab: "table_of s ?p = Some (page_table_vidmem s)" using ne by (simp add: table_of_def)
  have bits: "(7 OR ?p) AND FOUR_LB_PB_MASK = ?p" "(7 OR ?p) AND 1 = 1" "(7 OR ?p) AND 5 = 5" "(7 OR ?p) AND 128 = 0"
    using aligned_bits(1,2) [OF al, of 7 1] aligned_bits(2) [OF al, of 7 5] aligned_bits(2) [OF al, of 7 128] by simp_all
  have i: "unat r div 4096 < 1024" using assms(2) by (simp add: less_mult_imp_div_less)
  have zero: "page_table_vidmem s ! (unat r div 4096) = 0" if "4096 \<le> unat r"
    by (rule rest [OF i]) (use that in \<open>simp add: div_greater_zero_iff\<close>)
  have frame: "(pte AND FOUR_LB_PB_MASK) OR word_of_nat (unat r mod 4096) = f + r" "pte AND 1 = 1" "pte AND 5 = 5"
    if "vid = Some f" "pte = page_table_vidmem s ! 0" "unat r < 4096" for f pte
  proof -
    have f: "page_aligned f" "pte = 7 OR f"
      using assms(1) that by (auto simp: tables_def intro: screen_frame_aligned)
    have "(pte AND FOUR_LB_PB_MASK) OR word_of_nat (unat r mod 4096) = f OR word_of_nat (unat r)"
      using aligned_bits(1) [OF f(1), of 7 1] that(3) by (simp add: f(2))
    also have "\<dots> = f + word_of_nat (unat r)" by (rule frame_or_4kb [OF f(1) that(3)])
    finally show "(pte AND FOUR_LB_PB_MASK) OR word_of_nat (unat r mod 4096) = f + r" by simp
    show "pte AND 1 = 1" "pte AND 5 = 5"
      using aligned_bits(2) [OF f(1), of 7 1] aligned_bits(2) [OF f(1), of 7 5] by (simp_all add: f(2))
  qed
  show "walk s (USER_VIDEO + r) = (if unat r < 4096 then map_option (\<lambda>f. f + r) vid else None)"
    "user_walk s (USER_VIDEO + r) = (if unat r < 4096 then map_option (\<lambda>f. f + r) vid else None)"
    unfolding walk_def user_walk_def USER_VIDEO_def w pde
    using bits zero frame
    by (cases vid; cases "unat r < 4096"; simp add: PRESENT_MASK_def U_S_MASK_def PS_MASK_def tab Let_def)+
qed

lemma walk_rest:
  assumes "tables s prog vid" "unat r < 0x400000"
  shows "walk s (0x400000 + r) = Some (0x400000 + r)" "user_walk s (0x400000 + r) = None"
    "walk s (0x8000000 + r) = map_option (\<lambda>pid. pid * FOUR_MB_SIZE + EIGHT_MB_SIZE + r) prog"
    "user_walk s (0x8000000 + r) = map_option (\<lambda>pid. pid * FOUR_MB_SIZE + EIGHT_MB_SIZE + r) prog"
    "k < 1024 \<Longrightarrow> k \<notin> {0, 1, 32, 52} \<Longrightarrow> walk s (word_of_nat (0x400000 * k) + r) = None"
    "k < 1024 \<Longrightarrow> k \<notin> {0, 1, 32, 52} \<Longrightarrow> user_walk s (word_of_nat (0x400000 * k) + r) = None"
proof -
  have kernel: "page_directory s ! 1 = 0x400081"
    and prog: "page_directory s ! 32 = (case prog of None \<Rightarrow> 2 | Some pid \<Rightarrow> 0x87 OR (pid * FOUR_MB_SIZE + EIGHT_MB_SIZE))"
    "\<And>pid. prog = Some pid \<Longrightarrow> pid < 6"
    and other: "\<And>k. k < 1024 \<Longrightarrow> k \<notin> {0, 1, 32, 52} \<Longrightarrow> page_directory s ! k = 2"
    using assms(1) by (simp_all add: tables_def)
  have "(0x400000 :: u32) OR r = 0x400000 + r" by (rule frame_or [of _ 22]) (use assms(2) in simp_all)
  then show "walk s (0x400000 + r) = Some (0x400000 + r)" "user_walk s (0x400000 + r) = None"
    unfolding walk_def user_walk_def using walk_at [of 1 r _ s, simplified, OF assms(2)] kernel
    by (simp_all add: PRESENT_MASK_def U_S_MASK_def PS_MASK_def)
  show "walk s (0x8000000 + r) = map_option (\<lambda>pid. pid * FOUR_MB_SIZE + EIGHT_MB_SIZE + r) prog"
    "user_walk s (0x8000000 + r) = map_option (\<lambda>pid. pid * FOUR_MB_SIZE + EIGHT_MB_SIZE + r) prog"
    unfolding walk_def user_walk_def walk_at [of 32 r _ s, simplified, OF assms(2)] prog(1)
    using program_entry [OF prog(2) assms(2)]
    by (cases prog; simp add: PRESENT_MASK_def U_S_MASK_def)+
  show "walk s (word_of_nat (0x400000 * k) + r) = None" "user_walk s (word_of_nat (0x400000 * k) + r) = None"
    if "k < 1024" "k \<notin> {0, 1, 32, 52}"
    unfolding walk_def user_walk_def walk_at [OF that(1) assms(2)] other [OF that]
    by (simp_all add: PRESENT_MASK_def U_S_MASK_def)
qed

lemma user_space_unat:
  "user_space prog vid a =
     (if 0x8000000 \<le> unat a \<and> unat a < 0x8400000
      then map_option (\<lambda>pid. pid * FOUR_MB_SIZE + EIGHT_MB_SIZE + (a - 0x8000000)) prog
      else if 0xD000000 \<le> unat a \<and> unat a < 0xD001000 then map_option (\<lambda>f. f + (a - USER_VIDEO)) vid
      else None)"
  by (simp add: user_space_def USER_VIDEO_def word_le_nat_alt word_less_nat_alt)

lemma space_unat:
  "space prog vid a =
     (if 0xB8000 \<le> unat a \<and> unat a < 0xBC000 \<or> 0x400000 \<le> unat a \<and> unat a < 0x800000 then Some a
      else user_space prog vid a)"
  by (simp add: space_def word_le_nat_alt word_less_nat_alt)

lemma walk_space:
  assumes "tables s prog vid"
  shows "walk s a = space prog vid a" "user_walk s a = user_space prog vid a"
proof -
  obtain k r where a: "a = word_of_nat (0x400000 * k) + r" "k < 1024" "unat r < 0x400000"
    by (rule region_exhaust)
  have ua: "unat a = 0x400000 * k + unat r" unfolding a(1) by (rule unat_region [OF a(2,3)])
  consider "k = 0" | "k = 1" | "k = 32" | "k = 52" | "k \<notin> {0, 1, 32, 52}" by auto
  then have "walk s a = space prog vid a \<and> user_walk s a = user_space prog vid a"
  proof cases
    case 1
    then have "a = r" using a(1) by simp
    then show ?thesis using walk_low [OF assms a(3)] a(3) by (simp add: space_unat user_space_unat)
  next
    case 2
    then have "a = 0x400000 + r" "unat a = 0x400000 + unat r" using a(1) ua by simp_all
    then show ?thesis using walk_rest(1,2) [OF assms a(3)] a(3) by (simp add: space_unat user_space_unat)
  next
    case 3
    then have "a = 0x8000000 + r" "unat a = 0x8000000 + unat r" using a(1) ua by simp_all
    then show ?thesis using walk_rest(3,4) [OF assms a(3)] a(3) by (simp add: space_unat user_space_unat)
  next
    case 4
    then have "a = USER_VIDEO + r" "unat a = 0xD000000 + unat r" using a(1) ua by (simp_all add: USER_VIDEO_def)
    then show ?thesis using walk_video [OF assms a(3)] a(3) by (simp add: space_unat user_space_unat)
  next
    case 5
    then have "1 < k \<and> k < 32 \<or> 32 < k \<and> k < 52 \<or> 52 < k" by auto
    then have "0x800000 \<le> unat a \<and> unat a < 0x8000000 \<or> 0x8400000 \<le> unat a \<and> unat a < 0xD000000
        \<or> 0xD400000 \<le> unat a" using ua a(3) by auto
    then show ?thesis using walk_rest(5,6) [OF assms a(3,2) 5] a(1) by (auto simp: space_unat user_space_unat)
  qed
  then show "walk s a = space prog vid a" "user_walk s a = user_space prog vid a" by auto
qed

section \<open>The operations change the address space as they say\<close>

text \<open>The tables represent an address space and the processor uses it.\<close>

definition mapped :: "'a paging_scheme \<Rightarrow> u32 option \<Rightarrow> u32 option \<Rightarrow> bool" where
  "mapped s prog vid \<longleftrightarrow> tables s prog vid \<and> paging_on s
     \<and> xl s = (\<lambda>a. case space prog vid a of Some p \<Rightarrow> p | None \<Rightarrow> a)"

lemma flush_tlb_fields [simp]:
  "page_directory (flush_tlb s) = page_directory s" "page_table (flush_tlb s) = page_table s"
  "page_table_vidmem (flush_tlb s) = page_table_vidmem s" "page_table_addr (flush_tlb s) = page_table_addr s"
  "page_table_vidmem_addr (flush_tlb s) = page_table_vidmem_addr s" "paging_on (flush_tlb s) = paging_on s"
  by (simp_all add: flush_tlb_def)

lemma tables_flush [simp]: "tables (flush_tlb s) prog vid = tables s prog vid"
  by (simp add: tables_def)

lemma mapped_flush: "tables s prog vid \<Longrightarrow> paging_on s \<Longrightarrow> mapped (flush_tlb s) prog vid"
  by (simp add: mapped_def) (simp add: flush_tlb_def walk_space)

lemma map_program_mapped:
  assumes "mapped s prog vid" "pid < 6"
  shows "mapped (map_program pid s) (Some pid) vid"
proof -
  have "PRESENT_MASK OR PS_MASK OR U_S_MASK OR R_W_MASK = 0x87" by (simp add: paging_consts)
  then have "PRESENT_MASK OR PS_MASK OR U_S_MASK OR R_W_MASK OR (pid * FOUR_MB_SIZE + EIGHT_MB_SIZE) =
      0x87 OR (pid * FOUR_MB_SIZE + EIGHT_MB_SIZE)" by (simp only: or.assoc [symmetric])
  then show ?thesis unfolding map_program_def
    using assms by (intro mapped_flush) (simp_all add: mapped_def set_pde_def tables_def nth_list_update)
qed

lemma video_tables:
  assumes "tables s prog vid" "screen_frame f"
  shows "tables (set_vid_pte 0 (7 OR f) (set_pde 52 (7 OR page_table_vidmem_addr s) s)) prog (Some f)"
  using assms by (simp add: tables_def set_pde_def set_vid_pte_def nth_list_update)

lemma user_video_entry:
  "PRESENT_MASK OR p OR R_W_MASK OR U_S_MASK = 7 OR p" "U_S_MASK OR R_W_MASK OR PRESENT_MASK OR f = 7 OR f"
  "unat (drop_bit 22 USER_VIDEO) = 52"
proof -
  have "1 OR p OR 2 OR 4 = (1 OR 2 OR 4) OR p" "4 OR 2 OR 1 OR f = (4 OR 2 OR 1) OR f"
    by (simp_all only: or.assoc or.commute or.left_commute)
  then show "PRESENT_MASK OR p OR R_W_MASK OR U_S_MASK = 7 OR p" "U_S_MASK OR R_W_MASK OR PRESENT_MASK OR f = 7 OR f"
    by (simp_all add: PRESENT_MASK_def R_W_MASK_def U_S_MASK_def)
qed (simp add: USER_VIDEO_def)

lemma map_user_video_mapped:
  assumes "mapped s prog vid"
  shows "mapped (map_user_video s) prog (Some VIDEO_OFFSET)"
  unfolding map_user_video_def Let_def user_video_entry
  by (rule mapped_flush)
    (use assms video_tables [of s prog vid VIDEO_OFFSET] in
      \<open>simp_all add: mapped_def screen_frame_def VIDEO_OFFSET_def, simp_all add: set_pde_def set_vid_pte_def\<close>)

lemma map_terminal_video_mapped:
  assumes "mapped s prog vid" "unat t < 3"
  shows "mapped (map_terminal_video t s) prog (Some (VIDEO_OFFSET + (ucast t + 1) * FOUR_KB_SIZE))"
proof -
  have "unat t = 0 \<or> unat t = 1 \<or> unat t = 2" using assms(2) by auto
  then have "t = 0 \<or> t = 1 \<or> t = 2" by (auto simp: word_unat_eq_iff)
  then have "screen_frame (VIDEO_OFFSET + (ucast t + 1) * FOUR_KB_SIZE)"
    by (auto simp: screen_frame_def VIDEO_OFFSET_def FOUR_KB_SIZE_def)
  then show ?thesis
    unfolding map_terminal_video_def Let_def user_video_entry
    by (intro mapped_flush)
      (use assms(1) video_tables [of s prog vid] in
        \<open>simp_all add: mapped_def, simp_all add: set_pde_def set_vid_pte_def\<close>)
qed

text \<open>What the linker and the loader provide: tables of 1024 entries on page boundaries, and zeros in the
  one that \<open>init_page\<close> does not fill.\<close>

definition linked :: "'a paging_scheme \<Rightarrow> bool" where
  "linked s \<longleftrightarrow> length (page_directory s) = 1024 \<and> length (page_table s) = 1024
     \<and> length (page_table_vidmem s) = 1024 \<and> (\<forall>i < 1024. page_table_vidmem s ! i = 0)
     \<and> page_aligned (page_table_addr s) \<and> page_aligned (page_table_vidmem_addr s)
     \<and> page_table_addr s \<noteq> page_table_vidmem_addr s"

lemma fill_pde:
  assumes "n \<le> length (page_directory s)"
  shows "for_loop 0 n (\<lambda>i s. set_pde i (f i) s) s =
    s\<lparr>page_directory := map f [0..<n] @ drop n (page_directory s)\<rparr>"
  using assms
proof (induction n)
  case (Suc n)
  have "(map f [0..<n] @ drop n (page_directory s))[n := f n] = map f [0..<Suc n] @ drop (Suc n) (page_directory s)"
    using Suc.prems by (simp add: list_update_append Cons_nth_drop_Suc [symmetric])
  then show ?case using Suc by (simp add: for_loop_last set_pde_def)
qed simp

lemma fill_pte:
  assumes "n \<le> length (page_table s)"
  shows "for_loop 0 n (\<lambda>i s. set_pte i (f i) s) s =
    s\<lparr>page_table := map f [0..<n] @ drop n (page_table s)\<rparr>"
  using assms
proof (induction n)
  case (Suc n)
  have "(map f [0..<n] @ drop n (page_table s))[n := f n] = map f [0..<Suc n] @ drop (Suc n) (page_table s)"
    using Suc.prems by (simp add: list_update_append Cons_nth_drop_Suc [symmetric])
  then show ?case using Suc by (simp add: for_loop_last set_pte_def)
qed simp

text \<open>The page table after \<open>init_page\<close>: every page is mapped to itself but only the four screens are present.\<close>

lemma video_ptes:
  assumes "length t = 1024" "\<And>i. i < 1024 \<Longrightarrow> t ! i = R_W_MASK OR word_of_nat i * FOUR_KB_SIZE" "i < 1024"
  shows "t[0xB8 := PRESENT_MASK OR VIDEO_OFFSET OR R_W_MASK,
      0xB9 := PRESENT_MASK OR saved_screen ! 0 OR R_W_MASK,
      0xBA := PRESENT_MASK OR saved_screen ! 1 OR R_W_MASK,
      0xBB := PRESENT_MASK OR saved_screen ! 2 OR R_W_MASK] ! i =
    word_of_nat (4096 * i) OR (if 0xB8 \<le> i \<and> i < 0xBC then 3 else 2)"
proof (cases "0xB8 \<le> i \<and> i < 0xBC")
  case True
  then have "i = 0xB8 \<or> i = 0xB9 \<or> i = 0xBA \<or> i = 0xBB" by auto
  then show ?thesis using assms(1)
    by (auto simp: PRESENT_MASK_def VIDEO_OFFSET_def R_W_MASK_def saved_screen_def VIDEO_def FOUR_KB_SIZE_def)
next
  case False
  then have "i \<noteq> 0xB8" "i \<noteq> 0xB9" "i \<noteq> 0xBA" "i \<noteq> 0xBB" by auto
  then show ?thesis using False assms(2,3)
    by (auto simp: R_W_MASK_def FOUR_KB_SIZE_def or.commute mult.commute)
qed

lemma video_pte_index:
  "unat (drop_bit 12 VIDEO_OFFSET) = 0xB8" "unat (drop_bit 12 (saved_screen ! 0)) = 0xB9"
  "unat (drop_bit 12 (saved_screen ! 1)) = 0xBA" "unat (drop_bit 12 (saved_screen ! 2)) = 0xBB"
  by (simp_all add: VIDEO_OFFSET_def saved_screen_def VIDEO_def FOUR_KB_SIZE_def)

lemma map_video_fields:
  "page_directory (map_video s) = page_directory s" "page_table_vidmem (map_video s) = page_table_vidmem s"
  "page_table_addr (map_video s) = page_table_addr s"
  "page_table_vidmem_addr (map_video s) = page_table_vidmem_addr s"
  "page_table (map_video s) = (page_table s)[0xB8 := PRESENT_MASK OR VIDEO_OFFSET OR R_W_MASK,
      0xB9 := PRESENT_MASK OR saved_screen ! 0 OR R_W_MASK,
      0xBA := PRESENT_MASK OR saved_screen ! 1 OR R_W_MASK,
      0xBB := PRESENT_MASK OR saved_screen ! 2 OR R_W_MASK]"
  unfolding map_video_def Let_def video_pte_index by (simp_all add: set_pte_def)

lemma first_tables:
  assumes "linked s" "length pd = 1024" "\<And>i. i < 1024 \<Longrightarrow> pd ! i = R_W_MASK"
    "length pt = 1024" "\<And>i. i < 1024 \<Longrightarrow> pt ! i = R_W_MASK OR word_of_nat i * FOUR_KB_SIZE"
  shows "tables (map_video (initialize_page_table (map_kernel
      (s\<lparr>page_directory := pd, page_table := pt\<rparr>)))\<lparr>paging_on := True\<rparr>) None None"
proof -
  let ?s = "s\<lparr>page_directory := pd, page_table := pt\<rparr>"
  let ?t = "map_video (initialize_page_table (map_kernel ?s))"
  have kernel: "PRESENT_MASK OR PS_MASK OR (KERNEL_OFFSET AND FOUR_LB_PB_MASK) = 0x400081"
    by (simp add: paging_consts)
  have addr: "page_table_addr s AND FOUR_LB_PB_MASK = page_table_addr s"
    using assms(1) aligned_bits(1) [of "page_table_addr s" 0 0] by (simp add: linked_def)
  have "page_directory ?t = pd[1 := 0x400081, 0 := 1 OR page_table_addr s]"
    unfolding map_video_fields initialize_page_table_def map_kernel_def set_pde_def kernel
    by (simp add: addr PRESENT_MASK_def)
  moreover have "page_table ?t ! i = word_of_nat (4096 * i) OR (if 0xB8 \<le> i \<and> i < 0xBC then 3 else 2)"
    if "i < 1024" for i
    using video_ptes [OF assms(4,5) that]
    by (simp add: map_video_fields initialize_page_table_def map_kernel_def set_pde_def)
  moreover have "length (page_table ?t) = 1024"
    using assms(4) by (simp add: map_video_fields initialize_page_table_def map_kernel_def set_pde_def)
  ultimately show ?thesis
    using assms(1-3) unfolding tables_def linked_def
    by (simp add: map_video_fields initialize_page_table_def map_kernel_def set_pde_def nth_list_update R_W_MASK_def)
qed

lemma init_page_mapped:
  assumes "linked s"
  shows "mapped (init_page s) None None"
proof -
  define pd pt :: "u32 list" where "pd = map (\<lambda>_. 0 OR R_W_MASK) [0..<1024]"
    and "pt = map (\<lambda>i. 0 OR R_W_MASK OR word_of_nat i * FOUR_KB_SIZE) [0..<1024]"
  have "init_page s = flush_tlb (map_video (initialize_page_table (map_kernel
      (s\<lparr>page_directory := pd, page_table := pt\<rparr>)))\<lparr>paging_on := True\<rparr>)"
    using assms unfolding init_page_def Let_def linked_def pd_def pt_def
    by (subst fill_pde, simp) (subst fill_pte, simp, simp only: append_Nil2 drop_all le_refl, simp)
  moreover have "tables (map_video (initialize_page_table (map_kernel
      (s\<lparr>page_directory := pd, page_table := pt\<rparr>)))\<lparr>paging_on := True\<rparr>) None None"
    by (rule first_tables [OF assms]) (simp_all only: pd_def pt_def length_map length_upt nth_map nth_upt
        or.left_neutral diff_zero add_0)
  ultimately show ?thesis by (simp add: mapped_flush)
qed

section \<open>What the paging operations leave alone\<close>

definition wipe_paging :: "'a paging_scheme \<Rightarrow> 'a paging_scheme" where
  "wipe_paging s = s\<lparr>xl := (\<lambda>_. 0), page_directory := [], page_table := [], page_table_vidmem := [],
     paging_on := False\<rparr>"

definition only_paging :: "'a paging_scheme \<Rightarrow> 'a paging_scheme \<Rightarrow> bool" where
  "only_paging s t \<longleftrightarrow> wipe_paging t = wipe_paging s"

lemma only_paging_refl [simp]: "only_paging s s"
  by (simp add: only_paging_def)

lemma only_paging_trans: "only_paging s t \<Longrightarrow> only_paging t u \<Longrightarrow> only_paging s u"
  by (simp add: only_paging_def)

lemma only_paging_ops:
  "only_paging s (set_pde i v s)" "only_paging s (set_pte i v s)" "only_paging s (set_vid_pte i v s)"
  "only_paging s (flush_tlb s)" "only_paging s (s\<lparr>paging_on := b\<rparr>)"
  by (simp_all add: only_paging_def wipe_paging_def set_pde_def set_pte_def set_vid_pte_def flush_tlb_def)

lemmas only_paging_chain = only_paging_trans [OF _ only_paging_ops(1)] only_paging_trans [OF _ only_paging_ops(2)]
  only_paging_trans [OF _ only_paging_ops(3)] only_paging_trans [OF _ only_paging_ops(4)]
  only_paging_trans [OF _ only_paging_ops(5)]

lemma only_paging_maps:
  "only_paging s (map_program pid s)" "only_paging s (map_user_video s)" "only_paging s (map_terminal_video t s)"
  "only_paging s (map_user_video_to_buffer t s)"
  by (simp_all add: map_program_def map_user_video_def map_terminal_video_def map_user_video_to_buffer_def
      Let_def only_paging_ops only_paging_chain)

lemma only_paging_init_page: "only_paging s (init_page s)"
proof -
  define s1 where "s1 = for_loop 0 1024 (\<lambda>i s. set_pde i (0 OR R_W_MASK) s) s"
  define s2 where "s2 = for_loop 0 1024 (\<lambda>i s. set_pte i (0 OR R_W_MASK OR word_of_nat i * FOUR_KB_SIZE) s) s1"
  have "only_paging s s1"
    unfolding s1_def by (rule for_loop_invariant) (auto intro: only_paging_chain)
  then have "only_paging s s2"
    unfolding s2_def by (rule for_loop_invariant) (auto intro: only_paging_chain)
  then show ?thesis
    unfolding init_page_def Let_def s1_def [symmetric] s2_def [symmetric] map_video_def
      initialize_page_table_def map_kernel_def
    by (intro only_paging_chain)
qed

lemma only_paging_eq:
  assumes "only_paging s t" "\<And>u. f (wipe_paging u) = f u"
  shows "f t = f s"
  using assms by (metis only_paging_def)

lemma only_paging_fields:
  assumes "only_paging s t"
  shows "phys t = phys s" "outs t = outs s" "dev t = dev s" "clk t = clk s" "iflag t = iflag s" "esp t = esp s"
    "ebp t = ebp s" "master_mask t = master_mask s" "slave_mask t = slave_mask s" "screen_x t = screen_x s"
    "screen_y t = screen_y s" "row_stack t = row_stack s" "column_stack t = column_stack s"
    "terminal_info t = terminal_info s" "key_arr t = key_arr s" "key_arr_ptr t = key_arr_ptr s"
    "key_arr_overflow t = key_arr_overflow s" "enter_state t = enter_state s"
    "current_terminal t = current_terminal s" "running_terminal t = running_terminal s"
    "fs_addr t = fs_addr s" "dentry_addr t = dentry_addr s" "inode_addr t = inode_addr s"
    "d_block_addr t = d_block_addr s" "num_dentries t = num_dentries s" "num_inodes t = num_inodes s"
    "num_d_blocks t = num_d_blocks s" "dir_location t = dir_location s"
    "page_table_addr t = page_table_addr s" "page_table_vidmem_addr t = page_table_vidmem_addr s"
    "paging.more t = paging.more s"
  by (rule only_paging_eq [OF assms], simp add: wipe_paging_def)+

section \<open>Consequences\<close>

lemma mapped_screens:
  assumes "mapped s prog vid"
  shows "screen_mapped s"
  unfolding screen_mapped_def
proof (intro allI impI)
  fix i :: nat assume "i < 16384"
  then have "unat (off i) = 0xB8000 + i"
    unfolding off_def VIDEO_def using unat_add_small [of "0xB8000 :: u32" i] by simp
  then show "xl s (off i) = off i"
    using assms \<open>i < 16384\<close> by (simp add: mapped_def space_unat)
qed

text \<open>Where user code can reach: its own program page and a screen.\<close>

lemma user_space_cases:
  assumes "tables s (Some pid) vid" "user_space (Some pid) vid a = Some p"
  obtains "unat p = 0x800000 + 0x400000 * unat pid + (unat a - 0x8000000)" "0x8000000 \<le> unat a" "unat a < 0x8400000"
  | f where "vid = Some f" "screen_frame f" "p = f + (a - USER_VIDEO)" "0xD000000 \<le> unat a" "unat a < 0xD001000"
proof (cases "0x8000000 \<le> unat a \<and> unat a < 0x8400000")
  case True
  have p: "p = pid * FOUR_MB_SIZE + EIGHT_MB_SIZE + (a - 0x8000000)"
    using assms(2) True by (simp add: user_space_unat)
  have "pid < 6" using assms(1) by (simp add: tables_def)
  then have "unat (pid * FOUR_MB_SIZE + EIGHT_MB_SIZE) = 0x800000 + 0x400000 * unat pid" "unat pid < 6"
    using pid_range [of pid] by (auto simp: FOUR_MB_SIZE_def EIGHT_MB_SIZE_def)
  moreover have "unat (a - 0x8000000) = unat a - 0x8000000"
    using unat_sub_of_nat [of "0x8000000" a] True by simp
  moreover have "0x400000 * unat pid \<le> 0x400000 * 5" using calculation(2) by simp
  then have "0x800000 + 0x400000 * unat pid + (unat a - 0x8000000) < 0x100000000" using True by linarith
  ultimately have "unat p = 0x800000 + 0x400000 * unat pid + (unat a - 0x8000000)"
    using unat_add_small [of "pid * FOUR_MB_SIZE + EIGHT_MB_SIZE" "unat (a - 0x8000000)"]
    unfolding word_of_nat_unat p by simp
  then show ?thesis using that(1) True by blast
next
  case False
  then obtain f where "vid = Some f" "p = f + (a - USER_VIDEO)" "0xD000000 \<le> unat a" "unat a < 0xD001000"
    using assms(2) by (auto simp: user_space_unat split: if_splits)
  then show ?thesis using that(2) assms(1) by (simp add: tables_def)
qed

lemma screen_frame_range:
  assumes "screen_frame f" "0xD000000 \<le> unat a" "unat a < 0xD001000"
  shows "0xB8000 \<le> unat (f + (a - USER_VIDEO))" "unat (f + (a - USER_VIDEO)) < 0xBC000"
proof -
  have "unat (a - USER_VIDEO) = unat a - 0xD000000"
    unfolding USER_VIDEO_def using unat_sub_of_nat [of "0xD000000" a] assms(2) by simp
  moreover have "0xB8000 \<le> unat f \<and> unat f \<le> 0xBB000" using assms(1) by (auto simp: screen_frame_def)
  ultimately show "0xB8000 \<le> unat (f + (a - USER_VIDEO))" "unat (f + (a - USER_VIDEO)) < 0xBC000"
    using assms(2,3) by (simp_all only: unat_word_ariths) auto
qed

section \<open>Properties\<close>

text \<open>A freshly loaded kernel: the tables at 0x440000 and 0x441000.\<close>

definition boot0 :: paging where
  "boot0 = fs.extend fs0 (paging.fields (replicate 1024 0) (replicate 1024 0) (replicate 1024 0)
     0x440000 0x441000 False)"

lemma boot0_linked: "linked boot0"
  by (simp add: linked_def boot0_def fs.defs paging.defs page_aligned_def)

lemma boot0_mapped: "mapped (init_page boot0) None None"
  by (rule init_page_mapped [OF boot0_linked])

text \<open>After \<open>init_page\<close> exactly the four screen pages and the kernel's 4 MB page are mapped, each
  to itself, nothing is accessible to user code, and the screens are where the console expects them.\<close>

theorem init_page_space:
  assumes "linked s"
  shows "walk (init_page s) a =
      (if 0xB8000 \<le> unat a \<and> unat a < 0xBC000 \<or> 0x400000 \<le> unat a \<and> unat a < 0x800000
       then Some a else None)
    \<and> user_walk (init_page s) a = None \<and> screen_mapped (init_page s)"
proof -
  have m: "mapped (init_page s) None None" by (rule init_page_mapped [OF assms])
  then have "tables (init_page s) None None" by (simp add: mapped_def)
  from walk_space [OF this, of a] show ?thesis
    using mapped_screens [OF m] by (simp add: space_unat user_space_unat)
qed

theorem init_page_space_witness:
  "walk (init_page boot0) 0xB8010 = Some 0xB8010 \<and> walk (init_page boot0) 0x8048000 = None"
  using init_page_space [OF boot0_linked, of "0xB8010"] init_page_space [OF boot0_linked, of "0x8048000"]
  by simp

text \<open>C2. Isolation: while two different processes run, the physical bytes their code can reach have
  nothing in common except bytes of the screens, and no byte of the kernel's page can be reached.\<close>

theorem process_isolation:
  assumes "mapped s prog vid" "pid < 6" "user_walk (map_program pid s) a = Some p"
    "mapped s' prog' vid'" "pid' < 6" "user_walk (map_program pid' s') b = Some q" "pid \<noteq> pid'"
  shows "(p = q \<longrightarrow> 0xB8000 \<le> unat p \<and> unat p < 0xBC000) \<and> \<not> (0x400000 \<le> unat p \<and> unat p < 0x800000)"
proof -
  have s: "tables (map_program pid s) (Some pid) vid" "tables (map_program pid' s') (Some pid') vid'"
    using map_program_mapped assms(1,2,4,5) by (auto simp: mapped_def)
  have p: "user_space (Some pid) vid a = Some p" and q: "user_space (Some pid') vid' b = Some q"
    using walk_space(2) [OF s(1)] walk_space(2) [OF s(2)] assms(3,6) by simp_all
  have ne: "unat pid \<noteq> unat pid'" using assms(7) by (simp add: word_unat_eq_iff)
  show ?thesis
  proof (cases rule: user_space_cases [OF s(1) p, case_names prog scr])
    case prog
    show ?thesis
    proof (cases rule: user_space_cases [OF s(2) q, case_names prog' scr'])
      case prog'
      have "unat p \<noteq> unat q"
      proof
        define x y where "x = unat a - 0x8000000" and "y = unat b - 0x8000000"
        have xy: "x < 0x400000" "y < 0x400000" using prog prog' by (simp_all add: x_def y_def)
        assume "unat p = unat q"
        then have "0x400000 * unat pid + x = 0x400000 * unat pid' + y"
          using prog(1) prog'(1) by (simp add: x_def y_def)
        then have "(0x400000 * unat pid + x) div 0x400000 = (0x400000 * unat pid' + y) div 0x400000"
          by (rule arg_cong)
        then show False using xy ne by simp
      qed
      then show ?thesis using prog by auto
    next
      case (scr' f)
      then have "unat q < 0xBC000" using screen_frame_range [OF scr'(2,4,5)] by simp
      then show ?thesis using prog by auto
    qed
  next
    case (scr f)
    then show ?thesis using screen_frame_range [OF scr(2,4,5)] by auto
  qed
qed

theorem process_isolation_witness:
  "user_walk (map_program 1 (init_page boot0)) 0x8048000 = Some 0xC48000
   \<and> user_walk (map_program 2 (init_page boot0)) 0x8048000 = Some 0x1048000
   \<and> \<not> (0x400000 \<le> unat (0xC48000 :: u32) \<and> unat (0xC48000 :: u32) < 0x800000)"
proof -
  have t: "tables (map_program pid (init_page boot0)) (Some pid) None" if "pid < 6" for pid
    using map_program_mapped [OF boot0_mapped that] by (simp add: mapped_def)
  have p: "user_walk (map_program 1 (init_page boot0)) 0x8048000 = Some 0xC48000"
    and q: "user_walk (map_program 2 (init_page boot0)) 0x8048000 = Some 0x1048000"
    using walk_space(2) [OF t [of 1], of "0x8048000"] walk_space(2) [OF t [of 2], of "0x8048000"]
    by (simp_all add: user_space_unat FOUR_MB_SIZE_def EIGHT_MB_SIZE_def)
  show ?thesis using process_isolation [OF boot0_mapped _ p boot0_mapped _ q] p q by simp
qed

text \<open>\<open>map_user_video_to_buffer\<close> gives the process of a terminal in the background the saved screen
  of its own terminal and the process of the foreground terminal the visible screen, at the same
  user address, and leaves the program page alone.\<close>

theorem user_video_page:
  assumes "mapped s prog vid" "unat t < 3" "unat r < 4096"
  shows "user_walk (map_user_video_to_buffer t s) (USER_VIDEO + r) =
      Some ((if t = current_terminal s then VIDEO else saved_screen ! unat t) + r)
    \<and> user_walk (map_user_video_to_buffer t s) (0x8000000 + r) = user_walk s (0x8000000 + r)"
proof -
  let ?s = "map_user_video_to_buffer t s"
  let ?f = "if t = current_terminal s then VIDEO_OFFSET else VIDEO_OFFSET + (ucast t + 1) * FOUR_KB_SIZE"
  have "mapped ?s prog (Some ?f)"
    using map_user_video_mapped [OF assms(1)] map_terminal_video_mapped [OF assms(1,2)]
    by (simp add: map_user_video_to_buffer_def)
  then have t: "tables ?s prog (Some ?f)" by (simp add: mapped_def)
  have r: "unat r < 0x400000" using assms(3) by simp
  have "unat t = 0 \<or> unat t = 1 \<or> unat t = 2" using assms(2) by auto
  then have "t = 0 \<or> t = 1 \<or> t = 2" by (auto simp: word_unat_eq_iff)
  then have "?f = (if t = current_terminal s then VIDEO else saved_screen ! unat t)"
    by (auto simp: VIDEO_OFFSET_def VIDEO_def saved_screen_def FOUR_KB_SIZE_def)
  then show ?thesis
    using walk_video(2) [OF t r] walk_rest(4) [OF t r] assms(1,3) walk_rest(4) [OF _ r, of s prog vid]
    by (simp add: mapped_def)
qed

theorem user_video_page_witness:
  "user_walk (map_user_video_to_buffer 1 (init_page boot0)) (USER_VIDEO + 4) = Some 0xBA004"
proof -
  have "current_terminal (init_page boot0) = 0"
    using only_paging_fields [OF only_paging_init_page, of boot0]
    by (simp add: boot0_def fs.defs paging.defs)
  then show ?thesis using user_video_page [OF boot0_mapped, of 1 4] by (simp add: saved_screen_def VIDEO_def FOUR_KB_SIZE_def)
qed

end
