(* ===== verification/Rtc.thy ===== *)
theory Rtc
  imports Paging
begin

text \<open>
  The real-time clock driver (\<^verbatim>\<open>rtc.c\<close>). The chip interrupts at its default rate; each terminal has a
  virtual clock: \<open>counter_table\<close> counts interrupts, and every \<open>constant_arr\<close> of them the flag
  in \<open>itr_occur_table\<close> is raised, which \<open>rtc_read\<close> waits for.

  \<open>rtc_read\<close> spins until the flag of the running terminal is up. Only an interrupt can raise it, so
  in a state where it is down the call does not return: \<open>None\<close>. \<open>rtc_set_freq\<close> divides by the
  frequency; with 0 this is a divide error and the call does not return either.
\<close>

record rtc = paging +
  itr_occur_table :: "int list"
  counter_table :: "int list"
  constant_arr :: "int list"

definition RTC_PORT :: u16 where "RTC_PORT = 0x70"
definition CMOS_PORT :: u16 where "CMOS_PORT = 0x71"
definition RTC_REG_B :: u8 where "RTC_REG_B = 0x8B"
definition RTC_REG_C :: u8 where "RTC_REG_C = 0x8C"
definition SIXTH_BIT :: u8 where "SIXTH_BIT = 0x40"
definition RTC_IRQ :: u32 where "RTC_IRQ = 8"

definition rtc_init :: "'a rtc_scheme \<Rightarrow> 'a rtc_scheme" where
  "rtc_init s =
     (let s = outb RTC_REG_B RTC_PORT s;
          (b, s) = inb CMOS_PORT s;
          s = outb RTC_REG_B RTC_PORT s;
          s = outb (SIXTH_BIT OR ucast b) CMOS_PORT s
      in enable_irq RTC_IRQ s)"

text \<open>The loop that halves the frequency; it is left with -1 at an odd number above 1.\<close>

function halving :: "int \<Rightarrow> bool" where
  "halving freq = (if freq > 1 then if freq smod 2 \<noteq> 0 then False else halving (freq sdiv 2) else True)"
  by pat_completeness auto
termination by (relation "measure nat") (auto simp: signed_divide_int_def)

declare halving.simps [simp del]

definition rtc_set_freq :: "int \<Rightarrow> 'a rtc_scheme \<Rightarrow> (i32 \<times> 'a rtc_scheme) option" where
  "rtc_set_freq freq s =
     (let s = cli s
      in if freq < 0 \<or> freq > 1024 \<or> freq smod 2 \<noteq> 0 then Some (-1, s)
         else if \<not> halving freq then Some (-1, s)
         else if freq = 0 then None
         else let s = s\<lparr>constant_arr := (constant_arr s)[unat (running_terminal s) := 1024 sdiv freq]\<rparr>
              in Some (0, sti s))"

definition rtc_tick :: "nat \<Rightarrow> 'a rtc_scheme \<Rightarrow> 'a rtc_scheme" where
  "rtc_tick i s =
     (let s = s\<lparr>counter_table := (counter_table s)[i := counter_table s ! i + 1]\<rparr>
      in if counter_table s ! i \<ge> constant_arr s ! i
         then s\<lparr>counter_table := (counter_table s)[i := 0], itr_occur_table := (itr_occur_table s)[i := 1]\<rparr>
         else s)"

definition rtc_handler :: "'a rtc_scheme \<Rightarrow> 'a rtc_scheme" where
  "rtc_handler s =
     (let s = send_eoi RTC_IRQ s;
          s = cli s;
          s = for_loop 0 MAX_TERMINAL_NUM rtc_tick s;
          s = outb RTC_REG_C RTC_PORT s;
          (_, s) = inb CMOS_PORT s
      in sti s)"

definition rtc_read :: "i32 \<Rightarrow> addr \<Rightarrow> i32 \<Rightarrow> 'a rtc_scheme \<Rightarrow> (i32 \<times> 'a rtc_scheme) option" where
  "rtc_read fd buf nbytes s =
     (if itr_occur_table s ! unat (running_terminal s) = 0 then None
      else Some (0, s\<lparr>itr_occur_table := (itr_occur_table s)[unat (running_terminal s) := 0]\<rparr>))"

definition rtc_write :: "i32 \<Rightarrow> addr \<Rightarrow> i32 \<Rightarrow> 'a rtc_scheme \<Rightarrow> (i32 \<times> 'a rtc_scheme) option" where
  "rtc_write fd buf nbytes s =
     (if nbytes \<noteq> 4 \<or> buf = 0 then Some (-1, s) else rtc_set_freq (sint (ld32 s buf)) s)"

definition rtc_open :: "addr \<Rightarrow> 'a rtc_scheme \<Rightarrow> (i32 \<times> 'a rtc_scheme) option" where
  "rtc_open filename s = do { (_, s) \<leftarrow> rtc_set_freq 2 s; Some (0, s) }"

definition rtc_close :: "i32 \<Rightarrow> 'a rtc_scheme \<Rightarrow> i32 \<times> 'a rtc_scheme" where
  "rtc_close fd s = (0, s)"

section \<open>The virtual clocks\<close>

definition rtc_ok :: "'a rtc_scheme \<Rightarrow> bool" where
  "rtc_ok s \<longleftrightarrow> length (itr_occur_table s) = MAX_TERMINAL_NUM \<and> length (counter_table s) = MAX_TERMINAL_NUM
     \<and> length (constant_arr s) = MAX_TERMINAL_NUM
     \<and> (\<forall>t < MAX_TERMINAL_NUM. 0 < constant_arr s ! t \<and> 0 \<le> counter_table s ! t)"

text \<open>The frequencies the driver accepts are the powers of two from 2 to 1024.\<close>

lemma halving_pow2: "halving (2 ^ k)"
proof (induction k)
  case 0
  then show ?case by (simp add: halving.simps)
next
  case (Suc k)
  have "(2 :: int) ^ Suc k sdiv 2 = 2 ^ k" "(2 :: int) ^ Suc k smod 2 = 0"
    by (simp_all add: signed_divide_int_def signed_modulo_int_def)
  then show ?case using Suc by (subst halving.simps) simp
qed

lemma halving_only: "halving f \<Longrightarrow> 1 \<le> f \<Longrightarrow> \<exists>k. f = 2 ^ k"
proof (induction f rule: halving.induct)
  case (1 f)
  show ?case
  proof (cases "f = 1")
    case True
    then show ?thesis by (intro exI [of _ 0]) simp
  next
    case False
    then have "f > 1" using 1 by simp
    then have even: "f smod 2 = 0" and "halving (f sdiv 2)" using 1(2) by (subst (asm) halving.simps, auto split: if_splits)+
    moreover have half: "f sdiv 2 = f div 2" "f smod 2 = f mod 2"
      using \<open>f > 1\<close> by (auto simp: signed_divide_int_def signed_modulo_int_def sgn_if)
    moreover have "1 \<le> f div 2" using \<open>f > 1\<close> by simp
    ultimately obtain k where "f div 2 = 2 ^ k" using 1(1) \<open>f > 1\<close> by auto
    moreover have "f mod 2 = 0" using even half by simp
    then have "f = 2 * (f div 2)" by (simp add: mod_0_imp_dvd)
    ultimately show ?thesis by (intro exI [of _ "Suc k"]) simp
  qed
qed

text \<open>One interrupt advances every virtual clock by one tick.\<close>

definition tick :: "int \<Rightarrow> int \<Rightarrow> int" where
  "tick k c = (if c + 1 \<ge> k then 0 else c + 1)"

lemma rtc_tick_eq:
  assumes "rtc_ok s" "i < 3"
  shows "rtc_tick i s = s\<lparr>counter_table := (counter_table s)[i := tick (constant_arr s ! i) (counter_table s ! i)],
      itr_occur_table := (if counter_table s ! i + 1 \<ge> constant_arr s ! i
        then (itr_occur_table s)[i := 1] else itr_occur_table s)\<rparr>"
  using assms by (simp add: rtc_tick_def Let_def rtc_ok_def tick_def)

lemma rtc_ok_tick: "rtc_ok s \<Longrightarrow> i < 3 \<Longrightarrow> rtc_ok (rtc_tick i s)"
  by (simp add: rtc_tick_eq) (simp add: rtc_ok_def nth_list_update tick_def)

lemma send_eoi_rtc [simp]:
  "counter_table (send_eoi i s) = counter_table s" "constant_arr (send_eoi i s) = constant_arr s"
  "itr_occur_table (send_eoi i s) = itr_occur_table s"
  by (simp_all add: send_eoi_def outb_def)

lemma outb_rtc [simp]:
  "counter_table (outb d p s) = counter_table s" "constant_arr (outb d p s) = constant_arr s"
  "itr_occur_table (outb d p s) = itr_occur_table s"
  by (simp_all add: outb_def)

lemma rtc_handler_step:
  assumes "rtc_ok s"
  shows "rtc_ok (rtc_handler s)" "constant_arr (rtc_handler s) = constant_arr s"
    "t < 3 \<Longrightarrow> counter_table (rtc_handler s) ! t = tick (constant_arr s ! t) (counter_table s ! t)"
    "t < 3 \<Longrightarrow> itr_occur_table (rtc_handler s) ! t =
      (if counter_table s ! t + 1 \<ge> constant_arr s ! t then 1 else itr_occur_table s ! t)"
proof -
  define u where "u = cli (send_eoi RTC_IRQ s)"
  have u: "counter_table u = counter_table s" "constant_arr u = constant_arr s"
    "itr_occur_table u = itr_occur_table s" by (simp_all add: u_def cli_def)
  then have ok: "rtc_ok u" using assms by (simp add: rtc_ok_def)
  let ?loop = "rtc_tick 2 (rtc_tick 1 (rtc_tick 0 u))"
  have loop: "for_loop 0 3 rtc_tick u = ?loop"
    by (simp add: for_loop_def upt_rec numeral_2_eq_2)
  have ok2: "rtc_ok (rtc_tick 0 u)" "rtc_ok (rtc_tick 1 (rtc_tick 0 u))" "rtc_ok ?loop"
    using ok by (simp_all add: rtc_ok_tick)
  have fields: "counter_table (rtc_handler s) = counter_table ?loop" "constant_arr (rtc_handler s) = constant_arr ?loop"
    "itr_occur_table (rtc_handler s) = itr_occur_table ?loop"
    by (simp_all add: rtc_handler_def Let_def u_def [symmetric] loop inb_def sti_def)
  show "rtc_ok (rtc_handler s)" using ok2(3) fields by (simp add: rtc_ok_def)
  have len: "length (counter_table u) = 3" "length (itr_occur_table u) = 3"
    using assms u by (simp_all add: rtc_ok_def)
  show const: "constant_arr (rtc_handler s) = constant_arr s"
    using ok ok2 u by (simp add: fields rtc_tick_eq)
  assume "t < 3"
  then have "t = 0 \<or> t = 1 \<or> t = 2" by auto
  then show "counter_table (rtc_handler s) ! t = tick (constant_arr s ! t) (counter_table s ! t)"
    "itr_occur_table (rtc_handler s) ! t =
      (if counter_table s ! t + 1 \<ge> constant_arr s ! t then 1 else itr_occur_table s ! t)"
    using ok ok2 u len by (auto simp: fields rtc_tick_eq)
qed

lemma rtc_handler_iterate:
  assumes "rtc_ok s" "t < 3" "counter_table s ! t < constant_arr s ! t"
  shows "rtc_ok ((rtc_handler ^^ n) s) \<and> constant_arr ((rtc_handler ^^ n) s) = constant_arr s
    \<and> counter_table ((rtc_handler ^^ n) s) ! t = (counter_table s ! t + int n) mod (constant_arr s ! t)
    \<and> itr_occur_table ((rtc_handler ^^ n) s) ! t =
        (if counter_table s ! t + int n \<ge> constant_arr s ! t then 1 else itr_occur_table s ! t)"
proof (induction n)
  case 0
  then show ?case using assms by (simp add: rtc_ok_def)
next
  case (Suc n)
  let ?k = "constant_arr s ! t" and ?c = "counter_table s ! t" and ?u = "(rtc_handler ^^ n) s"
  have k: "0 < ?k" "0 \<le> ?c" using assms(1,2) by (simp_all add: rtc_ok_def)
  have "(?c + int n) mod ?k + 1 \<le> ?k" using k(1) by (simp add: zless_imp_add1_zle)
  then have tick: "tick ?k ((?c + int n) mod ?k) = (?c + int (Suc n)) mod ?k"
    using k(1) mod_add_left_eq [of "?c + int n" ?k 1] by (auto simp: tick_def ac_simps)
  have "(?c + int n) mod ?k \<le> ?c + int n" using k by (intro zmod_le_nonneg_dividend) simp
  then have wrap: "(?c + int n) mod ?k + 1 \<ge> ?k \<Longrightarrow> ?c + int n + 1 \<ge> ?k" by linarith
  have small: "?c + int n + 1 \<ge> ?k \<Longrightarrow> \<not> ?c + int n \<ge> ?k \<Longrightarrow> (?c + int n) mod ?k + 1 \<ge> ?k"
    using k by simp
  have u: "rtc_ok ?u" "constant_arr ?u = constant_arr s" "counter_table ?u ! t = (?c + int n) mod ?k"
    "itr_occur_table ?u ! t = (if ?k \<le> ?c + int n then 1 else itr_occur_table s ! t)"
    using Suc by blast+
  have "itr_occur_table (rtc_handler ?u) ! t = (if ?k \<le> ?c + int (Suc n) then 1 else itr_occur_table s ! t)"
    unfolding rtc_handler_step(4) [OF u(1) assms(2)] u using wrap small by auto
  then show ?case
    using rtc_handler_step(1-3) [OF u(1)] assms(2) tick u by simp
qed

lemma pow2_div:
  assumes "k \<le> 10"
  shows "(1024 :: int) div 2 ^ k = 2 ^ (10 - k)"
proof -
  have "(2 :: int) ^ k * 2 ^ (10 - k) = 2 ^ 10" using assms by (simp flip: power_add)
  then have "(1024 :: int) = 2 ^ k * 2 ^ (10 - k)" by simp
  then show ?thesis by (metis nonzero_mult_div_cancel_left power_not_zero zero_neq_numeral)
qed

lemma rtc_set_freq_pow2:
  assumes "1 \<le> k" "k \<le> 10"
  shows "rtc_set_freq (2 ^ k) s =
    Some (0, s\<lparr>iflag := True, constant_arr := (constant_arr s)[unat (running_terminal s) := 2 ^ (10 - k)]\<rparr>)"
proof -
  have "(2 :: int) ^ k \<le> 2 ^ 10" using assms(2) by (intro power_increasing) simp_all
  moreover have "(2 :: int) ^ k smod 2 = 0"
    using assms(1) by (cases k) (simp_all add: signed_modulo_int_def)
  moreover have "(1024 :: int) sdiv 2 ^ k = 2 ^ (10 - k)"
    using pow2_div [OF assms(2)] by (simp add: signed_divide_int_def)
  ultimately show ?thesis
    using halving_pow2 [of k] by (simp add: rtc_set_freq_def Let_def cli_def sti_def not_less [symmetric])
qed

section \<open>Properties\<close>

definition rtc0 :: rtc where
  "rtc0 = paging.extend (init_page boot0) (rtc.fields [0, 0, 0] [0, 0, 0] [1024, 1024, 1024])"

lemma rtc0_ok: "rtc_ok rtc0" "constant_arr rtc0 = [1024, 1024, 1024]" "counter_table rtc0 = [0, 0, 0]"
  "itr_occur_table rtc0 = [0, 0, 0]" "running_terminal rtc0 = 0"
proof -
  have "0 < [1024, 1024, 1024 :: int] ! t \<and> 0 \<le> [0, 0, 0 :: int] ! t" if "t < 3" for t :: nat
  proof -
    have "t = 0 \<or> t = 1 \<or> t = 2" using that by auto
    then show ?thesis by auto
  qed
  then show "rtc_ok rtc0" by (simp add: rtc_ok_def rtc0_def paging.defs rtc.defs)
  show "running_terminal rtc0 = 0"
    using only_paging_fields(20) [OF only_paging_init_page, of boot0]
    by (simp add: rtc0_def paging.defs boot0_def fs.defs)
qed (simp_all add: rtc0_def paging.defs rtc.defs)

text \<open>The frequencies the clock accepts are exactly the powers of two from 2 to 1024: for these the rate of
  the running terminal is set to 1024 divided by the frequency; every other frequency except 0 is refused with -1,
  leaving the rates alone but interrupts switched off; for 0 the call does not return (division by zero).\<close>

theorem rtc_set_freq_spec:
  "rtc_set_freq freq s =
     (if freq = 0 then None
      else if \<exists>k. 1 \<le> k \<and> k \<le> 10 \<and> freq = 2 ^ k
      then Some (0, s\<lparr>iflag := True,
             constant_arr := (constant_arr s)[unat (running_terminal s) := 1024 div freq]\<rparr>)
      else Some (-1, s\<lparr>iflag := False\<rparr>))"
proof (cases "\<exists>k. 1 \<le> k \<and> k \<le> 10 \<and> freq = 2 ^ k")
  case True
  then obtain k where k: "1 \<le> k" "k \<le> 10" "freq = 2 ^ k" by auto
  have "(1024 :: int) div 2 ^ k = 2 ^ (10 - k)" by (rule pow2_div [OF k(2)])
  then show ?thesis using True k rtc_set_freq_pow2 [OF k(1,2), of s] by simp
next
  case False
  show ?thesis
  proof (cases "freq < 0 \<or> freq > 1024 \<or> freq smod 2 \<noteq> 0 \<or> freq = 0")
    case out_of_range: True
    show ?thesis
    proof (cases "freq = 0")
      case True
      have "halving 0" by (subst halving.simps) simp
      then show ?thesis by (simp add: True rtc_set_freq_def Let_def signed_modulo_int_def)
    next
      case nonzero: False
      then have "freq < 0 \<or> freq > 1024 \<or> freq smod 2 \<noteq> 0" using out_of_range by blast
      then have "rtc_set_freq freq s = Some (-1, cli s)" by (simp add: rtc_set_freq_def Let_def)
      then show ?thesis using False nonzero by (simp add: cli_def)
    qed
  next
    case in_range: False
    have "\<not> halving freq"
    proof
      assume "halving freq"
      then obtain k where k: "freq = 2 ^ k" using halving_only [of freq] in_range by auto
      have "k \<noteq> 0" using in_range k by (auto simp: signed_modulo_int_def)
      moreover have "(2 :: int) ^ k \<le> 2 ^ 10" using in_range k by simp
      then have "k \<le> 10" by (simp only: power_increasing_iff)
      ultimately show False using False k by auto
    qed
    then show ?thesis using in_range False by (simp add: rtc_set_freq_def Let_def cli_def)
  qed
qed

text \<open>C40. The virtual clock of a terminal: starting from a count below its rate, after any number of
  clock interrupts the count is the number of interrupts modulo the rate, and the flag that
  \<open>rtc_read\<close> waits for is up as soon as the rate is reached; no terminal disturbs another.\<close>

theorem rtc_virtual_clock:
  assumes "rtc_ok s" "t < 3" "counter_table s ! t < constant_arr s ! t" "itr_occur_table s ! t = 0"
  shows "counter_table ((rtc_handler ^^ n) s) ! t = (counter_table s ! t + int n) mod (constant_arr s ! t)
    \<and> (itr_occur_table ((rtc_handler ^^ n) s) ! t \<noteq> 0 \<longleftrightarrow> constant_arr s ! t \<le> counter_table s ! t + int n)"
  using rtc_handler_iterate [OF assms(1-3), of n] assms(4) by auto

theorem rtc_virtual_clock_witness:
  "itr_occur_table ((rtc_handler ^^ 1024) rtc0) ! 0 \<noteq> 0 \<and> itr_occur_table ((rtc_handler ^^ 1023) rtc0) ! 0 = 0"
  using rtc_virtual_clock [OF rtc0_ok(1), of 0 1024] rtc_virtual_clock [OF rtc0_ok(1), of 0 1023]
  by (simp add: rtc0_ok del: funpow.simps)

end
