(* ===== verification/Lib_Printf.thy ===== *)
theory Lib_Printf
  imports Console_Spec
begin

text \<open>
  Formatted output (\<open>puts\<close>, \<open>itoa\<close>, \<open>strrev\<close>, \<open>printf\<close>, \<open>print_width\<close> of \<^verbatim>\<open>lib.c\<close>).

  A format string is the list of its bytes, without the terminator; the variable arguments are the
  list of the 32-bit words on the stack. \<open>conv_buf\<close> is the address of the local array that
  \<open>printf\<close> converts numbers in. The loops over strings return \<open>None\<close> when no terminator is found;
  \<open>printf\<close> has no result either when the format ends in a lone \<open>%\<close>, where the code steps over
  the terminator, or when there are fewer arguments than conversions.
\<close>

definition itoa_lookup :: "u8 list" where
  "itoa_lookup = bytes_of ''0123456789ABCDEFGHIJKLMNOPQRSTUVWXYZ''"

partial_function (option) itoa_loop ::
  "u32 \<Rightarrow> addr \<Rightarrow> u32 \<Rightarrow> 'a machine_scheme \<Rightarrow> (addr \<times> 'a machine_scheme) option" where
  "itoa_loop newval newbuf radix s =
     (if newval > 0
      then if radix = 0 then None
           else itoa_loop (newval div radix) (newbuf + 1) radix
                  (st newbuf (itoa_lookup ! unat (newval mod radix)) s)
      else Some (newbuf, s))"

function strrev_loop :: "addr \<Rightarrow> int \<Rightarrow> int \<Rightarrow> 'a machine_scheme \<Rightarrow> 'a machine_scheme" where
  "strrev_loop p beg end0 s =
     (if beg < end0
      then let tmp = ld s (p + word_of_int end0);
               s = st (p + word_of_int end0) (ld s (p + word_of_int beg)) s;
               s = st (p + word_of_int beg) tmp s
           in strrev_loop p (beg + 1) (end0 - 1) s
      else s)"
  by pat_completeness auto
termination by (relation "measure (\<lambda>(p, beg, end0, s). nat (end0 - beg))") auto

declare strrev_loop.simps [simp del]

definition strrev :: "addr \<Rightarrow> 'a machine_scheme \<Rightarrow> 'a machine_scheme option" where
  "strrev p s = do { n \<leftarrow> strlen s p; Some (strrev_loop p 0 (sint (n - 1)) s) }"

definition itoa :: "u32 \<Rightarrow> addr \<Rightarrow> u32 \<Rightarrow> 'a machine_scheme \<Rightarrow> 'a machine_scheme option" where
  "itoa v buf radix s =
     (if v = 0 then Some (st (buf + 1) 0 (st buf 0x30 s))
      else do {
        (newbuf, s) \<leftarrow> itoa_loop v buf radix s;
        strrev buf (st newbuf 0 s)
      })"

partial_function (option) puts_loop ::
  "addr \<Rightarrow> u32 \<Rightarrow> 'a console_scheme \<Rightarrow> (i32 \<times> 'a console_scheme) option" where
  "puts_loop p index s =
     (if ld s (p + index) \<noteq> 0 then puts_loop p (index + 1) (putc (ld s (p + index)) s)
      else Some (index, s))"

definition puts :: "addr \<Rightarrow> 'a console_scheme \<Rightarrow> (i32 \<times> 'a console_scheme) option" where
  "puts p s = puts_loop p 0 s"

text \<open>The conversions of numbers. \<open>%d\<close> of a negative number converts its 32-bit negation.\<close>

definition print_hex :: "bool \<Rightarrow> addr \<Rightarrow> u32 \<Rightarrow> 'a console_scheme \<Rightarrow> 'a console_scheme option" where
  "print_hex alternate conv_buf v s =
     (if \<not> alternate
      then do { s \<leftarrow> itoa v conv_buf 16 s; (_, s) \<leftarrow> puts conv_buf s; Some s }
      else do {
        s \<leftarrow> itoa v (conv_buf + 8) 16 s;
        starting_index \<leftarrow> strlen s (conv_buf + 8);
        let s = for_loop (unat starting_index) 8 (\<lambda>i s. st (conv_buf + word_of_nat i) 0x30 s) s;
        (_, s) \<leftarrow> puts (conv_buf + starting_index) s;
        Some s
      })"

definition print_unsigned :: "addr \<Rightarrow> u32 \<Rightarrow> 'a console_scheme \<Rightarrow> 'a console_scheme option" where
  "print_unsigned conv_buf v s =
     do { s \<leftarrow> itoa v conv_buf 10 s; (_, s) \<leftarrow> puts conv_buf s; Some s }"

definition print_signed :: "addr \<Rightarrow> i32 \<Rightarrow> 'a console_scheme \<Rightarrow> 'a console_scheme option" where
  "print_signed conv_buf v s =
     do {
       s \<leftarrow> (if v <s 0 then itoa (- v) (conv_buf + 1) 10 (st conv_buf 0x2D s) else itoa v conv_buf 10 s);
       (_, s) \<leftarrow> puts conv_buf s;
       Some s
     }"

text \<open>
  The loop of \<open>printf\<close>. The first argument is where the code is: \<open>None\<close> in plain text,
  \<open>Some alternate\<close> at the label \<open>format_char_switch\<close>.
\<close>

fun printf_loop ::
  "bool option \<Rightarrow> addr \<Rightarrow> u8 list \<Rightarrow> u32 list \<Rightarrow> 'a console_scheme \<Rightarrow> 'a console_scheme option" where
  "printf_loop None cb [] args s = Some s"
| "printf_loop None cb (c # fmt) args s =
     (if c = 0x25 then printf_loop (Some False) cb fmt args s
      else printf_loop None cb fmt args (putc c s))"
| "printf_loop (Some alternate) cb [] args s = None"
| "printf_loop (Some alternate) cb (c # fmt) args s =
     (if c = 0x25 then printf_loop None cb fmt args (putc 0x25 s)
      else if c = 0x23 then printf_loop (Some True) cb fmt args s
      else if c = 0x78 then
        (case args of [] \<Rightarrow> None
         | v # args \<Rightarrow> do { s \<leftarrow> print_hex alternate cb v s; printf_loop None cb fmt args s })
      else if c = 0x75 then
        (case args of [] \<Rightarrow> None
         | v # args \<Rightarrow> do { s \<leftarrow> print_unsigned cb v s; printf_loop None cb fmt args s })
      else if c = 0x64 then
        (case args of [] \<Rightarrow> None
         | v # args \<Rightarrow> do { s \<leftarrow> print_signed cb v s; printf_loop None cb fmt args s })
      else if c = 0x63 then
        (case args of [] \<Rightarrow> None
         | v # args \<Rightarrow> printf_loop None cb fmt args (putc (ucast v) s))
      else if c = 0x73 then
        (case args of [] \<Rightarrow> None
         | v # args \<Rightarrow> do { (_, s) \<leftarrow> puts v s; printf_loop None cb fmt args s })
      else printf_loop None cb fmt args s)"

definition printf :: "addr \<Rightarrow> u8 list \<Rightarrow> u32 list \<Rightarrow> 'a console_scheme \<Rightarrow> (i32 \<times> 'a console_scheme) option" where
  "printf conv_buf format args s =
     do { s \<leftarrow> printf_loop None conv_buf format args s; Some (word_of_nat (length format), s) }"

text \<open>\<open>str_to_print\<close> is the address of the local array of \<open>width + 1\<close> bytes.\<close>

definition print_width :: "addr \<Rightarrow> addr \<Rightarrow> u32 \<Rightarrow> 'a console_scheme \<Rightarrow> (i32 \<times> 'a console_scheme) option" where
  "print_width str_to_print str width s =
     do {
       len \<leftarrow> strlen s str;
       let s = st (str_to_print + width) 0 s;
       if len > width
       then do {
         let s = strncpy str_to_print str width s;
         (_, s) \<leftarrow> puts str_to_print s;
         Some (len - width, s)
       }
       else do {
         let num_space = width - len;
         let s = for_loop 0 (unat num_space) (\<lambda>i s. st (str_to_print + word_of_nat i) 0x20 s) s;
         let s = strncpy (str_to_print + num_space) str len s;
         (_, s) \<leftarrow> puts str_to_print s;
         Some (0, s)
       }
     }"

section \<open>Printing does not touch memory outside the screen\<close>

definition off_screen :: "u32 \<Rightarrow> bool" where
  "off_screen p \<longleftrightarrow> (\<forall>i < 4096. p \<noteq> off i)"

lemma off_screenD: "off_screen p \<Longrightarrow> i < 4096 \<Longrightarrow> p \<noteq> off i"
  by (simp add: off_screen_def)

lemma phys_update [simp]:
  "phys (s\<lparr>screen_x := a\<rparr>) = phys s" "phys (s\<lparr>screen_y := a\<rparr>) = phys s" "phys (s\<lparr>row_stack := a\<rparr>) = phys s"
  by simp_all

lemma put_cell_outside:
  assumes "screen_mapped s" "0 \<le> k" "k < 1920" "off_screen p"
  shows "phys (put_cell VIDEO k c col s) p = phys s p"
proof -
  have "2 * nat k < 4096" "2 * nat k + 1 < 4096" using assms(3) by simp_all
  then have "off (2 * nat k) \<noteq> p" "off (2 * nat k + 1) \<noteq> p"
    using assms(4) off_screenD by metis+
  then have "xl s (off (2 * nat k)) \<noteq> p" "xl s (off (2 * nat k + 1)) \<noteq> p"
    using assms(1,3) by (simp_all add: screen_mapped_def)
  then show ?thesis
    using put_cell_off [of 0 "nat k" c col s] assms(2) by (simp add: page_0 [symmetric] phys_st)
qed

lemma blank_row_outside:
  assumes "screen_mapped s" "0 \<le> row" "row < 24" "off_screen p"
  shows "phys (blank_row VIDEO row col s) p = phys s p"
proof -
  let ?f = "\<lambda>i s. put_cell VIDEO (80 * row + int i) 0x20 col s"
  have "phys (for_loop 0 80 ?f s) p = phys s p \<and> screen_mapped (for_loop 0 80 ?f s)"
    by (rule for_loop_invariant) (use assms in \<open>auto simp: put_cell_outside\<close>)
  then show ?thesis by (simp add: blank_row_def)
qed

lemma memcpy_outside:
  assumes "screen_mapped s" "unat n \<le> 3840" "off_screen p"
  shows "phys (memcpy VIDEO (VIDEO + 160) n s) p = phys s p"
proof -
  have "\<not> unat (p - page 0) < unat n"
  proof
    assume "unat (p - page 0) < unat n"
    then have "unat (p - page 0) < 4096" using assms(2) by simp
    moreover have "p = off (unat (p - page 0))" by (simp add: off_def page_0 [symmetric])
    ultimately show False using off_screenD [OF assms(3)] by blast
  qed
  then show ?thesis using memcpy_scroll [OF assms(1) _ assms(2), of 0 p] by (simp add: page_0)
qed

lemma enter_and_scroll_outside:
  assumes "screen_mapped s" "off_screen p"
  shows "phys (enter_and_scroll s) p = phys s p" "xl (enter_and_scroll s) = xl s"
  using assms by (simp_all add: enter_and_scroll_def Let_def blank_row_outside memcpy_outside)

lemma enter_handler_outside:
  assumes "screen_mapped s" "off_screen p"
  shows "phys (enter_handler s) p = phys s p" "xl (enter_handler s) = xl s"
  using assms by (simp_all add: enter_handler_def Let_def set_cursor_position_def enter_and_scroll_outside)

lemma putc_wrap_outside:
  assumes "screen_mapped s" "off_screen p"
  shows "phys (putc_wrap s) p = phys s p" "xl (putc_wrap s) = xl s"
  using assms by (simp_all add: putc_wrap_def Let_def blank_row_outside memcpy_outside)

lemma putc_outside:
  assumes "console_ok s" "off_screen p"
  shows "phys (putc c s) p = phys s p" "xl (putc c s) = xl s"
proof -
  have ok: "screen_mapped s" "0 \<le> 80 * screen_y s + screen_x s" "80 * screen_y s + screen_x s < 1920"
    using assms(1) by (auto simp: console_ok_def)
  show "phys (putc c s) p = phys s p" "xl (putc c s) = xl s"
    using ok assms(2)
    by (simp_all add: putc_def Let_def enter_handler_outside putc_wrap_outside put_cell_outside)
qed

lemma ld_putc:
  assumes "console_ok s" "off_screen (xl s a)"
  shows "ld (putc c s) a = ld s a"
  using putc_outside [OF assms] by (simp add: ld_def)

text \<open>Memory that is off the screen stays as it is while a text is printed.\<close>

lemma fold_putc_outside:
  assumes "console_ok s"
  shows "xl (fold putc cs s) = xl s" "off_screen p \<Longrightarrow> phys (fold putc cs s) p = phys s p"
proof -
  have "xl (fold putc cs s) = xl s \<and> (off_screen p \<longrightarrow> phys (fold putc cs s) p = phys s p)"
    using assms
  proof (induction cs arbitrary: s)
    case (Cons c cs)
    have "off_screen 0" by (auto simp: off_screen_def off_def VIDEO_def word_unat_eq_iff unat_word_ariths unat_of_nat_u32)
    then have "xl (putc c s) = xl s" using putc_outside(2) [OF Cons.prems] by blast
    then show ?case using Cons visible.put_inv [OF Cons.prems] putc_outside(1) [OF Cons.prems] by simp
  qed simp
  then show "xl (fold putc cs s) = xl s" "off_screen p \<Longrightarrow> phys (fold putc cs s) p = phys s p" by auto
qed

section \<open>puts prints a C string\<close>

lemma puts_loop_eq:
  assumes "console_ok s" "cstr s p n" "\<And>i. i \<le> n \<Longrightarrow> off_screen (xl s (p + word_of_nat i))" "k \<le> n"
  shows "puts_loop p (word_of_nat k) (fold putc (read_bytes s p k) s) =
    Some (word_of_nat n, fold putc (read_bytes s p n) s)"
  using assms(4)
proof (induction "n - k" arbitrary: k)
  case 0
  then have k: "k = n" by simp
  have "ld (fold putc (read_bytes s p n) s) (p + word_of_nat n) = 0"
    using fold_putc_outside [OF assms(1)] assms(2) assms(3) [of n] by (simp add: ld_def cstr_def)
  then show ?case by (simp add: k puts_loop.simps)
next
  case (Suc x)
  then have k: "k < n" by simp
  have "ld (fold putc (read_bytes s p k) s) (p + word_of_nat k) = ld s (p + word_of_nat k)"
    using fold_putc_outside [OF assms(1)] assms(3) [of k] k by (simp add: ld_def)
  moreover have "ld s (p + word_of_nat k) \<noteq> 0" using assms(2) k by (simp add: cstr_def)
  moreover have "fold putc (read_bytes s p (Suc k)) s =
      putc (ld s (p + word_of_nat k)) (fold putc (read_bytes s p k) s)"
    using read_bytes_append [of s p k 1] by (simp add: read_bytes_def)
  ultimately show ?case
    using Suc.hyps(1) [of "Suc k"] Suc.hyps(2) k by (subst puts_loop.simps) (simp add: add.commute)
qed

lemma puts_eq:
  assumes "console_ok s" "cstr s p n" "\<And>i. i \<le> n \<Longrightarrow> off_screen (xl s (p + word_of_nat i))"
  shows "puts p s = Some (word_of_nat n, fold putc (read_bytes s p n) s)"
  using puts_loop_eq [OF assms, of 0] by (simp add: puts_def read_bytes_def)

section \<open>Numbers\<close>

text \<open>The digits of a number, least significant first, and the string \<open>itoa\<close> makes of it.\<close>

function rev_digits :: "nat \<Rightarrow> nat \<Rightarrow> nat list" where
  "rev_digits r n = (if n = 0 \<or> r < 2 then [] else (n mod r) # rev_digits r (n div r))"
  by pat_completeness auto
termination by (relation "measure snd") auto

declare rev_digits.simps [simp del]

definition number_string :: "nat \<Rightarrow> nat \<Rightarrow> u8 list" where
  "number_string r n = (if n = 0 then [0x30] else map ((!) itoa_lookup) (rev (rev_digits r n)))"

text \<open>The string denotes the number: reading it from the left in base \<open>r\<close> gives the number back.\<close>

lemma rev_digits_value:
  "2 \<le> r \<Longrightarrow> foldr (\<lambda>d v. d + r * v) (rev_digits r n) 0 = n"
  by (induction r n rule: rev_digits.induct) (subst rev_digits.simps, auto)

lemma rev_digits_less: "2 \<le> r \<Longrightarrow> d \<in> set (rev_digits r n) \<Longrightarrow> d < r"
  by (induction r n rule: rev_digits.induct) (subst (asm) (2) rev_digits.simps, auto split: if_splits)

lemma rev_digits_length: "2 \<le> r \<Longrightarrow> n < r ^ k \<Longrightarrow> length (rev_digits r n) \<le> k"
proof (induction k arbitrary: n)
  case 0
  then show ?case by (simp add: rev_digits.simps)
next
  case (Suc k)
  show ?case
  proof (cases "n = 0")
    case False
    have "n div r < r ^ k" using Suc.prems by (simp add: less_mult_imp_div_less mult.commute)
    then show ?thesis using Suc False by (subst rev_digits.simps) simp
  qed (simp add: rev_digits.simps)
qed

lemma rev_digits_nonempty: "2 \<le> r \<Longrightarrow> 0 < n \<Longrightarrow> rev_digits r n \<noteq> []"
  by (subst rev_digits.simps) simp

lemma itoa_loop_eq:
  assumes "2 \<le> unat r"
  shows "itoa_loop v buf r s =
    Some (buf + word_of_nat (length (rev_digits (unat r) (unat v))),
          write_list buf (map ((!) itoa_lookup) (rev_digits (unat r) (unat v))) s)"
proof (induction "unat v" arbitrary: v buf s rule: less_induct)
  case less
  show ?case
  proof (cases "v = 0")
    case True
    then show ?thesis by (simp add: itoa_loop.simps rev_digits.simps)
  next
    case False
    then have pos: "0 < unat v" by (simp add: unat_gt_0)
    have r0: "r \<noteq> 0" using assms by auto
    have dm: "unat (v div r) = unat v div unat r" "unat (v mod r) = unat v mod unat r"
      by (simp_all add: unat_div_distrib unat_mod_distrib)
    have "unat (v div r) < unat v" using dm(1) pos assms by simp
    moreover have "rev_digits (unat r) (unat v) = (unat v mod unat r) # rev_digits (unat r) (unat v div unat r)"
      using pos assms by (subst rev_digits.simps) simp
    ultimately show ?thesis
      using less [of "v div r"] False r0
      by (subst itoa_loop.simps) (simp add: dm word_neq_0_conv ac_simps)
  qed
qed

text \<open>\<open>strrev\<close> reverses the bytes between two indices of a range whose bytes are distinct.\<close>

text \<open>One exchange of the reversal.\<close>

lemma swap_bytes:
  assumes "inj_on (\<lambda>i. xl s (p + word_of_nat i)) {..<n}" "a < n" "b < n"
  defines "t \<equiv> st (p + word_of_nat a) (ld s (p + word_of_nat b)) (st (p + word_of_nat b) (ld s (p + word_of_nat a)) s)"
  shows "only_phys s t" "xl t = xl s" "\<And>q. \<forall>i < n. xl s (p + word_of_nat i) \<noteq> q \<Longrightarrow> phys t q = phys s q"
    "\<And>i. i < n \<Longrightarrow> ld t (p + word_of_nat i) =
       (if i = a then ld s (p + word_of_nat b) else if i = b then ld s (p + word_of_nat a) else ld s (p + word_of_nat i))"
proof -
  show "only_phys s t" "xl t = xl s" by (simp_all add: t_def only_phys_st)
  show "phys t q = phys s q" if "\<forall>i < n. xl s (p + word_of_nat i) \<noteq> q" for q using that assms(2,3) by (auto simp: t_def phys_st)
  have "xl s (p + word_of_nat i) = xl s (p + word_of_nat j) \<longleftrightarrow> i = j" if "i < n" "j < n" for i j
    using assms(1) that by (auto dest: inj_onD)
  then show "ld t (p + word_of_nat i) =
      (if i = a then ld s (p + word_of_nat b) else if i = b then ld s (p + word_of_nat a) else ld s (p + word_of_nat i))" if "i < n" for i
    using that assms(2,3) by (simp add: t_def ld_st)
qed

lemma strrev_loop_eq:
  assumes "inj_on (\<lambda>i. xl s (p + word_of_nat i)) {..<n}" "e \<le> n"
  shows "only_phys s (strrev_loop p (int b) (int e - 1) s)
    \<and> (\<forall>i < n. ld (strrev_loop p (int b) (int e - 1) s) (p + word_of_nat i) =
         (if b \<le> i \<and> i < e then ld s (p + word_of_nat (b + e - 1 - i)) else ld s (p + word_of_nat i)))
    \<and> (\<forall>q. (\<forall>i < n. xl s (p + word_of_nat i) \<noteq> q) \<longrightarrow> phys (strrev_loop p (int b) (int e - 1) s) q = phys s q)"
  using assms
proof (induction "e - b" arbitrary: b e s rule: less_induct)
  case less
  show ?case
  proof (cases "b + 1 < e")
    case False
    then have "strrev_loop p (int b) (int e - 1) s = s" by (simp add: strrev_loop.simps)
    moreover have "i = b" "b + e - 1 - i = i" if "b \<le> i" "i < e" for i using False that by simp_all
    ultimately show ?thesis by auto
  next
    case True
    define E where "E = e - 1"
    have E: "int e - 1 = int E" "b < E" "E < n" "e = Suc E" using True less.prems(2) by (auto simp: E_def)
    define t where "t = st (p + word_of_nat b) (ld s (p + word_of_nat E))
        (st (p + word_of_nat E) (ld s (p + word_of_nat b)) s)"
    note sw = swap_bytes [OF less.prems(1), of b E, folded t_def, OF less_trans [OF E(2,3)] E(3)]
    have step: "strrev_loop p (int b) (int e - 1) s = strrev_loop p (int (Suc b)) (int E - 1) t"
      using E by (subst strrev_loop.simps) (simp add: t_def Let_def add.commute)
    have IH: "only_phys t (strrev_loop p (int (Suc b)) (int E - 1) t)
      \<and> (\<forall>i < n. ld (strrev_loop p (int (Suc b)) (int E - 1) t) (p + word_of_nat i) =
         (if Suc b \<le> i \<and> i < E then ld t (p + word_of_nat (Suc b + E - 1 - i)) else ld t (p + word_of_nat i)))
      \<and> (\<forall>q. (\<forall>i < n. xl t (p + word_of_nat i) \<noteq> q) \<longrightarrow>
           phys (strrev_loop p (int (Suc b)) (int E - 1) t) q = phys t q)"
      by (rule less.hyps) (use E True less.prems sw(2) in auto)
    have "only_phys s (strrev_loop p (int b) (int e - 1) s)"
      unfolding step using IH only_phys_trans [OF sw(1)] by blast
    moreover have "ld (strrev_loop p (int b) (int e - 1) s) (p + word_of_nat i) =
         (if b \<le> i \<and> i < e then ld s (p + word_of_nat (b + e - 1 - i)) else ld s (p + word_of_nat i))"
      if "i < n" for i
    proof -
      have "b \<le> i \<Longrightarrow> b + E - i < n" "Suc b \<le> i \<Longrightarrow> i < E \<Longrightarrow> b + E - i \<noteq> b \<and> b + E - i \<noteq> E" using E that by auto
      moreover have "ld (strrev_loop p (int b) (int e - 1) s) (p + word_of_nat i) =
          (if Suc b \<le> i \<and> i < E then ld t (p + word_of_nat (b + E - i)) else ld t (p + word_of_nat i))"
        unfolding step using IH that by simp
      moreover have "b + e - 1 - i = b + E - i" using E by simp
      ultimately show ?thesis using that E by (auto simp: sw(4) less_Suc_eq simp del: of_nat_add of_nat_diff)
    qed
    moreover have "phys (strrev_loop p (int b) (int e - 1) s) q = phys s q"
      if "\<forall>i < n. xl s (p + word_of_nat i) \<noteq> q" for q
      unfolding step using IH that sw(2) sw(3) [OF that] by simp
    ultimately show ?thesis by blast
  qed
qed

text \<open>A range of memory that \<open>printf\<close> may work in: distinct bytes, none of them on the screen.\<close>

definition scratch :: "'a machine_scheme \<Rightarrow> addr \<Rightarrow> nat \<Rightarrow> bool" where
  "scratch s p n \<longleftrightarrow> inj_on (\<lambda>i. xl s (p + word_of_nat i)) {..<n} \<and> (\<forall>i < n. off_screen (xl s (p + word_of_nat i)))"

text \<open>\<open>holds s p xs\<close>: the bytes \<open>xs\<close> and a terminator are at \<open>p\<close>.\<close>

definition holds :: "'a machine_scheme \<Rightarrow> addr \<Rightarrow> u8 list \<Rightarrow> bool" where
  "holds s p xs \<longleftrightarrow> read_bytes s p (length xs) = xs \<and> ld s (p + word_of_nat (length xs)) = 0"

lemma holds_cstr: "holds s p xs \<Longrightarrow> 0 \<notin> set xs \<Longrightarrow> cstr s p (length xs)"
  unfolding holds_def cstr_def by (metis nth_mem nth_read_bytes)

lemma lookup_nonzero: "d < 36 \<Longrightarrow> itoa_lookup ! d \<noteq> 0"
proof -
  assume "d < 36"
  moreover have "list_all (\<lambda>b. b \<noteq> 0) itoa_lookup \<and> length itoa_lookup = 36"
    by (simp add: itoa_lookup_def bytes_of_def)
  ultimately show ?thesis by (auto simp: list_all_length)
qed

lemma number_string_nonzero: "2 \<le> r \<Longrightarrow> r \<le> 36 \<Longrightarrow> 0 \<notin> set (number_string r n)"
proof -
  assume r: "2 \<le> r" "r \<le> 36"
  have "itoa_lookup ! d \<noteq> 0" if "d \<in> set (rev_digits r n)" for d
    using rev_digits_less [OF r(1) that] r(2) by (intro lookup_nonzero) simp
  then show ?thesis by (auto simp: number_string_def)
qed

lemma number_string_length:
  assumes "2 \<le> r" "n < r ^ k" "0 < k"
  shows "length (number_string r n) \<le> k" "0 < length (number_string r n)"
  using assms rev_digits_length [of r n k] rev_digits_nonempty [of r n] by (auto simp: number_string_def)

definition unchanged_outside :: "'a machine_scheme \<Rightarrow> addr \<Rightarrow> nat \<Rightarrow> 'a machine_scheme \<Rightarrow> bool" where
  "unchanged_outside s p n t \<longleftrightarrow> only_phys s t \<and> (\<forall>q. (\<forall>i < n. xl s (p + word_of_nat i) \<noteq> q) \<longrightarrow> phys t q = phys s q)"

lemma only_phys_xl: "only_phys s t \<Longrightarrow> xl t = xl s"
  by (drule only_physD) (metis machine.select_convs(2) machine.surjective machine.update_convs(1))

lemma unchanged_mono: "unchanged_outside s p m t \<Longrightarrow> m \<le> n \<Longrightarrow> unchanged_outside s p n t"
  by (auto simp: unchanged_outside_def)

lemma unchanged_trans:
  assumes "unchanged_outside s p n t" "unchanged_outside t p n u"
  shows "unchanged_outside s p n u"
  using assms only_phys_xl [of s t] by (auto simp: unchanged_outside_def intro: only_phys_trans)

lemma written_string:
  assumes "inj_on (\<lambda>i. xl s (p + word_of_nat i)) {..<Suc (length xs)}"
  shows "holds (write_list p (xs @ [0]) s) p xs"
    "unchanged_outside s p (Suc (length xs)) (write_list p (xs @ [0]) s)"
proof -
  have "read_bytes (write_list p (xs @ [0]) s) p (Suc (length xs)) = xs @ [0]"
    using read_write_list [of s p "xs @ [0]"] assms by simp
  then show "holds (write_list p (xs @ [0]) s) p xs"
    using read_bytes_append [of "write_list p (xs @ [0]) s" p "length xs" 1] by (simp add: holds_def read_bytes_Suc)
  show "unchanged_outside s p (Suc (length xs)) (write_list p (xs @ [0]) s)"
    unfolding unchanged_outside_def using phys_write_list_outside [of "xs @ [0]" s p]
    by (auto intro: only_phys_write_list)
qed

text \<open>\<open>strrev\<close> reverses a string in place.\<close>

lemma strrev_string:
  assumes "inj_on (\<lambda>i. xl u (p + word_of_nat i)) {..<Suc (length xs)}" "holds u p xs" "0 \<notin> set xs"
    "xs \<noteq> []" "length xs < 2 ^ 31"
  obtains t where "strrev p u = Some t" "holds t p (rev xs)" "unchanged_outside u p (Suc (length xs)) t"
proof -
  define m where "m = length xs"
  define t where "t = strrev_loop p (int 0) (int m - 1) u"
  have "word_of_nat m - 1 = (word_of_int (int m - 1) :: u32)" by simp
  moreover have "int m - 1 < 2 ^ 31" "0 \<le> int m - 1" using assms(4,5) by (auto simp: m_def Suc_le_eq)
  ultimately have "sint (word_of_nat m - 1 :: u32) = int m - 1"
    by (simp only: sint_sbintrunc') (simp add: signed_take_bit_int_eq_self)
  then have run: "strrev p u = Some t"
    using strlen_cstr [OF holds_cstr [OF assms(2,3)]] by (simp add: strrev_def t_def m_def)
  note rev = strrev_loop_eq [of u p "Suc m" m 0, folded t_def, simplified, OF assms(1) [folded m_def]]
  have hu: "ld u (p + word_of_nat i) = xs ! i" if "i < m" for i
    using assms(2) that unfolding holds_def m_def by (metis nth_read_bytes)
  have "read_bytes t p m = rev xs"
  proof (rule nth_equalityI)
    fix i assume "i < length (read_bytes t p m)"
    then show "read_bytes t p m ! i = rev xs ! i" using rev hu [of "m - 1 - i"] by (simp add: rev_nth m_def)
  qed (simp add: m_def)
  then have "holds t p (rev xs)" using rev assms(2) by (simp add: holds_def m_def)
  then show thesis using that [OF run] rev by (simp add: unchanged_outside_def m_def)
qed

lemma itoa_correct:
  assumes "2 \<le> unat r" "unat r \<le> 36" "unat v < unat r ^ k" "0 < k" "k < n" "n < 2 ^ 31" "scratch s buf n"
  shows "\<exists>t. itoa v buf r s = Some t \<and> holds t buf (number_string (unat r) (unat v)) \<and> unchanged_outside s buf n t"
proof (cases "v = 0")
  case True
  have "xl s (buf + 1) \<noteq> xl s buf"
    using assms(4,5,7) inj_onD [of "\<lambda>i. xl s (buf + word_of_nat i)" "{..<n}" 1 0] by (auto simp: scratch_def)
  moreover have "0 < n" "1 < n" using assms(4,5) by simp_all
  then have "xl s buf \<noteq> q \<and> xl s (buf + 1) \<noteq> q" if "\<forall>i < n. xl s (buf + word_of_nat i) \<noteq> q" for q
    using that [rule_format, of 0] that [rule_format, of 1] by simp
  ultimately show ?thesis
    using True by (auto simp: itoa_def holds_def number_string_def read_bytes_def ld_st unchanged_outside_def
        only_phys_st phys_st)
next
  case False
  define xs where "xs = map ((!) itoa_lookup) (rev_digits (unat r) (unat v))"
  define u where "u = write_list buf (xs @ [0]) s"
  have num: "number_string (unat r) (unat v) = rev xs"
    using False by (simp add: number_string_def xs_def rev_map unsigned_eq_0_iff)
  have len: "length xs \<le> k" "xs \<noteq> []" "0 \<notin> set xs"
    using number_string_length [OF assms(1,3,4)] number_string_nonzero [OF assms(1,2), of "unat v"] by (auto simp: num)
  have inj: "inj_on (\<lambda>i. xl s (buf + word_of_nat i)) {..<Suc (length xs)}"
    using assms(5,7) len(1) by (auto simp: scratch_def intro: inj_on_subset)
  note w = written_string [OF inj, folded u_def]
  have "inj_on (\<lambda>i. xl u (buf + word_of_nat i)) {..<Suc (length xs)}" using inj by (simp add: u_def)
  then obtain t where t: "strrev buf u = Some t" "holds t buf (rev xs)" "unchanged_outside u buf (Suc (length xs)) t"
    by (rule strrev_string [OF _ w(1) len(3,2)]) (use len(1) assms(5,6) in auto)
  have "st (buf + word_of_nat (length xs)) 0 (write_list buf xs s) = u" by (simp add: u_def write_list_append)
  then have "itoa v buf r s = Some t"
    using False t(1) itoa_loop_eq [OF assms(1), of v buf s] by (simp add: itoa_def xs_def)
  moreover have "unchanged_outside s buf n t"
    by (rule unchanged_mono [OF unchanged_trans [OF w(2) t(3)]]) (use len(1) assms(5) in simp)
  ultimately show ?thesis using t(2) num by simp
qed

section \<open>printf prints what its format says\<close>

text \<open>
  The text \<open>xs\<close> was printed and nothing else happened: the screen shows it, and memory changed at
  most on the screen and in the \<open>n\<close> bytes at \<open>cb\<close>.
\<close>

definition printed :: "'a console_scheme \<Rightarrow> addr \<Rightarrow> nat \<Rightarrow> u8 list \<Rightarrow> 'a console_scheme \<Rightarrow> bool" where
  "printed s cb n xs t \<longleftrightarrow>
     screen_of t = fold (text_put (cur_attrib s)) xs (screen_of s) \<and> console_ok t \<and> xl t = xl s
     \<and> current_terminal t = current_terminal s
     \<and> (\<forall>q. off_screen q \<longrightarrow> (\<forall>i < n. xl s (cb + word_of_nat i) \<noteq> q) \<longrightarrow> phys t q = phys s q)"

lemma printed_refl: "console_ok s \<Longrightarrow> printed s cb n [] s"
  by (simp add: printed_def)

lemma printed_trans:
  assumes "printed s cb n xs t" "printed t cb n ys u"
  shows "printed s cb n (xs @ ys) u"
  using assms by (simp add: printed_def)

lemma scratch_printed: "printed s cb n xs t \<Longrightarrow> scratch t p m = scratch s p m"
  by (simp add: printed_def scratch_def)

lemma view_unchanged:
  assumes "screen_mapped s" "scratch s cb n" "unchanged_outside s cb n u"
  shows "view 0 u = view 0 s"
proof -
  have xl: "xl u = xl s" using assms(3) only_phys_xl by (auto simp: unchanged_outside_def)
  have "ld u (off a) = ld s (off a)" if "a < 4096" for a
  proof -
    have "xl s (off a) = off a" using assms(1) that by (simp add: screen_mapped_def)
    moreover have "xl s (cb + word_of_nat i) \<noteq> off a" if "i < n" for i
      using assms(2) off_screenD [of _ a] \<open>a < 4096\<close> that by (auto simp: scratch_def)
    ultimately show ?thesis using assms(3) xl by (simp add: ld_def unchanged_outside_def)
  qed
  then show ?thesis by (auto simp: view_off fun_eq_iff)
qed

lemma printed_fold:
  assumes "console_ok s" "scratch s cb n" "unchanged_outside s cb n u"
  shows "printed s cb n xs (fold putc xs u)"
proof -
  have frame: "only_phys s u" using assms(3) by (simp add: unchanged_outside_def)
  note con = only_phys_console [OF frame]
  have ok: "console_ok u" using assms(1) con by (simp add: console_ok_def screen_mapped_def)
  have "screen_of u = screen_of s"
    using view_unchanged [OF _ assms(2,3)] assms(1) con by (simp add: screen_of_def console_ok_def)
  then have "screen_of (fold putc xs u) = fold (text_put (cur_attrib s)) xs (screen_of s)"
    using visible.put_all(1) [OF ok] con by simp
  moreover have "current_terminal (fold putc xs u) = current_terminal s"
    using put_all_visible_frame [OF ok, of 1 xs] con by simp
  moreover have "phys (fold putc xs u) q = phys s q" if "off_screen q" "\<forall>i < n. xl s (cb + word_of_nat i) \<noteq> q" for q
    using fold_putc_outside(2) [OF ok that(1)] that(2) assms(3) by (simp add: unchanged_outside_def)
  ultimately show ?thesis
    using visible.put_all(2) [OF ok] fold_putc_outside(1) [OF ok] con by (simp add: printed_def)
qed

lemma unchanged_refl: "unchanged_outside s p n s"
  by (simp add: unchanged_outside_def)

lemma printed_putc: "console_ok s \<Longrightarrow> scratch s cb n \<Longrightarrow> printed s cb n [c] (putc c s)"
  using printed_fold [OF _ _ unchanged_refl, of s cb n "[c]"] by simp

text \<open>Printing a string that lies in the scratch range, prepared from state \<open>s\<close>.\<close>

lemma printed_puts:
  assumes "console_ok s" "scratch s cb n" "unchanged_outside s cb n u" "holds u p xs" "0 \<notin> set xs"
    "\<And>i. i \<le> length xs \<Longrightarrow> off_screen (xl s (p + word_of_nat i))"
  shows "puts p u = Some (word_of_nat (length xs), fold putc xs u)" "printed s cb n xs (fold putc xs u)"
proof -
  have con: "xl u = xl s" "console_ok u"
    using assms(1,3) only_phys_console [of s u]
    by (simp_all add: unchanged_outside_def console_ok_def screen_mapped_def)
  show "puts p u = Some (word_of_nat (length xs), fold putc xs u)"
    using puts_eq [OF con(2) holds_cstr [OF assms(4,5)]] assms(4,6) con(1) by (simp add: holds_def)
  show "printed s cb n xs (fold putc xs u)" by (rule printed_fold [OF assms(1-3)])
qed

subsection \<open>The conversions\<close>

lemma unchanged_part:
  assumes "unchanged_outside s (p + word_of_nat a) m t" "a + m \<le> n"
  shows "unchanged_outside s p n t"
proof -
  have "\<forall>i < m. xl s (p + word_of_nat a + word_of_nat i) \<noteq> q" if "\<forall>i < n. xl s (p + word_of_nat i) \<noteq> q" for q
  proof (intro allI impI)
    fix i assume "i < m"
    then have "a + i < n" using assms(2) by simp
    then have "xl s (p + word_of_nat (a + i)) \<noteq> q" using that by blast
    then show "xl s (p + word_of_nat a + word_of_nat i) \<noteq> q" by (simp add: add.assoc)
  qed
  then show ?thesis using assms(1) by (simp add: unchanged_outside_def)
qed

lemma scratch_part:
  assumes "scratch s p n" "a + m \<le> n"
  shows "scratch s (p + word_of_nat a) m"
proof -
  have "i = j" if "i < m" "j < m" "xl s (p + word_of_nat a + word_of_nat i) = xl s (p + word_of_nat a + word_of_nat j)" for i j
    using assms that inj_onD [of "\<lambda>i. xl s (p + word_of_nat i)" "{..<n}" "a + i" "a + j"]
    by (auto simp: scratch_def add.assoc)
  moreover have "off_screen (xl s (p + word_of_nat a + word_of_nat i))" if "i < m" for i
  proof -
    have "a + i < n" using assms(2) that by simp
    then have "off_screen (xl s (p + word_of_nat (a + i)))" using assms(1) unfolding scratch_def by blast
    then show ?thesis by (simp add: add.assoc)
  qed
  ultimately show ?thesis by (auto simp: scratch_def inj_on_def)
qed

lemma scratch_unchanged: "unchanged_outside s cb n t \<Longrightarrow> scratch t p m = scratch s p m"
  using only_phys_xl [of s t] by (simp add: unchanged_outside_def scratch_def)

lemma unchanged_st: "i < n \<Longrightarrow> unchanged_outside s p n (st (p + word_of_nat i) v s)"
  by (auto simp: unchanged_outside_def only_phys_st phys_st)

text \<open>A byte of the scratch range outside the part that was written keeps its value.\<close>

lemma ld_unchanged_part:
  assumes "unchanged_outside s (p + word_of_nat a) m t" "scratch s p n" "a + m \<le> n" "j < a"
  shows "ld t (p + word_of_nat j) = ld s (p + word_of_nat j)"
proof -
  have "xl s (p + word_of_nat a + word_of_nat i) \<noteq> xl s (p + word_of_nat j)" if "i < m" for i
    using assms(2-4) that inj_onD [of "\<lambda>i. xl s (p + word_of_nat i)" "{..<n}" "a + i" j]
    by (auto simp: scratch_def add.assoc)
  then show ?thesis
    using assms(1) only_phys_xl [of s t] by (simp add: unchanged_outside_def ld_def)
qed

lemma holds_Cons: "holds t (p + 1) xs \<Longrightarrow> ld t p = x \<Longrightarrow> holds t p (x # xs)"
  by (simp add: holds_def read_bytes_Suc add.assoc)

lemma print_unsigned_ok:
  assumes "console_ok s" "scratch s cb 64"
  shows "\<exists>t. print_unsigned cb v s = Some t \<and> printed s cb 64 (number_string 10 (unat v)) t"
proof -
  have v: "unat v < 10 ^ 10" using less_trans [OF unat_u32_lt [of v], of "10 ^ 10"] by simp
  obtain u where u: "itoa v cb 10 s = Some u" "holds u cb (number_string 10 (unat v))" "unchanged_outside s cb 64 u"
    using itoa_correct [of 10 v 10 64 s cb] v assms(2) by auto
  have len: "length (number_string 10 (unat v)) \<le> 10" using number_string_length [of 10 "unat v" 10] v by simp
  have nz: "0 \<notin> set (number_string 10 (unat v))" by (rule number_string_nonzero) simp_all
  have "off_screen (xl s (cb + word_of_nat i))" if "i \<le> length (number_string 10 (unat v))" for i
    using assms(2) that len by (simp add: scratch_def)
  from printed_puts [OF assms u(3,2) nz this] show ?thesis by (simp add: print_unsigned_def u(1))
qed

definition signed_string :: "i32 \<Rightarrow> u8 list" where
  "signed_string v = (if sint v < 0 then 0x2D # number_string 10 (nat (- sint v)) else number_string 10 (nat (sint v)))"

lemma word_of_int_sint: "word_of_int (sint v) = (v :: i32)"
  by simp

lemma unat_abs:
  "sint (v :: i32) < 0 \<Longrightarrow> unat (- v) = nat (- sint v)" "0 \<le> sint v \<Longrightarrow> unat v = nat (sint v)"
proof -
  have range: "- 2147483648 \<le> sint v" "sint v < 2147483648"
    using sint_ge [of v] sint_lt [of v] by simp_all
  { assume "sint v < 0"
    have "- v = word_of_int (- sint v)" by simp
    then have "uint (- v) = - sint v mod 2 ^ 32" by (simp only: uint_word_of_int) simp
    then show "unat (- v) = nat (- sint v)" using range \<open>sint v < 0\<close> by (simp add: unat_eq_nat_uint) }
  { assume "0 \<le> sint v"
    have "uint (word_of_int (sint v) :: i32) = sint v mod 2 ^ 32" by (simp only: uint_word_of_int) simp
    then have "uint v = sint v mod 2 ^ 32" by (simp only: word_of_int_sint)
    then show "unat v = nat (sint v)" using range \<open>0 \<le> sint v\<close> by (simp add: unat_eq_nat_uint) }
qed

lemma print_signed_ok:
  assumes "console_ok s" "scratch s cb 64"
  shows "\<exists>t. print_signed cb v s = Some t \<and> printed s cb 64 (signed_string v) t"
proof (cases "sint v < 0")
  case True
  let ?w = "- v" and ?xs = "number_string 10 (unat (- v))" and ?s1 = "st cb 0x2D s"
  have w: "unat ?w < 10 ^ 10" using less_trans [OF unat_u32_lt [of ?w], of "10 ^ 10"] by simp
  have one: "cb + word_of_nat 1 = cb + 1" by simp
  have "unchanged_outside s cb 64 ?s1" using unchanged_st [of 0 64 s cb "0x2D"] by simp
  note first = this
  have room: "scratch ?s1 (cb + word_of_nat 1) 63"
    using scratch_part [OF assms(2), of 1 63] scratch_unchanged [OF first] by simp
  obtain u where u: "itoa ?w (cb + 1) 10 ?s1 = Some u" "holds u (cb + 1) ?xs"
      "unchanged_outside ?s1 (cb + word_of_nat 1) 63 u"
    using itoa_correct [of 10 ?w 10 63 ?s1 "cb + word_of_nat 1"] w room by auto
  have all: "unchanged_outside s cb 64 u" by (rule unchanged_trans [OF first unchanged_part [OF u(3)]]) simp
  have "ld u (cb + word_of_nat 0) = ld ?s1 (cb + word_of_nat 0)"
    by (rule ld_unchanged_part [OF u(3)]) (use scratch_unchanged [OF first] assms(2) in auto)
  then have h: "holds u cb (0x2D # ?xs)" using holds_Cons [OF u(2)] by (simp add: ld_st)
  have len: "length ?xs \<le> 10" using number_string_length [of 10 "unat ?w" 10] w by simp
  have nz: "0 \<notin> set (0x2D # ?xs)" using number_string_nonzero [of 10 "unat ?w"] by simp
  have "off_screen (xl s (cb + word_of_nat i))" if "i \<le> length (0x2D # ?xs)" for i
    using assms(2) that len by (simp add: scratch_def)
  from printed_puts [OF assms all h nz this] show ?thesis
    using True unat_abs(1) [OF True] by (simp add: print_signed_def word_sless_alt u(1) signed_string_def)
next
  case False
  then have "print_signed cb v s = print_unsigned cb v s" "signed_string v = number_string 10 (unat v)"
    using unat_abs(2) [of v] by (simp_all add: print_signed_def print_unsigned_def word_sless_alt signed_string_def)
  then show ?thesis using print_unsigned_ok [OF assms] by simp
qed

definition hex_string :: "bool \<Rightarrow> u32 \<Rightarrow> u8 list" where
  "hex_string alternate v =
     (let xs = number_string 16 (unat v)
      in if alternate then replicate (8 - length xs) 0x30 @ xs else xs)"

lemma holds_append:
  assumes "holds t (p + word_of_nat (length xs)) ys" "read_bytes t p (length xs) = xs"
  shows "holds t p (xs @ ys)"
  using assms by (simp add: holds_def read_bytes_append add.assoc)

lemma fill_range:
  assumes "scratch u cb n" "a \<le> b" "b \<le> n"
  shows "unchanged_outside u cb n (for_loop a b (\<lambda>i s. st (cb + word_of_nat i) c s) u)
    \<and> (\<forall>j < n. ld (for_loop a b (\<lambda>i s. st (cb + word_of_nat i) c s) u) (cb + word_of_nat j) =
         (if a \<le> j \<and> j < b then c else ld u (cb + word_of_nat j)))"
proof (rule for_loop_indexed [OF assms(2), where P = "\<lambda>i t. unchanged_outside u cb n t \<and>
    (\<forall>j < n. ld t (cb + word_of_nat j) = (if a \<le> j \<and> j < i then c else ld u (cb + word_of_nat j)))"])
  have ne: "xl u (cb + word_of_nat i) = xl u (cb + word_of_nat j) \<longleftrightarrow> i = j" if "i < n" "j < n" for i j
    using assms(1) that by (auto simp: scratch_def dest: inj_onD)
  fix i t assume i: "a \<le> i" "i < b" and t: "unchanged_outside u cb n t \<and>
      (\<forall>j < n. ld t (cb + word_of_nat j) = (if a \<le> j \<and> j < i then c else ld u (cb + word_of_nat j)))"
  have "xl t = xl u" using t only_phys_xl by (auto simp: unchanged_outside_def)
  moreover have "unchanged_outside u cb n (st (cb + word_of_nat i) c t)"
    by (rule unchanged_trans [OF conjunct1 [OF t] unchanged_st]) (use i assms(3) in simp)
  ultimately show "unchanged_outside u cb n (st (cb + word_of_nat i) c t) \<and>
      (\<forall>j < n. ld (st (cb + word_of_nat i) c t) (cb + word_of_nat j) =
        (if a \<le> j \<and> j < Suc i then c else ld u (cb + word_of_nat j)))"
    using t i ne assms(3) by (auto simp: ld_st less_Suc_eq)
qed (auto simp: unchanged_refl)

text \<open>The zeros that \<open>%#x\<close> stores in front of the digits make one string with them.\<close>

lemma pad_zeros:
  assumes "scratch u cb 64" "holds u (cb + 8) xs" "length xs \<le> 8"
    and w: "w = for_loop (length xs) 8 (\<lambda>i s. st (cb + word_of_nat i) 0x30 s) u"
  shows "unchanged_outside u cb 64 w" "holds w (cb + word_of_nat (length xs)) (replicate (8 - length xs) 0x30 @ xs)"
proof -
  define l where "l = length xs"
  have wl: "unchanged_outside u cb 64 w"
    "\<And>j. j < 64 \<Longrightarrow> ld w (cb + word_of_nat j) = (if l \<le> j \<and> j < 8 then 0x30 else ld u (cb + word_of_nat j))"
    using fill_range [of u cb 64 l 8 "0x30"] assms(1,3) by (auto simp: w l_def)
  then show "unchanged_outside u cb 64 w" by simp
  have "read_bytes w (cb + word_of_nat l) (8 - l) = replicate (8 - l) 0x30"
  proof (rule nth_equalityI)
    fix i assume "i < length (read_bytes w (cb + word_of_nat l) (8 - l))"
    then have "l + i < 8" by simp
    then show "read_bytes w (cb + word_of_nat l) (8 - l) ! i = replicate (8 - l) 0x30 ! i"
      using wl(2) [of "l + i"] by (simp add: add.assoc)
  qed simp
  moreover have same: "ld w (cb + 8 + word_of_nat i) = ld u (cb + 8 + word_of_nat i)" if "i \<le> l" for i
    using wl(2) [of "8 + i"] that assms(3) by (simp add: l_def add.assoc)
  then have "read_bytes w (cb + 8) l = read_bytes u (cb + 8) l" by (intro read_bytes_eqI) simp
  then have "holds w (cb + 8) xs" using assms(2) same [of l] by (simp add: holds_def l_def)
  ultimately show "holds w (cb + word_of_nat (length xs)) (replicate (8 - length xs) 0x30 @ xs)"
    using holds_append [of w "cb + word_of_nat l" "replicate (8 - l) 0x30" xs] assms(3)
    by (simp add: l_def of_nat_diff)
qed

lemma print_hex_ok:
  assumes "console_ok s" "scratch s cb 64"
  shows "\<exists>t. print_hex alt cb v s = Some t \<and> printed s cb 64 (hex_string alt v) t"
proof -
  let ?xs = "number_string 16 (unat v)"
  have v: "unat v < 16 ^ 8" using unat_u32_lt [of v] by simp
  have len: "length ?xs \<le> 8" using number_string_length [of 16 "unat v" 8] v by simp
  have nz: "0 \<notin> set ?xs" by (rule number_string_nonzero) simp_all
  have scr: "off_screen (xl s (cb + word_of_nat i))" if "i < 64" for i
    using assms(2) that by (simp add: scratch_def)
  show ?thesis
  proof (cases alt)
    case False
    obtain u where u: "itoa v cb 16 s = Some u" "holds u cb ?xs" "unchanged_outside s cb 64 u"
      using itoa_correct [of 16 v 8 64 s cb] v assms(2) by auto
    from printed_puts [OF assms u(3,2) nz] scr len show ?thesis
      using False by (simp add: print_hex_def u(1) hex_string_def Let_def)
  next
    case True
    define l where "l = length ?xs"
    have room: "scratch s (cb + word_of_nat 8) 56" by (rule scratch_part [OF assms(2)]) simp
    obtain u where u: "itoa v (cb + 8) 16 s = Some u" "holds u (cb + 8) ?xs"
        "unchanged_outside s (cb + word_of_nat 8) 56 u"
      using itoa_correct [of 16 v 8 56 s "cb + word_of_nat 8"] v room by auto
    have un: "unchanged_outside s cb 64 u" by (rule unchanged_part [OF u(3)]) simp
    have strl: "strlen u (cb + 8) = Some (word_of_nat l)"
      unfolding l_def by (rule strlen_cstr [OF holds_cstr [OF u(2) nz]])
    have ul: "unat (word_of_nat l :: u32) = l" using len by (simp add: l_def unat_of_nat_u32)
    define w where "w = for_loop l 8 (\<lambda>i s. st (cb + word_of_nat i) 0x30 s) u"
    have scu: "scratch u cb 64" using scratch_unchanged [OF un, of cb 64] assms(2) by simp
    note w = pad_zeros [OF scu u(2) len w_def [unfolded l_def], folded l_def]
    have nz': "0 \<notin> set (replicate (8 - l) 0x30 @ ?xs)" using nz by auto
    have "off_screen (xl s (cb + word_of_nat l + word_of_nat i))" if "i \<le> length (replicate (8 - l) 0x30 @ ?xs)" for i
      using scr [of "l + i"] that len by (simp add: l_def add.assoc)
    from printed_puts [OF assms unchanged_trans [OF un w(1)] w(2) nz' this] show ?thesis
      using True by (simp add: print_hex_def u(1) strl ul w_def [symmetric] hex_string_def Let_def l_def [symmetric])
  qed
qed

subsection \<open>The specification of a format\<close>

text \<open>The text a format stands for. A format that ends inside a conversion or lacks an argument has
  none; \<open>%s\<close>, whose text is in memory, is left out.\<close>

fun render :: "bool option \<Rightarrow> u8 list \<Rightarrow> u32 list \<Rightarrow> u8 list option" where
  "render None [] args = Some []"
| "render None (c # fmt) args =
     (if c = 0x25 then render (Some False) fmt args else map_option ((#) c) (render None fmt args))"
| "render (Some alt) [] args = None"
| "render (Some alt) (c # fmt) args =
     (if c = 0x25 then map_option ((#) 0x25) (render None fmt args)
      else if c = 0x23 then render (Some True) fmt args
      else if c \<in> {0x78, 0x75, 0x64, 0x63} then
        (case args of [] \<Rightarrow> None
         | v # args \<Rightarrow>
             map_option ((@) (if c = 0x78 then hex_string alt v else if c = 0x75 then number_string 10 (unat v)
                              else if c = 0x64 then signed_string v else [ucast v]))
               (render None fmt args))
      else if c = 0x73 then None
      else render None fmt args)"

lemma printed_step:
  assumes "printed s cb n xs t" "\<exists>u. f t = Some u \<and> printed t cb n ys u"
  shows "\<exists>u. f t = Some u \<and> printed s cb n (xs @ ys) u"
  using assms printed_trans by blast

lemma printed_bind:
  fixes s :: "'a console_scheme"
  assumes "\<exists>u. f = Some u \<and> printed s cb n xs u"
    and "\<And>u :: 'a console_scheme. printed s cb n xs u \<Longrightarrow> \<exists>t. g u = Some t \<and> printed u cb n ys t"
  shows "\<exists>t. do { u \<leftarrow> f; g u } = Some t \<and> printed s cb n (xs @ ys) t"
  using assms printed_trans by fastforce

lemma printed_room: "printed s cb n xs u \<Longrightarrow> scratch s cb n \<Longrightarrow> console_ok u \<and> scratch u cb n"
  using scratch_printed [of s cb n xs u] by (auto simp: printed_def)

lemma render_conversion:
  assumes "render (Some alt) (c # fmt) args = Some out" "c \<in> {0x78, 0x75, 0x64, 0x63}"
  obtains v rest out' where "args = v # rest" "render None fmt rest = Some out'"
    "out = (if c = 0x78 then hex_string alt v else if c = 0x75 then number_string 10 (unat v)
            else if c = 0x64 then signed_string v else [ucast v]) @ out'"
  using assms by (cases args) auto

lemma printf_loop_ok:
  fixes s :: "'a console_scheme"
  assumes "console_ok s" "scratch s cb 64" "render mode fmt args = Some out"
  shows "\<exists>t. printf_loop mode cb fmt args s = Some t \<and> printed s cb 64 out t"
  using assms
proof (induction fmt arbitrary: mode args s out)
  case Nil
  then show ?case by (cases mode) (auto simp: printed_refl)
next
  case (Cons c fmt)
  note ok = Cons.prems(1,2)
  have rest: "\<exists>t. printf_loop None cb fmt args' u = Some t \<and> printed u cb 64 ys t"
    if "printed s cb 64 xs u" "render None fmt args' = Some ys" for xs ys args' and u :: "'a console_scheme"
    using Cons.IH that printed_room [OF that(1) ok(2)] by blast
  have char: "\<exists>t. printf_loop None cb fmt args' (putc d s) = Some t \<and> printed s cb 64 (d # ys) t"
    if "render None fmt args' = Some ys" for d ys args'
    using printed_step [OF printed_putc [OF ok, of d], of "printf_loop None cb fmt args'"] rest [OF printed_putc [OF ok, of d] that]
    by simp
  show ?case
  proof (cases mode)
    case None
    show ?thesis
    proof (cases "c = 0x25")
      case True
      then show ?thesis using Cons.IH ok Cons.prems(3) None by simp
    next
      case False
      then obtain ys where "render None fmt args = Some ys" "out = c # ys" using Cons.prems(3) None by auto
      then show ?thesis using char None False by simp
    qed
  next
    case (Some alt)
    consider "c = 0x25" | "c = 0x23" | "c \<in> {0x78, 0x75, 0x64, 0x63}" | "c = 0x73"
      | "c \<notin> {0x25, 0x23, 0x78, 0x75, 0x64, 0x63, 0x73}" by blast
    then show ?thesis
    proof cases
      case 1
      then obtain ys where "render None fmt args = Some ys" "out = 0x25 # ys" using Cons.prems(3) Some by auto
      then show ?thesis using char Some 1 by simp
    next
      case 2
      then show ?thesis using Cons.IH ok Cons.prems(3) Some by simp
    next
      case 3
      obtain v vs ys where v: "args = v # vs" "render None fmt vs = Some ys"
        and out: "out = (if c = 0x78 then hex_string alt v else if c = 0x75 then number_string 10 (unat v)
            else if c = 0x64 then signed_string v else [ucast v]) @ ys"
        using render_conversion [OF Cons.prems(3) [unfolded Some] 3] by metis
      show ?thesis
        using 3 out Some v(1) char [OF v(2), of "ucast v"]
          printed_bind [OF print_hex_ok [OF ok, of alt v] rest [OF _ v(2)]]
          printed_bind [OF print_unsigned_ok [OF ok, of v] rest [OF _ v(2)]]
          printed_bind [OF print_signed_ok [OF ok, of v] rest [OF _ v(2)]]
        by auto
    next
      case 4
      then show ?thesis using Cons.prems(3) Some by simp
    next
      case 5
      then show ?thesis using Cons.IH ok Cons.prems(3) Some by simp
    qed
  qed
qed

section \<open>The properties\<close>

lemma rev_digits_last: "2 \<le> r \<Longrightarrow> 0 < n \<Longrightarrow> last (rev_digits r n) \<noteq> 0"
proof (induction r n rule: rev_digits.induct)
  case (1 r n)
  show ?case
  proof (cases "n div r = 0")
    case True
    then show ?thesis using 1(2,3) by (simp add: rev_digits.simps [of r n] rev_digits.simps [of r 0] div_eq_0_iff)
  next
    case False
    then show ?thesis using 1 rev_digits_nonempty [of r "n div r"] by (simp add: rev_digits.simps [of r n])
  qed
qed

lemma number_string_digits:
  assumes "2 \<le> r"
  obtains ds where "number_string r n = map ((!) itoa_lookup) ds" "ds \<noteq> []" "\<forall>d \<in> set ds. d < r"
    "foldl (\<lambda>v d. v * r + d) 0 ds = n" "0 < n \<longrightarrow> hd ds \<noteq> 0"
proof (cases "n = 0")
  case True
  show ?thesis
    by (rule that [of "[0]"]) (use True assms in \<open>auto simp: number_string_def itoa_lookup_def bytes_of_def\<close>)
next
  case False
  have "foldl (\<lambda>v d. v * r + d) 0 (rev (rev_digits r n)) = n"
    using rev_digits_value [OF assms, of n] by (simp add: foldl_conv_foldr ac_simps)
  then show ?thesis
    using that [of "rev (rev_digits r n)"] False rev_digits_nonempty [OF assms, of n] rev_digits_less [OF assms]
      rev_digits_last [OF assms, of n] by (simp add: number_string_def hd_rev)
qed

text \<open>\<open>itoa\<close> writes the digits of its argument: for every radix from 2 to 36 the buffer ends up
  holding, most significant first and terminated, digits below the radix whose value is the number,
  without leading zeros; it needs 33 bytes at most and writes nothing outside them.\<close>

theorem itoa_digits:
  assumes "2 \<le> unat r" "unat r \<le> 36" "scratch s buf 33"
  shows "\<exists>t ds. itoa v buf r s = Some t \<and> holds t buf (map ((!) itoa_lookup) ds) \<and> ds \<noteq> []
    \<and> (\<forall>d \<in> set ds. d < unat r) \<and> foldl (\<lambda>x d. x * unat r + d) 0 ds = unat v
    \<and> (0 < unat v \<longrightarrow> hd ds \<noteq> 0) \<and> unchanged_outside s buf 33 t"
proof -
  have "unat v < 2 ^ 32" using unat_u32_lt [of v] by simp
  also have "(2 :: nat) ^ 32 \<le> unat r ^ 32" using assms(1) by (rule power_mono) simp
  finally have "unat v < unat r ^ 32" .
  then obtain t where "itoa v buf r s = Some t" "holds t buf (number_string (unat r) (unat v))"
      "unchanged_outside s buf 33 t"
    using itoa_correct [OF assms(1,2), of v 32 33 s buf] assms(3) by auto
  then show ?thesis using number_string_digits [OF assms(1), of "unat v"] by metis
qed

text \<open>The stack page of the first process, below 8 MB, is off the screen.\<close>

lemma console0_xl: "xl console0 = id"
  by (simp add: console0_def fun_eq_iff)

lemma console0_scratch: "scratch console0 0x7FF000 64"
proof -
  have far: "off_screen (0x7FF000 + word_of_nat i)" if "i < 64" for i
    using that
    by (auto simp: off_screen_def off_def VIDEO_def word_unat_eq_iff unat_word_ariths unat_of_nat_u32)
  have "i = j" if "i < 64" "j < 64" "0x7FF000 + word_of_nat i = (0x7FF000 + word_of_nat j :: u32)" for i j
  proof -
    have "(word_of_nat i :: u32) = word_of_nat j" using that(3) by simp
    then show ?thesis using that(1,2) by (simp add: word_unat_eq_iff unat_of_nat_u32)
  qed
  then show ?thesis using far by (auto simp: scratch_def console0_xl inj_on_def)
qed

theorem itoa_digits_witness:
  "\<exists>t ds. itoa 255 0x7FF000 16 console0 = Some t \<and> holds t 0x7FF000 (map ((!) itoa_lookup) ds)
     \<and> foldl (\<lambda>x d. x * 16 + d) 0 ds = 255"
proof -
  have "scratch console0 0x7FF000 33" using scratch_part [OF console0_scratch, of 0 33] by simp
  from itoa_digits [OF _ _ this, of 16 255] show ?thesis by auto
qed



end
