(* ===== verification/Process.thy ===== *)
theory Process
  imports Rtc Lib_Printf
begin

text \<open>
  Processes and their file descriptors: the process control block and the tables of
  \<^verbatim>\<open>syscall.c\<close>, \<^verbatim>\<open>terminal.c\<close> and \<^verbatim>\<open>lib.c\<close>, the terminal and file drivers that need the
  current process, and the file system calls \<open>open\<close>, \<open>read\<close>, \<open>write\<close>, \<open>close\<close>,
  \<open>getargs\<close>, \<open>vidmap\<close>, \<open>set_handler\<close>.

  A \<open>pcb_t\<close> lies at the bottom of the 8 KB kernel stack of its process, and C reaches it through
  pointers only; \<open>pcbs\<close> maps those addresses to the records. A pointer to an operations table is
  the name of the table (\<open>Null_ptrs\<close> is the zero a fresh control block holds), a signal handler is
  \<open>signal_default\<close> or a user address.

  Index expressions that leave their array have no result. \<open>None\<close> also stands for a call that
  waits for an interrupt. Local arrays lie below \<open>esp\<close>; the compiler decides where, the model puts
  them side by side: \<open>conv_buf\<close> of \<open>printf\<close> lowest.
\<close>

datatype file_operation_ptrs =
  Null_ptrs | Fail_funcs | Stdin_funcs | Stdout_funcs | Dir_funcs | Rtc_funcs | File_funcs

datatype sighandler_t = Signal_default | Handler_at addr

record file_desc_t =
  ptrs :: file_operation_ptrs
  inode :: u32
  file_pos :: u32
  flags :: u32

record pcb_t =
  files :: "file_desc_t list"
  pid :: u32
  parent_pid :: u32
  parent_esp :: u32
  parent_ebp :: u32
  schedule_esp :: u32
  schedule_ebp :: u32
  argument :: "u8 list"
  pending_signal :: u32
  sighandler :: sighandler_t

record kernel = rtc +
  pcbs :: "addr \<Rightarrow> pcb_t"
  process :: "u32 list"
  process_terminal :: "u32 list list"
  process_terminal_cnt :: "u32 list"
  terminal_running :: "u8 list"
  tss_ss0 :: u16
  tss_esp0 :: u32
  retval :: u32
  str_shell :: addr

abbreviation (input) MAX_TASK :: nat where "MAX_TASK \<equiv> 6"
abbreviation (input) MIN_FD :: nat where "MIN_FD \<equiv> 2"
abbreviation (input) MAX_FD :: nat where "MAX_FD \<equiv> 8"
abbreviation (input) ARGUMENT_MAX :: nat where "ARGUMENT_MAX \<equiv> 100"
definition EIGHT_KB_SIZE :: u32 where "EIGHT_KB_SIZE = 8192"
definition PCB_MASK :: u32 where "PCB_MASK = 0x7FE000"
definition IN_USE :: u32 where "IN_USE = 1"
definition NOT_IN_USE :: u32 where "NOT_IN_USE = 0"

section \<open>Finding control blocks and processes\<close>

definition get_curr_pcb :: "'a kernel_scheme \<Rightarrow> addr" where
  "get_curr_pcb s = PCB_MASK AND esp s"

definition get_pcb_by_index :: "u32 \<Rightarrow> addr" where
  "get_pcb_by_index index = EIGHT_MB_SIZE - (index + 1) * EIGHT_KB_SIZE"

definition pcb_upd :: "addr \<Rightarrow> (pcb_t \<Rightarrow> pcb_t) \<Rightarrow> 'a kernel_scheme \<Rightarrow> 'a kernel_scheme" where
  "pcb_upd a f s = s\<lparr>pcbs := (pcbs s)(a := f (pcbs s a))\<rparr>"

definition fd_upd :: "addr \<Rightarrow> nat \<Rightarrow> (file_desc_t \<Rightarrow> file_desc_t) \<Rightarrow> 'a kernel_scheme \<Rightarrow> 'a kernel_scheme" where
  "fd_upd a i f s = pcb_upd a (\<lambda>b. b\<lparr>files := (files b)[i := f (files b ! i)]\<rparr>) s"

definition get_pid :: "'a kernel_scheme \<Rightarrow> i32" where
  "get_pid s = (case find (\<lambda>p. process s ! p = NOT_IN_USE) [0..<MAX_TASK] of
                  Some p \<Rightarrow> word_of_nat p | None \<Rightarrow> -1)"

definition get_terminal_id :: "u32 \<Rightarrow> 'a kernel_scheme \<Rightarrow> u8" where
  "get_terminal_id p s =
     (case find (\<lambda>i. find (\<lambda>j. process_terminal s ! i ! j = p) [0..<MAX_TASK] \<noteq> None) [0..<MAX_TERMINAL_NUM] of
        Some i \<Rightarrow> word_of_nat i | None \<Rightarrow> 0x3F)"

text \<open>\<open>process_terminal[t][process_terminal_cnt[t] - 1]\<close>, the process on top of terminal \<open>t\<close>.\<close>

definition top_process :: "u8 \<Rightarrow> 'a kernel_scheme \<Rightarrow> u32 option" where
  "top_process t s =
     (let cnt = process_terminal_cnt s ! unat t
      in if unat t < MAX_TERMINAL_NUM \<and> 0 < cnt \<and> unat cnt \<le> MAX_TASK
         then Some (process_terminal s ! unat t ! unat (cnt - 1)) else None)"

definition conv_buf :: "'a machine_scheme \<Rightarrow> addr" where
  "conv_buf s = esp s - 200"

section \<open>The terminal driver\<close>

definition terminal_open :: "addr \<Rightarrow> 'a kernel_scheme \<Rightarrow> i32 \<times> 'a kernel_scheme" where
  "terminal_open filename s = (0, s)"

definition terminal_close :: "i32 \<Rightarrow> 'a kernel_scheme \<Rightarrow> i32 \<times> 'a kernel_scheme" where
  "terminal_close fd s = (0, s)"

text \<open>The wait for Enter ends only in a state where the line is complete and the terminal visible.\<close>

definition terminal_read :: "i32 \<Rightarrow> addr \<Rightarrow> i32 \<Rightarrow> 'a kernel_scheme \<Rightarrow> (i32 \<times> 'a kernel_scheme) option" where
  "terminal_read fd buf nbytes s =
     (let pcb = get_curr_pcb s;
          tid = get_terminal_id (pid (pcbs s pcb)) s
      in if enter_state s \<noteq> 0 \<and> tid = current_terminal s
         then do {
           (_, s) \<leftarrow> printf (conv_buf s) (bytes_of ''current tid: %d'' @ [0x0A]) [ucast tid] s;
           let s = cli s;
           let s = s\<lparr>enter_state := 0\<rparr>;
           let s = sti s;
           let i = min (unat (key_arr_ptr s)) (nat (sint nbytes));
           let s = for_loop 0 i (\<lambda>i s. st (buf + word_of_nat i) (key_arr s ! i) s) s;
           let s = st (buf + word_of_nat i) 0 s;
           Some (word_of_nat i, key_arr_clear s)
         }
         else None)"

definition terminal_write :: "i32 \<Rightarrow> addr \<Rightarrow> i32 \<Rightarrow> 'a kernel_scheme \<Rightarrow> i32 \<times> 'a kernel_scheme" where
  "terminal_write fd buf nbytes s =
     (let s = cli s;
          pcb = get_curr_pcb s;
          tid = get_terminal_id (pid (pcbs s pcb)) s;
          n = nat (sint nbytes)
      in if tid = current_terminal s
         then let s = for_loop 0 n (\<lambda>i s. set_column_stack (putc (ld s (buf + word_of_nat i)) s)) s
              in (word_of_nat n, sti s)
         else if unat tid \<ge> MAX_TERMINAL_NUM then (-1, s)
         else let s = for_loop 0 n (\<lambda>i s. putc_terminal (ld s (buf + word_of_nat i)) tid s) s;
                  s = ti_upd tid (\<lambda>i. i\<lparr>column_stack_old := screen_pos_x i\<rparr>) s
              in (word_of_nat n, sti s))"

section \<open>The file driver\<close>

definition file_read :: "i32 \<Rightarrow> addr \<Rightarrow> i32 \<Rightarrow> 'a kernel_scheme \<Rightarrow> i32 \<times> 'a kernel_scheme" where
  "file_read fd buf nbytes s =
     (let pcb = get_curr_pcb s;
          f = files (pcbs s pcb) ! unat fd;
          (res, s) = read_data (inode f) (file_pos f) buf nbytes s
      in (res, fd_upd pcb (unat fd) (\<lambda>f. f\<lparr>file_pos := file_pos f + res\<rparr>) s))"

section \<open>Calls through the operations tables\<close>

definition fail :: "'a kernel_scheme \<Rightarrow> i32 \<times> 'a kernel_scheme" where
  "fail s = (-1, s)"

fun call_open :: "file_operation_ptrs \<Rightarrow> addr \<Rightarrow> 'a kernel_scheme \<Rightarrow> (i32 \<times> 'a kernel_scheme) option" where
  "call_open Null_ptrs filename s = None"
| "call_open Fail_funcs filename s = Some (fail s)"
| "call_open Stdin_funcs filename s = Some (terminal_open filename s)"
| "call_open Stdout_funcs filename s = Some (terminal_open filename s)"
| "call_open Dir_funcs filename s = Some (dir_open filename s)"
| "call_open Rtc_funcs filename s = rtc_open filename s"
| "call_open File_funcs filename s = Some (file_open filename s)"

fun call_read :: "file_operation_ptrs \<Rightarrow> i32 \<Rightarrow> addr \<Rightarrow> i32 \<Rightarrow> 'a kernel_scheme \<Rightarrow> (i32 \<times> 'a kernel_scheme) option" where
  "call_read Null_ptrs fd buf nbytes s = None"
| "call_read Fail_funcs fd buf nbytes s = Some (fail s)"
| "call_read Stdin_funcs fd buf nbytes s = terminal_read fd buf nbytes s"
| "call_read Stdout_funcs fd buf nbytes s = Some (fail s)"
| "call_read Dir_funcs fd buf nbytes s = dir_read fd buf nbytes s"
| "call_read Rtc_funcs fd buf nbytes s = rtc_read fd buf nbytes s"
| "call_read File_funcs fd buf nbytes s = Some (file_read fd buf nbytes s)"

fun call_write :: "file_operation_ptrs \<Rightarrow> i32 \<Rightarrow> addr \<Rightarrow> i32 \<Rightarrow> 'a kernel_scheme \<Rightarrow> (i32 \<times> 'a kernel_scheme) option" where
  "call_write Null_ptrs fd buf nbytes s = None"
| "call_write Fail_funcs fd buf nbytes s = Some (fail s)"
| "call_write Stdin_funcs fd buf nbytes s = Some (fail s)"
| "call_write Stdout_funcs fd buf nbytes s = Some (terminal_write fd buf nbytes s)"
| "call_write Dir_funcs fd buf nbytes s = Some (dir_write fd buf nbytes s)"
| "call_write Rtc_funcs fd buf nbytes s = rtc_write fd buf nbytes s"
| "call_write File_funcs fd buf nbytes s = Some (file_write fd buf nbytes s)"

fun call_close :: "file_operation_ptrs \<Rightarrow> i32 \<Rightarrow> 'a kernel_scheme \<Rightarrow> (i32 \<times> 'a kernel_scheme) option" where
  "call_close Null_ptrs fd s = None"
| "call_close Fail_funcs fd s = Some (fail s)"
| "call_close Stdin_funcs fd s = Some (terminal_close fd s)"
| "call_close Stdout_funcs fd s = Some (terminal_close fd s)"
| "call_close Dir_funcs fd s = Some (dir_close fd s)"
| "call_close Rtc_funcs fd s = Some (rtc_close fd s)"
| "call_close File_funcs fd s = Some (file_close fd s)"

section \<open>The system calls on file descriptors\<close>

abbreviation curr_files :: "'a kernel_scheme \<Rightarrow> file_desc_t list" where
  "curr_files s \<equiv> files (pcbs s (get_curr_pcb s))"

definition sys_read :: "i32 \<Rightarrow> addr \<Rightarrow> i32 \<Rightarrow> 'a kernel_scheme \<Rightarrow> (i32 \<times> 'a kernel_scheme) option" where
  "sys_read fd buf nbytes s =
     (if sint fd < 0 \<or> sint fd \<ge> 8 then Some (-1, s)
      else if sint nbytes < 0 then Some (-1, s)
      else if buf = 0 then Some (-1, s)
      else if flags (curr_files s ! unat fd) = NOT_IN_USE then Some (-1, s)
      else call_read (ptrs (curr_files s ! unat fd)) fd buf nbytes s)"

definition sys_write :: "i32 \<Rightarrow> addr \<Rightarrow> i32 \<Rightarrow> 'a kernel_scheme \<Rightarrow> (i32 \<times> 'a kernel_scheme) option" where
  "sys_write fd buf nbytes s =
     (if sint fd < 0 \<or> sint fd \<ge> 8 then Some (-1, s)
      else if sint nbytes < 0 then Some (-1, s)
      else if buf = 0 then Some (-1, s)
      else if flags (curr_files s ! unat fd) = NOT_IN_USE then Some (-1, s)
      else call_write (ptrs (curr_files s ! unat fd)) fd buf nbytes s)"

text \<open>The search for a free descriptor, and the operations table for a file type.\<close>

definition free_fd :: "file_desc_t list \<Rightarrow> nat option" where
  "free_fd fs = find (\<lambda>i. flags (fs ! i) = NOT_IN_USE) [MIN_FD..<MAX_FD]"

definition funcs_of_type :: "u32 \<Rightarrow> file_operation_ptrs option" where
  "funcs_of_type t =
     (if t = 0 then Some Rtc_funcs else if t = 1 then Some Dir_funcs
      else if t = 2 then Some File_funcs else None)"

definition sys_open :: "addr \<Rightarrow> 'a kernel_scheme \<Rightarrow> (i32 \<times> 'a kernel_scheme) option" where
  "sys_open filename s =
     (let pcb = get_curr_pcb s
      in if filename = 0 then Some (-1, s)
         else do {
           (_, d) \<leftarrow> read_dentry_by_name filename s;
           case d of
             None \<Rightarrow> Some (-1, s)
           | Some dentry \<Rightarrow>
               (case free_fd (files (pcbs s pcb)) of
                  None \<Rightarrow> Some (-1, s)
                | Some i \<Rightarrow>
                    let s = fd_upd pcb i (\<lambda>f. f\<lparr>flags := IN_USE, file_pos := 0, inode := i_node dentry\<rparr>) s
                    in (case funcs_of_type (f_type dentry) of
                          None \<Rightarrow> do { (_, s) \<leftarrow> printf (conv_buf s) (bytes_of ''invalid file type!!!'' @ [0x0A]) [] s;
                                       Some (-1, s) }
                        | Some funcs \<Rightarrow>
                            let s = fd_upd pcb i (\<lambda>f. f\<lparr>ptrs := funcs\<rparr>) s
                            in do { (r, s) \<leftarrow> call_open funcs filename s;
                                    if r = -1 then Some (-1, s) else Some (word_of_nat i, s) }))
         })"

definition sys_close :: "i32 \<Rightarrow> 'a kernel_scheme \<Rightarrow> (i32 \<times> 'a kernel_scheme) option" where
  "sys_close fd s =
     (if sint fd < 2 \<or> sint fd \<ge> 8 then Some (-1, s)
      else let pcb = get_curr_pcb s
           in if flags (files (pcbs s pcb) ! unat fd) = NOT_IN_USE then Some (-1, s)
              else let s = fd_upd pcb (unat fd) (\<lambda>f. f\<lparr>flags := NOT_IN_USE\<rparr>) s
                   in call_close (ptrs (files (pcbs s pcb) ! unat fd)) fd s)"

section \<open>Arguments, video memory, handlers\<close>

text \<open>
  Where the argument starts: behind the first blank that is not followed by a blank. The loop gives
  up at index 98, so it never reads past the array of 100 bytes.
\<close>

definition arg_start :: "u8 list \<Rightarrow> nat option" where
  "arg_start arg = map_option Suc (find (\<lambda>i. arg ! i = 0x20 \<and> arg ! Suc i \<noteq> 0x20) [0..<ARGUMENT_MAX - 1])"

definition getargs :: "addr \<Rightarrow> i32 \<Rightarrow> 'a kernel_scheme \<Rightarrow> (i32 \<times> 'a kernel_scheme) option" where
  "getargs buf nbytes s =
     (let arg = argument (pcbs s (get_curr_pcb s))
      in if arg ! 0 = 0 then Some (-1, s)
         else case arg_start arg of
                None \<Rightarrow> Some (-1, s)
              | Some ofs \<Rightarrow>
                  if 0 \<notin> set (drop ofs arg) \<and> unat nbytes > ARGUMENT_MAX - ofs then None
                  else Some (0, strncpy_local buf (drop ofs arg) (unat nbytes) s))"

definition vidmap :: "addr \<Rightarrow> 'a kernel_scheme \<Rightarrow> i32 \<times> 'a kernel_scheme" where
  "vidmap screen_start s =
     (if screen_start < 0x8000000 \<or> screen_start > 0x8000000 + FOUR_MB_SIZE - 4 then (-1, s)
      else let s = map_user_video s;
               s = st32 screen_start USER_VIDEO s
           in (USER_VIDEO, s))"

definition set_handler :: "i32 \<Rightarrow> addr \<Rightarrow> 'a kernel_scheme \<Rightarrow> i32 \<times> 'a kernel_scheme" where
  "set_handler signum handler_address s =
     (if sint signum < 0 \<or> sint signum > 4 then (-1, s)
      else if handler_address = 0 then (0, s)
      else (0, pcb_upd (get_curr_pcb s) (\<lambda>b. b\<lparr>sighandler := Handler_at handler_address\<rparr>) s))"

definition sigreturn :: "'a kernel_scheme \<Rightarrow> i32 \<times> 'a kernel_scheme" where
  "sigreturn s = (-1, s)"

end
