(* ===== verification/Execute.thy ===== *)
theory Execute
  imports Process
begin

text \<open>
  Starting and ending processes: \<open>execute\<close>, \<open>halt\<close> and the signals of \<^verbatim>\<open>syscall.c\<close>.

  These functions need not return to their caller. A \<open>control\<close> says how control leaves the C code:
  \<open>Return v\<close>; \<open>Enter_user eip\<close> by the \<open>iret\<close> into a new program (interrupts on, user stack at
  the end of its page); \<open>Return_to_execute v\<close> by the jump of \<open>halt\<close> onto the stack frame saved
  in the control block, where the
  interrupted \<open>execute\<close> returns \<open>v\<close> to whatever called it; \<open>Call_handler a n\<close> by a call of a
  user's signal handler; \<open>Spin\<close> when it stays in an empty endless loop.
\<close>

datatype control = Return i32 | Enter_user addr | Return_to_execute i32 | Call_handler addr u8 | Spin

definition KERNEL_DS :: u16 where "KERNEL_DS = 0x18"
definition ESP_OFFSET :: u32 where "ESP_OFFSET = 4"
definition PROGRAM_OFFSET :: addr where "PROGRAM_OFFSET = 0x8048000"
definition EXCEPTION_MAGIC :: u32 where "EXCEPTION_MAGIC = 0xF"

text \<open>The local arrays of \<open>execute\<close>.\<close>

definition exe_name :: "'a machine_scheme \<Rightarrow> addr" where "exe_name s = esp s - 32"
definition args_buf :: "'a machine_scheme \<Rightarrow> addr" where "args_buf s = esp s - 132"
definition magics :: "'a machine_scheme \<Rightarrow> addr" where "magics s = esp s - 136"

section \<open>Parsing the command\<close>

partial_function (option) skip_spaces :: "addr \<Rightarrow> u32 \<Rightarrow> 'a machine_scheme \<Rightarrow> u32 option" where
  "skip_spaces command start s =
     (if ld s (command + start) = 0x20 then skip_spaces command (start + 1) s else Some start)"

partial_function (option) word_length :: "addr \<Rightarrow> u32 \<Rightarrow> u32 \<Rightarrow> 'a machine_scheme \<Rightarrow> u32 option" where
  "word_length command start len s =
     (if ld s (command + (start + len)) \<noteq> 0x20 \<and> ld s (command + (start + len)) \<noteq> 0x0A
         \<and> ld s (command + (start + len)) \<noteq> 0
      then word_length command start (len + 1) s else Some len)"

text \<open>The copy of the program name: \<open>Inl\<close> is an early return, \<open>Inr\<close> the final index.\<close>

function copy_name ::
  "addr \<Rightarrow> u32 \<Rightarrow> u32 \<Rightarrow> u32 \<Rightarrow> 'a console_scheme \<Rightarrow> ((i32 + u32) \<times> 'a console_scheme) option" where
  "copy_name command start len i s =
     (if i < start + len
      then if i > 127
           then do { (_, s) \<leftarrow> printf (conv_buf s) (bytes_of ''>>>>>>>> keyboard array overflow <<<<<<<<<'' @ [0x0A]) [] s;
                     Some (Inl (-1), s) }
           else if i - start > F_TYPE_OFFSET
           then do { (_, s) \<leftarrow> printf (conv_buf s) (bytes_of ''>>>>>>>> Commond is too long! <<<<<<<<<'' @ [0x0A]) [] s;
                     Some (Inl (-1), s) }
           else copy_name command start len (i + 1) (st (exe_name s + (i - start)) (ld s (command + i)) s)
      else Some (Inr i, s))"
  by pat_completeness auto
termination
  by (relation "measure (\<lambda>(command, start, len, i, s). unat (start + len - i))") (auto simp: unat_inc_less)

declare copy_name.simps [simp del]

text \<open>\<open>n\<close> is \<open>command_length - command_start\<close>.\<close>

partial_function (option) copy_args :: "addr \<Rightarrow> u32 \<Rightarrow> 'a machine_scheme \<Rightarrow> 'a machine_scheme option" where
  "copy_args rest n s =
     (if ld s (rest + n) \<noteq> 0x0A \<and> ld s (rest + n) \<noteq> 0
      then copy_args rest (n + 1) (st (args_buf s + n) (ld s (rest + n)) s)
      else Some (st (args_buf s + n) 0 s))"

definition parse_command :: "addr \<Rightarrow> 'a console_scheme \<Rightarrow> (i32 option \<times> 'a console_scheme) option" where
  "parse_command command s =
     do {
       start \<leftarrow> skip_spaces command 0 s;
       len \<leftarrow> word_length command start 0 s;
       (r, s) \<leftarrow> copy_name command start len start s;
       case r of
         Inl e \<Rightarrow> Some (Some e, s)
       | Inr i \<Rightarrow>
           do {
             let i = (if i - start \<ge> F_TYPE_OFFSET then start + F_TYPE_OFFSET - 1 else i);
             let s = st (exe_name s + (i - start)) 0 s;
             s \<leftarrow> copy_args (command + (len + start)) 0 s;
             Some (None, s)
           }
     }"

section \<open>execute\<close>

definition std_fd :: "file_operation_ptrs \<Rightarrow> file_desc_t" where
  "std_fd p = \<lparr>ptrs = p, inode = -1, file_pos = 0, flags = IN_USE\<rparr>"

text \<open>Step 5, the control block of process \<open>p\<close> in terminal \<open>current_terminal\<close>.\<close>

definition create_pcb :: "u32 \<Rightarrow> 'a kernel_scheme \<Rightarrow> 'a kernel_scheme option" where
  "create_pcb p s =
     do {
       let t = unat (current_terminal s);
       parent_pcb \<leftarrow> (if p = 0 then Some None
                      else if process_terminal_cnt s ! t \<noteq> 0
                      then map_option (\<lambda>q. Some (get_pcb_by_index q)) (top_process (current_terminal s) s)
                      else Some (Some (get_pcb_by_index 0)));
       let s = s\<lparr>process_terminal_cnt := (process_terminal_cnt s)[t := process_terminal_cnt s ! t + 1]\<rparr>;
       let new_pcb = get_pcb_by_index p;
       let s = pcb_upd new_pcb (\<lambda>b. b\<lparr>pid := p\<rparr>) s;
       s \<leftarrow> (if t < MAX_TERMINAL_NUM \<and> 0 < process_terminal_cnt s ! t \<and> unat (process_terminal_cnt s ! t) \<le> MAX_TASK
             then Some (s\<lparr>process_terminal := (process_terminal s)
                    [t := (process_terminal s ! t)[unat (process_terminal_cnt s ! t - 1) := p]]\<rparr>)
             else None);
       let s = pcb_upd new_pcb (\<lambda>b. b\<lparr>parent_pid := (case parent_pcb of Some a \<Rightarrow> pid (pcbs s a) | None \<Rightarrow> p)\<rparr>) s;
       let s = pcb_upd new_pcb (\<lambda>b. b\<lparr>argument := strncpy_arr (argument b) (read_bytes s (args_buf s) ARGUMENT_MAX) ARGUMENT_MAX\<rparr>) s;
       let s = pcb_upd new_pcb (\<lambda>b. b\<lparr>parent_esp := esp s, parent_ebp := ebp s\<rparr>) s;
       let s = fd_upd new_pcb 0 (\<lambda>_. std_fd Stdin_funcs) s;
       let s = fd_upd new_pcb 1 (\<lambda>_. std_fd Stdout_funcs) s;
       let s = for_loop MIN_FD MAX_FD (\<lambda>i s. fd_upd new_pcb i (\<lambda>f. f\<lparr>flags := NOT_IN_USE\<rparr>) s) s;
       Some (pcb_upd new_pcb (\<lambda>b. b\<lparr>sighandler := Signal_default, pending_signal := 0x3F\<rparr>) s)
     }"

definition set_tss :: "u32 \<Rightarrow> 'a kernel_scheme \<Rightarrow> 'a kernel_scheme" where
  "set_tss p s = s\<lparr>tss_ss0 := KERNEL_DS, tss_esp0 := EIGHT_MB_SIZE - p * EIGHT_KB_SIZE - ESP_OFFSET\<rparr>"

definition execute :: "addr \<Rightarrow> 'a kernel_scheme \<Rightarrow> (control \<times> 'a kernel_scheme) option" where
  "execute command s =
     do {
       let s = cli s;
       (e, s) \<leftarrow> parse_command command s;
       case e of
         Some r \<Rightarrow> Some (Return r, s)
       | None \<Rightarrow>
           do {
             (_, d) \<leftarrow> read_dentry_by_name (exe_name s) s;
             case d of
               None \<Rightarrow> Some (Return (-1), s)
             | Some dentry \<Rightarrow>
                 (let (_, s) = read_data (i_node dentry) 0 (magics s) 4 s
                  in if read_bytes s (magics s) 4 \<noteq> [0x7F, 0x45, 0x4C, 0x46] then Some (Return (-1), s)
                     else let (_, s) = read_data (i_node dentry) 24 (magics s) 4 s;
                              entry = ld32 s (magics s)
                          in case find (\<lambda>p. process s ! p = NOT_IN_USE) [0..<MAX_TASK] of
                               None \<Rightarrow> Some (Return (-1), s)
                             | Some p \<Rightarrow>
                                 do {
                                   let s = s\<lparr>process := (process s)[p := IN_USE]\<rparr>;
                                   let s = map_program (word_of_nat p) s;
                                   let (_, s) = read_data (i_node dentry) 0 PROGRAM_OFFSET FOUR_MB_SIZE s;
                                   s \<leftarrow> create_pcb (word_of_nat p) s;
                                   let s = set_tss (word_of_nat p) s;
                                   Some (Enter_user entry, sti s)
                                 })
           }
     }"

text \<open>What follows the label \<open>return_to_execute\<close>.\<close>

definition execute_return :: "'a kernel_scheme \<Rightarrow> i32 \<times> 'a kernel_scheme" where
  "execute_return s =
     (let s = sti s in (if retval s = EXCEPTION_MAGIC then 256 else 0, s))"

section \<open>halt\<close>

definition closed_fd :: file_desc_t where
  "closed_fd = \<lparr>ptrs = Fail_funcs, inode = -1, file_pos = 0, flags = NOT_IN_USE\<rparr>"

fun close_files :: "addr \<Rightarrow> nat list \<Rightarrow> 'a kernel_scheme \<Rightarrow> 'a kernel_scheme option" where
  "close_files pcb [] s = Some s"
| "close_files pcb (i # is) s =
     do {
       s \<leftarrow> (if flags (files (pcbs s pcb) ! i) = IN_USE
             then do { (_, s) \<leftarrow> call_close (ptrs (files (pcbs s pcb) ! i)) (word_of_nat i) s; Some s }
             else Some s);
       close_files pcb is (fd_upd pcb i (\<lambda>_. closed_fd) s)
     }"

definition halt :: "u8 \<Rightarrow> 'a kernel_scheme \<Rightarrow> (control \<times> 'a kernel_scheme) option" where
  "halt status s =
     do {
       let s = cli s;
       let t = unat (running_terminal s);
       p \<leftarrow> top_process (running_terminal s) s;
       let pcb = get_pcb_by_index p;
       let esp0 = parent_esp (pcbs s pcb);
       let ebp0 = parent_ebp (pcbs s pcb);
       let s = map_program (parent_pid (pcbs s pcb)) s;
       let s = set_tss (parent_pid (pcbs s pcb)) s;
       s \<leftarrow> (if unat (pid (pcbs s pcb)) < MAX_TASK
             then Some (s\<lparr>process := (process s)[unat (pid (pcbs s pcb)) := NOT_IN_USE]\<rparr>) else None);
       let s = s\<lparr>process_terminal := (process_terminal s)
                 [t := (process_terminal s ! t)[unat (process_terminal_cnt s ! t - 1) := NOT_IN_USE]]\<rparr>;
       let s = s\<lparr>process_terminal_cnt := (process_terminal_cnt s)[t := process_terminal_cnt s ! t - 1]\<rparr>;
       s \<leftarrow> close_files pcb [0..<MAX_FD] s;
       (c, s) \<leftarrow> (if pid (pcbs s pcb) = 0 \<or> process_terminal_cnt s ! t = 0
                  then execute (str_shell s) s else Some (Return 0, s));
       case c of
         Return _ \<Rightarrow>
           (let s = s\<lparr>retval := ucast status\<rparr>;
                s = s\<lparr>esp := esp0, ebp := ebp0\<rparr>;
                (v, s) = execute_return s
            in Some (Return_to_execute v, s))
       | _ \<Rightarrow> Some (c, s)
     }"

section \<open>Signals\<close>

definition kill :: "'a kernel_scheme \<Rightarrow> (control \<times> 'a kernel_scheme) option" where
  "kill s = halt 0xF s"

definition kill0 :: "'a kernel_scheme \<Rightarrow> (control \<times> 'a kernel_scheme) option" where
  "kill0 s = halt 0 s"

definition signal_default :: "u8 \<Rightarrow> 'a kernel_scheme \<Rightarrow> (control \<times> 'a kernel_scheme) option" where
  "signal_default signum s =
     (if signum = 0 then kill s
      else if signum = 1 then kill s
      else if signum = 2 then kill0 s
      else Some (Return 0, s))"

definition send_signal :: "u8 \<Rightarrow> 'a kernel_scheme \<Rightarrow> (control \<times> 'a kernel_scheme) option" where
  "send_signal signum s =
     (case sighandler (pcbs s (get_curr_pcb s)) of
        Signal_default \<Rightarrow> signal_default signum s
      | Handler_at a \<Rightarrow> Some (Call_handler a signum, s))"

end
