(* ===== verification/Terminal.thy ===== *)
theory Terminal
  imports Execute
begin

text \<open>
  The three terminals (\<^verbatim>\<open>terminal.c\<close>): saving and restoring what belongs to a terminal when it goes
  to the background, switching between them, and their initialisation. \<open>switch_to_terminal\<close> and
  \<open>init_terminal\<close> start a shell, so they end with a \<open>control\<close>.

  \<open>key_arr\<close> is the first row of \<open>key_arr_all\<close>; the other rows are cleared once and not used.
  \<open>restore_terminal_info\<close> and \<open>is_running\<close> accept the number 3, which is not a terminal; there they
  read behind the array and the model has no result.
\<close>

definition save_terminal_info :: "u8 \<Rightarrow> 'a console_scheme \<Rightarrow> i32 \<times> 'a console_scheme" where
  "save_terminal_info t s =
     (if unat t \<ge> MAX_TERMINAL_NUM then (-1, s)
      else let s = ti_upd t (\<lambda>i. i\<lparr>screen_pos_x := word_of_int (screen_x s)\<rparr>) s;
               s = ti_upd t (\<lambda>i. i\<lparr>screen_pos_y := word_of_int (screen_y s)\<rparr>) s;
               s = ti_upd t (\<lambda>i. i\<lparr>key_arr_ptr_old := key_arr_ptr s\<rparr>) s;
               s = ti_upd t (\<lambda>i. i\<lparr>key_arr_overflow_old := key_arr_overflow s\<rparr>) s;
               s = ti_upd t (\<lambda>i. i\<lparr>row_stack_old := word_of_int (row_stack s)\<rparr>) s;
               s = ti_upd t (\<lambda>i. i\<lparr>column_stack_old := word_of_int (column_stack s)\<rparr>) s;
               s = ti_upd t (\<lambda>i. i\<lparr>key_arr_old := strncpy_arr (key_arr_old i) (key_arr s) KEY_ARR_SIZE\<rparr>) s
           in (0, copy_from_screen_buffer (screen_buffer (ti t s)) s))"

definition restore_terminal_info :: "u8 \<Rightarrow> 'a console_scheme \<Rightarrow> (i32 \<times> 'a console_scheme) option" where
  "restore_terminal_info t s =
     (if unat t > MAX_TERMINAL_NUM then Some (-1, s)
      else if unat t = MAX_TERMINAL_NUM then None
      else let s = set_cursor_position (uint (screen_pos_x (ti t s))) (uint (screen_pos_y (ti t s))) s;
               s = s\<lparr>key_arr_ptr := key_arr_ptr_old (ti t s)\<rparr>;
               s = s\<lparr>key_arr_overflow := key_arr_overflow_old (ti t s)\<rparr>;
               s = set_row_stack_in (uint (row_stack_old (ti t s))) s;
               s = set_column_stack_in (uint (column_stack_old (ti t s))) s;
               s = s\<lparr>key_arr := strncpy_arr (key_arr s) (key_arr_old (ti t s)) KEY_ARR_SIZE\<rparr>
           in Some (0, copy_to_screen_buffer (screen_buffer (ti t s)) s))"

definition is_running :: "u8 \<Rightarrow> 'a kernel_scheme \<Rightarrow> u8 option" where
  "is_running t s =
     (if unat t > MAX_TERMINAL_NUM then Some 0x3F
      else if unat t = MAX_TERMINAL_NUM then None
      else Some (if terminal_running s ! unat t = 1 then 1 else 0))"

text \<open>The shell started by the kernel: its return value is not used.\<close>

definition execute_shell :: "'a kernel_scheme \<Rightarrow> (control \<times> 'a kernel_scheme) option" where
  "execute_shell s =
     do { (c, s) \<leftarrow> execute (str_shell s) s;
          case c of Return _ \<Rightarrow> Some (Return 0, s) | _ \<Rightarrow> Some (c, s) }"

definition switch_to_terminal :: "u8 \<Rightarrow> 'a kernel_scheme \<Rightarrow> (control \<times> 'a kernel_scheme) option" where
  "switch_to_terminal t s =
     (let s = cli s
      in if unat t \<ge> MAX_TERMINAL_NUM then Some (Return (-1), s)
         else if t = current_terminal s then Some (Return 0, s)
         else if terminal_running s ! unat t = 0
         then if get_pid s = -1
              then do {
                (_, s) \<leftarrow> printf (conv_buf s) (bytes_of ''process number reaches maximum! Can't switch to new terminal!''
                                              @ [0x0A] @ bytes_of ''391OS> '') [] s;
                Some (Return (-1), s)
              }
              else do {
                let s = s\<lparr>terminal_running := (terminal_running s)[unat t := 1]\<rparr>;
                let (_, s) = save_terminal_info (current_terminal s) s;
                let s = s\<lparr>current_terminal := t\<rparr>;
                let s = clear s;
                (_, s) \<leftarrow> restore_terminal_info (current_terminal s) s;
                let old_pcb = get_curr_pcb s;
                let s = pcb_upd old_pcb (\<lambda>b. b\<lparr>schedule_esp := esp s, schedule_ebp := ebp s\<rparr>) s;
                let s = s\<lparr>running_terminal := t\<rparr>;
                execute_shell (sti s)
              }
         else do {
           let (_, s) = save_terminal_info (current_terminal s) s;
           let s = s\<lparr>current_terminal := t\<rparr>;
           let s = clear s;
           (_, s) \<leftarrow> restore_terminal_info t s;
           Some (Return 0, sti s)
         })"

definition init_terminal_info :: "nat \<Rightarrow> 'a console_scheme \<Rightarrow> 'a console_scheme" where
  "init_terminal_info i s =
     (let t = word_of_nat i :: u8;
          s = ti_upd t (\<lambda>x. x\<lparr>screen_pos_x := 0, screen_pos_y := 0, key_arr_ptr_old := 0,
                key_arr_overflow_old := 0, row_stack_old := 0, column_stack_old := 0,
                key_arr_old := (key_arr_old x)[0 := 0]\<rparr>) s;
          s = s\<lparr>current_terminal := t\<rparr>;
          s = ti_upd t (\<lambda>x. x\<lparr>screen_buffer := saved_screen ! i\<rparr>) s;
          s = clear s
      in copy_from_screen_buffer (screen_buffer (ti t s)) s)"

definition init_terminal :: "'a kernel_scheme \<Rightarrow> (control \<times> 'a kernel_scheme) option" where
  "init_terminal s =
     (let s = clear s;
          s = for_loop 0 ((KEY_ARR_SIZE + 1) * 3) (\<lambda>i s. s\<lparr>key_arr := (key_arr s)[i := 0]\<rparr>) s;
          s = for_loop 0 MAX_TERMINAL_NUM (\<lambda>i s.
                let s = for_loop 0 MAX_TASK (\<lambda>j s. s\<lparr>process_terminal :=
                          (process_terminal s)[i := (process_terminal s ! i)[j := 0]]\<rparr>) s
                in s\<lparr>process_terminal_cnt := (process_terminal_cnt s)[i := 0]\<rparr>) s;
          s = s\<lparr>current_terminal := 0, running_terminal := 0\<rparr>;
          s = for_loop 0 MAX_TERMINAL_NUM init_terminal_info s;
          s = s\<lparr>current_terminal := 0\<rparr>;
          s = clear s;
          s = copy_from_screen_buffer (screen_buffer (ti 0 s)) s;
          s = sti s;
          s = s\<lparr>terminal_running := (terminal_running s)[0 := 1]\<rparr>
      in execute_shell s)"

end
