(* ===== verification/Sound.thy ===== *)
theory Sound
  imports Terminal
begin

text \<open>
  The Sound Blaster driver (\<^verbatim>\<open>sb16.c\<close>) and the system call \<open>play\<close>. The driver talks to the card
  through ports and polls status ports; a poll that the device never answers has no result. The DMA
  buffer is placed by the linker at \<open>DMA_Buffer\<close>; \<open>block1\<close> is its start and \<open>block2\<close> its
  second half. The page registers' port numbers are kept in 8 bits, as in \<open>page_ports\<close>.
\<close>

record sound = kernel +
  DMA_Buffer :: addr
  cur_block :: addr
  audio_filename :: "u8 list"
  current_offset :: u32
  is_playing :: u8
  audio_file_inode :: u32
  audio_fd :: i32

definition BLOCK_SIZE :: u32 where "BLOCK_SIZE = 32768"
definition SB16_IOBase :: u16 where "SB16_IOBase = 0x220"
definition RIFF :: u32 where "RIFF = 0x46464952"
definition page_ports :: "u8 list" where "page_ports = [0x87, 0x83, 0x81, 0x82, 0x00, 0x8B, 0x89, 0x8A]"

definition block1 :: "'a sound_scheme \<Rightarrow> addr" where "block1 s = DMA_Buffer s"
definition block2 :: "'a sound_scheme \<Rightarrow> addr" where "block2 s = DMA_Buffer s + BLOCK_SIZE"

section \<open>The signal processor\<close>

definition DSP_outb :: "u8 \<Rightarrow> u8 \<Rightarrow> 'a machine_scheme \<Rightarrow> 'a machine_scheme" where
  "DSP_outb data port_offset s = outb data (SB16_IOBase + ucast port_offset) s"

definition DSP_inb :: "u8 \<Rightarrow> 'a machine_scheme \<Rightarrow> u8 \<times> 'a machine_scheme" where
  "DSP_inb port_offset s = (let (v, s) = inb (SB16_IOBase + ucast port_offset) s in (ucast v, s))"

text \<open>\<open>while (1) { read_val = DSP_inb(port); if (ready) break; }\<close>\<close>

partial_function (option) dsp_poll :: "(u8 \<Rightarrow> bool) \<Rightarrow> u8 \<Rightarrow> 'a machine_scheme \<Rightarrow> (u8 \<times> 'a machine_scheme) option" where
  "dsp_poll ready port s =
     (let (v, s) = DSP_inb port s in if ready v then Some (v, s) else dsp_poll ready port s)"

definition Reset_DSP :: "'a machine_scheme \<Rightarrow> (u8 \<times> 'a machine_scheme) option" where
  "Reset_DSP s =
     do {
       let s = DSP_outb 1 0x6 s;
       let s = DSP_outb 0 0x6 s;
       (_, s) \<leftarrow> dsp_poll (\<lambda>v. v AND 0x80 \<noteq> 0) 0xE s;
       (_, s) \<leftarrow> dsp_poll (\<lambda>v. v AND 0xAA \<noteq> 0) 0xA s;
       Some (0, s)
     }"

definition Write_DSP :: "u8 \<Rightarrow> 'a machine_scheme \<Rightarrow> 'a machine_scheme option" where
  "Write_DSP data s =
     do { (_, s) \<leftarrow> dsp_poll (\<lambda>v. v AND 0x80 = 0) 0xC s; Some (DSP_outb data 0xC s) }"

definition Read_From_DSP :: "'a machine_scheme \<Rightarrow> (u8 \<times> 'a machine_scheme) option" where
  "Read_From_DSP s =
     do { (_, s) \<leftarrow> dsp_poll (\<lambda>v. v AND 0x80 = 0) 0xE s; Some (DSP_inb 0xA s) }"

definition Set_Sample_Rate :: "u16 \<Rightarrow> 'a machine_scheme \<Rightarrow> 'a machine_scheme option" where
  "Set_Sample_Rate frequency s =
     do {
       s \<leftarrow> Write_DSP 0x41 s;
       s \<leftarrow> Write_DSP (ucast (drop_bit 8 frequency AND 0xFF)) s;
       Write_DSP (ucast (frequency AND 0xFF)) s
     }"

definition start_play :: "u32 \<Rightarrow> 'a machine_scheme \<Rightarrow> 'a machine_scheme option" where
  "start_play block_size s =
     do {
       let blksize = (ucast block_size :: u16);
       s \<leftarrow> Write_DSP (0xC0 OR 0x6) s;
       s \<leftarrow> Write_DSP 0 s;
       let blksize = blksize - 1;
       s \<leftarrow> Write_DSP (ucast (blksize AND 0xFF)) s;
       Write_DSP (ucast (drop_bit 8 blksize AND 0xFF)) s
     }"

section \<open>The DMA controller\<close>

definition Transfer_Sound_DMA :: "u8 \<Rightarrow> u8 \<Rightarrow> u32 \<Rightarrow> u32 \<Rightarrow> 'a machine_scheme \<Rightarrow> 'a machine_scheme" where
  "Transfer_Sound_DMA channel mode a size0 s =
     (let low = (channel \<le> 3);
          s = (if low then outb (channel OR 4) 0x0A s else outb ((channel mod 4) OR 4) 0xD4 s);
          s = (if low then outb 0 0x0C s else outb 0 0xD8 s);
          s = (if low then outb (mode OR channel) 0x0B s else outb (mode OR (channel mod 4)) 0xD6 s);
          s = (if low then outb (ucast (drop_bit 16 a)) (ucast (page_ports ! unat channel)) s
               else outb (ucast (drop_bit 16 a AND 0xFE)) (ucast (page_ports ! unat channel)) s);
          s = (if low
               then outb (ucast (drop_bit 8 a AND 0xFF)) (0x00 + push_bit 1 (ucast channel))
                      (outb (ucast (a AND 0xFF)) (0x00 + push_bit 1 (ucast channel)) s)
               else outb (ucast (drop_bit 8 (a div 2) AND 0xFF)) (0xC0 + push_bit 2 (ucast channel))
                      (outb (ucast (a div 2 AND 0xFF)) (0xC0 + push_bit 2 (ucast channel)) s));
          count = size0 - 1;
          s = (if low
               then outb (ucast (drop_bit 8 count AND 0xFF)) (0x00 + push_bit 1 (ucast channel) + 1)
                      (outb (ucast (count AND 0xFF)) (0x00 + push_bit 1 (ucast channel) + 1) s)
               else outb (ucast (drop_bit 8 (count div 2) AND 0xFF)) (0xC0 + push_bit 2 (ucast channel) + 2)
                      (outb (ucast (count div 2 AND 0xFF)) (0xC0 + push_bit 2 (ucast channel) + 2) s))
      in if low then outb channel 0x0A s else outb (channel mod 4) 0xD4 s)"

section \<open>Playing\<close>

definition play_music :: "addr \<Rightarrow> 'a sound_scheme \<Rightarrow> (u8 \<times> 'a sound_scheme) option" where
  "play_music filename s =
     (if is_playing s = 1 then Some (0, s)
      else do {
        (_, d) \<leftarrow> read_dentry_by_name filename s;
        case d of
          None \<Rightarrow> do { (_, s) \<leftarrow> printf (conv_buf s) (bytes_of ''No Such File'') [] s; Some (-1, s) }
        | Some dentry \<Rightarrow>
            (let s = s\<lparr>audio_file_inode := i_node dentry\<rparr>;
                 (_, s) = read_data (audio_file_inode s) 0 (magics s) 4 s
             in if ld32 s (magics s) \<noteq> RIFF
                then do { (_, s) \<leftarrow> printf (conv_buf s) (bytes_of ''file cannot be played! %s'' @ [0x0A]) [magics s] s;
                          Some (0, s) }
                else do {
                  (_, s) \<leftarrow> Reset_DSP s;
                  n \<leftarrow> strlen s filename;
                  let s = s\<lparr>audio_filename := strncpy_arr (audio_filename s) (read_bytes s filename (unat n)) (unat n)\<rparr>;
                  (fd, s) \<leftarrow> sys_open filename s;
                  let s = s\<lparr>audio_fd := fd\<rparr>;
                  let (bytes_read, s) = read_data (audio_file_inode s) (current_offset s) (DMA_Buffer s) (BLOCK_SIZE * 2) s;
                  let s = Transfer_Sound_DMA 1 (0x48 OR 0x10) (DMA_Buffer s) (2 * BLOCK_SIZE) s;
                  s \<leftarrow> Set_Sample_Rate 8000 s;
                  s \<leftarrow> start_play BLOCK_SIZE s;
                  let s = s\<lparr>is_playing := 1\<rparr>;
                  Some (0, s\<lparr>current_offset := current_offset s + bytes_read\<rparr>)
                })
      })"

definition stop :: "'a sound_scheme \<Rightarrow> 'a sound_scheme option" where
  "stop s =
     do {
       s \<leftarrow> Write_DSP 0xD0 s;
       let s = s\<lparr>is_playing := 0, audio_file_inode := 0, current_offset := 0, cur_block := block1 s\<rparr>;
       Some (for_loop 0 33 (\<lambda>i s. s\<lparr>audio_filename := (audio_filename s)[i := 0]\<rparr>) s)
     }"

definition sb16_handler :: "'a sound_scheme \<Rightarrow> 'a sound_scheme option" where
  "sb16_handler s =
     (let (_, s) = DSP_inb 0xE s;
          s = send_eoi 5 s;
          s = cli s;
          (bytes_read, s) = read_data (audio_file_inode s) (current_offset s) (cur_block s) BLOCK_SIZE s;
          s = s\<lparr>current_offset := current_offset s + bytes_read\<rparr>;
          s = sti s
      in if bytes_read = BLOCK_SIZE
         then let s = s\<lparr>cur_block := (if cur_block s = block1 s then block2 s else block1 s)\<rparr>
              in start_play (ucast (ucast bytes_read :: u16)) s
         else if bytes_read = 0 then stop s
         else Some s)"

definition play :: "addr \<Rightarrow> 'a sound_scheme \<Rightarrow> (i32 \<times> 'a sound_scheme) option" where
  "play filename s =
     (if filename < 0x8000000 \<or> filename > 0x8000000 + FOUR_MB_SIZE - 4 then Some (-1, s)
      else do { (_, s) \<leftarrow> play_music filename s; Some (0, s) })"

end
