(* ===== verification/Keyboard.thy ===== *)
theory Keyboard
  imports Sound
begin

text \<open>
  The keyboard (\<^verbatim>\<open>keyboard.c\<close>): the scan code tables, the state of the modifier keys, and the interrupt
  handler that edits the line, echoes characters, switches terminals and sends the interrupt signal.
  The handler first polls the data port until it delivers a non-zero code. Each row of
  \<open>key_scancode\<close> has 64 entries, the last five of them zero.
\<close>

record keyboard = sound +
  caps_lock_enabled :: u8
  shift_state :: u8
  ctrl_state :: u8
  alt_state :: u8

definition key_row :: "string \<Rightarrow> string \<Rightarrow> string \<Rightarrow> string \<Rightarrow> string \<Rightarrow> u8 list" where
  "key_row digits upper middle slash lower =
     [0, 0] @ bytes_of digits @ [0] @ [0x09] @ bytes_of upper @ [0x0A] @ [0] @ bytes_of middle
     @ [0] @ bytes_of slash @ bytes_of lower @ [0, 0] @ [0, 0x20, 0] @ [0, 0, 0, 0, 0]"

definition key_scancode :: "u8 list list" where
  "key_scancode =
     [key_row ''1234567890-='' ''qwertyuiop[]'' (''asdfghjkl;'' @ [CHR 0x27, CHR 0x60]) [CHR 0x5C] ''zxcvbnm,./'',
      key_row ''!@#$%^&*()_+'' ''QWERTYUIOP{}'' (''ASDFGHJKL:'' @ [CHR 0x22, CHR 0x7E]) [CHR 0x7C] ''ZXCVBNM<>?'',
      key_row ''1234567890-='' ''QWERTYUIOP[]'' (''ASDFGHJKL;'' @ [CHR 0x27, CHR 0x60]) [CHR 0x5C] ''ZXCVBNM,./'',
      key_row ''!@#$%^&*()_+'' ''qwertyuiop{}'' (''asdfghjkl:'' @ [CHR 0x22, CHR 0x7E]) [CHR 0x7C] ''zxcvbnm<>?'']"

definition KEYBOARD_IRQ :: u32 where "KEYBOARD_IRQ = 1"
definition KEY_DATA_PORT :: u16 where "KEY_DATA_PORT = 0x60"

definition init_keyboard :: "'a console_scheme \<Rightarrow> 'a console_scheme" where
  "init_keyboard s =
     (let s = enable_irq KEYBOARD_IRQ s;
          s = s\<lparr>key_arr_ptr := 0, enter_state := 0, key_arr_overflow := 0\<rparr>
      in set_cursor_position 0 0 s)"

text \<open>\<open>current_state\<close>: which row the modifiers select; any other value of them leaves it unset.\<close>

definition key_state :: "'a keyboard_scheme \<Rightarrow> nat option" where
  "key_state s =
     (if shift_state s = 0 \<and> caps_lock_enabled s = 0 then Some 0
      else if shift_state s = 1 \<and> caps_lock_enabled s = 0 then Some 1
      else if shift_state s = 0 \<and> caps_lock_enabled s = 1 then Some 2
      else if shift_state s = 1 \<and> caps_lock_enabled s = 1 then Some 3
      else None)"

definition switch_key :: "u8 \<Rightarrow> 'a keyboard_scheme \<Rightarrow> (control \<times> 'a keyboard_scheme) option" where
  "switch_key t s =
     (let s = send_eoi KEYBOARD_IRQ s;
          s = sti s
      in do { (c, s) \<leftarrow> switch_to_terminal t s;
              case c of Return _ \<Rightarrow> Some (Return 0, s) | _ \<Rightarrow> Some (c, s) })"

definition input_handler :: "u32 \<Rightarrow> 'a keyboard_scheme \<Rightarrow> (control \<times> 'a keyboard_scheme) option" where
  "input_handler s_code s =
     (if ctrl_state s = 1 \<and> s_code = 0x26
      then do {
        let s = clear s;
        let s = set_cursor_position 0 0 s;
        (_, s) \<leftarrow> printf (conv_buf s) (bytes_of ''391OS> '') [] s;
        Some (Return 0, set_column_stack s)
      }
      else if ctrl_state s = 1 \<and> s_code = 0x2E
      then do {
        let s = send_eoi KEYBOARD_IRQ s;
        s \<leftarrow> stop s;
        let s = cli s;
        p \<leftarrow> top_process (current_terminal s) s;
        let s = pcb_upd (get_pcb_by_index p) (\<lambda>b. b\<lparr>pending_signal := 2\<rparr>) s;
        Some (Return 0, sti s)
      }
      else if s_code \<ge> 0x3E then Some (Return 0, s)
      else if alt_state s = 1 \<and> s_code = 0x3B then switch_key 0 s
      else if alt_state s = 1 \<and> s_code = 0x3C then switch_key 1 s
      else if alt_state s = 1 \<and> s_code = 0x3D then switch_key 2 s
      else if s_code \<ge> 0x3C then Some (Return 0, s)
      else do {
        current_state \<leftarrow> key_state s;
        let s = putc (key_scancode ! current_state ! unat s_code) s;
        let s = key_arr_push (key_scancode ! current_state ! unat s_code) s;
        Some (Return 0, s)
      })"

partial_function (option) read_scancode :: "'a machine_scheme \<Rightarrow> (u32 \<times> 'a machine_scheme) option" where
  "read_scancode s =
     (let (scancode, s) = inb KEY_DATA_PORT s in if scancode > 0 then Some (scancode, s) else read_scancode s)"

definition scancode_action :: "u32 \<Rightarrow> 'a keyboard_scheme \<Rightarrow> (control \<times> 'a keyboard_scheme) option" where
  "scancode_action scancode s =
     (if scancode = 0x2A then Some (Return 0, s\<lparr>shift_state := 1\<rparr>)
      else if scancode = 0x36 then Some (Return 0, s\<lparr>shift_state := 1\<rparr>)
      else if scancode = 0xAA then Some (Return 0, s\<lparr>shift_state := 0\<rparr>)
      else if scancode = 0xB6 then Some (Return 0, s\<lparr>shift_state := 0\<rparr>)
      else if scancode = 0x3A
      then Some (Return 0, s\<lparr>caps_lock_enabled := (if caps_lock_enabled s \<noteq> 0 then 0 else 1)\<rparr>)
      else if scancode = 0x1D then Some (Return 0, s\<lparr>ctrl_state := 1\<rparr>)
      else if scancode = 0x9D then Some (Return 0, s\<lparr>ctrl_state := 0\<rparr>)
      else if scancode = 0x1C
      then let s = key_arr_push (key_scancode ! 0 ! unat scancode) s;
               s = s\<lparr>enter_state := 1\<rparr>
           in Some (Return 0, enter_handler s)
      else if scancode = 0x0E then Some (Return 0, backspace_handler s)
      else if scancode = 0x0F then Some (Return 0, s)
      else if scancode = 0x38 then Some (Return 0, s\<lparr>alt_state := 1\<rparr>)
      else if scancode = 0xB8 then Some (Return 0, s\<lparr>alt_state := 0\<rparr>)
      else if scancode = 0x01 then Some (Return 0, s)
      else if scancode = 0x37 then Some (Return 0, s)
      else input_handler scancode s)"

definition keyboard_handler :: "'a keyboard_scheme \<Rightarrow> (control \<times> 'a keyboard_scheme) option" where
  "keyboard_handler s =
     (let (flages, s) = cli_and_save s
      in do {
           (scancode, s) \<leftarrow> read_scancode s;
           (c, s) \<leftarrow> scancode_action scancode s;
           case c of
             Return _ \<Rightarrow> Some (Return 0, restore_flags flages (send_eoi KEYBOARD_IRQ s))
           | _ \<Rightarrow> Some (c, s)
         })"

end
