(* ===== verification/Scheduling.thy ===== *)
theory Scheduling
  imports Keyboard
begin

text \<open>
  The scheduler (\<^verbatim>\<open>scheduling.c\<close>): the timer interrupt gives the processor to the process on top of the
  next running terminal, round robin. The switch of the stack registers is the assignment of
  \<open>esp\<close> and \<open>ebp\<close>; the code after it runs on the stack of the new process.

  \<open>PIT_MASK\<close> is defined as nothing, so \<open>PIT_MASK & divisor\<close> is the address of the local variable
  \<open>divisor\<close>, which the model puts below \<open>esp\<close>.
\<close>

record scheduling = keyboard +
  pending_interrupt :: u8

definition PIT_CONST :: u32 where "PIT_CONST = 1193182"

definition init_pit :: "u32 \<Rightarrow> 'a pic_scheme \<Rightarrow> 'a pic_scheme option" where
  "init_pit frequency s =
     (if frequency = 0 then None
      else let divisor = PIT_CONST div frequency;
               s = outb 0x36 0x43 s;
               s = outb (ucast (esp s - 4)) 0x40 s;
               s = outb (ucast (drop_bit 8 divisor)) 0x40 s
           in Some (enable_irq 0 s))"

text \<open>\<open>(running_terminal + 1 + i) % 3\<close> for the first \<open>i\<close> that is a running terminal, or the last one
  tried.\<close>

definition next_terminal :: "'a kernel_scheme \<Rightarrow> u8" where
  "next_terminal s =
     (let nth = (\<lambda>i. word_of_nat ((unat (running_terminal s) + 1 + i) mod 3) :: u8)
      in case find (\<lambda>i. is_running (nth i) s = Some 1) [0..<MAX_TERMINAL_NUM] of
           Some i \<Rightarrow> nth i | None \<Rightarrow> nth 2)"

definition pit_handler :: "'a scheduling_scheme \<Rightarrow> (control \<times> 'a scheduling_scheme) option" where
  "pit_handler s =
     (let s = send_eoi 0 s;
          s = cli s
      in if process_terminal_cnt s ! 1 \<noteq> 0 \<or> process_terminal_cnt s ! 2 \<noteq> 0
         then do {
           let next = next_terminal s;
           p \<leftarrow> top_process next s;
           let next_process = (ucast p :: u8);
           if next_process > 5 then Some (Return 0, sti s)
           else do {
             let s = map_program (ucast next_process) s;
             let old_pcb = get_curr_pcb s;
             let s = s\<lparr>running_terminal := next\<rparr>;
             let new_pcb = get_pcb_by_index (ucast next_process);
             let s = s\<lparr>pending_interrupt := ucast (pending_signal (pcbs s new_pcb))\<rparr>;
             let s = set_tss (ucast next_process) s;
             let s = map_user_video_to_buffer next s;
             let s = pcb_upd old_pcb (\<lambda>b. b\<lparr>schedule_esp := esp s, schedule_ebp := ebp s\<rparr>) s;
             let s = s\<lparr>esp := schedule_esp (pcbs s new_pcb), ebp := schedule_ebp (pcbs s new_pcb)\<rparr>;
             (c, s) \<leftarrow> (if pending_interrupt s \<noteq> 0x3F then send_signal (pending_interrupt s) s
                        else Some (Return 0, s));
             case c of Return _ \<Rightarrow> Some (Return 0, sti s) | _ \<Rightarrow> Some (c, s)
           }
         }
         else if process_terminal_cnt s ! 0 = 0 then Some (Return 0, sti s)
         else do {
           let new_pcb = get_curr_pcb s;
           if pending_signal (pcbs s new_pcb) \<noteq> 0x3F
           then do {
             (c, s) \<leftarrow> send_signal (ucast (pending_signal (pcbs s new_pcb))) s;
             case c of
               Return _ \<Rightarrow> Some (Return 0, sti (pcb_upd new_pcb (\<lambda>b. b\<lparr>pending_signal := 0x3F\<rparr>) s))
             | _ \<Rightarrow> Some (c, s)
           }
           else Some (Return 0, sti s)
         })"

end
