(* ===== verification/Boot.thy ===== *)
theory Boot
  imports Scheduling
begin

text \<open>
  Start-up: the exception handlers (\<^verbatim>\<open>exception.c\<close>), the interrupt descriptor table (\<^verbatim>\<open>idt.c\<close>) and
  the C entry point (\<^verbatim>\<open>kernel.c\<close>) that brings every component up and starts the shell.

  Addresses that only the linker knows are fields: the entry points of the handlers
  (\<open>handler_addr\<close>), the tables \<open>ldt\<close> and \<open>tss\<close>, and the string literal of the audio file. A bit
  field of a descriptor is a word of its width.
\<close>

datatype handler =
  Divide_by_zero | Debug | Nmi | Breakpoint | Overflow
  | Bound_range | Invalid_opcode | Device_not_available | Double_fault | Coprocessor
  | Invalid_tss | Segment_not_present | Stack_fault | General_protection | Page_fault
  | Fpu_floating_point | Alignment_check | Machine_check | Simd_floating_point
  | Pit_assembly | Keyboard_assembly | Sb16_assembly | Rtc_assembly | Syscall_assembly

record idt_desc_t =
  offset_15_00 :: u16
  seg_selector :: u16
  reserved4 :: u8
  reserved3 :: "1 word"
  reserved2 :: "1 word"
  reserved1 :: "1 word"
  idt_size :: "1 word"
  reserved0 :: "1 word"
  idt_dpl :: "2 word"
  idt_present :: "1 word"
  offset_31_16 :: u16

record seg_desc_t =
  seg_lim_15_00 :: u16
  base_15_00 :: u16
  base_23_16 :: u8
  seg_type :: "4 word"
  seg_sys :: "1 word"
  seg_dpl :: "2 word"
  seg_present :: "1 word"
  seg_lim_19_16 :: "4 word"
  seg_avail :: "1 word"
  seg_reserved :: "1 word"
  seg_opsize :: "1 word"
  seg_granularity :: "1 word"
  base_31_24 :: u8

record boot = scheduling +
  idt :: "idt_desc_t list"
  idtr_loaded :: bool
  ldt_desc_ptr :: seg_desc_t
  tss_desc_ptr :: seg_desc_t
  ldtr :: u16
  task_register :: u16
  tss_ldt_selector :: u16
  fs_start_addr :: addr
  cr2 :: u32
  handler_addr :: "handler \<Rightarrow> addr"
  ldt_addr :: addr
  tss_addr :: addr
  str_testaudio :: addr

section \<open>Exceptions\<close>

text \<open>The \<open>halt\<close> after the endless loop is never reached.\<close>

definition print_exception :: "u8 list \<Rightarrow> 'a console_scheme \<Rightarrow> (control \<times> 'a console_scheme) option" where
  "print_exception str s = do { (_, s) \<leftarrow> printf (conv_buf s) str [] s; Some (Spin, s) }"

definition divide_by_zero_exception :: "'a console_scheme \<Rightarrow> (control \<times> 'a console_scheme) option" where
  "divide_by_zero_exception s = print_exception (bytes_of ''EXCEPTION: divide_by_zero_exception!'' @ [0x0A]) s"

definition debug_exception :: "'a console_scheme \<Rightarrow> (control \<times> 'a console_scheme) option" where
  "debug_exception s = print_exception (bytes_of ''EXCEPTION: debug_exception!'' @ [0x0A]) s"

definition nmi_exception :: "'a console_scheme \<Rightarrow> (control \<times> 'a console_scheme) option" where
  "nmi_exception s = print_exception (bytes_of ''EXCEPTION: nmi_exception!'' @ [0x0A]) s"

definition breakpoint_exception :: "'a console_scheme \<Rightarrow> (control \<times> 'a console_scheme) option" where
  "breakpoint_exception s = print_exception (bytes_of ''EXCEPTION: breakpoint_exception!'' @ [0x0A]) s"

definition overflow_exception :: "'a console_scheme \<Rightarrow> (control \<times> 'a console_scheme) option" where
  "overflow_exception s = print_exception (bytes_of ''EXCEPTION: overflow_exception!'' @ [0x0A]) s"

definition bound_range_exception :: "'a console_scheme \<Rightarrow> (control \<times> 'a console_scheme) option" where
  "bound_range_exception s = print_exception (bytes_of ''EXCEPTION: bound_range_exception!'' @ [0x0A]) s"

definition invalid_opcode_exception :: "'a console_scheme \<Rightarrow> (control \<times> 'a console_scheme) option" where
  "invalid_opcode_exception s = print_exception (bytes_of ''EXCEPTION: invalid_opcode_exception!'' @ [0x0A]) s"

definition device_not_available_exception :: "'a console_scheme \<Rightarrow> (control \<times> 'a console_scheme) option" where
  "device_not_available_exception s = print_exception (bytes_of ''EXCEPTION: device_not_available_exception!'' @ [0x0A]) s"

definition double_fault_exception :: "'a console_scheme \<Rightarrow> (control \<times> 'a console_scheme) option" where
  "double_fault_exception s = print_exception (bytes_of ''EXCEPTION: double_fault_exception!'' @ [0x0A]) s"

definition coprocessor_exception :: "'a console_scheme \<Rightarrow> (control \<times> 'a console_scheme) option" where
  "coprocessor_exception s = print_exception (bytes_of ''EXCEPTION: coprocessor_exception!'' @ [0x0A]) s"

definition invalid_tss_exception :: "'a console_scheme \<Rightarrow> (control \<times> 'a console_scheme) option" where
  "invalid_tss_exception s = print_exception (bytes_of ''EXCEPTION: invalid_tss_exception!'' @ [0x0A]) s"

definition segment_not_present_exception :: "'a console_scheme \<Rightarrow> (control \<times> 'a console_scheme) option" where
  "segment_not_present_exception s = print_exception (bytes_of ''EXCEPTION: segment_not_present_exception!'' @ [0x0A]) s"

definition stack_fault_exception :: "'a console_scheme \<Rightarrow> (control \<times> 'a console_scheme) option" where
  "stack_fault_exception s = print_exception (bytes_of ''EXCEPTION: stack_fault_exception!'' @ [0x0A]) s"

definition general_protection_exception :: "'a console_scheme \<Rightarrow> (control \<times> 'a console_scheme) option" where
  "general_protection_exception s = print_exception (bytes_of ''EXCEPTION: general_protection_exception!'' @ [0x0A]) s"

definition page_fault_exception :: "'a boot_scheme \<Rightarrow> (control \<times> 'a boot_scheme) option" where
  "page_fault_exception s =
     do {
       let val = ld32 s (esp s - 12);
       (_, s) \<leftarrow> printf (conv_buf s) (bytes_of ''exception occur at address: 0x%x'' @ [0x0A]) [cr2 s] s;
       (_, s) \<leftarrow> printf (conv_buf s) (bytes_of ''user esp at address: 0x%x'' @ [0x0A]) [val] s;
       print_exception (bytes_of ''EXCEPTION: page_fault_exception!'' @ [0x0A]) s
     }"

definition fpu_floating_point_exception :: "'a console_scheme \<Rightarrow> (control \<times> 'a console_scheme) option" where
  "fpu_floating_point_exception s = print_exception (bytes_of ''EXCEPTION: fpu_floating_point_exception!'' @ [0x0A]) s"

definition alignment_check_exception :: "'a console_scheme \<Rightarrow> (control \<times> 'a console_scheme) option" where
  "alignment_check_exception s = print_exception (bytes_of ''EXCEPTION: alignment_check_exception!'' @ [0x0A]) s"

definition machine_check_exception :: "'a console_scheme \<Rightarrow> (control \<times> 'a console_scheme) option" where
  "machine_check_exception s = print_exception (bytes_of ''EXCEPTION: machine_check_exception!'' @ [0x0A]) s"

definition simd_floating_point_exception :: "'a console_scheme \<Rightarrow> (control \<times> 'a console_scheme) option" where
  "simd_floating_point_exception s = print_exception (bytes_of ''EXCEPTION: simd_floating_point_exception!'' @ [0x0A]) s"

section \<open>The interrupt descriptor table\<close>

definition idt_upd :: "nat \<Rightarrow> (idt_desc_t \<Rightarrow> idt_desc_t) \<Rightarrow> 'a boot_scheme \<Rightarrow> 'a boot_scheme" where
  "idt_upd i f s = s\<lparr>idt := (idt s)[i := f (idt s ! i)]\<rparr>"

text \<open>The macro \<open>SET_IDT_ENTRY\<close>.\<close>

definition SET_IDT_ENTRY :: "nat \<Rightarrow> handler \<Rightarrow> 'a boot_scheme \<Rightarrow> 'a boot_scheme" where
  "SET_IDT_ENTRY i h s =
     (let s = idt_upd i (\<lambda>d. d\<lparr>offset_31_16 := ucast (drop_bit 16 (handler_addr s h AND 0xFFFF0000))\<rparr>) s
      in idt_upd i (\<lambda>d. d\<lparr>offset_15_00 := ucast (handler_addr s h AND 0xFFFF)\<rparr>) s)"

text \<open>The vectors and their handlers, in the order of the assignments.\<close>

definition idt_handlers :: "(nat \<times> handler) list" where
  "idt_handlers =
     [(0x00, Divide_by_zero), (0x01, Debug), (0x02, Nmi), (0x03, Breakpoint),
      (0x04, Overflow), (0x05, Bound_range), (0x06, Invalid_opcode), (0x07, Device_not_available),
      (0x08, Double_fault), (0x09, Coprocessor), (0x0A, Invalid_tss), (0x0B, Segment_not_present),
      (0x0C, Stack_fault), (0x0D, General_protection), (0x0E, Page_fault), (0x10, Fpu_floating_point),
      (0x11, Alignment_check), (0x12, Machine_check), (0x13, Simd_floating_point),
      (0x20, Pit_assembly), (0x21, Keyboard_assembly), (0x25, Sb16_assembly), (0x28, Rtc_assembly),
      (0x80, Syscall_assembly)]"

definition init_gate :: "nat \<Rightarrow> idt_desc_t \<Rightarrow> idt_desc_t" where
  "init_gate i d =
     (let d = d\<lparr>seg_selector := 0x10, reserved4 := 0, reserved3 := 0, reserved2 := 1, reserved1 := 1,
                 idt_size := 1, reserved0 := 0, idt_dpl := 0, idt_present := 0\<rparr>;
          d = (if i < 0x13 + 1 then d\<lparr>idt_present := 1, reserved3 := 1\<rparr> else d);
          d = (if i = 0x80 then d\<lparr>idt_present := 1, reserved3 := 1, idt_dpl := 3\<rparr> else d)
      in if i = 0x20 \<or> i = 0x28 \<or> i = 0x21 \<or> i = 0x25 then d\<lparr>idt_present := 1\<rparr> else d)"

definition init_idt :: "'a boot_scheme \<Rightarrow> i32 \<times> 'a boot_scheme" where
  "init_idt s =
     (let s = for_loop 0 256 (\<lambda>i s. idt_upd i (init_gate i) s) s;
          s = fold (\<lambda>(i, h) s. SET_IDT_ENTRY i h s) idt_handlers s
      in (0, s\<lparr>idtr_loaded := True\<rparr>))"

section \<open>The entry point\<close>

abbreviation line :: "string \<Rightarrow> u8 list" where "line str \<equiv> bytes_of str @ [0x0A]"

definition say :: "u8 list \<Rightarrow> u32 list \<Rightarrow> 'a console_scheme \<Rightarrow> 'a console_scheme option" where
  "say fmt args s = do { (_, s) \<leftarrow> printf (conv_buf s) fmt args s; Some s }"

fun say_bytes :: "addr \<Rightarrow> nat list \<Rightarrow> 'a console_scheme \<Rightarrow> 'a console_scheme option" where
  "say_bytes a [] s = Some s"
| "say_bytes a (i # is) s =
     do { s \<leftarrow> say (bytes_of ''0x%x '') [scast (ld s (a + word_of_nat i))] s; say_bytes a is s }"

text \<open>The loop over the modules of the boot loader; \<open>mbi\<close> and \<open>md\<close> are pointers.\<close>

partial_function (option) print_modules :: "addr \<Rightarrow> u32 \<Rightarrow> addr \<Rightarrow> 'a console_scheme \<Rightarrow> 'a console_scheme option" where
  "print_modules mbi mod_count md s =
     (if mod_count < ld32 s (mbi + 20)
      then do {
        s \<leftarrow> say (line ''Module %d loaded at address: 0x%#x'') [mod_count, ld32 s md] s;
        s \<leftarrow> say (line ''Module %d ends at address: 0x%#x'') [mod_count, ld32 s (md + 4)] s;
        s \<leftarrow> say (line ''First few bytes of module:'') [] s;
        s \<leftarrow> say_bytes (ld32 s md) [0..<16] s;
        s \<leftarrow> say [0x0A] [] s;
        print_modules mbi (mod_count + 1) (md + 16) s
      }
      else Some s)"

partial_function (option) print_mmap :: "addr \<Rightarrow> addr \<Rightarrow> 'a console_scheme \<Rightarrow> 'a console_scheme option" where
  "print_mmap mbi mmap s =
     (if mmap < ld32 s (mbi + 48) + ld32 s (mbi + 44)
      then do {
        s \<leftarrow> say (line ''    size = 0x%x, base_addr = 0x%#x%#x'' @ line ''    type = 0x%x,  length    = 0x%#x%#x'')
               [ld32 s mmap, ld32 s (mmap + 8), ld32 s (mmap + 4), ld32 s (mmap + 20), ld32 s (mmap + 16),
                ld32 s (mmap + 12)] s;
        print_mmap mbi (mmap + ld32 s mmap + 4) s
      }
      else Some s)"

text \<open>The report on the boot information; the flag tells whether the boot goes on.\<close>

definition boot_report :: "u32 \<Rightarrow> addr \<Rightarrow> 'a boot_scheme \<Rightarrow> (bool \<times> 'a boot_scheme) option" where
  "boot_report magic mbi s =
     (if magic \<noteq> 0x2BADB002
      then do { s \<leftarrow> say (line ''Invalid magic number: 0x%#x'') [magic] s; Some (False, s) }
      else do {
        s \<leftarrow> say (line ''flags = 0x%#x'') [ld32 s mbi] s;
        s \<leftarrow> (if ld32 s mbi AND 1 \<noteq> 0
              then say (line ''mem_lower = %uKB, mem_upper = %uKB'') [ld32 s (mbi + 4), ld32 s (mbi + 8)] s else Some s);
        s \<leftarrow> (if ld32 s mbi AND 2 \<noteq> 0 then say (line ''boot_device = 0x%#x'') [ld32 s (mbi + 12)] s else Some s);
        s \<leftarrow> (if ld32 s mbi AND 4 \<noteq> 0 then say (line ''cmdline = %s'') [ld32 s (mbi + 16)] s else Some s);
        s \<leftarrow> (if ld32 s mbi AND 8 \<noteq> 0
              then let md = ld32 s (mbi + 24); s = s\<lparr>fs_start_addr := ld32 s md\<rparr> in print_modules mbi 0 md s
              else Some s);
        if ld32 s mbi AND 16 \<noteq> 0 \<and> ld32 s mbi AND 32 \<noteq> 0
        then do { s \<leftarrow> say (line ''Both bits 4 and 5 are set.'') [] s; Some (False, s) }
        else do {
          s \<leftarrow> (if ld32 s mbi AND 32 \<noteq> 0
                then say (line ''elf_sec: num = %u, size = 0x%#x, addr = 0x%#x, shndx = 0x%#x'')
                       [ld32 s (mbi + 28), ld32 s (mbi + 32), ld32 s (mbi + 36), ld32 s (mbi + 40)] s
                else Some s);
          s \<leftarrow> (if ld32 s mbi AND 64 \<noteq> 0
                then do {
                  s \<leftarrow> say (line ''mmap_addr = 0x%#x, mmap_length = 0x%x'') [ld32 s (mbi + 48), ld32 s (mbi + 44)] s;
                  print_mmap mbi (ld32 s (mbi + 48)) s
                }
                else Some s);
          Some (True, s)
        }
      })"

text \<open>\<open>SET_LDT_PARAMS\<close> and \<open>SET_TSS_PARAMS\<close> are the same macro.\<close>

definition set_desc_params :: "addr \<Rightarrow> u32 \<Rightarrow> seg_desc_t \<Rightarrow> seg_desc_t" where
  "set_desc_params a lim d =
     d\<lparr>base_31_24 := ucast (drop_bit 24 (a AND 0xFF000000)), base_23_16 := ucast (drop_bit 16 (a AND 0x00FF0000)),
       base_15_00 := ucast (a AND 0x0000FFFF), seg_lim_19_16 := ucast (drop_bit 16 (lim AND 0x000F0000)),
       seg_lim_15_00 := ucast (lim AND 0x0000FFFF)\<rparr>"

definition init_descriptors :: "'a boot_scheme \<Rightarrow> 'a boot_scheme" where
  "init_descriptors s =
     (let d = (ldt_desc_ptr s)\<lparr>seg_granularity := 0, seg_opsize := 1, seg_reserved := 0, seg_avail := 0,
                seg_present := 1, seg_dpl := 0, seg_sys := 0, seg_type := 2\<rparr>;
          s = s\<lparr>ldt_desc_ptr := set_desc_params (ldt_addr s) 31 d\<rparr>;
          s = s\<lparr>ldtr := 0x38\<rparr>;
          d = (tss_desc_ptr s)\<lparr>seg_granularity := 0, seg_opsize := 0, seg_reserved := 0, seg_avail := 0,
                seg_lim_19_16 := ucast (104 AND 0x000F0000 :: u32), seg_present := 1, seg_dpl := 0, seg_sys := 0,
                seg_type := 9, seg_lim_15_00 := ucast (104 AND 0x0000FFFF :: u32)\<rparr>;
          s = s\<lparr>tss_desc_ptr := set_desc_params (tss_addr s) 103 d\<rparr>;
          s = s\<lparr>tss_ldt_selector := 0x38, tss_ss0 := KERNEL_DS, tss_esp0 := 0x800000\<rparr>
      in s\<lparr>task_register := 0x30\<rparr>)"

definition init_devices :: "'a boot_scheme \<Rightarrow> 'a boot_scheme option" where
  "init_devices s =
     do {
       let s = clear s;
       let (_, s) = init_idt s;
       s \<leftarrow> say (line ''Enabling Paging :)'') [] s;
       let s = init_page s;
       let s = i8259_init s;
       let s = enable_irq 2 s;
       let s = init_keyboard s;
       let s = rtc_init s;
       let s = filesystem_init (fs_start_addr s) s;
       let s = enable_cursor 0 15 s;
       s \<leftarrow> init_pit 20 s;
       Some (enable_irq 5 s)
     }"

definition entry :: "u32 \<Rightarrow> addr \<Rightarrow> 'a boot_scheme \<Rightarrow> (control \<times> 'a boot_scheme) option" where
  "entry magic a s =
     do {
       let s = clear s;
       (go, s) \<leftarrow> boot_report magic a s;
       if \<not> go then Some (Return 0, s)
       else do {
         let s = init_descriptors s;
         s \<leftarrow> init_devices s;
         (_, s) \<leftarrow> play_music (str_testaudio s) s;
         (c, s) \<leftarrow> init_terminal s;
         case c of
           Return _ \<Rightarrow>
             do {
               let s = sti s;
               (c, s) \<leftarrow> execute (str_shell s) s;
               case c of Return _ \<Rightarrow> Some (Spin, s) | _ \<Rightarrow> Some (c, s)
             }
         | _ \<Rightarrow> Some (c, s)
       }
     }"

end
