(* ===== verification/Process_Spec.thy ===== *)
theory Process_Spec
  imports Boot
begin

text \<open>
  What the process tables mean. \<open>procs s t\<close> is the stack of processes of terminal \<open>t\<close>, the running
  one last; \<open>procs_ok\<close> is the invariant that ties it to the \<open>process\<close> array and to the control
  blocks. The file descriptor calls are specified on the descriptor table of the current process.
\<close>

section \<open>Where control blocks are\<close>

lemma pid_cases: "(p :: u32) < 6 \<Longrightarrow> p = 0 \<or> p = 1 \<or> p = 2 \<or> p = 3 \<or> p = 4 \<or> p = 5"
proof -
  assume "p < 6"
  then have "unat p \<in> {0, 1, 2, 3, 4, 5}" by (auto simp: word_less_nat_alt)
  then show ?thesis by (auto simp: word_unat_eq_iff)
qed

lemma pcb_inj: "p < 6 \<Longrightarrow> q < 6 \<Longrightarrow> get_pcb_by_index p = get_pcb_by_index q \<longleftrightarrow> p = q"
  by (auto dest!: pid_cases simp: get_pcb_by_index_def EIGHT_MB_SIZE_def EIGHT_KB_SIZE_def)

section \<open>What memory writes and the page tables leave alone\<close>

lemma only_phys_kernel:
  assumes "only_phys s (t :: 'a kernel_scheme)"
  shows "pcbs t = pcbs s" "process t = process s" "process_terminal t = process_terminal s"
    "process_terminal_cnt t = process_terminal_cnt s" "terminal_running t = terminal_running s"
    "tss_esp0 t = tss_esp0 s" "retval t = retval s" "esp t = esp s" "ebp t = ebp s"
    "current_terminal t = current_terminal s" "running_terminal t = running_terminal s"
    "tables t = tables s" "paging_on t = paging_on s" "iflag t = iflag s" "str_shell t = str_shell s"
  by (subst only_physD [OF assms], simp add: tables_def fun_eq_iff)+

lemmas write_list_kernel [simp] = only_phys_kernel [OF only_phys_write_list]

lemma only_paging_kernel:
  assumes "only_paging s (t :: 'a kernel_scheme)"
  shows "pcbs t = pcbs s" "process t = process s" "process_terminal t = process_terminal s"
    "process_terminal_cnt t = process_terminal_cnt s" "terminal_running t = terminal_running s"
    "tss_esp0 t = tss_esp0 s" "retval t = retval s" "str_shell t = str_shell s"
  by (rule only_paging_eq [OF assms], simp add: wipe_paging_def)+

lemmas map_program_kernel [simp] = only_paging_kernel [OF only_paging_maps(1)]
lemmas map_program_fields [simp] = only_paging_fields [OF only_paging_maps(1)]

lemma pcb_upd_fields [simp]:
  "process (pcb_upd a f s) = process s" "process_terminal (pcb_upd a f s) = process_terminal s"
  "process_terminal_cnt (pcb_upd a f s) = process_terminal_cnt s" "phys (pcb_upd a f s) = phys s"
  "xl (pcb_upd a f s) = xl s" "esp (pcb_upd a f s) = esp s" "ebp (pcb_upd a f s) = ebp s"
  "current_terminal (pcb_upd a f s) = current_terminal s" "running_terminal (pcb_upd a f s) = running_terminal s"
  "iflag (pcb_upd a f s) = iflag s" "tss_esp0 (pcb_upd a f s) = tss_esp0 s"
  "mapped (pcb_upd a f s) = mapped s" "ld (pcb_upd a f s) = ld s" "args_buf (pcb_upd a f s) = args_buf s"
  "pcbs (pcb_upd a f s) = (pcbs s)(a := f (pcbs s a))" "terminal_running (pcb_upd a f s) = terminal_running s"
  by (simp_all add: pcb_upd_def mapped_def tables_def ld_def fun_eq_iff args_buf_def)

section \<open>The process tables\<close>

definition procs :: "'a kernel_scheme \<Rightarrow> nat \<Rightarrow> u32 list" where
  "procs s t = take (unat (process_terminal_cnt s ! t)) (process_terminal s ! t)"

definition used :: "'a kernel_scheme \<Rightarrow> u32 set" where
  "used s = {p. p < 6 \<and> process s ! unat p \<noteq> NOT_IN_USE}"

text \<open>The tables have the sizes of the C arrays.\<close>

definition tables_sized :: "'a kernel_scheme \<Rightarrow> bool" where
  "tables_sized s \<longleftrightarrow> length (process s) = MAX_TASK \<and> length (process_terminal s) = MAX_TERMINAL_NUM
     \<and> (\<forall>t < MAX_TERMINAL_NUM. length (process_terminal s ! t) = MAX_TASK)
     \<and> length (process_terminal_cnt s) = MAX_TERMINAL_NUM
     \<and> (\<forall>t < MAX_TERMINAL_NUM. unat (process_terminal_cnt s ! t) \<le> MAX_TASK)
     \<and> unat (current_terminal s) < MAX_TERMINAL_NUM \<and> unat (running_terminal s) < MAX_TERMINAL_NUM
     \<and> (\<forall>p < 6. length (files (pcbs s (get_pcb_by_index p))) = MAX_FD
          \<and> length (argument (pcbs s (get_pcb_by_index p))) = ARGUMENT_MAX)"

text \<open>Every used process number is on exactly one stack, once, and its control block knows it.\<close>

definition procs_ok :: "'a kernel_scheme \<Rightarrow> bool" where
  "procs_ok s \<longleftrightarrow> tables_sized s
     \<and> distinct (procs s 0 @ procs s 1 @ procs s 2) \<and> set (procs s 0 @ procs s 1 @ procs s 2) = used s
     \<and> (\<forall>p \<in> used s. pid (pcbs s (get_pcb_by_index p)) = p \<and> parent_pid (pcbs s (get_pcb_by_index p)) < 6)"

lemma length_procs: "tables_sized s \<Longrightarrow> t < 3 \<Longrightarrow> length (procs s t) = unat (process_terminal_cnt s ! t)"
  by (simp add: tables_sized_def procs_def)

lemma procs_empty: "tables_sized s \<Longrightarrow> t < 3 \<Longrightarrow> procs s t = [] \<longleftrightarrow> process_terminal_cnt s ! t = 0"
  using length_procs [of s t] by (auto simp: unat_eq_zero)

lemma top_process_last:
  assumes "tables_sized s" "unat t < 3"
  shows "top_process t s = (if procs s (unat t) = [] then None else Some (last (procs s (unat t))))"
proof (cases "process_terminal_cnt s ! unat t = 0")
  case True
  then show ?thesis by (simp add: top_process_def procs_def Let_def)
next
  case False
  let ?c = "process_terminal_cnt s ! unat t"
  have c: "0 < unat ?c" "unat ?c \<le> 6" "unat (?c - 1) = unat ?c - 1" "length (process_terminal s ! unat t) = 6"
    using assms False unat_dec [of ?c] by (simp_all add: tables_sized_def unat_gt_0)
  have ne: "procs s (unat t) \<noteq> []" using procs_empty [OF assms] False by simp
  then have "last (procs s (unat t)) = process_terminal s ! unat t ! unat (?c - 1)"
    using c assms length_procs [OF assms] by (simp add: last_conv_nth procs_def)
  then show ?thesis using assms(2) c False ne by (simp add: top_process_def Let_def word_gt_0)
qed

end
