(* ===== verification/Execute_Spec.thy ===== *)
theory Execute_Spec
  imports Process_Spec
begin

text \<open>
  The correctness of \<open>execute\<close> and \<open>halt\<close>: what the parsed command is, what a new process finds, which
  requests are refused, and that the process tables stay consistent.
\<close>

section \<open>Parsing a command\<close>

text \<open>The specification: blanks are skipped, the word after them is the program, the rest the argument.\<close>

definition cmd_name :: "u8 list \<Rightarrow> u8 list" where
  "cmd_name cmd = takeWhile (\<lambda>c. c \<noteq> 0x20) (dropWhile (\<lambda>c. c = 0x20) cmd)"

definition cmd_args :: "u8 list \<Rightarrow> u8 list" where
  "cmd_args cmd = dropWhile (\<lambda>c. c \<noteq> 0x20) (dropWhile (\<lambda>c. c = 0x20) cmd)"

definition cmd_start :: "u8 list \<Rightarrow> nat" where
  "cmd_start cmd = length (takeWhile (\<lambda>c. c = 0x20) cmd)"

text \<open>\<open>cmd\<close> is in memory at \<open>command\<close>, ended by a NUL byte or a line feed.\<close>

definition command_at :: "'a machine_scheme \<Rightarrow> addr \<Rightarrow> u8 list \<Rightarrow> bool" where
  "command_at s command cmd \<longleftrightarrow> read_bytes s command (length cmd) = cmd
     \<and> ld s (command + word_of_nat (length cmd)) \<in> {0, 0x0A} \<and> set cmd \<inter> {0, 0x0A} = {}"

definition apart :: "'a machine_scheme \<Rightarrow> addr \<Rightarrow> nat \<Rightarrow> addr \<Rightarrow> nat \<Rightarrow> bool" where
  "apart s p n q m \<longleftrightarrow> (\<forall>i < n. \<forall>j < m. xl s (p + word_of_nat i) \<noteq> xl s (q + word_of_nat j))"

lemma cmd_split: "cmd = replicate (cmd_start cmd) 0x20 @ cmd_name cmd @ cmd_args cmd"
proof -
  have "replicate (length (takeWhile (\<lambda>c. c = 0x20) cmd)) 0x20 = takeWhile (\<lambda>c. c = 0x20) cmd"
    by (rule replicate_length_same) (auto dest: set_takeWhileD)
  then show ?thesis
    unfolding cmd_name_def cmd_args_def cmd_start_def by (simp only: takeWhile_dropWhile_id)
qed

lemma length_cmd: "length cmd = cmd_start cmd + length (cmd_name cmd) + length (cmd_args cmd)"
  using arg_cong [OF cmd_split [of cmd], of length] by simp

lemma command_byte: "command_at s command cmd \<Longrightarrow> i < length cmd \<Longrightarrow> ld s (command + word_of_nat i) = cmd ! i"
  unfolding command_at_def by (metis nth_read_bytes)

lemma cmd_nth:
  "i < cmd_start cmd \<Longrightarrow> cmd ! i = 0x20"
  "j < length (cmd_name cmd) \<Longrightarrow> cmd ! (cmd_start cmd + j) = cmd_name cmd ! j"
  "k < length (cmd_args cmd) \<Longrightarrow> cmd ! (cmd_start cmd + length (cmd_name cmd) + k) = cmd_args cmd ! k"
  using arg_cong [OF cmd_split [of cmd], of "\<lambda>c. c ! i"] arg_cong [OF cmd_split [of cmd], of "\<lambda>c. c ! (cmd_start cmd + j)"]
    arg_cong [OF cmd_split [of cmd], of "\<lambda>c. c ! (cmd_start cmd + length (cmd_name cmd) + k)"]
  by (simp_all add: nth_append)

lemma name_byte: "j < length (cmd_name cmd) \<Longrightarrow> cmd_name cmd ! j \<noteq> 0x20"
  using set_takeWhileD [OF nth_mem [of j "cmd_name cmd", unfolded cmd_name_def]] unfolding cmd_name_def by simp

lemma args_first: "cmd_args cmd \<noteq> [] \<Longrightarrow> cmd_args cmd ! 0 = 0x20"
  using hd_dropWhile [of "\<lambda>c. c \<noteq> 0x20" "dropWhile (\<lambda>c. c = 0x20) cmd"] hd_conv_nth [of "cmd_args cmd"]
  unfolding cmd_args_def by simp

lemma name_first: "cmd_name cmd = [] \<Longrightarrow> cmd_args cmd = []"
proof -
  assume n: "cmd_name cmd = []"
  have "dropWhile (\<lambda>c. c = 0x20) cmd \<noteq> [] \<Longrightarrow> hd (dropWhile (\<lambda>c. c = 0x20) cmd) \<noteq> 0x20"
    by (rule hd_dropWhile)
  moreover have "hd xs = 0x20" if "takeWhile (\<lambda>c. c \<noteq> 0x20) xs = []" "xs \<noteq> []" for xs :: "u8 list"
    using that by (cases xs) (auto split: if_splits)
  ultimately have "dropWhile (\<lambda>c. c = 0x20) cmd = []" using n unfolding cmd_name_def by blast
  then show ?thesis unfolding cmd_args_def by (simp only: dropWhile.simps)
qed

text \<open>The loops that only look at the command.\<close>

lemma scan:
  fixes f :: "u32 \<Rightarrow> 'b"
  assumes "\<And>n. f n = (if P n then f (n + 1) else r n)" "\<And>i. j \<le> i \<Longrightarrow> i < k \<Longrightarrow> P (word_of_nat i)"
    "\<not> P (word_of_nat k)" "j \<le> k"
  shows "f (word_of_nat j) = r (word_of_nat k)"
  using assms(2,4)
proof (induction "k - j" arbitrary: j)
  case 0
  then show ?case using assms(1) [of "word_of_nat j"] assms(3) by simp
next
  case (Suc x)
  have "f (word_of_nat (Suc j)) = r (word_of_nat k)" by (rule Suc.hyps(1)) (use Suc in auto)
  then show ?case using assms(1) [of "word_of_nat j"] Suc by (simp add: add.commute)
qed

lemma command_at_end: "command_at s command cmd \<Longrightarrow> i = length cmd \<Longrightarrow> ld s (command + word_of_nat i) \<in> {0, 0x0A}"
  by (simp add: command_at_def)

lemma skip_spaces_eq:
  assumes "command_at s command cmd"
  shows "skip_spaces command 0 s = Some (word_of_nat (cmd_start cmd))"
proof -
  have "ld s (command + word_of_nat (cmd_start cmd)) \<noteq> 0x20"
  proof (cases "cmd_name cmd = []")
    case True
    then have "cmd_start cmd = length cmd" using length_cmd [of cmd] name_first [of cmd] by simp
    then show ?thesis using command_at_end [OF assms] by auto
  next
    case False
    then show ?thesis
      using command_byte [OF assms, of "cmd_start cmd"] cmd_nth(2) [of 0 cmd] name_byte [of 0 cmd] length_cmd [of cmd]
      by simp
  qed
  moreover have "ld s (command + word_of_nat i) = 0x20" if "i < cmd_start cmd" for i
    using command_byte [OF assms, of i] cmd_nth(1) [OF that] that length_cmd [of cmd] by simp
  ultimately have "skip_spaces command (word_of_nat 0) s = Some (word_of_nat (cmd_start cmd))"
    by (intro scan [where f = "\<lambda>n. skip_spaces command n s" and P = "\<lambda>n. ld s (command + n) = 0x20"]
        skip_spaces.simps) simp_all
  then show ?thesis by simp
qed

lemma word_length_eq:
  assumes "command_at s command cmd"
  shows "word_length command (word_of_nat (cmd_start cmd)) 0 s = Some (word_of_nat (length (cmd_name cmd)))"
proof -
  let ?b = "\<lambda>n. ld s (command + (word_of_nat (cmd_start cmd) + n))"
  have nz: "cmd ! i \<noteq> 0 \<and> cmd ! i \<noteq> 0x0A" if "i < length cmd" for i
    using assms nth_mem [OF that] by (auto simp: command_at_def)
  have "\<not> (?b (word_of_nat (length (cmd_name cmd))) \<noteq> 0x20 \<and> ?b (word_of_nat (length (cmd_name cmd))) \<noteq> 0x0A
      \<and> ?b (word_of_nat (length (cmd_name cmd))) \<noteq> 0)"
  proof (cases "cmd_args cmd = []")
    case True
    then have "cmd_start cmd + length (cmd_name cmd) = length cmd" using length_cmd [of cmd] by simp
    then show ?thesis
      using command_at_end [OF assms, of "cmd_start cmd + length (cmd_name cmd)"] by (auto simp del: of_nat_add simp flip: of_nat_add)
  next
    case False
    then show ?thesis
      using command_byte [OF assms, of "cmd_start cmd + length (cmd_name cmd)"] cmd_nth(3) [of 0 cmd]
        args_first [OF False] length_cmd [of cmd] by simp
  qed
  moreover have "?b (word_of_nat j) \<noteq> 0x20 \<and> ?b (word_of_nat j) \<noteq> 0x0A \<and> ?b (word_of_nat j) \<noteq> 0"
    if "j < length (cmd_name cmd)" for j
    using command_byte [OF assms, of "cmd_start cmd + j"] cmd_nth(2) [OF that] name_byte [OF that]
      nz [of "cmd_start cmd + j"] that length_cmd [of cmd] by simp
  ultimately have "word_length command (word_of_nat (cmd_start cmd)) (word_of_nat 0) s =
      Some (word_of_nat (length (cmd_name cmd)))"
    by (intro scan [where f = "\<lambda>n. word_length command (word_of_nat (cmd_start cmd)) n s"
          and P = "\<lambda>n. ?b n \<noteq> 0x20 \<and> ?b n \<noteq> 0x0A \<and> ?b n \<noteq> 0"] word_length.simps) simp_all
  then show ?thesis by simp
qed

section \<open>Copying the command to the local arrays\<close>

lemma esp_write_list [simp]: "esp (write_list a xs s) = esp s"
  by (subst only_physD [OF only_phys_write_list]) simp

lemma local_arrays [simp]:
  "exe_name (write_list a xs s) = exe_name s" "args_buf (write_list a xs s) = args_buf s"
  "magics (write_list a xs s) = magics s" "conv_buf (write_list a xs s) = conv_buf s"
  by (simp_all add: exe_name_def args_buf_def magics_def conv_buf_def)

lemma write_list_snoc: "write_list a (xs @ [x]) s = st (a + word_of_nat (length xs)) x (write_list a xs s)"
  by (simp add: write_list_append)

lemma write_list_take:
  "j < length xs \<Longrightarrow> st (a + word_of_nat j) (xs ! j) (write_list a (take j xs) s) = write_list a (take (Suc j) xs) s"
  by (simp add: take_Suc_conv_app_nth write_list_snoc)

lemma ld_apart:
  assumes "apart s p n q m" "i < n" "length xs \<le> m"
  shows "ld (write_list q xs s) (p + word_of_nat i) = ld s (p + word_of_nat i)"
proof (rule ld_write_list_outside)
  fix k assume "k < length xs"
  then have "k < m" using assms(3) by simp
  then show "xl s (q + word_of_nat k) \<noteq> xl s (p + word_of_nat i)"
    using assms(1,2) unfolding apart_def by metis
qed

lemma apart_part:
  assumes "apart s p n q m" "n' \<le> n" "a + m' \<le> m"
  shows "apart s p n' (q + word_of_nat a) m'"
  unfolding apart_def
proof (intro allI impI)
  fix i j assume "i < n'" "j < m'"
  then have "i < n" "a + j < m" using assms(2,3) by simp_all
  then have "xl s (p + word_of_nat i) \<noteq> xl s (q + word_of_nat (a + j))" using assms(1) unfolding apart_def by blast
  then show "xl s (p + word_of_nat i) \<noteq> xl s (q + word_of_nat a + word_of_nat j)" by (simp add: add.assoc)
qed

lemma apart_write_list [simp]: "apart (write_list a xs s) p n q m = apart s p n q m"
  by (simp add: apart_def)

lemma command_at_write:
  assumes "command_at s command cmd" "apart s command (Suc (length cmd)) q m" "length xs \<le> m"
  shows "command_at (write_list q xs s) command cmd"
proof -
  have same: "ld (write_list q xs s) (command + word_of_nat i) = ld s (command + word_of_nat i)" if "i \<le> length cmd" for i
    by (rule ld_apart [OF assms(2)]) (use that assms(3) in simp_all)
  then have "read_bytes (write_list q xs s) command (length cmd) = read_bytes s command (length cmd)"
    by (intro read_bytes_eqI) simp
  then show ?thesis using assms(1) same [of "length cmd"] by (simp add: command_at_def)
qed

lemma copy_name_eq:
  assumes "command_at s command cmd" "apart s command (Suc (length cmd)) (exe_name s) 32" "length cmd \<le> 128"
    "length (cmd_name cmd) \<le> 32" "j \<le> length (cmd_name cmd)"
  shows "copy_name command (word_of_nat (cmd_start cmd)) (word_of_nat (length (cmd_name cmd)))
      (word_of_nat (cmd_start cmd + j)) (write_list (exe_name s) (take j (cmd_name cmd)) s) =
    Some (Inr (word_of_nat (cmd_start cmd + length (cmd_name cmd))), write_list (exe_name s) (cmd_name cmd) s)"
  using assms(5)
proof (induction "length (cmd_name cmd) - j" arbitrary: j)
  case 0
  then show ?case by (subst copy_name.simps) simp
next
  case (Suc x)
  let ?b = "cmd_start cmd" and ?n = "length (cmd_name cmd)"
  have j: "j < ?n" using Suc.hyps(2) by simp
  have total: "?b + ?n \<le> 128" using assms(3) length_cmd [of cmd] by simp
  have i: "unat (word_of_nat (?b + j) :: u32) = ?b + j" "unat (word_of_nat ?b + word_of_nat ?n :: u32) = ?b + ?n"
    using total j unat_of_nat_u32 [of "?b + j"] unat_of_nat_u32 [of "?b + ?n"] by simp_all
  have k: "word_of_nat (?b + j) - word_of_nat ?b = (word_of_nat j :: u32)" "unat (word_of_nat j :: u32) = j"
    using j total by (simp_all add: unat_of_nat_u32)
  have guards: "(word_of_nat (?b + j) :: u32) < word_of_nat ?b + word_of_nat ?n" "\<not> (127 :: u32) < word_of_nat (?b + j)"
      "\<not> F_TYPE_OFFSET < word_of_nat j"
    using i k(2) total j assms(4) by (simp_all only: word_less_nat_alt F_TYPE_OFFSET_def) simp_all
  have "ld (write_list (exe_name s) (take j (cmd_name cmd)) s) (command + word_of_nat (?b + j)) = cmd_name cmd ! j"
    using ld_apart [OF assms(2), of "?b + j" "take j (cmd_name cmd)"] command_byte [OF assms(1), of "?b + j"]
      cmd_nth(2) [OF j] j assms(4) length_cmd [of cmd] by simp
  then have step: "st (exe_name s + word_of_nat j) (ld (write_list (exe_name s) (take j (cmd_name cmd)) s) (command + word_of_nat (?b + j)))
      (write_list (exe_name s) (take j (cmd_name cmd)) s) = write_list (exe_name s) (take (Suc j) (cmd_name cmd)) s"
    using write_list_take [OF j] by (simp only:)
  have next_i: "word_of_nat (?b + j) + 1 = (word_of_nat (?b + Suc j) :: u32)" by simp
  show ?case
    by (subst copy_name.simps)
      (simp only: guards k(1) step next_i local_arrays if_True if_False,
       rule Suc.hyps(1), use Suc.hyps(2) j in simp_all)
qed

lemma copy_args_eq:
  assumes "command_at s command cmd" "apart s command (Suc (length cmd)) (args_buf s) 100"
    "length (cmd_args cmd) < 100" "j \<le> length (cmd_args cmd)" "b = cmd_start cmd + length (cmd_name cmd)"
  shows "copy_args (command + word_of_nat b) (word_of_nat j) (write_list (args_buf s) (take j (cmd_args cmd)) s) =
    Some (write_list (args_buf s) (cmd_args cmd @ [0]) s)"
  using assms(4)
proof (induction "length (cmd_args cmd) - j" arbitrary: j)
  case 0
  then have j: "j = length (cmd_args cmd)" by simp
  have at: "command + word_of_nat b + word_of_nat j = command + word_of_nat (length cmd)"
    using length_cmd [of cmd] by (simp add: j assms(5) add.assoc)
  have "command_at (write_list (args_buf s) (cmd_args cmd) s) command cmd"
    by (rule command_at_write [OF assms(1,2)]) (use assms(3) in simp)
  then have "ld (write_list (args_buf s) (cmd_args cmd) s) (command + word_of_nat b + word_of_nat j) \<in> {0, 0x0A}"
    using command_at_end unfolding at by blast
  then show ?case by (subst copy_args.simps) (auto simp: j write_list_snoc)
next
  case (Suc x)
  then have j: "j < length (cmd_args cmd)" by simp
  have in_cmd: "b + j < length cmd" using length_cmd [of cmd] j assms(5) by simp
  have "ld (write_list (args_buf s) (take j (cmd_args cmd)) s) (command + word_of_nat (b + j)) = cmd_args cmd ! j"
    using ld_apart [OF assms(2), of "b + j" "take j (cmd_args cmd)"] command_byte [OF assms(1), of "b + j"]
      cmd_nth(3) [OF j] j assms(3,5) in_cmd by simp
  then have byte: "ld (write_list (args_buf s) (take j (cmd_args cmd)) s) (command + word_of_nat b + word_of_nat j) = cmd_args cmd ! j"
    by (simp add: add.assoc)
  have "cmd ! (b + j) \<in> set cmd" using in_cmd by (rule nth_mem)
  then have "cmd_args cmd ! j \<noteq> 0x0A \<and> cmd_args cmd ! j \<noteq> 0"
    using assms(1,5) cmd_nth(3) [OF j] by (auto simp: command_at_def)
  moreover have "word_of_nat j + 1 = (word_of_nat (Suc j) :: u32)" by simp
  ultimately have "copy_args (command + word_of_nat b) (word_of_nat j) (write_list (args_buf s) (take j (cmd_args cmd)) s) =
      copy_args (command + word_of_nat b) (word_of_nat (Suc j)) (write_list (args_buf s) (take (Suc j) (cmd_args cmd)) s)"
    using write_list_take [OF j, of "args_buf s" s] by (subst copy_args.simps) (simp only: byte local_arrays if_True simp_thms not_False_eq_True)
  then show ?case using Suc.hyps(1) [of "Suc j"] Suc.hyps(2) j by simp
qed

text \<open>The 200 bytes below \<open>esp\<close>, where \<open>execute\<close> and what it calls have their arrays.\<close>

abbreviation frame :: "'a machine_scheme \<Rightarrow> addr" where
  "frame s \<equiv> esp s - 200"

lemma frame_parts:
  "exe_name s = frame s + word_of_nat 168" "args_buf s = frame s + word_of_nat 68" "magics s = frame s + word_of_nat 64"
  by (simp_all add: exe_name_def args_buf_def magics_def)

definition parsed :: "u8 list \<Rightarrow> 'a machine_scheme \<Rightarrow> 'a machine_scheme" where
  "parsed cmd s = write_list (args_buf s) (cmd_args cmd @ [0]) (write_list (exe_name s) (cmd_name cmd @ [0]) s)"

definition command_ok :: "'a machine_scheme \<Rightarrow> addr \<Rightarrow> u8 list \<Rightarrow> bool" where
  "command_ok s command cmd \<longleftrightarrow> command_at s command cmd \<and> length cmd \<le> 128 \<and> length (cmd_name cmd) < 32
     \<and> length (cmd_args cmd) < 100 \<and> apart s command (Suc (length cmd)) (frame s) 200"

lemma parse_command_eq:
  assumes "command_ok s command cmd"
  shows "parse_command command s = Some (None, parsed cmd s)"
proof -
  have at: "command_at s command cmd" and len: "length cmd \<le> 128" "length (cmd_name cmd) < 32" "length (cmd_args cmd) < 100"
    and frame: "apart s command (Suc (length cmd)) (frame s) 200"
    using assms by (simp_all add: command_ok_def)
  have ap: "apart s command (Suc (length cmd)) (exe_name s) 32" "apart s command (Suc (length cmd)) (args_buf s) 100"
    unfolding frame_parts by (rule apart_part [OF frame]; simp)+
  let ?b = "cmd_start cmd" and ?n = "length (cmd_name cmd)"
  define s1 where "s1 = write_list (exe_name s) (cmd_name cmd @ [0]) s"
  have copied: "copy_name command (word_of_nat ?b) (word_of_nat ?n) (word_of_nat ?b) s =
      Some (Inr (word_of_nat (?b + ?n)), write_list (exe_name s) (cmd_name cmd) s)"
    using copy_name_eq [OF at ap(1) len(1), of 0] len(2) by simp
  have idx: "word_of_nat (?b + ?n) - word_of_nat ?b = (word_of_nat ?n :: u32)" by simp
  have "unat (word_of_nat ?n :: u32) = ?n" by (rule unat_of_nat_u32) (use len(2) in simp)
  then have short: "\<not> F_TYPE_OFFSET \<le> word_of_nat ?n"
    using len(2) by (simp only: F_TYPE_OFFSET_def word_le_nat_alt) simp
  have at1: "command_at s1 command cmd" unfolding s1_def
    by (rule command_at_write [OF at ap(1)]) (use len(2) in simp)
  have "copy_args (command + word_of_nat (?b + ?n)) (word_of_nat 0) (write_list (args_buf s1) (take 0 (cmd_args cmd)) s1) =
      Some (write_list (args_buf s1) (cmd_args cmd @ [0]) s1)"
    by (rule copy_args_eq [OF at1]) (use ap(2) len(3) in \<open>simp_all add: s1_def\<close>)
  then have args: "copy_args (command + word_of_nat (?b + ?n)) 0 s1 = Some (parsed cmd s)"
    by (simp add: parsed_def s1_def)
  have addr: "word_of_nat ?n + word_of_nat ?b = (word_of_nat (?b + ?n) :: u32)" by simp
  have "st (exe_name s + word_of_nat ?n) 0 (write_list (exe_name s) (cmd_name cmd) s) = s1"
    by (simp add: s1_def write_list_snoc)
  then show ?thesis
    unfolding parse_command_def
    by (simp only: skip_spaces_eq [OF at] word_length_eq [OF at] bind.bind_lunit copied prod.case sum.case Let_def idx short if_False local_arrays addr args)
qed

section \<open>The memory layout\<close>

text \<open>The image and the running stack frame lie in the kernel's page, the frame above the image.\<close>

definition kernel_layout :: "'a kernel_scheme \<Rightarrow> u32 option \<Rightarrow> u32 option \<Rightarrow> bool" where
  "kernel_layout s prog vid \<longleftrightarrow> mapped s prog vid \<and> image_ok s \<and> 0x400000 \<le> unat (fs_addr s)
     \<and> unat (fs_addr s) + fs_bytes s + 200 \<le> unat (esp s) \<and> unat (esp s) \<le> 0x800000"

lemma xl_kernel: "mapped s prog vid \<Longrightarrow> 0x400000 \<le> unat a \<Longrightarrow> unat a < 0x800000 \<Longrightarrow> xl s a = a"
  by (simp add: mapped_def space_unat)

lemma xl_program:
  assumes "mapped s (Some p) vid" "i < 0x3B8000"
  shows "xl s (PROGRAM_OFFSET + word_of_nat i) = p * FOUR_MB_SIZE + EIGHT_MB_SIZE + 0x48000 + word_of_nat i"
proof -
  have "unat (PROGRAM_OFFSET + word_of_nat i) = 0x8048000 + i"
    using unat_add_small [of PROGRAM_OFFSET i] assms(2) by (simp add: PROGRAM_OFFSET_def)
  then show ?thesis
    using assms by (simp add: mapped_def space_unat user_space_unat) (simp add: PROGRAM_OFFSET_def algebra_simps)
qed

lemma unat_program_frame:
  assumes "p < (6 :: u32)" "i < 0x3B8000"
  shows "unat (p * FOUR_MB_SIZE + EIGHT_MB_SIZE + 0x48000 + word_of_nat i) = 0x400000 * unat p + 0x848000 + i"
proof -
  have "unat p < 6" using assms(1) by (simp add: word_less_nat_alt)
  then have le: "0x400000 * unat p + 0x848000 + i < 2 ^ 32" using assms(2) by simp
  have "p * FOUR_MB_SIZE + EIGHT_MB_SIZE + 0x48000 + word_of_nat i = word_of_nat (0x400000 * unat p + 0x848000 + i)"
    by (simp add: FOUR_MB_SIZE_def EIGHT_MB_SIZE_def mult.commute)
  then show ?thesis using le by (simp only:) (rule unat_of_nat_u32, simp)
qed

lemma unat_frame:
  assumes "kernel_layout s prog vid" "i < 200"
  shows "unat (frame s + word_of_nat i) = unat (esp s) - 200 + i"
proof -
  have "200 \<le> unat (esp s)" "unat (esp s) \<le> 0x800000" using assms(1) by (simp_all add: kernel_layout_def)
  then have "unat (frame s) = unat (esp s) - 200" using unat_sub_of_nat [of 200 "esp s"] by simp
  then show ?thesis
    using unat_add_small [of "frame s" i] \<open>unat (esp s) \<le> 0x800000\<close> assms(2) by simp
qed

lemma unat_image:
  assumes "kernel_layout s prog vid" "m < fs_bytes s"
  shows "unat (fs_addr s + word_of_nat m) = unat (fs_addr s) + m"
  by (rule unat_add_small) (use assms in \<open>simp add: kernel_layout_def\<close>)

lemma xl_layout:
  assumes "kernel_layout s prog vid"
  shows "i < 200 \<Longrightarrow> xl s (frame s + word_of_nat i) = frame s + word_of_nat i"
    "m < fs_bytes s \<Longrightarrow> xl s (fs_addr s + word_of_nat m) = fs_addr s + word_of_nat m"
proof -
  have m: "mapped s prog vid" using assms by (simp add: kernel_layout_def)
  show "xl s (frame s + word_of_nat i) = frame s + word_of_nat i" if "i < 200"
    by (rule xl_kernel [OF m]) (use unat_frame [OF assms that] that assms in \<open>auto simp: kernel_layout_def\<close>)
  show "xl s (fs_addr s + word_of_nat m) = fs_addr s + word_of_nat m" if "m < fs_bytes s"
    by (rule xl_kernel [OF m]) (use unat_image [OF assms that] that assms in \<open>auto simp: kernel_layout_def\<close>)
qed

lemma frame_buffer:
  assumes "kernel_layout s prog vid"
  shows "buffer_ok s (frame s) 200"
  unfolding buffer_ok_def
proof (intro conjI allI impI inj_onI)
  fix i j assume ij: "i \<in> {..<200}" "j \<in> {..<200}" "xl s (frame s + word_of_nat i) = xl s (frame s + word_of_nat j)"
  then have "unat (frame s + word_of_nat i) = unat (frame s + word_of_nat j)" using xl_layout(1) [OF assms] by simp
  then show "i = j" using unat_frame [OF assms] ij by simp
next
  fix i m :: nat assume i: "i < 200" and m: "m < fs_bytes s"
  have "unat (fs_addr s + word_of_nat m) < unat (frame s + word_of_nat i)"
    using unat_frame [OF assms i] unat_image [OF assms m] assms m by (auto simp: kernel_layout_def)
  then show "xl s (frame s + word_of_nat i) \<noteq> xl s (fs_addr s + word_of_nat m)"
    using xl_layout [OF assms] i m by (metis less_irrefl)
qed

lemma array_buffers:
  assumes "kernel_layout s prog vid"
  shows "buffer_ok s (exe_name s) 32" "buffer_ok s (args_buf s) 100" "buffer_ok s (magics s) 4"
  unfolding frame_parts
  using buffer_shift [OF buffer_mono [OF frame_buffer [OF assms], of "168 + 32"]]
    buffer_shift [OF buffer_mono [OF frame_buffer [OF assms], of "68 + 100"]]
    buffer_shift [OF buffer_mono [OF frame_buffer [OF assms], of "64 + 4"]] by simp_all

text \<open>A write inside the frame keeps the layout.\<close>

lemma layout_write:
  assumes "kernel_layout s prog vid" "buffer_ok s a (length xs)"
  shows "kernel_layout (write_list a xs s) prog vid" "same_image s (write_list a xs s)"
proof -
  show same: "same_image s (write_list a xs s)" by (rule write_same_image [OF assms(2)])
  have "mapped (write_list a xs s) = mapped s" by (simp add: mapped_def fun_eq_iff)
  then show "kernel_layout (write_list a xs s) prog vid"
    using assms(1) image_same_image [OF same] same_imageD [OF same] by (simp add: kernel_layout_def)
qed

text \<open>Two arrays of the frame do not overlap.\<close>

lemma frame_arrays:
  assumes "kernel_layout s prog vid" "a + n \<le> b" "b + m \<le> 200"
  shows "apart s (frame s + word_of_nat a) n (frame s + word_of_nat b) m"
    "apart s (frame s + word_of_nat b) m (frame s + word_of_nat a) n"
proof -
  have "xl s (frame s + word_of_nat a + word_of_nat i) \<noteq> xl s (frame s + word_of_nat b + word_of_nat j)"
    if "i < n" "j < m" for i j
  proof -
    have lt: "a + i < 200" "b + j < 200" using that assms(2,3) by simp_all
    then have "unat (frame s + word_of_nat (a + i)) \<noteq> unat (frame s + word_of_nat (b + j))"
      using unat_frame [OF assms(1) lt(1)] unat_frame [OF assms(1) lt(2)] that assms(2) by (simp del: of_nat_add)
    then have "xl s (frame s + word_of_nat (a + i)) \<noteq> xl s (frame s + word_of_nat (b + j))"
      using xl_layout(1) [OF assms(1)] lt by metis
    then show ?thesis by (simp add: add.assoc)
  qed
  then show "apart s (frame s + word_of_nat a) n (frame s + word_of_nat b) m"
    "apart s (frame s + word_of_nat b) m (frame s + word_of_nat a) n" unfolding apart_def by metis+
qed

section \<open>Loading a program\<close>

lemma read_write_apart:
  assumes "apart s p n q m" "k \<le> n" "length xs \<le> m"
  shows "read_bytes (write_list q xs s) p k = read_bytes s p k"
  by (rule read_bytes_eqI, rule ld_apart [OF assms(1)]) (use assms in simp_all)

lemma holds_write:
  assumes "buffer_ok s a n" "length xs < n"
  shows "holds (write_list a (xs @ [0]) s) a xs"
proof -
  have "inj_on (\<lambda>i. xl s (a + word_of_nat i)) {..<length (xs @ [0])}"
    by (rule inj_on_subset [of _ "{..<n}"]) (use assms in \<open>auto simp: buffer_ok_def\<close>)
  from read_write_list [OF this]
  have all: "read_bytes (write_list a (xs @ [0]) s) a (length xs + 1) = xs @ [0]" by simp
  then have "read_bytes (write_list a (xs @ [0]) s) a (length xs) = xs"
    unfolding read_bytes_append by (metis append_eq_append_conv length_read_bytes)
  moreover have "ld (write_list a (xs @ [0]) s) (a + word_of_nat (length xs)) = 0"
    using arg_cong [OF all, of "\<lambda>l. l ! length xs"] by simp
  ultimately show ?thesis by (simp add: holds_def)
qed

lemma holds_keep:
  assumes "holds s a xs" "apart s a (Suc (length xs)) q m" "length ys \<le> m"
  shows "holds (write_list q ys s) a xs"
  using assms(1) read_write_apart [OF assms(2), of "length xs" ys] ld_apart [OF assms(2), of "length xs" ys] assms(3)
  by (simp add: holds_def)

lemma parsed_facts:
  assumes "kernel_layout s prog vid" "command_ok s command cmd"
  shows "kernel_layout (parsed cmd s) prog vid" "same_image s (parsed cmd s)"
    "holds (parsed cmd s) (exe_name s) (cmd_name cmd)" "holds (parsed cmd s) (args_buf s) (cmd_args cmd)"
proof -
  have len: "length (cmd_name cmd) < 32" "length (cmd_args cmd) < 100" using assms(2) by (simp_all add: command_ok_def)
  define s1 where "s1 = write_list (exe_name s) (cmd_name cmd @ [0]) s"
  have p: "parsed cmd s = write_list (args_buf s1) (cmd_args cmd @ [0]) s1" by (simp add: parsed_def s1_def)
  have b1: "buffer_ok s (exe_name s) (length (cmd_name cmd @ [0]))"
    by (rule buffer_mono [OF array_buffers(1) [OF assms(1)]]) (use len in simp)
  have l1: "kernel_layout s1 prog vid" "same_image s s1" unfolding s1_def by (rule layout_write [OF assms(1) b1])+
  have b2: "buffer_ok s1 (args_buf s1) (length (cmd_args cmd @ [0]))"
    by (rule buffer_mono [OF array_buffers(2) [OF l1(1)]]) (use len in simp)
  show "kernel_layout (parsed cmd s) prog vid" "same_image s (parsed cmd s)"
    unfolding p using layout_write [OF l1(1) b2] same_image_trans [OF l1(2)] by blast+
  have "holds s1 (exe_name s) (cmd_name cmd)" unfolding s1_def
    by (rule holds_write [OF array_buffers(1) [OF assms(1)]]) (use len in simp)
  moreover have "apart s1 (frame s1 + word_of_nat 168) 32 (frame s1 + word_of_nat 68) 100"
    by (rule frame_arrays(2) [OF l1(1)]) simp_all
  then have "apart s1 (exe_name s) (Suc (length (cmd_name cmd))) (args_buf s1) 100"
    using apart_part [of s1 "exe_name s" 32 "args_buf s1" 100 "Suc (length (cmd_name cmd))" 0] len
    by (simp add: frame_parts s1_def)
  ultimately show "holds (parsed cmd s) (exe_name s) (cmd_name cmd)"
    unfolding p by (rule holds_keep) (use len in simp)
  show "holds (parsed cmd s) (args_buf s) (cmd_args cmd)"
    using holds_write [OF array_buffers(2) [OF l1(1)], of "cmd_args cmd"] len unfolding p by (simp add: s1_def)
qed

text \<open>A file that \<open>execute\<close> accepts as a program.\<close>

definition program_ok :: "'a fs_scheme \<Rightarrow> nat \<Rightarrow> bool" where
  "program_ok s i \<longleftrightarrow> file_ok s i \<and> 28 \<le> file_size s i \<and> file_size s i \<le> 0x3B8000
     \<and> take 4 (file_content s i) = [0x7F, 0x45, 0x4C, 0x46]"

fun le_word :: "u8 list \<Rightarrow> u32" where
  "le_word [a, b, c, d] = word_of_nat (unat a + 256 * unat b + 65536 * unat c + 16777216 * unat d)"
| "le_word _ = 0"

lemma ld32_le_word: "ld32 s a = le_word (read_bytes s a 4)"
proof -
  have four: "(4 :: nat) = Suc (Suc (Suc (Suc 0)))" by simp
  have "read_bytes s a 4 = [ld s a, ld s (a + 1), ld s (a + 2), ld s (a + 3)]"
    unfolding four by (simp add: read_bytes_def add.assoc)
  then show ?thesis by (simp add: ld32_def)
qed

lemma program_same_image: "same_image s t \<Longrightarrow> program_ok s i \<Longrightarrow> program_ok t i \<and> file_content t i = file_content s i"
  using file_same_image [of s t i] content_same_image [of s t i] by (simp add: program_ok_def)

text \<open>Reading four bytes of the file to \<open>magics\<close>.\<close>

definition magic_read :: "u8 list \<Rightarrow> 'a machine_scheme \<Rightarrow> 'a machine_scheme" where
  "magic_read xs s = write_list (magics s) xs s"

lemma read_magic:
  assumes "kernel_layout s prog vid" "file_ok s (unat i)" "unat ofs + 4 \<le> file_size s (unat i)"
  defines "xs \<equiv> take 4 (drop (unat ofs) (file_content s (unat i)))"
  shows "read_data i ofs (magics s) 4 s = (4, magic_read xs s)" "read_bytes (magic_read xs s) (magics s) 4 = xs"
    "kernel_layout (magic_read xs s) prog vid" "same_image s (magic_read xs s)"
proof -
  have len: "length xs = 4" using assms(3) by (simp add: xs_def)
  have buf: "buffer_ok s (magics s) (length xs)" unfolding len by (rule array_buffers(3) [OF assms(1)])
  have n: "min (file_size s (unat i) - unat ofs) (unat (4 :: u32)) = 4" using assms(3) by simp
  show "read_data i ofs (magics s) 4 s = (4, magic_read xs s)"
    using read_data_eq [of s i "magics s" ofs 4] assms(1,2) buf len unfolding n
    by (simp add: kernel_layout_def magic_read_def xs_def)
  show "read_bytes (magic_read xs s) (magics s) 4 = xs"
    using read_write_list [of s "magics s" xs] buf len by (simp add: magic_read_def buffer_ok_def)
  show "kernel_layout (magic_read xs s) prog vid" "same_image s (magic_read xs s)"
    unfolding magic_read_def by (rule layout_write [OF assms(1) buf])+
qed

text \<open>Switching the program page: the kernel's own memory stays where it is.\<close>

lemma layout_process [simp]:
  "kernel_layout (s\<lparr>process := ps\<rparr>) = kernel_layout s" "same_image s (s\<lparr>process := ps\<rparr>)"
  "ld (s\<lparr>process := ps\<rparr>) = ld s" "apart (s\<lparr>process := ps\<rparr>) = apart s"
  by (simp_all add: kernel_layout_def mapped_def tables_def image_ok_def same_image_def fs_bytes_def data_pos_def
      img_def ld_def apart_def fun_eq_iff)

lemma ld_map_program:
  assumes "mapped s prog vid" "p < 6" "0x400000 \<le> unat a" "unat a < 0x800000"
  shows "ld (map_program p s) a = ld s a"
  using xl_kernel [OF assms(1,3,4)] xl_kernel [OF map_program_mapped [OF assms(1,2)] assms(3,4)] by (simp add: ld_def)

lemma layout_map_program:
  assumes "kernel_layout s prog vid" "p < 6"
  shows "kernel_layout (map_program p s) (Some p) vid" "same_image s (map_program p s)"
proof -
  have m: "mapped s prog vid" using assms(1) by (simp add: kernel_layout_def)
  have "img (map_program p s) k = img s k" if "k < fs_bytes s" for k
    using ld_map_program [OF m assms(2), of "fs_addr s + word_of_nat k"] unat_image [OF assms(1) that] that assms(1)
    by (simp add: img_def kernel_layout_def)
  then show same: "same_image s (map_program p s)" by (simp add: same_image_def)
  show "kernel_layout (map_program p s) (Some p) vid"
    using map_program_mapped [OF m assms(2)] image_same_image [OF same] same_imageD [OF same] assms(1)
    by (simp add: kernel_layout_def)
qed

lemma program_buffer:
  assumes "kernel_layout s (Some p) vid" "p < 6" "n \<le> 0x3B8000"
  shows "buffer_ok s PROGRAM_OFFSET n" "apart s (frame s) 200 PROGRAM_OFFSET n"
proof -
  have m: "mapped s (Some p) vid" using assms(1) by (simp add: kernel_layout_def)
  have pos: "unat (xl s (PROGRAM_OFFSET + word_of_nat i)) = 0x400000 * unat p + 0x848000 + i" if "i < n" for i
    using xl_program [OF m, of i] unat_program_frame [OF assms(2), of i] that assms(3) by simp
  have low: "unat (xl s (frame s + word_of_nat j)) < 0x800000" if "j < 200" for j
    unfolding xl_layout(1) [OF assms(1) that] unat_frame [OF assms(1) that]
    using that assms(1) unfolding kernel_layout_def by linarith
  have low': "unat (xl s (fs_addr s + word_of_nat k)) < 0x800000" if "k < fs_bytes s" for k
    unfolding xl_layout(2) [OF assms(1) that] unat_image [OF assms(1) that]
    using that assms(1) unfolding kernel_layout_def by linarith
  show "buffer_ok s PROGRAM_OFFSET n"
    unfolding buffer_ok_def
  proof (intro conjI allI impI inj_onI)
    fix i j assume ij: "i \<in> {..<n}" "j \<in> {..<n}" "xl s (PROGRAM_OFFSET + word_of_nat i) = xl s (PROGRAM_OFFSET + word_of_nat j)"
    have "0x400000 * unat p + 0x848000 + i = 0x400000 * unat p + 0x848000 + j"
      using arg_cong [OF ij(3), of unat] pos [of i] pos [of j] ij(1,2) by (metis lessThan_iff)
    then show "i = j" by (rule add_left_imp_eq)
  next
    fix i k assume "i < n" "k < fs_bytes s"
    then show "xl s (PROGRAM_OFFSET + word_of_nat i) \<noteq> xl s (fs_addr s + word_of_nat k)"
      using pos [of i] low' [of k] by auto
  qed
  show "apart s (frame s) 200 PROGRAM_OFFSET n"
    unfolding apart_def
  proof (intro allI impI)
    fix j i :: nat assume "j < 200" "i < n"
    then show "xl s (frame s + word_of_nat j) \<noteq> xl s (PROGRAM_OFFSET + word_of_nat i)"
      using pos [of i] low [of j] by auto
  qed
qed

definition load_program :: "u32 \<Rightarrow> nat \<Rightarrow> 'a kernel_scheme \<Rightarrow> 'a kernel_scheme" where
  "load_program p i s =
     write_list PROGRAM_OFFSET (file_content s i) (map_program p (s\<lparr>process := (process s)[unat p := IN_USE]\<rparr>))"

lemma load_program_eq:
  assumes "kernel_layout s prog vid" "program_ok s (unat i)" "p < 6"
  shows "read_data i 0 PROGRAM_OFFSET FOUR_MB_SIZE (map_program p (s\<lparr>process := (process s)[unat p := IN_USE]\<rparr>)) =
      (word_of_nat (file_size s (unat i)), load_program p (unat i) s)"
    "kernel_layout (load_program p (unat i) s) (Some p) vid" "same_image s (load_program p (unat i) s)"
    "read_bytes (load_program p (unat i) s) PROGRAM_OFFSET (file_size s (unat i)) = file_content s (unat i)"
    "j < 200 \<Longrightarrow> ld (load_program p (unat i) s) (frame s + word_of_nat j) = ld s (frame s + word_of_nat j)"
proof -
  let ?s = "s\<lparr>process := (process s)[unat p := IN_USE]\<rparr>" and ?n = "file_size s (unat i)"
  define t where "t = map_program p ?s"
  have lay: "kernel_layout ?s prog vid" using assms(1) by simp
  have t: "kernel_layout t (Some p) vid" "same_image ?s t" unfolding t_def by (rule layout_map_program [OF lay assms(3)])+
  have same: "same_image s t" by (rule same_image_trans [OF layout_process(2) t(2)])
  note prog = program_same_image [OF same assms(2)]
  have ok: "image_ok t" "file_ok t (unat i)" "file_size t (unat i) = ?n"
    using t(1) prog file_same_image(1) [OF same] assms(2) by (simp_all add: kernel_layout_def program_ok_def)
  have n: "?n \<le> 0x3B8000" using assms(2) by (simp add: program_ok_def)
  have buf: "buffer_ok t PROGRAM_OFFSET ?n" "apart t (frame t) 200 PROGRAM_OFFSET ?n"
    by (rule program_buffer [OF t(1) assms(3) n])+
  have lp: "load_program p (unat i) s = write_list PROGRAM_OFFSET (file_content s (unat i)) t"
    by (simp add: load_program_def t_def)
  have whole: "min (file_size t (unat i) - unat (0 :: u32)) (unat FOUR_MB_SIZE) = ?n"
    using n ok(3) by (simp add: FOUR_MB_SIZE_def)
  show "read_data i 0 PROGRAM_OFFSET FOUR_MB_SIZE (map_program p ?s) = (word_of_nat ?n, load_program p (unat i) s)"
    using read_data_eq [of t i PROGRAM_OFFSET 0 FOUR_MB_SIZE] ok prog buf(1) n unfolding whole
    by (simp add: lp t_def [symmetric] FOUR_MB_SIZE_def)
  show "kernel_layout (load_program p (unat i) s) (Some p) vid" "same_image s (load_program p (unat i) s)"
    unfolding lp using layout_write [OF t(1), of PROGRAM_OFFSET "file_content s (unat i)"] buf(1) n
      same_image_trans [OF same] by simp_all
  show "read_bytes (load_program p (unat i) s) PROGRAM_OFFSET ?n = file_content s (unat i)"
    unfolding lp using read_write_list [of t PROGRAM_OFFSET "file_content s (unat i)"] buf(1)
    by (simp add: buffer_ok_def)
  assume j: "j < 200"
  have m: "mapped ?s prog vid" by (rule conjunct1 [OF lay [unfolded kernel_layout_def]])
  have esp: "esp t = esp s" by (simp add: t_def)
  have "ld (load_program p (unat i) s) (frame s + word_of_nat j) = ld t (frame s + word_of_nat j)"
    unfolding lp using ld_apart [OF buf(2) j] by (simp add: esp)
  also have "\<dots> = ld ?s (frame s + word_of_nat j)" unfolding t_def
    by (rule ld_map_program [OF m assms(3)])
      (use unat_frame [OF assms(1) j] j assms(1) in \<open>auto simp: kernel_layout_def\<close>)
  finally show "ld (load_program p (unat i) s) (frame s + word_of_nat j) = ld s (frame s + word_of_nat j)" by simp
qed

section \<open>The control block of a new process\<close>

definition new_pcb :: "u32 \<Rightarrow> u32 \<Rightarrow> 'a kernel_scheme \<Rightarrow> pcb_t" where
  "new_pcb p q s =
     (let b = pcbs s (get_pcb_by_index p)
      in b\<lparr>files := std_fd Stdin_funcs # std_fd Stdout_funcs # map (\<lambda>f. f\<lparr>flags := NOT_IN_USE\<rparr>) (drop 2 (files b)),
           pid := p, parent_pid := q, parent_esp := esp s, parent_ebp := ebp s,
           argument := strncpy_arr (argument b) (read_bytes s (args_buf s) 100) 100,
           pending_signal := 0x3F, sighandler := Signal_default\<rparr>)"

lemma pcb_upd_compose: "pcb_upd a f (pcb_upd a g s) = pcb_upd a (\<lambda>b. f (g b)) s"
  by (simp add: pcb_upd_def)

lemma pcb_upd_cong: "f (pcbs s a) = g (pcbs s a) \<Longrightarrow> pcb_upd a f s = pcb_upd a g s"
  by (simp add: pcb_upd_def)

lemma close_spare_fds:
  assumes "length (files (pcbs s a)) = 8"
  shows "for_loop 2 8 (\<lambda>i s. fd_upd a i (\<lambda>f. f\<lparr>flags := NOT_IN_USE\<rparr>) s) (fd_upd a (Suc 0) (\<lambda>_. g) (fd_upd a 0 (\<lambda>_. h) s)) =
    pcb_upd a (\<lambda>b. b\<lparr>files := h # g # map (\<lambda>f. f\<lparr>flags := NOT_IN_USE\<rparr>) (drop 2 (files b))\<rparr>) s"
proof -
  have idx: "[2..<8] = [2, 3, 4, 5, 6, 7 :: nat]" by (simp add: upt_conv_Cons)
  obtain f0 f1 f2 f3 f4 f5 f6 f7 where fs: "files (pcbs s a) = [f0, f1, f2, f3, f4, f5, f6, f7]"
    using assms by (auto simp: numeral_eq_Suc length_Suc_conv)
  show ?thesis
    unfolding for_loop_def idx fd_upd_def
    by (simp add: pcb_upd_compose) (rule pcb_upd_cong, simp add: fs)
qed

lemma read_bytes_pcb [simp]:
  "read_bytes (pcb_upd a f s) = read_bytes s"
  "read_bytes (s\<lparr>process_terminal_cnt := c\<rparr>) = read_bytes s" "read_bytes (s\<lparr>process_terminal := pt\<rparr>) = read_bytes s"
  "args_buf (s\<lparr>process_terminal_cnt := c\<rparr>) = args_buf s" "args_buf (s\<lparr>process_terminal := pt\<rparr>) = args_buf s"
  by (simp_all add: read_bytes_def ld_def fun_eq_iff args_buf_def pcb_upd_def)

text \<open>The parent of process \<open>p\<close>: the top of the current terminal, or process 0.\<close>

definition parent_of :: "u32 \<Rightarrow> 'a kernel_scheme \<Rightarrow> u32" where
  "parent_of p s =
     (if p = 0 then 0
      else case top_process (current_terminal s) s of Some q \<Rightarrow> q | None \<Rightarrow> 0)"

lemma create_pcb_eq:
  fixes s :: "'a kernel_scheme"
  assumes "tables_sized s" "unat (process_terminal_cnt s ! unat (current_terminal s)) < 6" "p < 6"
    "p \<noteq> 0 \<Longrightarrow> parent_of p s < 6 \<and> parent_of p s \<noteq> p \<and> pid (pcbs s (get_pcb_by_index (parent_of p s))) = parent_of p s"
  defines "t \<equiv> unat (current_terminal s)"
  shows "create_pcb p s = Some (s\<lparr>
      process_terminal_cnt := (process_terminal_cnt s)[t := process_terminal_cnt s ! t + 1],
      process_terminal := (process_terminal s)[t := (process_terminal s ! t)[unat (process_terminal_cnt s ! t) := p]],
      pcbs := (pcbs s)(get_pcb_by_index p := new_pcb p (parent_of p s) s)\<rparr>)"
proof -
  let ?c = "process_terminal_cnt s ! t"
  have t: "t < 3" "length (process_terminal_cnt s) = 3" "t < length (process_terminal_cnt s)"
    using assms(1) by (simp_all add: tables_sized_def t_def)
  have c: "unat (?c + 1) = Suc (unat ?c)" using assms(2) unat_add_small [of ?c 1] by (simp add: t_def)
  have c': "0 < ?c + 1" "unat (?c + 1) \<le> 6" "?c + 1 - 1 = ?c" using c assms(2) by (simp_all add: word_gt_0_no t_def word_less_nat_alt)
  have f8: "length (files (pcbs s (get_pcb_by_index p))) = 8" using assms(1,3) by (simp add: tables_sized_def)
  have ne: "p \<noteq> 0 \<Longrightarrow> get_pcb_by_index (parent_of p s) \<noteq> get_pcb_by_index p" using pcb_inj [of "parent_of p s" p] assms(3,4) by auto
  have top: "p \<noteq> 0 \<Longrightarrow> ?c \<noteq> 0 \<Longrightarrow> top_process (current_terminal s) s = Some (parent_of p s)"
    using assms(1) t(1) top_process_last [OF assms(1), of "current_terminal s"] procs_empty [OF assms(1) t(1)]
    by (simp add: parent_of_def t_def)
  have top0: "p \<noteq> 0 \<Longrightarrow> ?c = 0 \<Longrightarrow> parent_of p s = 0"
    by (simp add: parent_of_def top_process_def t_def Let_def)
  let ?a = "get_pcb_by_index p" and ?q = "parent_of p s"
  let ?S = "s\<lparr>process_terminal_cnt := (process_terminal_cnt s)[t := ?c + 1],
         process_terminal := (process_terminal s)[t := (process_terminal s ! t)[unat ?c := p]]\<rparr>"
  have parent: "(if p = 0 then Some None
        else if ?c \<noteq> 0 then map_option (\<lambda>q. Some (get_pcb_by_index q)) (top_process (current_terminal s) s)
        else Some (Some (get_pcb_by_index 0))) = Some (if p = 0 then None else Some (get_pcb_by_index ?q))"
    using top top0 by auto
  have pp: "(case if p = 0 then None else Some (get_pcb_by_index ?q) of None \<Rightarrow> p | Some b \<Rightarrow> pid (pcbs (pcb_upd ?a (\<lambda>b. b\<lparr>pid := p\<rparr>) ?S) b)) = ?q"
    using assms(4) ne by (auto simp: parent_of_def)
  have guard: "(if t < 3 \<and> 0 < process_terminal_cnt (pcb_upd ?a (\<lambda>b. b\<lparr>pid := p\<rparr>) (s\<lparr>process_terminal_cnt := (process_terminal_cnt s)[t := ?c + 1]\<rparr>)) ! t
        \<and> unat (process_terminal_cnt (pcb_upd ?a (\<lambda>b. b\<lparr>pid := p\<rparr>) (s\<lparr>process_terminal_cnt := (process_terminal_cnt s)[t := ?c + 1]\<rparr>)) ! t) \<le> 6
       then Some ((pcb_upd ?a (\<lambda>b. b\<lparr>pid := p\<rparr>) (s\<lparr>process_terminal_cnt := (process_terminal_cnt s)[t := ?c + 1]\<rparr>))
         \<lparr>process_terminal := (process_terminal (pcb_upd ?a (\<lambda>b. b\<lparr>pid := p\<rparr>) (s\<lparr>process_terminal_cnt := (process_terminal_cnt s)[t := ?c + 1]\<rparr>)))
            [t := (process_terminal (pcb_upd ?a (\<lambda>b. b\<lparr>pid := p\<rparr>) (s\<lparr>process_terminal_cnt := (process_terminal_cnt s)[t := ?c + 1]\<rparr>)) ! t)
              [unat (process_terminal_cnt (pcb_upd ?a (\<lambda>b. b\<lparr>pid := p\<rparr>) (s\<lparr>process_terminal_cnt := (process_terminal_cnt s)[t := ?c + 1]\<rparr>)) ! t - 1) := p]]\<rparr>)
       else None) = Some (pcb_upd ?a (\<lambda>b. b\<lparr>pid := p\<rparr>) ?S)"
    using t c' by (simp add: pcb_upd_def)
  have body: "create_pcb p s = Some (pcb_upd ?a (\<lambda>b. new_pcb p ?q s) ?S)"
    unfolding create_pcb_def
    by (simp only: Let_def t_def [symmetric] parent bind.bind_lunit guard pp,
        simp add: close_spare_fds f8 pcb_upd_compose, rule pcb_upd_cong, simp add: new_pcb_def Let_def)
  then show ?thesis by (simp add: pcb_upd_def)
qed

section \<open>The process tables when a process starts\<close>

lemma get_pid_free:
  assumes "get_pid s \<noteq> - 1" "length (process s) = 6"
  obtains k where "find (\<lambda>p. process s ! p = NOT_IN_USE) [0..<6] = Some k" "get_pid s = word_of_nat k"
    "k < 6" "unat (get_pid s) = k" "get_pid s \<notin> used s" "get_pid s < 6" "process s ! k = NOT_IN_USE"
proof (cases "find (\<lambda>p. process s ! p = NOT_IN_USE) [0..<6]")
  case None
  then show ?thesis using assms(1) by (simp add: get_pid_def)
next
  case (Some k)
  then have k: "k < 6" "process s ! k = NOT_IN_USE" by (auto simp: find_Some_iff)
  have g: "get_pid s = word_of_nat k" using Some by (simp add: get_pid_def)
  have u: "unat (get_pid s) = k" unfolding g by (rule unat_of_nat_u32) (use k in simp)
  show ?thesis by (rule that [OF Some g k(1) u]) (use k u in \<open>simp_all add: used_def word_less_nat_alt\<close>)
qed

lemma card_used: "card (used s) \<le> 6" "p < 6 \<Longrightarrow> p \<notin> used s \<Longrightarrow> card (used s) < 6"
proof -
  have sub: "used s \<subseteq> {0, 1, 2, 3, 4, 5}" using pid_cases by (auto simp: used_def)
  have six: "card {0, 1, 2, 3, 4, 5 :: u32} = 6" by simp
  show "card (used s) \<le> 6" using card_mono [OF _ sub] six by simp
  assume "p < 6" "p \<notin> used s"
  then have "used s \<subset> {0, 1, 2, 3, 4, 5}" using sub pid_cases by blast
  then show "card (used s) < 6" using psubset_card_mono [of "{0, 1, 2, 3, 4, 5 :: u32}"] six by simp
qed

lemma three: "t < 3 \<Longrightarrow> t = 0 \<or> t = Suc 0 \<or> t = (2 :: nat)"
  by auto

lemma procs_sub: "t < 3 \<Longrightarrow> set (procs s t) \<subseteq> set (procs s 0 @ procs s 1 @ procs s 2)"
  by (drule three, elim disjE, hypsubst, auto)

lemma procs_short:
  assumes "procs_ok s" "p < 6" "p \<notin> used s" "t < 3"
  shows "unat (process_terminal_cnt s ! t) < 6"
proof -
  have sz: "tables_sized s" and d: "distinct (procs s 0 @ procs s 1 @ procs s 2)"
    and u: "set (procs s 0 @ procs s 1 @ procs s 2) = used s" using assms(1) by (simp_all add: procs_ok_def)
  have "length (procs s t) \<le> length (procs s 0 @ procs s 1 @ procs s 2)" using three [OF assms(4)] by auto
  also have "\<dots> = card (used s)" using distinct_card [OF d] u by simp
  also have "\<dots> < 6" by (rule card_used(2) [OF assms(2,3)])
  finally show ?thesis using length_procs [OF sz assms(4)] by simp
qed

definition push_process :: "u32 \<Rightarrow> pcb_t \<Rightarrow> 'a kernel_scheme \<Rightarrow> 'a kernel_scheme" where
  "push_process p b s =
     (let t = unat (current_terminal s)
      in s\<lparr>process := (process s)[unat p := IN_USE],
           process_terminal_cnt := (process_terminal_cnt s)[t := process_terminal_cnt s ! t + 1],
           process_terminal := (process_terminal s)[t := (process_terminal s ! t)[unat (process_terminal_cnt s ! t) := p]],
           pcbs := (pcbs s)(get_pcb_by_index p := b)\<rparr>)"

lemma push_process_ok:
  assumes "procs_ok s" "p < 6" "p \<notin> used s" "pid b = p" "parent_pid b < 6" "length (files b) = 8" "length (argument b) = 100"
  shows "procs (push_process p b s) = (procs s)(unat (current_terminal s) := procs s (unat (current_terminal s)) @ [p])"
    "used (push_process p b s) = insert p (used s)" "procs_ok (push_process p b s)"
proof -
  let ?t = "unat (current_terminal s)" and ?s = "push_process p b s"
  have sz: "tables_sized s" using assms(1) by (simp add: procs_ok_def)
  have t: "?t < 3" "?t < length (process_terminal_cnt s)" "?t < length (process_terminal s)"
    "length (process_terminal s ! ?t) = 6" using sz by (simp_all add: tables_sized_def)
  have c: "unat (process_terminal_cnt s ! ?t) < 6" by (rule procs_short [OF assms(1-3) t(1)])
  have c1: "unat (process_terminal_cnt s ! ?t + 1) = Suc (unat (process_terminal_cnt s ! ?t))"
    using unat_add_small [of "process_terminal_cnt s ! ?t" 1] c by simp
  have p6: "unat p < 6" using assms(2) by (simp add: word_less_nat_alt)
  show pr: "procs ?s = (procs s)(?t := procs s ?t @ [p])"
    using t c c1 by (auto simp: fun_eq_iff procs_def push_process_def Let_def take_Suc_conv_app_nth)
  have "process ?s ! unat q \<noteq> NOT_IN_USE \<longleftrightarrow> q = p \<or> process s ! unat q \<noteq> NOT_IN_USE" if "q < 6" for q
    using that p6 sz by (auto simp: push_process_def Let_def nth_list_update word_less_nat_alt tables_sized_def IN_USE_def
        NOT_IN_USE_def word_unat_eq_iff)
  then show us: "used ?s = insert p (used s)" using assms(2) by (auto simp: used_def)
  have sz': "tables_sized ?s"
    using sz c c1 assms(6,7) by (auto simp: tables_sized_def push_process_def Let_def nth_list_update)
  have d: "distinct (procs s 0 @ procs s 1 @ procs s 2)" and u: "used s = set (procs s 0 @ procs s 1 @ procs s 2)"
    using assms(1) by (simp_all add: procs_ok_def)
  have "distinct (procs ?s 0 @ procs ?s 1 @ procs ?s 2)" "set (procs ?s 0 @ procs ?s 1 @ procs ?s 2) = insert p (used s)"
    unfolding pr using three [OF t(1)] d assms(3) unfolding u by (elim disjE; simp; blast)+
  moreover have "pid (pcbs ?s (get_pcb_by_index q)) = q \<and> parent_pid (pcbs ?s (get_pcb_by_index q)) < 6"
    if "q \<in> insert p (used s)" for q
  proof (cases "q = p")
    case False
    then have "q \<in> used s" "get_pcb_by_index q \<noteq> get_pcb_by_index p"
      using that pcb_inj [of q p] assms(2) by (auto simp: used_def)
    then show ?thesis using assms(1) by (simp add: procs_ok_def push_process_def Let_def)
  qed (use assms(4,5) in \<open>simp add: push_process_def Let_def\<close>)
  ultimately show "procs_ok ?s" using sz' us by (simp add: procs_ok_def)
qed

section \<open>execute\<close>

lemma iflag_frame [simp]:
  "kernel_layout (s\<lparr>iflag := b\<rparr>) = kernel_layout s" "same_image s (s\<lparr>iflag := b\<rparr>)"
  "command_ok (s\<lparr>iflag := b\<rparr>) = command_ok s" "tables_sized (s\<lparr>iflag := b\<rparr>) = tables_sized s"
  "procs (s\<lparr>iflag := b\<rparr>) = procs s" "used (s\<lparr>iflag := b\<rparr>) = used s" "procs_ok (s\<lparr>iflag := b\<rparr>) = procs_ok s"
  "read_bytes (s\<lparr>iflag := b\<rparr>) = read_bytes s"
  by (simp_all add: kernel_layout_def mapped_def tables_def image_ok_def same_image_def fs_bytes_def data_pos_def
      img_def ld_def apart_def fun_eq_iff command_ok_def command_at_def read_bytes_def tables_sized_def procs_def
      used_def procs_ok_def)

text \<open>The state in which \<open>execute\<close> creates the control block.\<close>

definition staged :: "u8 list \<Rightarrow> nat \<Rightarrow> 'a kernel_scheme \<Rightarrow> 'a kernel_scheme" where
  "staged cmd i s =
     (let c = file_content s i
      in magic_read (take 4 (drop 24 c)) (magic_read (take 4 c) (parsed cmd (cli s))))"

lemma only_phys_staged: "only_phys (cli s) (staged cmd i s)"
  unfolding staged_def Let_def magic_read_def parsed_def
  by (intro only_phys_trans [OF only_phys_trans [OF only_phys_trans [OF only_phys_write_list only_phys_write_list]
          only_phys_write_list] only_phys_write_list])

lemma staged_facts:
  assumes "kernel_layout s prog vid" "command_ok s command cmd" "program_ok s (unat i)"
  defines "c \<equiv> file_content s (unat i)"
  shows "kernel_layout (staged cmd (unat i) s) prog vid" "same_image s (staged cmd (unat i) s)"
    "read_data i 0 (magics s) 4 (parsed cmd (cli s)) = (4, magic_read (take 4 c) (parsed cmd (cli s)))"
    "read_bytes (magic_read (take 4 c) (parsed cmd (cli s))) (magics s) 4 = [0x7F, 0x45, 0x4C, 0x46]"
    "read_data i 24 (magics s) 4 (magic_read (take 4 c) (parsed cmd (cli s))) = (4, staged cmd (unat i) s)"
    "ld32 (staged cmd (unat i) s) (magics s) = le_word (take 4 (drop 24 c))"
    "holds (staged cmd (unat i) s) (args_buf s) (cmd_args cmd)"
proof -
  let ?p = "parsed cmd (cli s)" and ?m = "magic_read (take 4 c) (parsed cmd (cli s))"
  have cli: "kernel_layout (cli s) prog vid" "command_ok (cli s) command cmd" "same_image s (cli s)" "magics (cli s) = magics s"
    "args_buf (cli s) = args_buf s" using assms(1,2) by (simp_all add: cli_def magics_def args_buf_def)
  note parsed = parsed_facts [OF cli(1,2)]
  have mag: "magics ?p = magics s" "magics ?m = magics s" "args_buf ?p = args_buf s" "args_buf ?m = args_buf s"
    by (simp_all add: parsed_def magic_read_def cli(4,5))
  have same1: "same_image s ?p" by (rule same_image_trans [OF cli(3) parsed(2)])
  note prog1 = program_same_image [OF same1 assms(3)]
  have sz: "28 \<le> file_size s (unat i)" "file_size ?p (unat i) = file_size s (unat i)"
    using assms(3) file_same_image(1) [OF same1] by (simp_all add: program_ok_def)
  note m1 = read_magic [OF parsed(1), of i 0, unfolded mag(1)]
  have r1: "read_data i 0 (magics s) 4 ?p = (4, ?m)" "read_bytes ?m (magics s) 4 = take 4 c"
      "kernel_layout ?m prog vid" "same_image ?p ?m"
    using m1 prog1 sz by (simp_all add: c_def program_ok_def)
  then show "read_data i 0 (magics s) 4 ?p = (4, ?m)" by simp
  show "read_bytes ?m (magics s) 4 = [0x7F, 0x45, 0x4C, 0x46]"
    using r1(2) assms(3) by (simp add: program_ok_def c_def)
  have same2: "same_image s ?m" by (rule same_image_trans [OF same1 r1(4)])
  note prog2 = program_same_image [OF same2 assms(3)]
  have sz2: "file_size ?m (unat i) = file_size s (unat i)"
    using assms(3) file_same_image(1) [OF same2] by (simp add: program_ok_def)
  have st: "staged cmd (unat i) s = magic_read (take 4 (drop 24 c)) ?m" by (simp add: staged_def c_def Let_def)
  note m2 = read_magic [OF r1(3), of i 24, unfolded mag(2)]
  have r2: "read_data i 24 (magics s) 4 ?m = (4, staged cmd (unat i) s)"
      "read_bytes (staged cmd (unat i) s) (magics s) 4 = take 4 (drop 24 c)"
      "kernel_layout (staged cmd (unat i) s) prog vid" "same_image ?m (staged cmd (unat i) s)"
    using m2 prog2 sz sz2 unfolding st by (simp_all add: c_def program_ok_def)
  then show "read_data i 24 (magics s) 4 ?m = (4, staged cmd (unat i) s)" "kernel_layout (staged cmd (unat i) s) prog vid"
    "ld32 (staged cmd (unat i) s) (magics s) = le_word (take 4 (drop 24 c))" by (simp_all add: ld32_le_word)
  show "same_image s (staged cmd (unat i) s)" by (rule same_image_trans [OF same2 r2(4)])
  have len: "length (cmd_args cmd) < 100" using assms(2) by (simp add: command_ok_def)
  have ap: "apart u (args_buf u) (Suc (length (cmd_args cmd))) (magics u) 4" if "kernel_layout u prog vid" for u :: "'a kernel_scheme"
    unfolding frame_parts by (rule frame_arrays(2) [OF that]) (use len in simp_all)
  have "holds ?m (args_buf s) (cmd_args cmd)"
    unfolding magic_read_def mag using ap [OF parsed(1)] mag holds_keep [of ?p "args_buf s" "cmd_args cmd" "magics s" 4 "take 4 c"]
      parsed(4) cli(5) by simp
  then show "holds (staged cmd (unat i) s) (args_buf s) (cmd_args cmd)"
    unfolding st magic_read_def [of _ ?m] mag
    using ap [OF r1(3)] mag holds_keep [of ?m "args_buf s" "cmd_args cmd" "magics s" 4 "take 4 (drop 24 c)"] by simp
qed

lemma procs_cong:
  assumes "process t = process s" "process_terminal t = process_terminal s"
    "process_terminal_cnt t = process_terminal_cnt s" "pcbs t = pcbs s"
    "current_terminal t = current_terminal s" "running_terminal t = running_terminal s"
  shows "procs t = procs s" "used t = used s" "tables_sized t = tables_sized s" "procs_ok t = procs_ok s"
    "top_process c t = top_process c s" "parent_of p t = parent_of p s" "get_pid t = get_pid s"
proof -
  show pr: "procs t = procs s" "used t = used s" "tables_sized t = tables_sized s" "get_pid t = get_pid s"
    using assms by (simp_all add: procs_def used_def tables_sized_def fun_eq_iff get_pid_def)
  then show "procs_ok t = procs_ok s" using assms by (simp add: procs_ok_def)
  show top: "top_process c t = top_process c s" for c using assms by (simp add: top_process_def Let_def)
  show "parent_of p t = parent_of p s" using assms top by (simp add: parent_of_def)
qed

lemma parent_of_ok:
  assumes "procs_ok s" "get_pid s \<noteq> - 1" "get_pid s \<noteq> 0"
  shows "parent_of (get_pid s) s < 6" "parent_of (get_pid s) s \<noteq> get_pid s"
    "pid (pcbs s (get_pcb_by_index (parent_of (get_pid s) s))) = parent_of (get_pid s) s"
proof -
  let ?t = "unat (current_terminal s)"
  have sz: "tables_sized s" and u: "set (procs s 0 @ procs s 1 @ procs s 2) = used s" using assms(1) by (simp_all add: procs_ok_def)
  obtain k where k: "find (\<lambda>p. process s ! p = NOT_IN_USE) [0..<6] = Some k" "unat (get_pid s) = k" "get_pid s \<notin> used s" "k < 6"
    by (rule get_pid_free [OF assms(2)]) (use sz in \<open>simp add: tables_sized_def\<close>)
  have "parent_of (get_pid s) s \<in> used s"
  proof (cases "procs s ?t = []")
    case True
    have "0 < k" using k(2) assms(3) unat_eq_zero [of "get_pid s"] by (cases k) simp_all
    then have "process s ! 0 \<noteq> NOT_IN_USE" using k(1,4) by (auto simp: find_Some_iff)
    then have "0 \<in> used s" by (simp add: used_def)
    then show ?thesis using True sz top_process_last [OF sz, of "current_terminal s"] by (simp add: parent_of_def tables_sized_def)
  next
    case False
    have "?t < 3" using sz by (simp add: tables_sized_def)
    have "set (procs s ?t) \<subseteq> used s" using procs_sub [OF \<open>?t < 3\<close>, of s] u by simp
    then have "last (procs s ?t) \<in> used s" using False last_in_set by blast
    then show ?thesis
      using False assms(3) top_process_last [OF sz \<open>?t < 3\<close>] by (simp add: parent_of_def)
  qed
  then show "parent_of (get_pid s) s < 6" "parent_of (get_pid s) s \<noteq> get_pid s"
    "pid (pcbs s (get_pcb_by_index (parent_of (get_pid s) s))) = parent_of (get_pid s) s"
    using assms(1) k(3) by (auto simp: procs_ok_def used_def)
qed

text \<open>The tables of a state after the loader ran are those before it, but for the new process's mark.\<close>

lemma staged_tables [simp]:
  "process (staged cmd i s) = process s" "process_terminal (staged cmd i s) = process_terminal s"
  "process_terminal_cnt (staged cmd i s) = process_terminal_cnt s" "pcbs (staged cmd i s) = pcbs s"
  "current_terminal (staged cmd i s) = current_terminal s" "running_terminal (staged cmd i s) = running_terminal s"
  "esp (staged cmd i s) = esp s" "ebp (staged cmd i s) = ebp s" "args_buf (staged cmd i s) = args_buf s"
  "magics (staged cmd i s) = magics s" "tss_esp0 (staged cmd i s) = tss_esp0 s"
  using only_phys_kernel [OF only_phys_staged, of cmd i s] by (simp_all add: cli_def args_buf_def magics_def)

lemma load_program_tables [simp]:
  "process (load_program p i s) = (process s)[unat p := IN_USE]" "process_terminal (load_program p i s) = process_terminal s"
  "process_terminal_cnt (load_program p i s) = process_terminal_cnt s" "pcbs (load_program p i s) = pcbs s"
  "current_terminal (load_program p i s) = current_terminal s" "running_terminal (load_program p i s) = running_terminal s"
  "esp (load_program p i s) = esp s" "ebp (load_program p i s) = ebp s" "args_buf (load_program p i s) = args_buf s"
  by (simp_all add: load_program_def args_buf_def)

definition started :: "u8 list \<Rightarrow> nat \<Rightarrow> u32 \<Rightarrow> 'a kernel_scheme \<Rightarrow> 'a kernel_scheme" where
  "started cmd i p s =
     (let u = load_program p i (staged cmd i s) in sti (set_tss p (push_process p (new_pcb p (parent_of p s) u) u)))"

lemma parsed_lookup:
  assumes "kernel_layout s prog vid" "command_ok s command cmd"
  shows "read_dentry_by_name (exe_name (parsed cmd (cli s))) (parsed cmd (cli s)) =
    Some (case lookup s (cmd_name cmd) of None \<Rightarrow> (- 1, None) | Some d \<Rightarrow> (0, Some d))"
proof -
  have cli: "kernel_layout (cli s) prog vid" "command_ok (cli s) command cmd" "same_image s (cli s)"
    using assms by (simp_all add: cli_def)
  note pf = parsed_facts [OF cli(1,2)]
  have same: "same_image s (parsed cmd (cli s))" by (rule same_image_trans [OF cli(3) pf(2)])
  have img: "image_ok s" "image_ok (parsed cmd (cli s))" using assms(1) pf(1) by (simp_all add: kernel_layout_def)
  have nz: "0 \<notin> set (cmd_name cmd)" using assms(2) arg_cong [OF cmd_split [of cmd], of set]
    by (auto simp: command_ok_def command_at_def)
  have len: "length (cmd_name cmd) < 32" using assms(2) by (simp add: command_ok_def)
  have exe: "exe_name (parsed cmd (cli s)) = exe_name (cli s)" by (simp add: parsed_def)
  show ?thesis
    using read_dentry_by_name_eq [OF img(2) holds_cstr [OF pf(3) nz]] pf(3) len
      lookup_same_image [OF same img(1)] unfolding exe by (auto simp: holds_def split: option.splits)
qed

lemma get_pid_none: "get_pid s = - 1 \<Longrightarrow> find (\<lambda>p. process s ! p = NOT_IN_USE) [0..<6] = None"
proof (rule ccontr)
  assume g: "get_pid s = - 1" and "find (\<lambda>p. process s ! p = NOT_IN_USE) [0..<6] \<noteq> None"
  then obtain k where k: "find (\<lambda>p. process s ! p = NOT_IN_USE) [0..<6] = Some k" by auto
  then have "k < 6" by (auto simp: find_Some_iff)
  moreover have "word_of_nat k = (- 1 :: u32)" using g k by (simp add: get_pid_def)
  moreover have "unat (- 1 :: u32) = 2 ^ 32 - 1" by (simp add: unsigned_minus_1_eq_mask mask_eq_exp_minus_1)
  ultimately show False using unat_of_nat_u32 [of k] by simp
qed

lemma execute_eq:
  assumes "kernel_layout s prog vid" "command_ok s command cmd" "lookup s (cmd_name cmd) = Some d"
    "program_ok s (unat (i_node d))" "procs_ok s" "get_pid s \<noteq> - 1"
  shows "execute command s = Some (Enter_user (le_word (take 4 (drop 24 (file_content s (unat (i_node d)))))),
    started cmd (unat (i_node d)) (get_pid s) s)"
proof -
  let ?i = "unat (i_node d)" and ?p = "get_pid s"
  define v u where "v = staged cmd ?i s" and "u = load_program ?p ?i v"
  have sz: "tables_sized s" using assms(5) by (simp add: procs_ok_def)
  obtain k where k: "find (\<lambda>p. process s ! p = NOT_IN_USE) [0..<6] = Some k" "?p = word_of_nat k" "unat ?p = k" "k < 6" "?p < 6" "?p \<notin> used s"
    by (rule get_pid_free [OF assms(6)]) (use sz in \<open>simp add: tables_sized_def\<close>)
  have cli: "kernel_layout (cli s) prog vid" "command_ok (cli s) command cmd" "same_image s (cli s)" "exe_name (cli s) = exe_name s"
    "magics (cli s) = magics s" using assms(1,2) by (simp_all add: cli_def exe_name_def magics_def)
  note sf = staged_facts [OF assms(1,2,4)]
  have name: "read_dentry_by_name (exe_name s) (parsed cmd (cli s)) = Some (0, Some d)"
    using parsed_lookup [OF assms(1,2)] assms(3) by (simp add: parsed_def cli(4))
  have vp: "program_ok v ?i" "file_content v ?i = file_content s ?i"
    using program_same_image [OF sf(2) assms(4)] by (simp_all add: v_def)
  note lp = load_program_eq [OF sf(1) [folded v_def] vp(1) k(5)]
  have cnt: "unat (process_terminal_cnt s ! unat (current_terminal s)) < 6"
    by (rule procs_short [OF assms(5) k(5,6)]) (use sz in \<open>simp add: tables_sized_def\<close>)
  have usz: "tables_sized u" using sz by (simp add: tables_sized_def u_def v_def)
  have par: "parent_of ?p u = parent_of ?p s" by (simp add: parent_of_def top_process_def u_def v_def Let_def)
  have "create_pcb ?p u = Some (u\<lparr>
      process_terminal_cnt := (process_terminal_cnt u)[unat (current_terminal u) := process_terminal_cnt u ! unat (current_terminal u) + 1],
      process_terminal := (process_terminal u)[unat (current_terminal u) :=
        (process_terminal u ! unat (current_terminal u))[unat (process_terminal_cnt u ! unat (current_terminal u)) := ?p]],
      pcbs := (pcbs u)(get_pcb_by_index ?p := new_pcb ?p (parent_of ?p u) u)\<rparr>)"
    by (rule create_pcb_eq [OF usz _ k(5)])
      (use cnt par parent_of_ok [OF assms(5,6)] in \<open>simp_all add: u_def v_def\<close>)
  moreover have "process u = (process u)[unat ?p := IN_USE]" by (simp add: u_def)
  ultimately have created: "create_pcb ?p u = Some (push_process ?p (new_pcb ?p (parent_of ?p s) u) u)"
    unfolding par push_process_def Let_def by simp
  have fin: "started cmd ?i ?p s = sti (set_tss ?p (push_process ?p (new_pcb ?p (parent_of ?p s) u) u))"
    by (simp add: started_def u_def v_def Let_def)
  have mg: "magics (parsed cmd (cli s)) = magics s" "exe_name (parsed cmd (cli s)) = exe_name s"
    "magics (magic_read xs (parsed cmd (cli s))) = magics s" "magics v = magics s" "process v = process s" for xs
    by (simp_all add: parsed_def magic_read_def v_def cli(4,5))
  show ?thesis
    unfolding execute_def fin
    using parse_command_eq [OF cli(2)] name sf(3-6) k(1) lp(1) created
    by (simp add: Let_def mg v_def [symmetric] u_def [symmetric] k(2) [symmetric] k(3))
qed

text \<open>What the last steps leave alone.\<close>

lemma started_frame:
  "kernel_layout (sti (set_tss p (push_process q b s))) = kernel_layout s"
  "read_bytes (sti (set_tss p (push_process q b s))) = read_bytes s"
  "procs (sti (set_tss p t)) = procs t" "used (sti (set_tss p t)) = used t" "procs_ok (sti (set_tss p t)) = procs_ok t"
  by (simp_all add: kernel_layout_def mapped_def tables_def image_ok_def same_image_def fs_bytes_def data_pos_def
      img_def ld_def fun_eq_iff read_bytes_def sti_def set_tss_def push_process_def Let_def
      procs_def used_def procs_ok_def tables_sized_def)

text \<open>The control block of a process that has just been started with argument \<open>args\<close> by a call in state \<open>s\<close>.\<close>

definition fresh_pcb :: "pcb_t \<Rightarrow> u32 \<Rightarrow> u32 \<Rightarrow> u8 list \<Rightarrow> 'a kernel_scheme \<Rightarrow> bool" where
  "fresh_pcb b p q args s \<longleftrightarrow> pid b = p \<and> parent_pid b = q \<and> parent_esp b = esp s \<and> parent_ebp b = ebp s
     \<and> cstring (argument b) = args \<and> sighandler b = Signal_default \<and> pending_signal b = 0x3F
     \<and> files b ! 0 = std_fd Stdin_funcs \<and> files b ! 1 = std_fd Stdout_funcs
     \<and> (\<forall>i. 2 \<le> i \<and> i < 8 \<longrightarrow> flags (files b ! i) = NOT_IN_USE)"

lemma holds_cstring:
  assumes "holds s a xs" "0 \<notin> set xs" "length xs < n"
  shows "cstring (read_bytes s a n) = xs"
proof -
  have one: "read_bytes s b (Suc 0) = [ld s b]" for b by (simp add: read_bytes_def)
  have "n = length xs + Suc (n - Suc (length xs))" using assms(3) by simp
  then have "read_bytes s a n = xs @ 0 # read_bytes s (a + word_of_nat (Suc (length xs))) (n - Suc (length xs))"
    using read_bytes_append [of s a "length xs" "Suc (n - Suc (length xs))"] assms(1)
      read_bytes_append [of s "a + word_of_nat (length xs)" 1 "n - Suc (length xs)"]
    by (simp add: holds_def add.assoc add.commute [of "1 :: u32"] one)
  then show ?thesis using assms(2) by (auto simp: intro!: cstring_append_0)
qed

lemma new_pcb_fresh:
  assumes "holds s (args_buf s) args" "0 \<notin> set args" "length args < 100"
    "length (files (pcbs s (get_pcb_by_index p))) = 8" "length (argument (pcbs s (get_pcb_by_index p))) = 100"
  shows "fresh_pcb (new_pcb p q s) p q args s" "length (files (new_pcb p q s)) = 8" "length (argument (new_pcb p q s)) = 100"
proof -
  have "cstring (read_bytes s (args_buf s) 100) = args" by (rule holds_cstring [OF assms(1-3)])
  then have "cstring (strncpy_arr xs (read_bytes s (args_buf s) 100) 100) = args" for xs
    using cstring_strncpy_arr [of "read_bytes s (args_buf s) 100" 100] assms(3) by simp
  moreover have "flags (files (new_pcb p q s) ! i) = NOT_IN_USE" if "2 \<le> i" "i < 8" for i
    using that assms(4) by (simp add: new_pcb_def Let_def nth_Cons' nth_append)
  ultimately show "fresh_pcb (new_pcb p q s) p q args s"
    by (simp add: fresh_pcb_def new_pcb_def Let_def)
  show "length (files (new_pcb p q s)) = 8" "length (argument (new_pcb p q s)) = 100"
    using assms(4,5) by (simp_all add: new_pcb_def Let_def)
qed

lemma started_facts:
  fixes i :: u32
  assumes "kernel_layout s prog vid" "command_ok s command cmd" "program_ok s (unat i)" "procs_ok s" "get_pid s \<noteq> - 1"
  defines "p \<equiv> get_pid s" and "t \<equiv> started cmd (unat i) (get_pid s) s"
  shows "kernel_layout t (Some p) vid" "read_bytes t PROGRAM_OFFSET (file_size s (unat i)) = file_content s (unat i)"
    "procs t = (procs s)(unat (current_terminal s) := procs s (unat (current_terminal s)) @ [p])"
    "used t = insert p (used s)" "procs_ok t" "p \<notin> used s" "p < 6"
    "fresh_pcb (pcbs t (get_pcb_by_index p)) p (parent_of p s) (cmd_args cmd) s"
    "q < 6 \<Longrightarrow> q \<noteq> p \<Longrightarrow> pcbs t (get_pcb_by_index q) = pcbs s (get_pcb_by_index q)"
proof -
  define v u where "v = staged cmd (unat i) s" and "u = load_program p (unat i) v"
  have sz: "tables_sized s" using assms(4) by (simp add: procs_ok_def)
  obtain k where k: "find (\<lambda>p. process s ! p = NOT_IN_USE) [0..<6] = Some k" "p = word_of_nat k" "unat p = k" "k < 6" "p < 6" "p \<notin> used s"
    unfolding p_def by (rule get_pid_free [OF assms(5)]) (use sz in \<open>simp add: tables_sized_def\<close>)
  then show "p \<notin> used s" "p < 6" by simp_all
  note sf = staged_facts [OF assms(1-3), folded v_def]
  have vp: "program_ok v (unat i)" "file_content v (unat i) = file_content s (unat i)"
    using program_same_image [OF sf(2) assms(3)] by simp_all
  have fsz: "file_size v (unat i) = file_size s (unat i)"
    using file_same_image(1) [OF sf(2)] assms(3) by (simp add: program_ok_def)
  note lp = load_program_eq [OF sf(1) vp(1) k(5), folded u_def]
  have t: "t = sti (set_tss p (push_process p (new_pcb p (parent_of p s) u) u))"
    by (simp add: t_def started_def p_def u_def v_def Let_def)
  show "kernel_layout t (Some p) vid" "read_bytes t PROGRAM_OFFSET (file_size s (unat i)) = file_content s (unat i)"
    unfolding t started_frame using lp(2,4) vp(2) fsz by simp_all
  have zero: "0 \<notin> set (cmd_args cmd)" "length (cmd_args cmd) < 100"
    using assms(2) arg_cong [OF cmd_split [of cmd], of set] by (auto simp: command_ok_def command_at_def)
  have esp: "esp v = esp s" "esp u = esp s" "ebp u = ebp s" "args_buf u = args_buf s" by (simp_all add: v_def u_def)
  have arr: "args_buf s = frame v + word_of_nat 68" using frame_parts(2) [of s] esp by simp
  have keep: "ld u (args_buf s + word_of_nat j) = ld v (args_buf s + word_of_nat j)" if "j < 100" for j
    unfolding arr using lp(5) [of "68 + j"] that by (simp add: algebra_simps)
  then have "read_bytes u (args_buf s) (length (cmd_args cmd)) = read_bytes v (args_buf s) (length (cmd_args cmd))"
    using zero(2) by (intro read_bytes_eqI) simp
  then have "holds u (args_buf u) (cmd_args cmd)"
    using sf(7) keep [OF zero(2)] by (simp add: holds_def esp)
  note fresh = new_pcb_fresh [OF this zero, of p "parent_of p s"]
  have pcb: "length (files (pcbs u (get_pcb_by_index p))) = 8" "length (argument (pcbs u (get_pcb_by_index p))) = 100"
    using sz k(5) by (simp_all add: tables_sized_def u_def v_def)
  have par: "parent_of p s < 6" using parent_of_ok(1) [OF assms(4,5)] by (cases "p = 0") (simp_all add: p_def parent_of_def)
  have same: "push_process p b u = push_process p b (u\<lparr>process := process s\<rparr>)" for b
    by (simp add: push_process_def u_def v_def Let_def)
  have uok: "procs_ok (u\<lparr>process := process s\<rparr>)" and up: "procs (u\<lparr>process := process s\<rparr>) = procs s" and uu: "used (u\<lparr>process := process s\<rparr>) = used s"
    using procs_cong [of "u\<lparr>process := process s\<rparr>" s] assms(4) by (simp_all add: u_def v_def)
  have new: "pid (new_pcb p (parent_of p s) u) = p" "parent_pid (new_pcb p (parent_of p s) u) < 6"
    using par by (simp_all add: new_pcb_def Let_def)
  have ct: "current_terminal u = current_terminal s" by (simp add: u_def v_def)
  note push = push_process_ok [OF uok k(5) _ new fresh(2,3) [OF pcb], unfolded up uu, OF k(6)]
  show "procs t = (procs s)(unat (current_terminal s) := procs s (unat (current_terminal s)) @ [p])"
    "used t = insert p (used s)" "procs_ok t"
    unfolding t started_frame same using push by (simp_all add: ct)
  have pc: "pcbs t = (pcbs s)(get_pcb_by_index p := new_pcb p (parent_of p s) u)"
    by (simp add: t sti_def set_tss_def push_process_def Let_def u_def v_def)
  show "fresh_pcb (pcbs t (get_pcb_by_index p)) p (parent_of p s) (cmd_args cmd) s"
    using fresh(1) [OF pcb] by (simp add: pc fresh_pcb_def esp)
  assume "q < 6" "q \<noteq> p"
  then show "pcbs t (get_pcb_by_index q) = pcbs s (get_pcb_by_index q)"
    using pcb_inj [of q p] k(5) by (auto simp: pc)
qed

end
