(* ===== verification/Execute_Props.thy ===== *)
theory Execute_Props
  imports Execute_Spec
begin

text \<open>
  The properties of \<open>execute\<close>, and a concrete kernel on which they are shown to apply.
\<close>

section \<open>A concrete kernel\<close>

text \<open>
  An image at 0x400000 with one directory entry \<open>sh\<close>, a program of 28 bytes whose entry point is
  0x8048018, and the command \<open>sh x\<close> at 0x7F0000.
\<close>

definition disk1 :: "u32 \<Rightarrow> u8" where
  "disk1 a =
     (if a = 0x400000 then 1
      else if a = 0x400004 then 3 else if a = 0x400008 then 2
      else if a = 0x400040 then 0x73 else if a = 0x400041 then 0x68 else if a = 0x400060 then 2
      else if a = 0x401000 then 28
      else if a = 0x404000 then 0x7F else if a = 0x404001 then 0x45 else if a = 0x404002 then 0x4C
      else if a = 0x404003 then 0x46
      else if a = 0x404018 then 0x18 else if a = 0x404019 then 0x80 else if a = 0x40401A then 0x04
      else if a = 0x40401B then 0x08
      else if a = 0x7F0000 then 0x73 else if a = 0x7F0001 then 0x68 else if a = 0x7F0002 then 0x20
      else if a = 0x7F0003 then 0x78
      else 0)"

definition pcb0 :: pcb_t where
  "pcb0 = \<lparr>files = replicate 8 \<lparr>ptrs = Null_ptrs, inode = 0, file_pos = 0, flags = 0\<rparr>, pid = 0, parent_pid = 0,
     parent_esp = 0, parent_ebp = 0, schedule_esp = 0, schedule_ebp = 0, argument = replicate 100 0,
     pending_signal = 0, sighandler = Handler_at 0\<rparr>"

definition kernel0 :: kernel where
  "kernel0 = rtc.extend (rtc0\<lparr>phys := disk1\<rparr>)
     (kernel.fields (\<lambda>_. pcb0) (replicate 6 0) (replicate 3 (replicate 6 0)) [0, 0, 0] [0, 0, 0] 0 0 0 0x7F0000)"

lemma kernel0_fields [simp]:
  "fs_addr kernel0 = 0x400000" "num_dentries kernel0 = 1" "num_inodes kernel0 = 3" "num_d_blocks kernel0 = 2"
  "dentry_addr kernel0 = 0x400040" "inode_addr kernel0 = 0x401000" "d_block_addr kernel0 = 0x404000"
  "current_terminal kernel0 = 0" "running_terminal kernel0 = 0" "esp kernel0 = 0x7FFFFC"
  "pcbs kernel0 = (\<lambda>_. pcb0)" "process kernel0 = replicate 6 0" "process_terminal kernel0 = replicate 3 (replicate 6 0)"
  "process_terminal_cnt kernel0 = [0, 0, 0]" "str_shell kernel0 = 0x7F0000"
  using only_paging_fields [OF only_paging_init_page, of boot0]
  by (simp_all add: kernel0_def rtc.defs kernel.defs rtc0_def paging.defs boot0_def fs.defs)

lemma kernel0_mapped: "mapped kernel0 None None"
  using boot0_mapped
  by (simp add: mapped_def tables_def kernel0_def rtc.defs kernel.defs rtc0_def paging.defs)

lemma kernel0_ld: "0x400000 \<le> unat a \<Longrightarrow> unat a < 0x800000 \<Longrightarrow> ld kernel0 a = disk1 a"
  using xl_kernel [OF kernel0_mapped, of a] by (simp add: ld_def) (simp add: kernel0_def rtc.defs)

lemma kernel0_file:
  "file_size kernel0 0 = 28" "take 4 (file_content kernel0 0) = [0x7F, 0x45, 0x4C, 0x46]"
  "take 4 (drop 24 (file_content kernel0 0)) = [0x18, 0x80, 4, 8]" "program_ok kernel0 0" "image_ok kernel0"
proof -
  show size: "file_size kernel0 0 = 28"
    by (simp add: file_size_def img32_def ld32_def kernel0_ld disk1_def)
  have block: "file_block kernel0 0 0 = 0" by (simp add: file_block_def img32_def ld32_def kernel0_ld disk1_def)
  have byte: "file_byte kernel0 0 k = disk1 (0x404000 + word_of_nat k)" if "k < 28" for k
  proof -
    have "unat (0x404000 + word_of_nat k :: u32) = 0x404000 + k"
      using unat_add_small [of "0x404000 :: u32" k] that by simp
    then show ?thesis
      using that block kernel0_ld [of "0x404000 + word_of_nat k"]
      by (simp add: file_byte_def img_def data_pos_def add.assoc [symmetric])
  qed
  have c: "file_content kernel0 0 = map (\<lambda>k. disk1 (0x404000 + word_of_nat k)) [0..<28]"
    unfolding file_content_def size by (rule map_cong) (use byte in auto)
  show magic: "take 4 (file_content kernel0 0) = [0x7F, 0x45, 0x4C, 0x46]"
    "take 4 (drop 24 (file_content kernel0 0)) = [0x18, 0x80, 4, 8]"
    unfolding c by (simp_all add: take_map drop_map upt_rec disk1_def)
  have "file_block kernel0 0 k < 2" if "4096 * k < 28" for k using that block by (cases k) simp_all
  then show "program_ok kernel0 0" using size magic by (simp add: program_ok_def file_ok_def)
  show "image_ok kernel0" by (simp add: image_ok_def fs_bytes_def data_pos_def img_def kernel0_ld disk1_def)
qed

lemma kernel0_layout: "kernel_layout kernel0 None None"
  using kernel0_mapped kernel0_file(5) by (simp add: kernel_layout_def fs_bytes_def)

lemma kernel0_apart:
  assumes "0x400000 \<le> unat a" "unat a + n \<le> 0x7FFF34"
  shows "apart kernel0 a n (frame kernel0) 200"
  unfolding apart_def
proof (intro allI impI)
  fix i j :: nat assume ij: "i < n" "j < 200"
  have i: "unat (a + word_of_nat i) = unat a + i" by (rule unat_add_small) (use ij assms in simp)
  have "xl kernel0 (a + word_of_nat i) = a + word_of_nat i"
    by (rule xl_kernel [OF kernel0_mapped]) (use i ij assms in simp_all)
  then have "unat (xl kernel0 (a + word_of_nat i)) < 0x7FFF34" using i ij assms by simp
  moreover have "unat (xl kernel0 (frame kernel0 + word_of_nat j)) = 0x7FFF34 + j"
    using xl_layout(1) [OF kernel0_layout ij(2)] unat_frame [OF kernel0_layout ij(2)] by simp
  ultimately show "xl kernel0 (a + word_of_nat i) \<noteq> xl kernel0 (frame kernel0 + word_of_nat j)" by auto
qed

lemma kernel0_command:
  "command_ok kernel0 0x7F0000 [0x73, 0x68, 0x20, 0x78]" "command_ok kernel0 0x7F0003 [0x78]"
  "cmd_name [0x73, 0x68, 0x20, 0x78] = [0x73, 0x68]" "cmd_args [0x73, 0x68, 0x20, 0x78] = [0x20, 0x78]"
proof -
  show "cmd_name [0x73, 0x68, 0x20, 0x78] = [0x73, 0x68]" "cmd_args [0x73, 0x68, 0x20, 0x78] = [0x20, 0x78]"
    by (simp_all add: cmd_name_def cmd_args_def)
  have "read_bytes kernel0 0x7F0000 4 = [0x73, 0x68, 0x20, 0x78]"
    by (simp add: read_bytes_def upt_rec kernel0_ld disk1_def)
  moreover have four: "length [0x73, 0x68, 0x20, 0x78 :: u8] = 4" by simp
  ultimately have at: "command_at kernel0 0x7F0000 [0x73, 0x68, 0x20, 0x78]"
    unfolding command_at_def four by (simp add: kernel0_ld disk1_def)
  then show "command_ok kernel0 0x7F0000 [0x73, 0x68, 0x20, 0x78]"
    using kernel0_apart [of "0x7F0000" "Suc (Suc (Suc (Suc (Suc 0))))"] by (simp add: command_ok_def cmd_name_def cmd_args_def)
  have "command_at kernel0 0x7F0003 [0x78]"
    by (simp add: command_at_def read_bytes_def kernel0_ld disk1_def)
  then show "command_ok kernel0 0x7F0003 [0x78]"
    using kernel0_apart [of "0x7F0003" "Suc (Suc 0)"] by (simp add: command_ok_def cmd_name_def cmd_args_def)
qed

lemma kernel0_lookup: "\<exists>d. lookup kernel0 [0x73, 0x68] = Some d \<and> i_node d = 0" "lookup kernel0 [0x78] = None"
proof -
  have "read_bytes kernel0 0x400040 32 = read_bytes kernel0 0x400040 3 @ read_bytes kernel0 0x400043 29"
    using read_bytes_append [of kernel0 "0x400040" 3 29] by simp
  moreover have "read_bytes kernel0 0x400040 3 = [0x73, 0x68, 0]"
    by (simp add: read_bytes_def kernel0_ld disk1_def upt_rec)
  ultimately have "entry_name kernel0 0 = [0x73, 0x68]" by (simp add: entry_name_def entry_addr_def)
  then show "\<exists>d. lookup kernel0 [0x73, 0x68] = Some d \<and> i_node d = 0" "lookup kernel0 [0x78] = None"
    by (simp_all add: lookup_def dentry_at_def entry_addr_def ld32_def kernel0_ld disk1_def)
qed

lemma kernel0_procs: "t < 3 \<Longrightarrow> procs kernel0 t = []" "procs_ok kernel0" "get_pid kernel0 = 0"
proof -
  have nth: "[0, 0, 0 :: u32] ! t = 0" if "t < 3" for t using three [OF that] by auto
  then show none: "procs kernel0 t = []" if "t < 3" for t using that by (simp add: procs_def)
  have u: "unat p < 6" if "p < (6 :: u32)" for p using that by (simp add: word_less_nat_alt)
  then have "used kernel0 = {}" by (auto simp: used_def NOT_IN_USE_def)
  moreover have "tables_sized kernel0" by (simp add: tables_sized_def nth pcb0_def)
  ultimately show "procs_ok kernel0" by (simp add: procs_ok_def none)
  show "get_pid kernel0 = 0" by (simp add: get_pid_def NOT_IN_USE_def upt_rec)
qed

section \<open>Starting a program\<close>

text \<open>The writes of a refused call stay inside its stack frame.\<close>

definition frame_only :: "'a machine_scheme \<Rightarrow> 'a machine_scheme \<Rightarrow> bool" where
  "frame_only s t \<longleftrightarrow> only_phys s t
     \<and> (\<forall>p. (\<forall>i < 200. xl s (frame s + word_of_nat i) \<noteq> p) \<longrightarrow> phys t p = phys s p)"

lemma frame_only_write:
  assumes "frame_only s t" "a = frame s + word_of_nat k" "k + length xs \<le> 200"
  shows "frame_only s (write_list a xs t)"
proof -
  have ph: "only_phys s t" using assms(1) by (simp add: frame_only_def)
  have xl: "xl t = xl s" by (subst only_physD [OF ph]) simp
  have "phys (write_list a xs t) p = phys s p" if out: "\<forall>i < 200. xl s (frame s + word_of_nat i) \<noteq> p" for p
  proof -
    have "phys (write_list a xs t) p = phys t p"
    proof (rule phys_write_list_outside)
      fix i assume "i < length xs"
      then show "xl t (a + word_of_nat i) \<noteq> p"
        using out [rule_format, of "k + i"] assms(3) xl unfolding assms(2) by (simp add: algebra_simps)
    qed
    then show ?thesis using assms(1) out by (simp add: frame_only_def)
  qed
  then show ?thesis using only_phys_trans [OF ph only_phys_write_list] by (simp add: frame_only_def)
qed

lemma frame_only_steps:
  assumes "command_ok s command cmd"
  shows "frame_only s (parsed cmd s)"
    "frame_only s t \<Longrightarrow> length xs = 4 \<Longrightarrow> frame_only s (magic_read xs t)"
proof -
  have len: "length (cmd_name cmd) < 32" "length (cmd_args cmd) < 100" using assms by (simp_all add: command_ok_def)
  have "frame_only s s" by (simp add: frame_only_def)
  then show "frame_only s (parsed cmd s)"
    unfolding parsed_def using len
    by (intro frame_only_write [OF _ frame_parts(2)] frame_only_write [OF _ frame_parts(1)]) simp_all
  assume t: "frame_only s t" "length xs = 4"
  then have "magics t = magics s" by (subst only_physD [of s t]) (simp_all add: frame_only_def magics_def)
  then show "frame_only s (magic_read xs t)"
    unfolding magic_read_def using t(2) frame_parts(3) [of s]
    by (intro frame_only_write [OF t(1), where k = 64]) simp_all
qed

text \<open>C5. \<open>execute\<close> on a command whose first word names a program, with a process number free: control enters
  user code at the entry point stored in the file; the program page of the new process holds the file's
  content and the rest of the address space stays as it was; the process is pushed on the current
  terminal's stack and gets the lowest free number; its control block has the rest of the command as
  argument, the standard descriptors open and all others free, and remembers the parent and the stack of the
  call; the other control blocks are untouched; the process tables stay consistent; and the next system
  call of the process runs on its own kernel stack, with interrupts on.\<close>

theorem execute_starts:
  assumes "kernel_layout s prog vid" "command_ok s command cmd" "lookup s (cmd_name cmd) = Some d"
    "program_ok s (unat (i_node d))" "procs_ok s" "get_pid s \<noteq> - 1"
  shows "\<exists>t. execute command s =
        Some (Enter_user (le_word (take 4 (drop 24 (file_content s (unat (i_node d)))))), t)
    \<and> kernel_layout t (Some (get_pid s)) vid
    \<and> read_bytes t PROGRAM_OFFSET (file_size s (unat (i_node d))) = file_content s (unat (i_node d))
    \<and> procs t = (procs s)(unat (current_terminal s) := procs s (unat (current_terminal s)) @ [get_pid s])
    \<and> get_pid s \<notin> used s \<and> used t = insert (get_pid s) (used s) \<and> procs_ok t
    \<and> fresh_pcb (pcbs t (get_pcb_by_index (get_pid s))) (get_pid s) (parent_of (get_pid s) s) (cmd_args cmd) s
    \<and> (\<forall>q. q < 6 \<and> q \<noteq> get_pid s \<longrightarrow> pcbs t (get_pcb_by_index q) = pcbs s (get_pcb_by_index q))
    \<and> tss_esp0 t = get_pcb_by_index (get_pid s) + EIGHT_KB_SIZE - ESP_OFFSET \<and> iflag t"
proof (intro exI conjI)
  let ?t = "started cmd (unat (i_node d)) (get_pid s) s"
  show "execute command s = Some (Enter_user (le_word (take 4 (drop 24 (file_content s (unat (i_node d)))))), ?t)"
    by (rule execute_eq [OF assms])
  note facts = started_facts [OF assms(1,2,4-6)]
  show "tss_esp0 ?t = get_pcb_by_index (get_pid s) + EIGHT_KB_SIZE - ESP_OFFSET" "iflag ?t"
    by (simp_all add: started_def Let_def sti_def set_tss_def get_pcb_by_index_def algebra_simps)
qed (use started_facts [OF assms(1,2,4-6)] in auto)

theorem execute_starts_witness:
  "\<exists>t. execute 0x7F0000 kernel0 = Some (Enter_user 0x8048018, t) \<and> procs t 0 = [0]
     \<and> cstring (argument (pcbs t 0x7FE000)) = [0x20, 0x78] \<and> read_bytes t PROGRAM_OFFSET 28 = file_content kernel0 0"
proof -
  obtain d where d: "lookup kernel0 [0x73, 0x68] = Some d" "i_node d = 0" using kernel0_lookup by auto
  have name: "lookup kernel0 (cmd_name [0x73, 0x68, 0x20, 0x78]) = Some d" using d(1) kernel0_command(3) by simp
  have entry: "le_word [0x18, 0x80, 4, 8] = 0x8048018" by simp
  have pcb: "get_pcb_by_index 0 = 0x7FE000" by (simp add: get_pcb_by_index_def EIGHT_MB_SIZE_def EIGHT_KB_SIZE_def)
  from execute_starts [OF kernel0_layout kernel0_command(1) name] show ?thesis
    using d(2) kernel0_file kernel0_procs kernel0_command(4) entry pcb by (auto simp: fresh_pcb_def)
qed

section \<open>Refused commands\<close>

text \<open>
  The two four-byte reads of \<open>execute\<close> on a file that is long enough: the first gives the magic
  number, the second the entry point, and both write in the frame of the call only.
\<close>

lemma header_reads:
  assumes "kernel_layout s prog vid" "command_ok s command cmd" "file_ok s (unat i)" "28 \<le> file_size s (unat i)"
  obtains m v where "read_data i 0 (magics (parsed cmd (cli s))) 4 (parsed cmd (cli s)) = (4, m)"
    "read_bytes m (magics m) 4 = take 4 (file_content s (unat i))" "read_data i 24 (magics m) 4 m = (4, v)"
    "magics m = magics (parsed cmd (cli s))" "frame_only (cli s) m" "frame_only (cli s) v"
proof -
  let ?s = "cli s" and ?c = "file_content s (unat i)"
  have cli: "kernel_layout ?s prog vid" "command_ok ?s command cmd" "same_image s ?s"
    using assms(1,2) by (simp_all add: cli_def)
  note pf = parsed_facts [OF cli(1,2)]
  have same1: "same_image s (parsed cmd ?s)" by (rule same_image_trans [OF cli(3) pf(2)])
  define m where "m = magic_read (take 4 ?c) (parsed cmd ?s)"
  define v where "v = magic_read (take 4 (drop 24 ?c)) m"
  have len: "length (take 4 ?c) = 4" "length (take 4 (drop 24 ?c)) = 4" using assms(4) by simp_all
  note f1 = file_same_image [OF same1 assms(3)] content_same_image [OF same1 assms(3)]
  have m: "read_data i 0 (magics (parsed cmd ?s)) 4 (parsed cmd ?s) = (4, m)"
      "read_bytes m (magics (parsed cmd ?s)) 4 = take 4 ?c" "kernel_layout m prog vid" "same_image (parsed cmd ?s) m"
    using read_magic [OF pf(1), of i 0] f1 assms(3,4) by (simp_all add: m_def)
  have mag: "magics m = magics (parsed cmd ?s)" by (simp add: m_def magic_read_def)
  have same2: "same_image s m" by (rule same_image_trans [OF same1 m(4)])
  have v: "read_data i 24 (magics m) 4 m = (4, v)"
    using read_magic(1) [OF m(3), of i 24] file_same_image [OF same2 assms(3)] content_same_image [OF same2 assms(3)]
      assms(3,4) by (simp add: v_def)
  note frames = frame_only_steps [OF cli(2)]
  have "frame_only ?s m" "frame_only ?s v"
    unfolding v_def m_def by (intro frames(2) frames(1) len)+
  then show thesis using that m(1,2) v mag by simp
qed



end
