(* ===== verification/Halt_Spec.thy ===== *)
theory Halt_Spec
  imports Execute_Props
begin

text \<open>
  The correctness of \<open>halt\<close>: what ending a process frees, to whom control returns, and that a program
  that was started and has ended leaves the process tables as they were.
\<close>

section \<open>Closing the descriptors\<close>

text \<open>The descriptors in use have an operations table.\<close>

definition closable :: "pcb_t \<Rightarrow> bool" where
  "closable b \<longleftrightarrow> (\<forall>f \<in> set (files b). flags f = IN_USE \<longrightarrow> ptrs f \<noteq> Null_ptrs)"

lemma closed_fd_ptrs: "ptrs closed_fd \<noteq> Null_ptrs"
  by (simp add: closed_fd_def)

lemma fresh_closable:
  assumes "fresh_pcb b p q args s" "length (files b) = 8"
  shows "closable b"
  unfolding closable_def
proof (intro ballI impI)
  fix f assume "f \<in> set (files b)" "flags f = IN_USE"
  then obtain i where i: "i < 8" "f = files b ! i" "flags (files b ! i) = IN_USE" using assms(2) by (auto simp: in_set_conv_nth)
  have "2 \<le> i \<Longrightarrow> flags (files b ! i) = NOT_IN_USE" using i(1) assms(1) by (simp add: fresh_pcb_def)
  then have "i < 2" using i(3) by (cases "2 \<le> i") (simp_all add: IN_USE_def NOT_IN_USE_def)
  then have "i = 0 \<or> i = 1" by (simp only: less_2_cases_iff One_nat_def)
  then show "ptrs f \<noteq> Null_ptrs" using i(2) assms(1) by (auto simp: fresh_pcb_def std_fd_def)
qed

lemma call_close_state: "p \<noteq> Null_ptrs \<Longrightarrow> \<exists>r. call_close p fd s = Some (r, s)"
  by (cases p) (simp_all add: fail_def terminal_close_def dir_close_def rtc_close_def file_close_def)

lemma close_files_eq:
  assumes "closable (pcbs s a)" "k \<le> n" "n = length (files (pcbs s a))"
  shows "close_files a [k..<n] s =
    Some (pcb_upd a (\<lambda>b. b\<lparr>files := take k (files b) @ replicate (n - k) closed_fd\<rparr>) s)"
  using assms
proof (induction "n - k" arbitrary: k s)
  case 0
  then show ?case by (simp add: pcb_upd_def)
next
  case (Suc m)
  then have k: "k < n" and upt: "[k..<n] = k # [Suc k..<n]" by (simp_all add: upt_conv_Cons)
  let ?u = "fd_upd a k (\<lambda>_. closed_fd) s" and ?f = "files (pcbs s a) ! k"
  have "\<exists>r. call_close (ptrs ?f) (word_of_nat k) s = Some (r, s)" if "flags ?f = IN_USE"
    using that Suc.prems(1,3) k by (intro call_close_state) (auto simp: closable_def)
  then have step: "(if flags ?f = IN_USE then do { (_, s) \<leftarrow> call_close (ptrs ?f) (word_of_nat k) s; Some s } else Some s) = Some s"
    by auto
  have u: "files (pcbs ?u a) = (files (pcbs s a))[k := closed_fd]" by (simp add: fd_upd_def)
  have "closable (pcbs ?u a)"
    using Suc.prems(1) set_update_subset_insert [of "files (pcbs s a)" k closed_fd] closed_fd_ptrs
    unfolding closable_def u by blast
  then have "close_files a [Suc k..<n] ?u =
      Some (pcb_upd a (\<lambda>b. b\<lparr>files := take (Suc k) (files b) @ replicate (n - Suc k) closed_fd\<rparr>) ?u)"
    using Suc.hyps(2) Suc.prems(3) k by (intro Suc.hyps(1)) (simp_all add: u)
  moreover have "pcb_upd a (\<lambda>b. b\<lparr>files := take (Suc k) (files b) @ replicate (n - Suc k) closed_fd\<rparr>) ?u =
      pcb_upd a (\<lambda>b. b\<lparr>files := take k (files b) @ replicate (n - k) closed_fd\<rparr>) s"
    unfolding fd_upd_def pcb_upd_compose using Suc.prems(3) k
    by (intro pcb_upd_cong) (simp add: take_Suc_conv_app_nth replicate_Suc [symmetric] Suc_diff_Suc)
  ultimately show ?case unfolding upt by (simp only: close_files.simps step bind.bind_lunit)
qed

section \<open>Taking a process off its terminal\<close>

definition popped :: "u32 \<Rightarrow> 'a kernel_scheme \<Rightarrow> 'a kernel_scheme" where
  "popped p s =
     (let t = unat (running_terminal s)
      in s\<lparr>process := (process s)[unat p := NOT_IN_USE],
           process_terminal := (process_terminal s)
             [t := (process_terminal s ! t)[unat (process_terminal_cnt s ! t - 1) := NOT_IN_USE]],
           process_terminal_cnt := (process_terminal_cnt s)[t := process_terminal_cnt s ! t - 1]\<rparr>)"

lemma popped_ok:
  assumes "procs_ok s" "procs s (unat (running_terminal s)) = ps @ [p]"
  shows "procs (popped p s) = (procs s)(unat (running_terminal s) := ps)" "used (popped p s) = used s - {p}"
    "procs_ok (popped p s)" "p < 6" "p \<in> used s"
proof -
  let ?t = "unat (running_terminal s)" and ?s = "popped p s"
  let ?c = "process_terminal_cnt s ! ?t"
  have sz: "tables_sized s" and d: "distinct (procs s 0 @ procs s 1 @ procs s 2)"
    and u: "set (procs s 0 @ procs s 1 @ procs s 2) = used s" using assms(1) by (simp_all add: procs_ok_def)
  have t: "?t < 3" "?t < length (process_terminal_cnt s)" "?t < length (process_terminal s)"
    "length (process_terminal s ! ?t) = 6" "unat ?c \<le> 6" using sz by (simp_all add: tables_sized_def)
  have len: "unat ?c = Suc (length ps)" using length_procs [OF sz t(1)] assms(2) by simp
  have c: "unat (?c - 1) = length ps" using unat_dec [of ?c] len by (cases "?c = 0") simp_all
  show pu: "p \<in> used s" using procs_sub [OF t(1), of s] u assms(2) by auto
  then show p6: "p < 6" by (simp add: used_def)
  have "take (length ps) (process_terminal s ! ?t) = ps"
    using arg_cong [OF assms(2), of "take (length ps)"] len by (simp add: procs_def)
  then show pr: "procs ?s = (procs s)(?t := ps)"
    using t c by (auto simp: fun_eq_iff procs_def popped_def Let_def nth_list_update)
  have "process ?s ! unat q \<noteq> NOT_IN_USE \<longleftrightarrow> q \<noteq> p \<and> process s ! unat q \<noteq> NOT_IN_USE" if "q < 6" for q
    using that p6 sz by (auto simp: popped_def Let_def nth_list_update word_less_nat_alt tables_sized_def word_unat_eq_iff)
  then show us: "used ?s = used s - {p}" by (auto simp: used_def)
  have sz': "tables_sized ?s"
    using sz c len t(5) by (auto simp: tables_sized_def popped_def Let_def nth_list_update)
  have "distinct (procs ?s 0 @ procs ?s 1 @ procs ?s 2)" "set (procs ?s 0 @ procs ?s 1 @ procs ?s 2) = used s - {p}"
    unfolding pr using three [OF t(1)] d u assms(2) by (elim disjE; auto)+
  moreover have "pcbs ?s = pcbs s" by (simp add: popped_def Let_def)
  ultimately show "procs_ok ?s" using sz' us assms(1) by (simp add: procs_ok_def)
qed

section \<open>halt\<close>

text \<open>The state after process \<open>p\<close> has been taken down.\<close>

definition halted :: "u32 \<Rightarrow> 'a kernel_scheme \<Rightarrow> 'a kernel_scheme" where
  "halted p s =
     (let q = parent_pid (pcbs s (get_pcb_by_index p))
      in pcb_upd (get_pcb_by_index p) (\<lambda>b. b\<lparr>files := replicate 8 closed_fd\<rparr>) (popped p (set_tss q (map_program q (cli s)))))"

lemma halted_fields [simp]:
  "esp (halted p s) = esp s" "phys (halted p s) = phys s" "str_shell (halted p s) = str_shell s"
  "current_terminal (halted p s) = current_terminal s" "running_terminal (halted p s) = running_terminal s"
  "pcbs (halted p s) = (pcbs s)(get_pcb_by_index p := (pcbs s (get_pcb_by_index p))\<lparr>files := replicate 8 closed_fd\<rparr>)"
  "tss_esp0 (halted p s) = tss_esp0 (set_tss (parent_pid (pcbs s (get_pcb_by_index p))) s)" "iflag (halted p s) = False"
  "terminal_running (halted p s) = terminal_running s"
  by (simp_all add: halted_def popped_def set_tss_def cli_def Let_def pcb_upd_def)

lemma halted_ok:
  assumes "procs_ok s" "procs s (unat (running_terminal s)) = ps @ [p]"
  shows "procs (halted p s) = (procs s)(unat (running_terminal s) := ps)" "used (halted p s) = used s - {p}"
    "procs_ok (halted p s)"
proof -
  let ?u = "set_tss (parent_pid (pcbs s (get_pcb_by_index p))) (map_program (parent_pid (pcbs s (get_pcb_by_index p))) (cli s))"
  have same: "procs ?u = procs s" "used ?u = used s" "procs_ok ?u = procs_ok s" "running_terminal ?u = running_terminal s"
    using procs_cong [of ?u s] by (simp_all add: set_tss_def cli_def)
  note pop = popped_ok [of ?u ps p, unfolded same, OF assms]
  have h: "halted p s = pcb_upd (get_pcb_by_index p) (\<lambda>b. b\<lparr>files := replicate 8 closed_fd\<rparr>) (popped p ?u)"
    by (simp add: halted_def Let_def)
  have keep: "procs (pcb_upd a f v) = procs v" "used (pcb_upd a f v) = used v" for a f and v :: "'a kernel_scheme"
    by (simp_all add: procs_def used_def fun_eq_iff)
  show "procs (halted p s) = (procs s)(unat (running_terminal s) := ps)" "used (halted p s) = used s - {p}"
    unfolding h keep using pop by simp_all
  have "tables_sized (pcb_upd a (\<lambda>b. b\<lparr>files := replicate 8 closed_fd\<rparr>) v) = tables_sized v"
    if "length (files (pcbs v a)) = 8" for a and v :: "'a kernel_scheme"
    using that by (auto simp: tables_sized_def)
  then show "procs_ok (halted p s)"
    unfolding h using pop(3,4) by (auto simp: procs_ok_def keep tables_sized_def)
qed

text \<open>\<open>halt\<close> up to the closing of the descriptors.\<close>

definition taken_down :: "u32 \<Rightarrow> 'a kernel_scheme \<Rightarrow> 'a kernel_scheme" where
  "taken_down p s =
     (let q = parent_pid (pcbs s (get_pcb_by_index p)) in popped p (set_tss q (map_program q (cli s))))"

lemma halted_taken_down:
  "halted p s = pcb_upd (get_pcb_by_index p) (\<lambda>b. b\<lparr>files := replicate 8 closed_fd\<rparr>) (taken_down p s)"
  by (simp add: halted_def taken_down_def Let_def)

lemma status_word: "(ucast (status :: u8) :: u32) = EXCEPTION_MAGIC \<longleftrightarrow> status = 0xF"
proof -
  have "unat status < 2 ^ LENGTH(8)" by (rule unsigned_less)
  then have "unat status mod 2 ^ LENGTH(32) = unat status" by (intro mod_less) (erule less_le_trans, simp)
  then show ?thesis by (simp only: EXCEPTION_MAGIC_def word_unat_eq_iff unat_ucast_mod) simp
qed

lemma halt_unfold:
  assumes "procs_ok s" "procs s (unat (running_terminal s)) = ps @ [p]"
  shows "halt status s =
    do { u \<leftarrow> close_files (get_pcb_by_index p) [0..<8] (taken_down p s);
         (c, u) \<leftarrow> (if pid (pcbs u (get_pcb_by_index p)) = 0 \<or> process_terminal_cnt u ! unat (running_terminal s) = 0
                    then execute (str_shell u) u else Some (Return 0, u));
         case c of
           Return _ \<Rightarrow> Some (Return_to_execute (if status = 0xF then 256 else 0),
                         u\<lparr>retval := ucast status, esp := parent_esp (pcbs s (get_pcb_by_index p)),
                           ebp := parent_ebp (pcbs s (get_pcb_by_index p)), iflag := True\<rparr>)
         | _ \<Rightarrow> Some (c, u) }"
proof -
  let ?t = "unat (running_terminal s)" and ?a = "get_pcb_by_index p"
  have sz: "tables_sized s" using assms(1) by (simp add: procs_ok_def)
  have t: "?t < 3" "length (process_terminal_cnt s) = 3" using sz by (simp_all add: tables_sized_def)
  note pop = popped_ok [OF assms(1,2)]
  define b where "b = pcbs s ?a"
  have p: "pid b = p" "unat p < 6" using assms(1) pop(4,5) by (simp_all add: procs_ok_def b_def word_less_nat_alt)
  have top: "top_process (running_terminal s) (cli s) = Some p"
    using top_process_last [OF sz t(1)] assms(2) procs_cong(5) [of "cli s" s] by (simp add: cli_def)
  define m where "m = set_tss (parent_pid b) (map_program (parent_pid b) (cli s))"
  have m: "pcbs m = pcbs s" "running_terminal m = running_terminal s" "process m = process s" "process_terminal m = process_terminal s"
      "process_terminal_cnt m = process_terminal_cnt s" by (simp_all add: m_def set_tss_def cli_def)
  define m1 where "m1 = m\<lparr>process := (process m)[unat p := NOT_IN_USE]\<rparr>"
  define m2 where "m2 = m1\<lparr>process_terminal := (process_terminal m1)
      [?t := (process_terminal m1 ! ?t)[unat (process_terminal_cnt m1 ! ?t - 1) := NOT_IN_USE]]\<rparr>"
  have popm: "m2\<lparr>process_terminal_cnt := (process_terminal_cnt m2)[?t := process_terminal_cnt m2 ! ?t - 1]\<rparr> = popped p m"
    by (simp add: popped_def Let_def m m1_def m2_def)
  have cli: "running_terminal (cli s) = running_terminal s" "pcbs (cli s) = pcbs s"
    "pcbs (map_program q (cli s)) = pcbs s" for q by (simp_all add: cli_def)
  have td: "popped p m = taken_down p s" by (simp add: taken_down_def m_def b_def Let_def)
  have ret: "(case execute_return (u\<lparr>retval := ucast status\<rparr>\<lparr>esp := e, ebp := f\<rparr>) of (v, s) \<Rightarrow> Some (Return_to_execute v, s)) =
      Some (Return_to_execute (if status = 0xF then 256 else 0),
        u\<lparr>retval := ucast status, esp := e, ebp := f, iflag := True\<rparr>)" for u :: "'a kernel_scheme" and e f
    by (simp add: execute_return_def sti_def status_word)
  show ?thesis
    unfolding halt_def
    by (simp only: Let_def top bind.bind_lunit cli b_def m_def [unfolded b_def, symmetric] m(1) p(1) [unfolded b_def] p(2) if_True
        m1_def [symmetric] m2_def [symmetric] popm ret td)
qed

lemma halt_eq:
  assumes "procs_ok s" "procs s (unat (running_terminal s)) = ps @ [p]" "closable (pcbs s (get_pcb_by_index p))"
  defines "b \<equiv> pcbs s (get_pcb_by_index p)"
  shows "halt status s =
    do { (c, u) \<leftarrow> (if p = 0 \<or> ps = [] then execute (str_shell s) (halted p s) else Some (Return 0, halted p s));
         case c of
           Return _ \<Rightarrow> Some (Return_to_execute (if status = 0xF then 256 else 0),
                         u\<lparr>retval := ucast status, esp := parent_esp b, ebp := parent_ebp b, iflag := True\<rparr>)
         | _ \<Rightarrow> Some (c, u) }"
proof -
  let ?t = "unat (running_terminal s)" and ?a = "get_pcb_by_index p"
  have sz: "tables_sized s" using assms(1) by (simp add: procs_ok_def)
  have t: "?t < 3" using sz by (simp add: tables_sized_def)
  note pop = popped_ok [OF assms(1,2)]
  have p: "pid b = p" "length (files b) = 8"
    using assms(1) pop(4,5) sz by (simp_all add: procs_ok_def b_def tables_sized_def)
  have pp: "pcbs (taken_down p s) = pcbs s" by (simp add: taken_down_def popped_def Let_def set_tss_def cli_def)
  have closed: "close_files ?a [0..<8] (taken_down p s) = Some (halted p s)"
    using close_files_eq [of "taken_down p s" ?a 0 8] assms(3) p(2) by (simp add: pp b_def halted_taken_down)
  have hsz: "tables_sized (halted p s)" using halted_ok(3) [OF assms(1,2)] by (simp add: procs_ok_def)
  have empty: "process_terminal_cnt (halted p s) ! ?t = 0 \<longleftrightarrow> ps = []"
    using procs_empty [OF hsz t] halted_ok(1) [OF assms(1,2)] by simp
  have hp: "pid (pcbs (halted p s) ?a) = p" using p(1) by (simp add: b_def)
  show ?thesis
    unfolding halt_unfold [OF assms(1,2)] closed bind.bind_lunit hp empty halted_fields(3) b_def ..
qed

section \<open>The kernel's own memory while a process is taken down\<close>

lemma halted_layout:
  assumes "kernel_layout s prog vid" "parent_pid (pcbs s (get_pcb_by_index p)) < 6"
  shows "kernel_layout (halted p s) (Some (parent_pid (pcbs s (get_pcb_by_index p)))) vid" "same_image s (halted p s)"
    "0x400000 \<le> unat a \<Longrightarrow> unat a < 0x800000 \<Longrightarrow> ld (halted p s) a = ld s a"
proof -
  let ?q = "parent_pid (pcbs s (get_pcb_by_index p))"
  let ?m = "map_program ?q (cli s)"
  have lay: "kernel_layout (cli s) prog vid" "mapped (cli s) prog vid" "same_image s (cli s)"
    using assms(1) by (simp_all add: cli_def) (simp add: kernel_layout_def mapped_def tables_def)
  have frame: "kernel_layout (halted p s) = kernel_layout ?m" "same_image ?m (halted p s)" "ld (halted p s) = ld ?m"
    by (simp_all add: halted_def popped_def set_tss_def pcb_upd_def Let_def kernel_layout_def mapped_def tables_def
        image_ok_def same_image_def fs_bytes_def data_pos_def img_def ld_def fun_eq_iff)
  show "kernel_layout (halted p s) (Some ?q) vid"
    unfolding frame(1) by (rule layout_map_program [OF lay(1) assms(2)])
  show "same_image s (halted p s)"
    by (rule same_image_trans [OF same_image_trans [OF lay(3) layout_map_program(2) [OF lay(1) assms(2)]] frame(2)])
  assume "0x400000 \<le> unat a" "unat a < 0x800000"
  then show "ld (halted p s) a = ld s a"
    unfolding frame(3) using ld_map_program [OF lay(2) assms(2)] by (simp add: cli_def ld_def)
qed

lemma command_ok_kernel:
  assumes "kernel_layout s prog vid" "kernel_layout t prog' vid'" "esp t = esp s"
    "\<And>a. 0x400000 \<le> unat a \<Longrightarrow> unat a < 0x800000 \<Longrightarrow> ld t a = ld s a"
    "0x400000 \<le> unat command" "unat command + length cmd < 0x800000" "command_ok s command cmd"
  shows "command_ok t command cmd"
proof -
  have in_kernel: "0x400000 \<le> unat (command + word_of_nat i)" "unat (command + word_of_nat i) < 0x800000" if "i \<le> length cmd" for i
    using unat_add_small [of command i] assms(5,6) that by simp_all
  then have same: "ld t (command + word_of_nat i) = ld s (command + word_of_nat i)" if "i \<le> length cmd" for i
    using assms(4) that by blast
  then have "read_bytes t command (length cmd) = read_bytes s command (length cmd)" by (intro read_bytes_eqI) simp
  then have at: "command_at t command cmd" using assms(7) same by (simp add: command_ok_def command_at_def)
  have xl: "xl t (command + word_of_nat i) = xl s (command + word_of_nat i)" if "i \<le> length cmd" for i
    using xl_kernel [of t prog' vid', OF _ in_kernel [OF that]] xl_kernel [of s prog vid, OF _ in_kernel [OF that]] assms(1,2)
    by (simp add: kernel_layout_def)
  have frm: "xl t (frame t + word_of_nat j) = xl s (frame s + word_of_nat j)" if "j < 200" for j
    using xl_layout(1) [OF assms(1) that] xl_layout(1) [OF assms(2) that] assms(3) by simp
  have "apart t command (Suc (length cmd)) (frame t) 200"
    unfolding apart_def
  proof (intro allI impI)
    fix i j :: nat assume ij: "i < Suc (length cmd)" "j < 200"
    then have "xl s (command + word_of_nat i) \<noteq> xl s (frame s + word_of_nat j)"
      using assms(7) unfolding command_ok_def apart_def by blast
    then show "xl t (command + word_of_nat i) \<noteq> xl t (frame t + word_of_nat j)"
      using xl [of i] frm [OF ij(2)] ij(1) by simp
  qed
  then show ?thesis using at assms(7) by (simp add: command_ok_def)
qed

lemma halt_to_parent:
  assumes "mapped s prog vid" "procs_ok s" "procs s (unat (running_terminal s)) = ps @ [p]" "ps \<noteq> []" "p \<noteq> 0"
    "closable (pcbs s (get_pcb_by_index p))"
  shows "\<exists>t. halt status s = Some (Return_to_execute (if status = 0xF then 256 else 0), t)
    \<and> procs t = (procs s)(unat (running_terminal s) := ps) \<and> used t = used s - {p} \<and> procs_ok t
    \<and> mapped t (Some (parent_pid (pcbs s (get_pcb_by_index p)))) vid \<and> phys t = phys s
    \<and> esp t = parent_esp (pcbs s (get_pcb_by_index p)) \<and> ebp t = parent_ebp (pcbs s (get_pcb_by_index p))
    \<and> tss_esp0 t = get_pcb_by_index (parent_pid (pcbs s (get_pcb_by_index p))) + EIGHT_KB_SIZE - ESP_OFFSET \<and> iflag t
    \<and> files (pcbs t (get_pcb_by_index p)) = replicate 8 closed_fd
    \<and> (\<forall>q. q < 6 \<and> q \<noteq> p \<longrightarrow> pcbs t (get_pcb_by_index q) = pcbs s (get_pcb_by_index q))"
proof (intro exI conjI)
  let ?b = "pcbs s (get_pcb_by_index p)"
  let ?h = "halted p s"
  let ?t = "?h\<lparr>retval := ucast status, esp := parent_esp ?b, ebp := parent_ebp ?b, iflag := True\<rparr>"
  show "halt status s = Some (Return_to_execute (if status = 0xF then 256 else 0), ?t)"
    using halt_eq [OF assms(2,3,6)] assms(4,5) by simp
  note pop = popped_ok [OF assms(2,3)]
  have q: "parent_pid ?b < 6" using assms(2) pop(5) by (simp add: procs_ok_def)
  have same: "procs ?t = procs ?h" "used ?t = used ?h" "procs_ok ?t = procs_ok ?h"
    using procs_cong [of ?t ?h] by simp_all
  then show "procs ?t = (procs s)(unat (running_terminal s) := ps)" "used ?t = used s - {p}" "procs_ok ?t"
    using halted_ok [OF assms(2,3)] by simp_all
  have "mapped (cli s) prog vid" using assms(1) by (simp add: cli_def mapped_def tables_def)
  then have "mapped (map_program (parent_pid ?b) (cli s)) (Some (parent_pid ?b)) vid" by (rule map_program_mapped [OF _ q])
  then show "mapped ?t (Some (parent_pid ?b)) vid"
    by (simp add: halted_def popped_def set_tss_def pcb_upd_def Let_def mapped_def tables_def)
  show "tss_esp0 ?t = get_pcb_by_index (parent_pid ?b) + EIGHT_KB_SIZE - ESP_OFFSET"
    by (simp add: set_tss_def get_pcb_by_index_def algebra_simps)
  show "\<forall>q. q < 6 \<and> q \<noteq> p \<longrightarrow> pcbs ?t (get_pcb_by_index q) = pcbs s (get_pcb_by_index q)"
    using pop(4) pcb_inj by auto
qed simp_all

section \<open>Properties\<close>

text \<open>C7. \<open>halt\<close> in a process that is not the bottom of its terminal returns control to the \<open>execute\<close> call
  that started it, on the stack saved there, with 256 for a process killed by an exception and 0 for every
  other status; the process is taken off the running terminal's stack and its number is free again, its
  descriptors are closed, the parent's program page is mapped again and system calls run on the parent's
  kernel stack; memory, the other control blocks and the other terminals are untouched.\<close>

theorem halt_returns:
  assumes "mapped s prog vid" "procs_ok s" "procs s (unat (running_terminal s)) = ps @ [p]" "ps \<noteq> []" "p \<noteq> 0"
    "closable (pcbs s (get_pcb_by_index p))"
  shows "\<exists>t. halt status s = Some (Return_to_execute (if status = 0xF then 256 else 0), t)
    \<and> procs t = (procs s)(unat (running_terminal s) := ps) \<and> used t = used s - {p} \<and> procs_ok t
    \<and> mapped t (Some (parent_pid (pcbs s (get_pcb_by_index p)))) vid \<and> phys t = phys s
    \<and> esp t = parent_esp (pcbs s (get_pcb_by_index p)) \<and> ebp t = parent_ebp (pcbs s (get_pcb_by_index p))
    \<and> tss_esp0 t = get_pcb_by_index (parent_pid (pcbs s (get_pcb_by_index p))) + EIGHT_KB_SIZE - ESP_OFFSET \<and> iflag t
    \<and> files (pcbs t (get_pcb_by_index p)) = replicate 8 closed_fd
    \<and> (\<forall>q. q < 6 \<and> q \<noteq> p \<longrightarrow> pcbs t (get_pcb_by_index q) = pcbs s (get_pcb_by_index q))"
  by (rule halt_to_parent [OF assms])

text \<open>The kernel with \<open>n\<close> processes in the first terminal, the last of them just started.\<close>

definition kernel_with :: "nat \<Rightarrow> kernel" where
  "kernel_with n = kernel0\<lparr>process := replicate n 1 @ replicate (6 - n) 0,
     process_terminal := [map word_of_nat [0..<n] @ replicate (6 - n) 0, replicate 6 0, replicate 6 0],
     process_terminal_cnt := [word_of_nat n, 0, 0],
     pcbs := (\<lambda>_. pcb0)(get_pcb_by_index 1 := pcb0\<lparr>pid := 1, parent_esp := 0x7FDF00\<rparr>)\<rparr>"

lemma kernel_with_ok:
  assumes "n = 1 \<or> n = (2 :: nat)"
  shows "procs_ok (kernel_with n)" "procs (kernel_with n) 0 = map word_of_nat [0..<n]" "mapped (kernel_with n) None None"
    "running_terminal (kernel_with n) = 0" "closable (pcbs (kernel_with n) (get_pcb_by_index p))"
    "current_terminal (kernel_with n) = 0"
proof -
  let ?k = "kernel_with n"
  have upt: "[0..<2] = [0, Suc 0]" by (simp add: numeral_2_eq_2)
  have t0: "t = 0 \<or> t = Suc 0 \<or> t = 2" if "t < 3" for t :: nat by (rule three [OF that])
  have other: "procs ?k (Suc 0) = []" "procs ?k 2 = []" by (simp_all add: procs_def kernel_with_def)
  show pr: "procs ?k 0 = map word_of_nat [0..<n]" using assms by (auto simp: procs_def kernel_with_def)
  have "used ?k = {p. unat p < n}"
  proof -
    have "process ?k ! unat p \<noteq> NOT_IN_USE \<longleftrightarrow> unat p < n" if "p < 6" for p :: u32
      using that assms by (auto simp: kernel_with_def NOT_IN_USE_def nth_append word_less_nat_alt)
    moreover have "unat p < n \<Longrightarrow> p < 6" for p :: u32 using assms by (auto simp: word_less_nat_alt)
    ultimately show ?thesis by (auto simp: used_def)
  qed
  moreover have "{p :: u32. unat p < n} = word_of_nat ` {0..<n}"
  proof (intro set_eqI iffI)
    fix p :: u32 assume "p \<in> {p. unat p < n}"
    then show "p \<in> word_of_nat ` {0..<n}" by (intro image_eqI [of _ _ "unat p"]) simp_all
  next
    fix p :: u32 assume "p \<in> word_of_nat ` {0..<n}"
    then show "p \<in> {p. unat p < n}" using assms by (auto simp: unat_of_nat_u32)
  qed
  ultimately have us: "used ?k = set (map word_of_nat [0..<n])" by simp
  have "tables_sized ?k" using assms by (auto simp: tables_sized_def kernel_with_def pcb0_def upt dest!: t0)
  moreover have "pid (pcbs ?k (get_pcb_by_index p)) = p \<and> parent_pid (pcbs ?k (get_pcb_by_index p)) < 6"
    if "p \<in> used ?k" for p
  proof -
    have "p = 0 \<or> p = 1" using that assms unfolding us by (auto simp: less_2_cases_iff)
    moreover have "get_pcb_by_index 0 \<noteq> get_pcb_by_index 1" by (simp add: get_pcb_by_index_def EIGHT_KB_SIZE_def)
    ultimately show ?thesis by (auto simp: kernel_with_def pcb0_def)
  qed
  moreover have "distinct (procs ?k 0)" unfolding pr using assms by (auto simp: upt)
  ultimately show "procs_ok ?k" using us other pr by (simp add: procs_ok_def)
  show "mapped ?k None None" using kernel0_mapped by (simp add: kernel_with_def mapped_def tables_def)
  show "running_terminal ?k = 0" "current_terminal ?k = 0" by (simp_all add: kernel_with_def)
  show "closable (pcbs ?k (get_pcb_by_index p))" by (simp add: kernel_with_def closable_def pcb0_def IN_USE_def)
qed

lemma kernel_with_image:
  "kernel_layout (kernel_with n) None None" "command_ok (kernel_with n) 0x7F0000 [0x73, 0x68, 0x20, 0x78]"
  "\<exists>d. lookup (kernel_with n) (cmd_name [0x73, 0x68, 0x20, 0x78]) = Some d \<and> program_ok (kernel_with n) (unat (i_node d))"
proof -
  let ?k = "kernel_with n"
  have same: "kernel_layout ?k = kernel_layout kernel0" "same_image kernel0 ?k" "command_ok ?k = command_ok kernel0"
    by (simp_all add: kernel_with_def kernel_layout_def mapped_def tables_def image_ok_def same_image_def fs_bytes_def
        data_pos_def img_def ld_def apart_def fun_eq_iff command_ok_def command_at_def read_bytes_def)
  show "kernel_layout ?k None None" "command_ok ?k 0x7F0000 [0x73, 0x68, 0x20, 0x78]"
    using same kernel0_layout kernel0_command(1) by simp_all
  obtain d where d: "lookup kernel0 [0x73, 0x68] = Some d" "i_node d = 0" using kernel0_lookup(1) by auto
  then show "\<exists>d. lookup ?k (cmd_name [0x73, 0x68, 0x20, 0x78]) = Some d \<and> program_ok ?k (unat (i_node d))"
    using kernel0_command(3) lookup_same_image [OF same(2) kernel0_file(5)] program_same_image [OF same(2) kernel0_file(4)]
    by simp
qed

theorem halt_returns_witness:
  "\<exists>t. halt 0 (kernel_with 2) = Some (Return_to_execute 0, t) \<and> procs t 0 = [0] \<and> esp t = 0x7FDF00"
proof -
  have two: "procs (kernel_with 2) (unat (running_terminal (kernel_with 2))) = [0] @ [1]"
    using kernel_with_ok(2,4) [of 2] by (simp add: numeral_2_eq_2)
  from halt_returns [OF kernel_with_ok(3,1) this _ _ kernel_with_ok(5), where status = 0] show ?thesis
    using kernel_with_ok(4) [of 2] by (auto simp: kernel_with_def)
qed

text \<open>C6. Starting a program in a terminal where a process runs, and ending the program, leads back to the
  caller: the call of \<open>execute\<close> resumes on its own stack, the process tables, the page of the
  caller and the control blocks of all processes are as before the call.\<close>

theorem execute_halt:
  assumes "kernel_layout s prog vid" "command_ok s command cmd" "lookup s (cmd_name cmd) = Some d"
    "program_ok s (unat (i_node d))" "procs_ok s" "get_pid s \<noteq> - 1" "get_pid s \<noteq> 0"
    "running_terminal s = current_terminal s" "procs s (unat (current_terminal s)) = ps @ [caller]"
  shows "\<exists>entry t u. execute command s = Some (Enter_user entry, t)
    \<and> halt status t = Some (Return_to_execute (if status = 0xF then 256 else 0), u)
    \<and> procs u = procs s \<and> used u = used s \<and> esp u = esp s \<and> ebp u = ebp s
    \<and> mapped u (Some caller) vid \<and> (\<forall>q \<in> used s. pcbs u (get_pcb_by_index q) = pcbs s (get_pcb_by_index q))"
proof -
  let ?t = "started cmd (unat (i_node d)) (get_pid s) s" and ?p = "get_pid s"
  note facts = started_facts [OF assms(1,2,4-6)]
  have sz: "tables_sized s" using assms(5) by (simp add: procs_ok_def)
  then have ct: "unat (current_terminal s) < 3" by (simp add: tables_sized_def)
  have rt: "running_terminal ?t = running_terminal s"
    by (simp add: started_def Let_def sti_def set_tss_def push_process_def assms(8))
  have stack: "procs ?t (unat (running_terminal ?t)) = (ps @ [caller]) @ [?p]"
    using facts(3) assms(8,9) by (simp add: rt)
  have fresh: "fresh_pcb (pcbs ?t (get_pcb_by_index ?p)) ?p (parent_of ?p s) (cmd_args cmd) s" by (rule facts(8))
  have par: "parent_of ?p s = caller"
    using top_process_last [OF sz ct] assms(7,9) by (simp add: parent_of_def)
  have "length (files (pcbs ?t (get_pcb_by_index ?p))) = 8"
    using facts(5,7) by (simp add: procs_ok_def tables_sized_def)
  then have "closable (pcbs ?t (get_pcb_by_index ?p))"
    by (rule fresh_closable [OF fresh])
  moreover have "mapped ?t (Some ?p) vid" using facts(1) by (simp add: kernel_layout_def)
  ultimately obtain u where u: "halt status ?t = Some (Return_to_execute (if status = 0xF then 256 else 0), u)"
      "procs u = (procs ?t)(unat (running_terminal ?t) := ps @ [caller])" "used u = used ?t - {?p}"
      "esp u = parent_esp (pcbs ?t (get_pcb_by_index ?p))" "ebp u = parent_ebp (pcbs ?t (get_pcb_by_index ?p))"
      "mapped u (Some (parent_pid (pcbs ?t (get_pcb_by_index ?p)))) vid"
      "\<forall>q. q < 6 \<and> q \<noteq> ?p \<longrightarrow> pcbs u (get_pcb_by_index q) = pcbs ?t (get_pcb_by_index q)"
    using halt_to_parent [OF _ facts(5) stack _ assms(7)] by blast
  have "procs u = procs s" using u(2) facts(3) assms(8,9) rt by (auto simp: fun_eq_iff)
  moreover have "used u = used s" using u(3) facts(4,6) by auto
  moreover have "\<forall>q \<in> used s. pcbs u (get_pcb_by_index q) = pcbs s (get_pcb_by_index q)"
    using u(7) facts(6,9) by (auto simp: used_def)
  ultimately show ?thesis
    using execute_eq [OF assms(1-6)] u(1,4-6) fresh par by (auto simp: fresh_pcb_def)
qed

theorem execute_halt_witness:
  "\<exists>entry t u. execute 0x7F0000 (kernel_with 1) = Some (Enter_user entry, t)
     \<and> halt 3 t = Some (Return_to_execute 0, u) \<and> procs u 0 = [0] \<and> esp u = 0x7FFFFC \<and> mapped u (Some 0) None"
proof -
  let ?k = "kernel_with 1"
  obtain d where d: "lookup ?k (cmd_name [0x73, 0x68, 0x20, 0x78]) = Some d" "program_ok ?k (unat (i_node d))"
    using kernel_with_image(3) by blast
  have pid: "get_pid ?k = 1" by (simp add: get_pid_def kernel_with_def NOT_IN_USE_def upt_rec)
  have stack: "procs ?k (unat (current_terminal ?k)) = [] @ [0]" using kernel_with_ok(2,6) [of 1] by simp
  from execute_halt [OF kernel_with_image(1,2) d kernel_with_ok(1) _ _ _ stack,
      where status = 3] show ?thesis
    using pid kernel_with_ok(2,4,6) [of 1] by (auto simp: kernel_with_def)
qed

text \<open>C8. \<open>halt\<close> in the last process of a terminal, or in process 0, does not return: it starts a new shell. The
  ended process is off its terminal and its number may be used again; the shell is pushed on the terminal
  that is visible, which need not be the one whose process has ended.\<close>

theorem halt_restarts_shell:
  assumes "kernel_layout s prog vid" "procs_ok s" "procs s (unat (running_terminal s)) = ps @ [p]" "p = 0 \<or> ps = []"
    "closable (pcbs s (get_pcb_by_index p))"
    "command_ok s (str_shell s) cmd" "0x400000 \<le> unat (str_shell s)" "unat (str_shell s) + length cmd < 0x800000"
    "lookup s (cmd_name cmd) = Some d" "program_ok s (unat (i_node d))"
  shows "\<exists>t p'. halt status s = Some (Enter_user (le_word (take 4 (drop 24 (file_content s (unat (i_node d)))))), t)
    \<and> p' \<notin> used s - {p} \<and> used t = insert p' (used s - {p}) \<and> procs_ok t \<and> kernel_layout t (Some p') vid
    \<and> procs t = (let r = (procs s)(unat (running_terminal s) := ps)
                 in r(unat (current_terminal s) := r (unat (current_terminal s)) @ [p']))"
proof -
  let ?h = "halted p s" and ?q = "parent_pid (pcbs s (get_pcb_by_index p))"
  note pop = popped_ok [OF assms(2,3)] and h = halted_ok [OF assms(2,3)]
  have q: "?q < 6" using assms(2) pop(5) by (simp add: procs_ok_def)
  note lay = halted_layout [OF assms(1) q]
  have cmd: "command_ok ?h (str_shell s) cmd"
    by (rule command_ok_kernel [OF assms(1) lay(1) _ lay(3) assms(7,8,6)]) simp_all
  have img: "image_ok s" using assms(1) by (simp add: kernel_layout_def)
  have d: "lookup ?h (cmd_name cmd) = Some d" "program_ok ?h (unat (i_node d))"
      "file_content ?h (unat (i_node d)) = file_content s (unat (i_node d))"
    using lookup_same_image [OF lay(2) img] assms(9) program_same_image [OF lay(2) assms(10)] by simp_all
  have "get_pid ?h \<noteq> - 1"
  proof
    assume "get_pid ?h = - 1"
    then have full: "process ?h ! k \<noteq> NOT_IN_USE" if "k < 6" for k
      using get_pid_none [of ?h] that by (auto simp: find_None_iff)
    have "p \<notin> used ?h" using h(2) by simp
    then show False using pop(4) full [of "unat p"] by (simp add: used_def word_less_nat_alt)
  qed
  note facts = started_facts [OF lay(1) cmd d(2) h(3) this] and ex = execute_eq [OF lay(1) cmd d(1,2) h(3) this]
  have "halt status s = Some (Enter_user (le_word (take 4 (drop 24 (file_content s (unat (i_node d)))))),
      started cmd (unat (i_node d)) (get_pid ?h) ?h)"
    using halt_eq [OF assms(2,3,5)] assms(4) ex d(3) by simp
  then show ?thesis using facts(1,3-6) h(1,2) by (auto simp: Let_def intro!: exI [of _ "get_pid ?h"])
qed

theorem halt_restarts_shell_witness:
  "\<exists>entry t p'. halt 0 (kernel_with 1) = Some (Enter_user entry, t) \<and> procs t 0 = [p']"
proof -
  let ?k = "kernel_with 1"
  have sh: "str_shell ?k = 0x7F0000" by (simp add: kernel_with_def)
  obtain d where d: "lookup ?k (cmd_name [0x73, 0x68, 0x20, 0x78]) = Some d" "program_ok ?k (unat (i_node d))"
    using kernel_with_image(3) by blast
  have stack: "procs ?k (unat (running_terminal ?k)) = [] @ [0]" using kernel_with_ok(2,4) [of 1] by simp
  from halt_restarts_shell [OF kernel_with_image(1) kernel_with_ok(1) stack _ kernel_with_ok(5) _ _ _ d, where status = 0]
  show ?thesis using sh kernel_with_image(2) kernel_with_ok(4,6) [of 1] by auto
qed

end
