(* ===== verification/Kernel_Frame.thy ===== *)
theory Kernel_Frame
  imports Halt_Spec Scheduling
begin

text \<open>
  What every operation of the kernel leaves of the process tables. A step relation that is reflexive and
  transitive is carried through loops (locale \<open>frame_relation\<close>); it is interpreted on \<open>only_console\<close>, the
  operations that stay inside the console, and on \<open>keeps\<close>, the operations that keep the process tables and the
  identity of every control block.
\<close>

section \<open>Results that may be missing\<close>

lemma pred_bind:
  assumes "pred_option Q m" "\<And>x. Q x \<Longrightarrow> pred_option P (f x)"
  shows "pred_option P (m \<bind> f)"
  using assms by (cases m) simp_all

lemma pred_bind_state:
  assumes "pred_option (\<lambda>(r, t). Q t) m" "\<And>r t. Q t \<Longrightarrow> pred_option P (f r t)"
  shows "pred_option P (m \<bind> (\<lambda>(r, t). f r t))"
  using assms by (cases m) (auto split: prod.splits)

lemma pred_optionD: "pred_option P m \<Longrightarrow> m = Some x \<Longrightarrow> P x"
  by simp

lemma pred_mono: "pred_option P m \<Longrightarrow> (\<And>x. P x \<Longrightarrow> Q x) \<Longrightarrow> pred_option Q m"
  by (cases m) simp_all

section \<open>Relations that loops keep\<close>

locale frame_relation =
  fixes R :: "'s \<Rightarrow> 's \<Rightarrow> bool"
  assumes frame_refl: "R s s"
    and frame_trans: "R s t \<Longrightarrow> R t u \<Longrightarrow> R s u"
begin

lemma frame_loop: "(\<And>i t. R t (f i t)) \<Longrightarrow> R s (for_loop a b f s)"
  by (rule for_loop_invariant [where P = "R s"]) (auto intro: frame_refl frame_trans)

lemma frame_result:
  "pred_option (\<lambda>(r, u). R t u) m \<Longrightarrow> R s t \<Longrightarrow> pred_option (\<lambda>(r, u). R s u) m"
  by (cases m) (auto intro: frame_trans)

lemma frame_state: "pred_option (R t) m \<Longrightarrow> R s t \<Longrightarrow> pred_option (R s) m"
  by (cases m) (auto intro: frame_trans)

end

section \<open>The console\<close>

definition only_console :: "'a console_scheme \<Rightarrow> 'a console_scheme \<Rightarrow> bool" where
  "only_console s t \<longleftrightarrow> console.more t = console.more s \<and> current_terminal t = current_terminal s
     \<and> running_terminal t = running_terminal s \<and> xl t = xl s"

interpretation con: frame_relation only_console
  by unfold_locales (simp_all add: only_console_def)

lemma only_consoleD:
  assumes "only_console s t"
  shows "console.more t = console.more s" "current_terminal t = current_terminal s" "running_terminal t = running_terminal s"
    "xl t = xl s"
  using assms by (simp_all add: only_console_def)

lemma only_phys_only_console: "only_phys s (t :: 'a console_scheme) \<Longrightarrow> only_console s t"
  by (drule only_physD, erule ssubst) (simp add: only_console_def)

lemmas con_step = con.frame_trans [OF _ only_phys_only_console]

lemma more_updates [simp]:
  "console.more (outb v p s) = console.more s" "console.more (st a v s) = console.more s"
  "console.more (cli s) = console.more s" "console.more (sti s) = console.more s"
  "console.more (cursor_helper s) = console.more s" "console.more (ti_upd t f s) = console.more s"
  "console.more (put_cell b k c col s) = console.more s" "console.more (memcpy d a n s) = console.more s"
  "console.more (blank_row b r col s) = console.more s" "console.more (set_cursor_position x y s) = console.more s"
  "console.more (key_arr_push e s) = console.more s" "console.more (key_arr_pop s) = console.more s"
  "console.more (set_column_stack s) = console.more s" "console.more (set_row_stack_in r s) = console.more s"
  "console.more (set_column_stack_in r s) = console.more s"
proof -
  show "console.more (put_cell b k c col s) = console.more s" "console.more (memcpy d a n s) = console.more s"
    "console.more (blank_row b r col s) = console.more s"
    using only_phys_only_console [OF only_phys_put_cell, of s b k c col] only_phys_only_console [OF only_phys_memcpy, of s d a n]
      only_phys_only_console [OF only_phys_blank_row, of s b r col] by (simp_all add: only_console_def)
qed (simp_all add: outb_def st_def cli_def sti_def cursor_helper_def ti_upd_def set_cursor_position_def Let_def
    key_arr_push_def key_arr_pop_def set_column_stack_def set_row_stack_in_def set_column_stack_in_def)

lemma terminals_kept [simp]:
  "current_terminal (cli s) = current_terminal s" "running_terminal (cli s) = running_terminal s"
  "current_terminal (sti s) = current_terminal s" "running_terminal (sti s) = running_terminal s"
  "current_terminal (set_cursor_position x y s) = current_terminal s" "running_terminal (set_cursor_position x y s) = running_terminal s"
  "current_terminal (key_arr_push e s) = current_terminal s" "running_terminal (key_arr_push e s) = running_terminal s"
  "current_terminal (set_column_stack s) = current_terminal s" "running_terminal (set_column_stack s) = running_terminal s"
  "running_terminal (key_arr_pop s) = running_terminal s"
  "current_terminal (set_row_stack_in r s) = current_terminal s" "running_terminal (set_row_stack_in r s) = running_terminal s"
  "current_terminal (set_column_stack_in r s) = current_terminal s" "running_terminal (set_column_stack_in r s) = running_terminal s"
  "xl (cli s) = xl s" "xl (sti s) = xl s" "xl (set_cursor_position x y s) = xl s" "xl (key_arr_push e s) = xl s" "xl (key_arr_pop s) = xl s"
  "xl (set_column_stack s) = xl s" "xl (set_row_stack_in r s) = xl s" "xl (set_column_stack_in r s) = xl s"
  by (simp_all add: cli_def sti_def set_cursor_position_def key_arr_push_def key_arr_pop_def set_column_stack_def set_row_stack_in_def
      set_column_stack_in_def Let_def)

lemma only_console_ops:
  "only_console s (enter_and_scroll s)" "only_console s (enter_handler s)" "only_console s (putc_wrap s)"
  "only_console s (putc c s)" "only_console s (backspace_handler s)" "only_console s (key_arr_push c s)"
  "only_console s (enter_and_scroll_terminal t s)" "only_console s (enter_handler_terminal t s)"
  "only_console s (putc_terminal_wrap t s)" "only_console s (putc_terminal c t s)"
  "only_console s (copy_from_screen_buffer a s)" "only_console s (copy_to_screen_buffer a s)"
proof -
  show scroll: "only_console s (enter_and_scroll s)" for s :: "'a console_scheme"
    by (simp add: only_console_def enter_and_scroll_def Let_def)
  show enter: "only_console s (enter_handler s)" for s :: "'a console_scheme"
    by (simp add: only_console_def enter_handler_def Let_def only_consoleD [OF scroll])
  show wrap: "only_console s (putc_wrap s)" for s :: "'a console_scheme"
    by (simp add: only_console_def putc_wrap_def Let_def)
  show "only_console s (putc c s)"
    by (simp add: only_console_def putc_def Let_def only_consoleD [OF enter] only_consoleD [OF wrap])
  show "only_console s (backspace_handler s)" by (simp add: only_console_def backspace_handler_def Let_def)
  show "only_console s (key_arr_push c s)" by (simp add: only_console_def)
  show scroll': "only_console s (enter_and_scroll_terminal t s)" for s :: "'a console_scheme"
    by (simp add: only_console_def enter_and_scroll_terminal_def Let_def)
  show "only_console s (enter_handler_terminal t s)"
    by (simp add: only_console_def enter_handler_terminal_def Let_def only_consoleD [OF scroll'])
  show wrap': "only_console s (putc_terminal_wrap t s)" for s :: "'a console_scheme"
    by (simp add: only_console_def putc_terminal_wrap_def Let_def)
  show "only_console s (putc_terminal c t s)"
    by (simp add: only_console_def putc_terminal_def Let_def only_consoleD [OF wrap'] enter_handler_terminal_def
        only_consoleD [OF scroll'])
  show "only_console s (copy_from_screen_buffer a s)" "only_console s (copy_to_screen_buffer a s)"
    by (simp_all add: only_console_def copy_from_screen_buffer_def copy_to_screen_buffer_def)
qed

lemma only_console_loops:
  "only_console s (clear s)" "only_console s (key_arr_clear s)"
proof -
  have cell: "only_console s (put_cell b k c col s)" for b k c col and s :: "'a console_scheme"
    by (rule only_phys_only_console [OF only_phys_put_cell])
  show "only_console s (clear s)"
    unfolding clear_def Let_def
    by (rule con.frame_trans, rule con.frame_trans, (rule con.frame_loop, rule cell)+)
  have "only_console s (s\<lparr>key_arr_ptr := 0, key_arr_overflow := 0\<rparr>)" by (simp add: only_console_def)
  then show "only_console s (key_arr_clear s)"
    unfolding key_arr_clear_def by (rule con.frame_trans) (rule con.frame_loop, simp add: only_console_def)
qed

lemma only_phys_strrev_loop: "only_phys s (strrev_loop p b e s)"
proof (induction p b e s rule: strrev_loop.induct)
  case (1 p b e s)
  show ?case
  proof (cases "b < e")
    case True
    then show ?thesis
      using 1 by (subst strrev_loop.simps) (auto simp: Let_def intro: only_phys_trans [OF only_phys_st [OF only_phys_st [OF only_phys_refl]]])
  qed (simp add: strrev_loop.simps)
qed

lemma itoa_loop_phys:
  assumes "itoa_loop v b r s = Some y"
  shows "only_phys s (snd y)"
  by (rule itoa_loop.raw_induct [where P = "\<lambda>v b r s y. only_phys s (snd y)", OF _ assms])
    (auto split: if_splits, blast intro: only_phys_trans only_phys_st only_phys_refl)

lemma itoa_phys: "pred_option (only_phys s) (itoa v buf r s)"
proof -
  have "pred_option (only_phys s) (strrev buf t)" if "only_phys s t" for t
    using only_phys_trans [OF that only_phys_strrev_loop] unfolding strrev_def by (cases "strlen t buf") simp_all
  moreover have "pred_option (\<lambda>(b, t). only_phys s t) (itoa_loop v buf r s)"
    using itoa_loop_phys [of v buf r s] by (cases "itoa_loop v buf r s") force+
  ultimately show ?thesis
    unfolding itoa_def by (auto simp: only_phys_st intro!: pred_bind)
qed

text \<open>A relation that writes to memory and printed characters keep is kept by everything \<open>printf\<close> does.\<close>

locale print_frame = frame_relation R
  for R :: "'a console_scheme \<Rightarrow> 'a console_scheme \<Rightarrow> bool" +
  assumes frame_phys: "only_phys s t \<Longrightarrow> R s t"
    and frame_putc: "R s (putc c s)"
begin

lemma puts_loop_frame:
  assumes "puts_loop p i s = Some y"
  shows "R s (snd y)"
  by (rule puts_loop.raw_induct [where P = "\<lambda>p i s y. R s (snd y)", OF _ assms])
    (auto split: if_splits intro: frame_refl, blast intro: frame_trans frame_putc)

lemma puts_frame: "pred_option (\<lambda>(n, t). R s t) (puts p s)"
  using puts_loop_frame [of p 0 s] by (cases "puts p s") (force simp: puts_def)+

lemma frame_memory: "pred_option (only_phys s) m \<Longrightarrow> pred_option (R s) m"
  by (erule pred_mono) (rule frame_phys)

lemmas itoa_frame = frame_memory [OF itoa_phys]

lemma put_digits:
  assumes "pred_option (R s) m"
  shows "pred_option (R s) (m \<bind> (\<lambda>s. puts b s \<bind> (\<lambda>(_, s). Some s)))"
  by (rule pred_bind [OF assms], rule pred_bind [OF frame_result [OF puts_frame]]) auto

lemma print_frame:
  "pred_option (R s) (print_unsigned cb v s)" "pred_option (R s) (print_signed cb v s)"
  "pred_option (R s) (print_hex alt cb v s)"
proof -
  show "pred_option (R s) (print_unsigned cb v s)"
    unfolding print_unsigned_def by (rule put_digits [OF itoa_frame])
  have "R s (st cb 0x2D s)" by (rule frame_phys) (simp add: only_phys_st)
  then show "pred_option (R s) (print_signed cb v s)"
    unfolding print_signed_def
    by (intro put_digits) (auto intro: itoa_frame frame_state [OF itoa_frame])
  have loop: "R s (for_loop a b (\<lambda>i s. st (cb + word_of_nat i) 0x30 s) s)" for a b and s :: "'a console_scheme"
    by (rule frame_loop, rule frame_phys) (simp add: only_phys_st)
  show "pred_option (R s) (print_hex alt cb v s)"
  proof (cases alt)
    case False
    then show ?thesis unfolding print_hex_def by (simp only: not_False_eq_True if_True) (rule put_digits [OF itoa_frame])
  next
    case True
    have "pred_option (R s) (strlen t (cb + 8) \<bind> (\<lambda>n. let t = for_loop (unat n) 8 (\<lambda>i t. st (cb + word_of_nat i) 0x30 t) t
        in puts (cb + n) t \<bind> (\<lambda>(_, t). Some t)))" if "R s t" for t
    proof (cases "strlen t (cb + 8)")
      case (Some n)
      have "R s (for_loop (unat n) 8 (\<lambda>i t. st (cb + word_of_nat i) 0x30 t) t)"
        by (rule frame_trans [OF that loop])
      then show ?thesis unfolding Some Let_def bind.bind_lunit
        by (intro pred_bind [OF frame_result [OF puts_frame]]) auto
    qed simp
    then show ?thesis
      using True unfolding print_hex_def by (simp only: not_True_eq_False if_False) (rule pred_bind [OF itoa_frame])
  qed
qed

lemma printf_loop_frame: "pred_option (R s) (printf_loop m cb fmt args s)"
proof (induction fmt arbitrary: m args s)
  case Nil
  then show ?case by (cases m) (simp_all add: frame_refl)
next
  case (Cons c fmt)
  have putc: "pred_option (R s) (printf_loop m' cb fmt args' (putc d s))" for m' args' d
    by (rule frame_state [OF Cons.IH frame_putc])
  have num: "pred_option (R s) (p \<bind> (\<lambda>s. printf_loop None cb fmt args' s))"
    if "pred_option (R s) p" for p args'
    by (rule pred_bind [OF that], erule frame_state [OF Cons.IH])
  have str: "pred_option (R s) (puts v s \<bind> (\<lambda>(_, s). printf_loop None cb fmt args' s))" for v args'
    by (rule pred_bind_state [OF puts_frame], erule frame_state [OF Cons.IH])
  show ?case
    by (cases m; cases args) (simp_all add: Cons.IH putc num print_frame str)
qed

lemma printf_frame: "pred_option (\<lambda>(n, t). R s t) (printf cb fmt args s)"
  unfolding printf_def by (rule pred_bind [OF printf_loop_frame]) simp

end

interpretation con: print_frame only_console
  by unfold_locales (simp_all add: only_phys_only_console only_console_ops(4))

lemmas printf_console = con.printf_frame

lemma save_terminal_console: "only_console s (snd (save_terminal_info t s))"
  by (simp add: save_terminal_info_def Let_def only_console_def only_consoleD [OF only_console_ops(11)])

lemma restore_terminal_console: "pred_option (\<lambda>(r, u). only_console s u) (restore_terminal_info t s)"
  by (simp add: restore_terminal_info_def Let_def only_console_def only_consoleD [OF only_console_ops(12)])

section \<open>The process tables\<close>

text \<open>
  The tables stay, the terminal numbers stay in range, every control block stays the same process's, and
  the page tables go on describing an address space.
\<close>

definition same_process :: "pcb_t \<Rightarrow> pcb_t \<Rightarrow> bool" where
  "same_process b c \<longleftrightarrow> pid c = pid b \<and> parent_pid c = parent_pid b \<and> length (files c) = length (files b)
     \<and> length (argument c) = length (argument b)"

definition paging_ok :: "'a paging_scheme \<Rightarrow> bool" where
  "paging_ok s \<longleftrightarrow> (\<exists>prog vid. mapped s prog vid)"

definition keeps :: "'a kernel_scheme \<Rightarrow> 'a kernel_scheme \<Rightarrow> bool" where
  "keeps s t \<longleftrightarrow> process t = process s \<and> process_terminal t = process_terminal s
     \<and> process_terminal_cnt t = process_terminal_cnt s
     \<and> (unat (current_terminal s) < 3 \<longrightarrow> unat (current_terminal t) < 3)
     \<and> (unat (running_terminal s) < 3 \<longrightarrow> unat (running_terminal t) < 3)
     \<and> (\<forall>a. same_process (pcbs s a) (pcbs t a)) \<and> (paging_ok s \<longrightarrow> paging_ok t)"

interpretation krn: frame_relation keeps
  by unfold_locales (auto simp: keeps_def same_process_def)

lemma keeps_procs:
  assumes "keeps s t"
  shows "procs t = procs s" "used t = used s" "procs_ok s \<Longrightarrow> procs_ok t"
proof -
  show pr: "procs t = procs s" "used t = used s" using assms by (simp_all add: keeps_def procs_def used_def fun_eq_iff)
  assume "procs_ok s"
  then show "procs_ok t" using assms pr by (simp add: procs_ok_def tables_sized_def keeps_def same_process_def)
qed

lemma only_console_keeps: "only_console s (t :: 'a kernel_scheme) \<Longrightarrow> keeps s t"
  by (cases s; cases t) (simp add: only_console_def keeps_def same_process_def paging_ok_def mapped_def tables_def)

lemma same_process_refl [simp]: "same_process b b"
  by (simp add: same_process_def)

lemma only_phys_keeps: "only_phys s (t :: 'a kernel_scheme) \<Longrightarrow> keeps s t"
  by (rule only_console_keeps [OF only_phys_only_console])

lemma only_paging_keeps: "only_paging s (t :: 'a kernel_scheme) \<Longrightarrow> (paging_ok s \<Longrightarrow> paging_ok t) \<Longrightarrow> keeps s t"
  using only_paging_kernel [of s t] only_paging_fields(19,20) [of s t] by (simp add: keeps_def)

lemma keeps_maps:
  "p < 6 \<Longrightarrow> keeps s (map_program p s)" "keeps s (map_user_video s)" "unat tt < 3 \<Longrightarrow> keeps s (map_user_video_to_buffer tt s)"
  by (rule only_paging_keeps [OF only_paging_maps(1)], auto simp: paging_ok_def intro: map_program_mapped)
    (rule only_paging_keeps [OF only_paging_maps(2)], auto simp: paging_ok_def intro: map_user_video_mapped,
     rule only_paging_keeps [OF only_paging_maps(4)],
     auto simp: paging_ok_def map_user_video_to_buffer_def intro: map_user_video_mapped map_terminal_video_mapped)

lemmas paging_simps = paging_ok_def mapped_def tables_def

lemma keeps_updates:
  "keeps s (cli s)" "keeps s (sti s)" "keeps s (s\<lparr>enter_state := e\<rparr>)" "keeps s (s\<lparr>esp := x, ebp := y\<rparr>)"
  "keeps s (outb v pt s)" "keeps s (set_tss p s)" "keeps s (s\<lparr>retval := r\<rparr>)" "keeps s (s\<lparr>terminal_running := tr\<rparr>)"
  "keeps s (s\<lparr>constant_arr := ca\<rparr>)" "keeps s (s\<lparr>itr_occur_table := io\<rparr>)" "keeps s (s\<lparr>counter_table := ct\<rparr>)"
  "keeps s (s\<lparr>dir_location := dl\<rparr>)" "keeps s (s\<lparr>iflag := i\<rparr>)" "keeps s (s\<lparr>clk := c\<rparr>)" "keeps s (snd (inb pt s))"
  by (simp_all add: keeps_def cli_def sti_def outb_def set_tss_def inb_def paging_simps)

lemma keeps_st32: "keeps s (st32 a v s)"
  by (rule only_phys_keeps) (simp add: st32_def only_phys_st)

lemma keeps_ops:
  "keeps s (st a w s)" "keeps s (ti_upd tt f s)" "keeps s (putc ch s)" "keeps s (putc_terminal ch tt s)"
  "keeps s (send_eoi i s)" "keeps s (key_arr_clear s)" "keeps s (set_column_stack s)" "keeps s (clear s)"
  by (simp_all add: only_phys_keeps only_phys_st only_console_keeps only_console_ops only_console_loops)
    (simp_all add: keeps_def send_eoi_def outb_def set_column_stack_def Let_def ti_upd_def paging_simps)

lemma keeps_pcb_upd: "(\<And>b. same_process b (f b)) \<Longrightarrow> keeps s (pcb_upd a f s)"
  by (simp add: keeps_def) (simp add: paging_ok_def)

lemma keeps_fd_upd: "keeps s (fd_upd a i f s)"
  unfolding fd_upd_def by (rule keeps_pcb_upd) (simp add: same_process_def)

lemma only_phys_read_data_loop: "only_phys s (snd (read_data_loop p ofs n buf r s))"
proof (induction p ofs n buf r s rule: read_data_loop.induct)
  case (1 p ofs n buf r s)
  then show ?case
    by (subst read_data_loop.simps) (auto simp: Let_def only_phys_memcpy intro: only_phys_trans [OF only_phys_memcpy])
qed

lemma only_phys_read_data: "only_phys s (snd (read_data i ofs buf len s))"
  unfolding read_data_def
  by (auto simp: Let_def only_phys_memcpy intro: only_phys_trans [OF only_phys_memcpy only_phys_read_data_loop])

lemmas read_data_keeps = only_phys_keeps [OF only_phys_read_data]

lemma only_phys_stores: "(\<And>i t. only_phys t (f i t)) \<Longrightarrow> only_phys s (for_loop a b f s)"
  by (rule for_loop_invariant [where P = "only_phys s"]) (auto intro: only_phys_trans)

lemma only_phys_strncpy_local: "only_phys s (strncpy_local dst src n s)"
  unfolding strncpy_local_def Let_def
  by (rule only_phys_trans; rule only_phys_stores; simp add: only_phys_st)

lemma read_data_keepsD: "read_data i ofs buf len s = (r, t) \<Longrightarrow> keeps s (t :: 'a kernel_scheme)"
  using read_data_keeps [of s i ofs buf len] by simp

text \<open>Chains of operations, from the last back to the first.\<close>

lemmas keeps_steps = krn.frame_refl keeps_updates [THEN krn.frame_trans [rotated]] keeps_ops [THEN krn.frame_trans [rotated]]
  keeps_maps(2) [THEN krn.frame_trans [rotated]] keeps_fd_upd [THEN krn.frame_trans [rotated]] keeps_pcb_upd [THEN krn.frame_trans [rotated]]
  only_phys_keeps [OF only_phys_strncpy_local, THEN krn.frame_trans [rotated]]
  krn.frame_loop [THEN krn.frame_trans [rotated]]

end
