(* ===== verification/Kernel_Invariant.thy ===== *)
theory Kernel_Invariant
  imports Kernel_Frame
begin

text \<open>
  The process tables stay consistent. \<open>kernel_step\<close> has a rule for every way into the kernel, the system
  calls and the interrupt handlers, and one for what user code does in between; \<open>procs_ok\<close> is
  an invariant of it.
\<close>

definition kernel_ok :: "'a kernel_scheme \<Rightarrow> bool" where
  "kernel_ok s \<longleftrightarrow> procs_ok s \<and> paging_ok s"

lemma keeps_ok: "keeps s t \<Longrightarrow> kernel_ok s \<Longrightarrow> kernel_ok t"
  using keeps_procs(3) [of s t] by (simp add: kernel_ok_def keeps_def)

abbreviation kept :: "'a kernel_scheme \<Rightarrow> ('r \<times> 'a kernel_scheme) option \<Rightarrow> bool" where
  "kept s m \<equiv> pred_option (\<lambda>(r, t). keeps s t) m"

section \<open>The drivers\<close>

lemma kept_some: "keeps s (snd p) \<Longrightarrow> kept s (Some p)"
  by (cases p) simp

lemma terminal_read_kept: "kept s (terminal_read fd buf n s)"
  unfolding terminal_read_def Let_def
  by (simp, intro impI pred_bind_state [OF printf_console] kept_some) (simp, intro keeps_steps only_console_keeps)

lemma terminal_write_kept: "keeps s (snd (terminal_write fd buf n s))"
  unfolding terminal_write_def Let_def by (simp, intro conjI impI keeps_steps)

lemma file_read_kept: "keeps s (snd (file_read fd buf n s))"
  unfolding file_read_def Let_def by (auto split: prod.splits dest: read_data_keepsD intro!: keeps_fd_upd [THEN krn.frame_trans [rotated]])

lemma dir_read_kept: "kept s (dir_read fd buf n s)"
  unfolding dir_read_def Let_def by (simp split: prod.splits option.splits) (intro conjI impI allI keeps_steps)

lemma rtc_set_freq_kept: "kept s (rtc_set_freq f s)"
  unfolding rtc_set_freq_def Let_def
  by (simp, intro conjI impI keeps_steps)

lemma rtc_kept:
  "kept s (rtc_read fd buf n s)" "kept s (rtc_write fd buf n s)" "kept s (rtc_open a s)"
  by (simp_all add: rtc_read_def rtc_write_def rtc_open_def keeps_updates krn.frame_refl rtc_set_freq_kept)
    (rule pred_bind_state [OF rtc_set_freq_kept], simp)

lemma call_kept:
  "kept s (call_open p a s)" "kept s (call_read p fd buf n s)" "kept s (call_write p fd buf n s)" "kept s (call_close p fd s)"
  by (cases p; simp only: call_open.simps call_read.simps call_write.simps call_close.simps rtc_kept terminal_read_kept dir_read_kept
      kept_some [OF terminal_write_kept] kept_some [OF file_read_kept]; simp add: fail_def terminal_open_def dir_open_def file_open_def
      krn.frame_refl keeps_updates dir_write_def file_write_def terminal_close_def dir_close_def rtc_close_def file_close_def)+

section \<open>The system calls on descriptors\<close>

lemma sys_read_kept: "kept s (sys_read fd buf n s)"
  by (simp add: sys_read_def krn.frame_refl call_kept)

lemma sys_write_kept: "kept s (sys_write fd buf n s)"
  by (simp add: sys_write_def krn.frame_refl call_kept)

lemma sys_open_kept: "kept s (sys_open a s)"
proof -
  have inv: "kept s (printf cb fmt args u \<bind> (\<lambda>(_, t). Some (r, t)))" if "keeps s u" for cb fmt args u and r :: i32
    using that by (intro pred_bind_state [OF printf_console]) (auto intro: krn.frame_trans only_console_keeps)
  have fin: "kept s (call_open p a u \<bind> (\<lambda>(r, t). if r = - 1 then Some (- 1, t) else Some (v, t)))" if "keeps s u" for p u and v :: i32
    by (rule pred_bind_state [OF krn.frame_result [OF call_kept(1) that]]) simp
  show ?thesis
    unfolding sys_open_def Let_def
    by (cases "read_dentry_by_name a s")
      (auto split: option.splits simp: krn.frame_refl intro!: inv fin keeps_steps)
qed

lemma sys_close_kept: "kept s (sys_close fd s)"
  by (simp add: sys_close_def Let_def krn.frame_refl krn.frame_result [OF call_kept(4) keeps_fd_upd])

lemma other_calls_kept:
  "kept s (getargs buf n s)" "keeps s (snd (vidmap a s))" "keeps s (snd (set_handler sig h s))" "keeps s (snd (sigreturn s))"
proof -
  show "kept s (getargs buf n s)"
    by (simp add: getargs_def Let_def krn.frame_refl only_phys_keeps [OF only_phys_strncpy_local] split: option.splits)
  show "keeps s (snd (vidmap a s))"
    by (simp add: vidmap_def Let_def krn.frame_refl krn.frame_trans [OF keeps_maps(2) keeps_st32])
  show "keeps s (snd (set_handler sig h s))" "keeps s (snd (sigreturn s))"
    by (auto simp: set_handler_def sigreturn_def krn.frame_refl same_process_def intro!: keeps_pcb_upd)
qed

section \<open>Starting and ending processes\<close>

lemma copy_name_console: "pred_option (\<lambda>(r, t). only_console s t) (copy_name command start len i s)"
proof (induction command start len i s rule: copy_name.induct)
  case (1 command start len i s)
  have msg: "pred_option (\<lambda>(r, t). only_console s t) (printf cb fmt args s \<bind> (\<lambda>(_, t). Some (e, t)))" for cb fmt args and e :: "i32 + u32"
    by (rule pred_bind_state [OF printf_console]) simp
  have step: "only_console s (st a v s)" for a v by (rule only_phys_only_console) (simp add: only_phys_st)
  show ?case
    by (subst copy_name.simps) (auto simp: con.frame_refl intro!: msg con.frame_result [OF 1 step])
qed

lemma copy_args_console:
  assumes "copy_args rest n s = Some t"
  shows "only_phys s t"
  by (rule copy_args.raw_induct [where P = "\<lambda>rest n s t. only_phys s t", OF _ assms])
    (auto split: if_splits simp: only_phys_st, blast intro: only_phys_trans only_phys_st only_phys_refl)

lemma parse_command_console: "pred_option (\<lambda>(r, t). only_console s t) (parse_command command s)"
proof -
  have args: "pred_option (only_console t) (copy_args rest n t)" for rest n and t :: "'a console_scheme"
    using copy_args_console [of rest n t] by (cases "copy_args rest n t") (auto intro: only_phys_only_console)
  have fin: "pred_option (\<lambda>(r, t). only_console s t) (copy_args rest n (st a v u) \<bind> (\<lambda>t. Some (r, t)))"
    if "only_console s u" for rest n a v u and r :: "i32 option"
    by (rule pred_bind [OF con.frame_state [OF args con_step [OF that only_phys_st [OF only_phys_refl]]]]) simp
  have body: "pred_option (\<lambda>(r, t). only_console s t) (copy_name command start len start s \<bind> (\<lambda>(r, s). case r of
      Inl e \<Rightarrow> Some (Some e, s)
    | Inr i \<Rightarrow> copy_args rest 0 (st (g i s) 0 s) \<bind> (\<lambda>s. Some (None, s))))" for start len rest g
    by (rule pred_bind_state [OF copy_name_console]) (auto split: sum.splits intro!: fin)
  show ?thesis
    unfolding parse_command_def Let_def
    by (cases "skip_spaces command 0 s"; simp; cases "word_length command (the (skip_spaces command 0 s)) 0 s"; simp add: body)
qed

lemma launch_ok:
  assumes "procs_ok v" "find (\<lambda>p. process v ! p = NOT_IN_USE) [0..<6] = Some k"
    "pcbs u = pcbs v" "process u = (process v)[k := IN_USE]" "process_terminal u = process_terminal v"
    "process_terminal_cnt u = process_terminal_cnt v" "current_terminal u = current_terminal v" "running_terminal u = running_terminal v"
    "create_pcb (word_of_nat k) u = Some w"
  shows "procs_ok w" "paging_ok u \<Longrightarrow> paging_ok w"
proof -
  let ?p = "get_pid v"
  have sz: "tables_sized v" using assms(1) by (simp add: procs_ok_def)
  have k6: "k < 6" using assms(2) by (auto simp: find_Some_iff)
  have p: "?p = word_of_nat k" using assms(2) by (simp add: get_pid_def)
  have uk: "unat ?p = k" unfolding p by (rule unat_of_nat_u32) (use k6 in simp)
  have "unat (- 1 :: u32) = 2 ^ 32 - 1" by (simp add: unsigned_minus_1_eq_mask mask_eq_exp_minus_1)
  then have n1: "?p \<noteq> - 1" using uk k6 by auto
  have "length (process v) = 6" using sz by (simp add: tables_sized_def)
  then have free: "?p \<notin> used v" "?p < 6" using get_pid_free [OF n1] by blast+
  have usz: "tables_sized u" using sz assms(3-8) by (simp add: tables_sized_def)
  have par: "parent_of ?p u = parent_of ?p v" using assms(5-7) by (simp add: parent_of_def top_process_def Let_def)
  have ct: "unat (current_terminal v) < 3" using sz by (simp add: tables_sized_def)
  have cnt: "unat (process_terminal_cnt u ! unat (current_terminal u)) < 6"
    using procs_short [OF assms(1) free(2,1) ct] assms(6,7) by simp
  have po: "?p \<noteq> 0 \<Longrightarrow> parent_of ?p u < 6 \<and> parent_of ?p u \<noteq> ?p \<and> pid (pcbs u (get_pcb_by_index (parent_of ?p u))) = parent_of ?p u"
    using parent_of_ok [OF assms(1) n1] par assms(3) by simp
  define b where "b = new_pcb ?p (parent_of ?p v) u"
  have "create_pcb ?p u = Some (push_process ?p b (u\<lparr>process := process v\<rparr>))"
    using create_pcb_eq [OF usz cnt free(2) po] par assms(4) uk by (simp add: push_process_def Let_def b_def)
  then have w: "w = push_process ?p b (u\<lparr>process := process v\<rparr>)" using assms(9) p by simp
  have pv: "procs_ok (u\<lparr>process := process v\<rparr>)" "used (u\<lparr>process := process v\<rparr>) = used v"
    using procs_cong [of "u\<lparr>process := process v\<rparr>" v] assms by simp_all
  have q6: "parent_of ?p v < 6" using parent_of_ok(1) [OF assms(1) n1] by (cases "?p = 0") (simp_all add: parent_of_def)
  have "length (files (pcbs u (get_pcb_by_index ?p))) = 8" "length (argument (pcbs u (get_pcb_by_index ?p))) = 100"
    using usz free(2) by (simp_all add: tables_sized_def)
  then have "pid b = ?p" "parent_pid b < 6" "length (files b) = 8" "length (argument b) = 100"
    using q6 by (simp_all add: b_def new_pcb_def Let_def)
  then show "procs_ok w" unfolding w using push_process_ok(3) [OF pv(1) free(2)] pv(2) free(1) by simp
  assume "paging_ok u"
  then show "paging_ok w" unfolding w by (simp add: push_process_def Let_def paging_simps)
qed

text \<open>A result state with consistent tables.\<close>

abbreviation fine :: "('r \<times> 'a kernel_scheme) option \<Rightarrow> bool" where
  "fine m \<equiv> pred_option (\<lambda>(r, t). kernel_ok t) m"

lemma kept_fine: "kept s m \<Longrightarrow> kernel_ok s \<Longrightarrow> fine m"
  by (erule pred_mono) (auto intro: keeps_ok)

lemma pred_bind_option:
  assumes "pred_option (\<lambda>(r, t). Q t) m" "\<And>e t. Q t \<Longrightarrow> pred_option P (f e t)" "\<And>t. Q t \<Longrightarrow> pred_option P (g t)"
  shows "pred_option P (m \<bind> (\<lambda>(r, t). case r of None \<Rightarrow> g t | Some e \<Rightarrow> f e t))"
  by (rule pred_bind_state [OF assms(1)]) (auto split: option.split intro: assms(2,3))

lemma kernel_ok_sti: "kernel_ok (sti t) = kernel_ok t" "kernel_ok (set_tss r t) = kernel_ok t"
  using procs_cong(4) [of "sti t" t] procs_cong(4) [of "set_tss r t" t]
  by (simp_all add: kernel_ok_def sti_def set_tss_def paging_simps)

lemma launch_fine:
  assumes "kernel_ok v" "find (\<lambda>p. process v ! p = NOT_IN_USE) [0..<6] = Some k"
  shows "fine (create_pcb (word_of_nat k) (snd (read_data i ofs buf len (map_program (word_of_nat k) (v\<lparr>process := (process v)[k := IN_USE]\<rparr>))))
    \<bind> (\<lambda>s. Some (Enter_user eip, sti (set_tss r s))))"
proof (rule pred_bind)
  let ?v = "v\<lparr>process := (process v)[k := IN_USE]\<rparr>"
  let ?m = "map_program (word_of_nat k) ?v"
  let ?u = "snd (read_data i ofs buf len ?m)"
  have k: "k < 6" using assms(2) by (auto simp: find_Some_iff)
  then have "word_of_nat k < (6 :: u32)" by (simp add: word_less_nat_alt unat_of_nat_u32)
  then have "keeps ?v ?u" by (rule krn.frame_trans [OF keeps_maps(1) read_data_keeps])
  moreover have "paging_ok ?v" using assms(1) by (simp add: kernel_ok_def paging_simps)
  ultimately have u: "paging_ok ?u" by (simp add: keeps_def)
  note same = only_phys_kernel [OF only_phys_read_data, of i ofs buf len ?m]
  have v: "procs_ok v" using assms(1) by (simp add: kernel_ok_def)
  have "kernel_ok w" if "create_pcb (word_of_nat k) ?u = Some w" for w
    using launch_ok [OF v assms(2), of ?u w] same that u by (simp add: kernel_ok_def)
  then show "pred_option kernel_ok (create_pcb (word_of_nat k) ?u)"
    by (cases "create_pcb (word_of_nat k) ?u") simp_all
qed (simp add: kernel_ok_sti)

lemma execute_fine:
  assumes "kernel_ok s"
  shows "fine (execute command s)"
proof -
  have ok: "kernel_ok u" if "keeps (cli s) u" for u using keeps_ok [OF krn.frame_trans [OF keeps_updates(1) that]] assms by simp
  have tail: "fine (read_dentry_by_name (exe_name u) u \<bind> (\<lambda>(_, d). case d of
      None \<Rightarrow> Some (Return (- 1), u)
    | Some dentry \<Rightarrow> let (_, s) = read_data (i_node dentry) 0 (magics u) 4 u
        in if read_bytes s (magics s) 4 \<noteq> [0x7F, 0x45, 0x4C, 0x46] then Some (Return (- 1), s)
           else let (_, s) = read_data (i_node dentry) 24 (magics s) 4 s; eip = ld32 s (magics s)
                in case find (\<lambda>p. process s ! p = NOT_IN_USE) [0..<6] of
                     None \<Rightarrow> Some (Return (- 1), s)
                   | Some p \<Rightarrow> do {
                       let s = s\<lparr>process := (process s)[p := IN_USE]\<rparr>;
                       let s = map_program (word_of_nat p) s;
                       let (_, s) = read_data (i_node dentry) 0 PROGRAM_OFFSET FOUR_MB_SIZE s;
                       s \<leftarrow> create_pcb (word_of_nat p) s;
                       let s = set_tss (word_of_nat p) s;
                       Some (Enter_user eip, sti s) }))" if u: "keeps (cli s) u" for u
  proof -
    have one: "kernel_ok (snd (read_data i ofs b n u))" for i ofs b n
      by (rule ok [OF krn.frame_trans [OF u read_data_keeps]])
    have two: "kernel_ok (snd (read_data i' ofs' b' n' (snd (read_data i ofs b n u))))" for i ofs b n i' ofs' b' n'
      by (rule ok [OF krn.frame_trans [OF krn.frame_trans [OF u read_data_keeps] read_data_keeps]])
    show ?thesis
      unfolding Let_def case_prod_beta
      by (cases "read_dentry_by_name (exe_name u) u")
        (auto simp: ok [OF u] one two intro: launch_fine [OF two, unfolded case_prod_beta] split: option.splits)
  qed
  show ?thesis
    unfolding execute_def Let_def [of "cli s"]
    by (rule pred_bind_option [OF parse_command_console]; drule only_console_keeps) (simp add: ok, erule tail)
qed

lemma close_files_keeps: "pred_option (keeps s) (close_files a is s)"
proof (induction "is" arbitrary: s)
  case (Cons i "is")
  have "pred_option (keeps s) (if c then do { (_, s) \<leftarrow> call_close p fd s; Some s } else Some s)" for c p fd
    by (simp add: krn.frame_refl) (intro impI pred_bind_state [OF call_kept(4)], simp)
  then show ?case
    unfolding close_files.simps
    by (rule pred_bind) (rule krn.frame_state [OF Cons.IH krn.frame_trans [OF _ keeps_fd_upd]])
qed (simp add: krn.frame_refl)

lemma taken_down_ok:
  assumes "kernel_ok s" "procs s (unat (running_terminal s)) = ps @ [p]"
  shows "kernel_ok (taken_down p s)"
proof -
  let ?q = "parent_pid (pcbs s (get_pcb_by_index p))"
  let ?u = "set_tss ?q (map_program ?q (cli s))"
  have ok: "procs_ok s" using assms(1) by (simp add: kernel_ok_def)
  have "?q < 6" using ok popped_ok(5) [OF ok assms(2)] by (simp add: procs_ok_def)
  then have u: "keeps s ?u" by (intro keeps_maps(1) [THEN krn.frame_trans [rotated]] keeps_steps)
  have rt: "running_terminal ?u = running_terminal s" by (simp add: set_tss_def)
  have "procs_ok (popped p ?u)"
    using popped_ok(3) [of ?u ps p] keeps_procs [OF u] ok assms(2) by (simp add: rt)
  moreover have "paging_ok ?u" using u assms(1) by (simp add: keeps_def kernel_ok_def)
  then have "paging_ok (popped p ?u)" by (simp add: popped_def Let_def paging_simps)
  ultimately show ?thesis by (simp add: taken_down_def Let_def kernel_ok_def)
qed

lemma fine_control:
  assumes "fine m" "\<And>t. kernel_ok t \<Longrightarrow> kernel_ok (g t)"
  shows "fine (m \<bind> (\<lambda>(c, t). case c of Return _ \<Rightarrow> Some (h t, g t) | _ \<Rightarrow> Some (c, t)))"
  by (rule pred_bind_state [OF assms(1)]) (auto split: control.splits intro: assms(2))

lemma halt_fine:
  assumes "kernel_ok s"
  shows "fine (halt status s)"
proof (cases "procs s (unat (running_terminal s))" rule: rev_cases)
  case Nil
  have sz: "tables_sized s" using assms by (simp add: kernel_ok_def procs_ok_def)
  then have "unat (running_terminal s) < 3" by (simp add: tables_sized_def)
  then have "top_process (running_terminal (cli s)) (cli s) = None"
    using top_process_last [OF sz] Nil procs_cong(5) [of "cli s" s] by (simp add: cli_def)
  then show ?thesis unfolding halt_def Let_def by simp
next
  case (snoc ps p)
  have "pred_option kernel_ok (close_files (get_pcb_by_index p) [0..<8] (taken_down p s))"
    by (rule pred_mono [OF close_files_keeps]) (rule keeps_ok, simp, rule taken_down_ok [OF assms snoc])
  then show ?thesis
    unfolding halt_unfold [OF conjunct1 [OF assms [unfolded kernel_ok_def]] snoc]
  proof (rule pred_bind)
    fix u assume u: "kernel_ok (u :: 'a kernel_scheme)"
    have upd: "kernel_ok (t\<lparr>retval := r, esp := x, ebp := y, iflag := i\<rparr>) = kernel_ok t" for t :: "'a kernel_scheme" and r x y i
      using procs_cong(4) [of "t\<lparr>retval := r, esp := x, ebp := y, iflag := i\<rparr>" t] by (simp add: kernel_ok_def paging_simps)
    have "fine (if c then execute (str_shell u) u else Some (Return 0, u))" for c
      using u execute_fine [OF u] by simp
    then show "fine ((if pid (pcbs u (get_pcb_by_index p)) = 0 \<or> process_terminal_cnt u ! unat (running_terminal s) = 0
        then execute (str_shell u) u else Some (Return 0, u)) \<bind> (\<lambda>(c, u). case c of
           Return _ \<Rightarrow> Some (Return_to_execute (if status = 0xF then 256 else 0),
                         u\<lparr>retval := ucast status, esp := parent_esp (pcbs s (get_pcb_by_index p)),
                           ebp := parent_ebp (pcbs s (get_pcb_by_index p)), iflag := True\<rparr>)
         | _ \<Rightarrow> Some (c, u)))"
      by (rule fine_control) (simp only: upd)
  qed
qed

lemma send_signal_fine: "kernel_ok s \<Longrightarrow> fine (send_signal n s)"
  by (simp add: halt_fine send_signal_def signal_default_def kill_def kill0_def split: sighandler_t.splits)

section \<open>Terminals, sound and the interrupt handlers\<close>

lemma execute_shell_fine: "kernel_ok s \<Longrightarrow> fine (execute_shell s)"
  unfolding execute_shell_def by (rule fine_control [OF execute_fine])

lemma switch_to_terminal_fine:
  assumes "kernel_ok s"
  shows "fine (switch_to_terminal t s)"
proof -
  have ok: "kernel_ok u" if "keeps (cli s) u" for u
    using keeps_ok [OF krn.frame_trans [OF keeps_updates(1) that]] assms by simp
  have saved: "keeps (cli s) (clear (snd (save_terminal_info c u)\<lparr>current_terminal := t\<rparr>))" if "keeps (cli s) u" "unat t < 3" for c u
  proof -
    have "keeps v (v\<lparr>current_terminal := t\<rparr>)" for v :: "'a kernel_scheme" using that(2) by (simp add: keeps_def paging_simps)
    from krn.frame_trans [OF krn.frame_trans [OF krn.frame_trans [OF that(1) only_console_keeps [OF save_terminal_console]] this] keeps_ops(8)]
    show ?thesis .
  qed
  have restored: "kept (cli s) (restore_terminal_info c u)" if "keeps (cli s) u" for c u
    by (rule krn.frame_result [OF _ that]) (rule pred_mono [OF restore_terminal_console], auto intro: only_console_keeps)
  have msg: "fine (printf cb fmt args (cli s) \<bind> (\<lambda>(_, u). Some (r, u)))" for cb fmt args and r :: control
    by (rule pred_bind_state [OF printf_console]) (auto intro: ok only_console_keeps)
  have shell: "fine (restore_terminal_info c u \<bind> (\<lambda>(_, s). execute_shell
      (sti (pcb_upd (get_curr_pcb s) (\<lambda>b. b\<lparr>schedule_esp := esp s, schedule_ebp := ebp s\<rparr>) s\<lparr>running_terminal := t\<rparr>))))"
    if "keeps (cli s) u" "unat t < 3" for c u
  proof (rule pred_bind_state [OF restored [OF that(1)]], rule execute_shell_fine)
    fix v assume v: "keeps (cli s) v"
    have rt: "keeps w (w\<lparr>running_terminal := t\<rparr>)" for w :: "'a kernel_scheme" using that(2) by (simp add: keeps_def paging_simps)
    have pcb: "keeps v (pcb_upd (get_curr_pcb v) (\<lambda>b. b\<lparr>schedule_esp := esp v, schedule_ebp := ebp v\<rparr>) v)"
      by (rule keeps_pcb_upd) (simp add: same_process_def)
    show "kernel_ok (sti (pcb_upd (get_curr_pcb v) (\<lambda>b. b\<lparr>schedule_esp := esp v, schedule_ebp := ebp v\<rparr>) v\<lparr>running_terminal := t\<rparr>))"
      by (rule ok [OF krn.frame_trans [OF krn.frame_trans [OF krn.frame_trans [OF v pcb] rt] keeps_updates(2)]])
  qed
  have resume: "fine (restore_terminal_info c u \<bind> (\<lambda>(_, s). Some (r, sti s)))" if "keeps (cli s) u" for c u and r :: control
    by (rule pred_bind_state [OF restored [OF that]]) (auto intro!: ok keeps_updates(2) [THEN krn.frame_trans [rotated]])
  have tr: "keeps (cli s) (cli s\<lparr>terminal_running := x\<rparr>)" for x by (rule keeps_updates)
  obtain r1 u1 r2 u2 where sv: "save_terminal_info (current_terminal s) (cli s\<lparr>terminal_running := (terminal_running (cli s))[unat t := 1]\<rparr>) = (r1, u1)"
      "save_terminal_info (current_terminal s) (cli s) = (r2, u2)" by (metis surj_pair)
  have c: "keeps (cli s) (clear (u1\<lparr>current_terminal := t\<rparr>))" "keeps (cli s) (clear (u2\<lparr>current_terminal := t\<rparr>))" if "unat t < 3"
    using saved [OF tr that, of "current_terminal s"] saved [OF krn.frame_refl that, of "current_terminal s"] sv
    by (simp_all, metis snd_conv)
  show ?thesis
    unfolding switch_to_terminal_def Let_def
    using c by (simp add: ok [OF krn.frame_refl] msg sv shell resume not_le)
qed

text \<open>Port accesses.\<close>

definition only_machine :: "'a machine_scheme \<Rightarrow> 'a machine_scheme \<Rightarrow> bool" where
  "only_machine s t \<longleftrightarrow> machine.more t = machine.more s \<and> xl t = xl s"

interpretation mach: frame_relation only_machine
  by unfold_locales (simp_all add: only_machine_def)

lemma only_machine_keeps: "only_machine s (t :: 'a kernel_scheme) \<Longrightarrow> keeps s t"
  by (cases s; cases t) (simp add: only_machine_def keeps_def paging_simps)

lemma only_machine_ports:
  "only_machine s (outb v p s)" "only_machine s (snd (inb p s))" "only_machine s (DSP_outb w q s)" "only_machine s (snd (DSP_inb q s))"
  by (simp_all add: only_machine_def outb_def inb_def DSP_outb_def DSP_inb_def)

lemma dsp_poll_machine: "pred_option (\<lambda>(v, t). only_machine s t) (dsp_poll ready port s)"
proof -
  have "only_machine s (snd y)" if "dsp_poll ready port s = Some y" for y
    by (rule dsp_poll.raw_induct [where P = "\<lambda>r p s y. only_machine s (snd y)", OF _ that])
      (auto split: prod.splits if_splits simp: DSP_inb_def inb_def only_machine_def)
  then show ?thesis by (cases "dsp_poll ready port s") force+
qed

lemma Write_DSP_machine: "pred_option (only_machine s) (Write_DSP d s)"
  unfolding Write_DSP_def
  by (rule pred_bind_state [OF dsp_poll_machine]) (auto intro: mach.frame_trans only_machine_ports)

lemma dsp_commands_machine:
  "pred_option (only_machine s) (Set_Sample_Rate f s)" "pred_option (only_machine s) (start_play n s)"
  "pred_option (\<lambda>(r, t). only_machine s t) (Reset_DSP s)" "only_machine s (Transfer_Sound_DMA c mode a size0 s)"
proof -
  note wr = Write_DSP_machine mach.frame_state [OF Write_DSP_machine]
  show "pred_option (only_machine s) (Set_Sample_Rate f s)"
    unfolding Set_Sample_Rate_def
    by (rule pred_bind [OF wr(1)], rule pred_bind [OF wr(2)], assumption, erule wr(2))
  show "pred_option (only_machine s) (start_play n s)"
    unfolding start_play_def Let_def
    by (rule pred_bind [OF wr(1)], rule pred_bind [OF wr(2)], assumption, rule pred_bind [OF wr(2)], assumption,
        erule wr(2))
  show "pred_option (\<lambda>(r, t). only_machine s t) (Reset_DSP s)"
    unfolding Reset_DSP_def Let_def
    by (intro pred_bind_state [OF mach.frame_result [OF dsp_poll_machine]])
      (auto simp: only_machine_def DSP_outb_def outb_def)
  show "only_machine s (Transfer_Sound_DMA c mode a size0 s)"
    by (simp add: Transfer_Sound_DMA_def Let_def only_machine_def outb_def)
qed

lemma machine_result_keeps:
  "pred_option (only_machine s) m \<Longrightarrow> pred_option (keeps s) (m :: 'a kernel_scheme option)"
  "pred_option (\<lambda>(r, t). only_machine s t) m' \<Longrightarrow> kept s (m' :: ('r \<times> 'a kernel_scheme) option)"
  by (erule pred_mono, auto intro: only_machine_keeps)+

lemmas sound_keeps = machine_result_keeps(1) [OF Write_DSP_machine] machine_result_keeps(1) [OF dsp_commands_machine(1)]
  machine_result_keeps(1) [OF dsp_commands_machine(2)]

lemma keeps_sound:
  "keeps s (s\<lparr>audio_file_inode := i\<rparr>)" "keeps s (s\<lparr>audio_filename := n\<rparr>)" "keeps s (s\<lparr>audio_fd := fd\<rparr>)"
  "keeps s (s\<lparr>is_playing := p\<rparr>)" "keeps s (s\<lparr>current_offset := ofs\<rparr>)" "keeps s (s\<lparr>cur_block := b\<rparr>)"
  "keeps s (s\<lparr>is_playing := p, audio_file_inode := i, current_offset := ofs, cur_block := b\<rparr>)"
  by (simp_all add: keeps_def paging_simps)

lemma stop_keeps: "pred_option (keeps s) (stop s)"
  unfolding stop_def Let_def
  by (rule pred_bind [OF sound_keeps(1)], simp, rule krn.frame_trans, rule krn.frame_trans [OF _ keeps_sound(7)], assumption,
      rule krn.frame_loop, rule keeps_sound)

lemma pred_if: "pred_option P a \<Longrightarrow> pred_option P b \<Longrightarrow> pred_option P (if c then a else b)"
  by simp

lemma sb16_handler_keeps: "pred_option (keeps s) (sb16_handler s)"
proof -
  obtain v s1 where d: "DSP_inb 0xE s = (v, s1)" by fastforce
  then have k1: "keeps s (cli (send_eoi 5 s1))"
    using only_machine_keeps [OF only_machine_ports(4), of s "0xE"] by (intro keeps_steps) simp
  obtain n s2 where r: "read_data (audio_file_inode (cli (send_eoi 5 s1))) (current_offset (cli (send_eoi 5 s1)))
      (cur_block (cli (send_eoi 5 s1))) BLOCK_SIZE (cli (send_eoi 5 s1)) = (n, s2)" by fastforce
  have k2: "keeps s (sti (s2\<lparr>current_offset := x\<rparr>))" for x
    by (rule krn.frame_trans [OF krn.frame_trans [OF krn.frame_trans [OF k1 read_data_keepsD [OF r]] keeps_sound(5)] keeps_updates(2)])
  show ?thesis
    unfolding sb16_handler_def Let_def d r prod.case
    by (intro pred_if krn.frame_state [OF stop_keeps] krn.frame_state [OF sound_keeps(3)] krn.frame_trans [OF _ keeps_sound(6)] k2)
      (simp add: k2)
qed

text \<open>The part of \<open>play_music\<close> that programs the card.\<close>

lemma play_programmed:
  assumes "keeps s u"
  shows "kept s (do {
      let (n, u) = read_data i ofs buf len u;
      let u = Transfer_Sound_DMA c mode (a u) size0 u;
      u \<leftarrow> Set_Sample_Rate f u;
      u \<leftarrow> start_play k u;
      let u = u\<lparr>is_playing := 1\<rparr>;
      Some (0 :: u8, u\<lparr>current_offset := current_offset u + n\<rparr>) })"
proof -
  obtain n v where r: "read_data i ofs buf len u = (n, v)" by fastforce
  have k: "keeps s (Transfer_Sound_DMA c mode (a v) size0 v)"
    by (rule krn.frame_trans [OF krn.frame_trans [OF assms read_data_keepsD [OF r]] only_machine_keeps [OF dsp_commands_machine(4)]])
  show ?thesis
    unfolding r prod.case Let_def
    by (rule pred_bind [OF krn.frame_state [OF sound_keeps(2) k]], rule pred_bind [OF krn.frame_state [OF sound_keeps(3)]], assumption)
      (simp, rule krn.frame_trans [OF krn.frame_trans [OF _ keeps_sound(4)] keeps_sound(5)])
qed

lemma play_music_kept: "kept s (play_music f s)"
proof -
  have msg: "kept s (printf cb fmt args u \<bind> (\<lambda>(_, t). Some (r, t)))" if "keeps s u" for cb fmt args u and r :: u8
    by (rule pred_bind_state [OF printf_console]) (auto intro: krn.frame_trans [OF that only_console_keeps])
  show ?thesis
  proof (cases "is_playing s = 1 \<or> read_dentry_by_name f s = None")
    case True
    then show ?thesis by (auto simp: play_music_def krn.frame_refl)
  next
    case False
    then obtain r d where d: "read_dentry_by_name f s = Some (r, d)" by auto
    show ?thesis
    proof (cases d)
      case None
      then show ?thesis using False d msg [OF krn.frame_refl] by (simp add: play_music_def)
    next
      case (Some dentry)
      let ?s = "s\<lparr>audio_file_inode := i_node dentry\<rparr>"
      obtain n u where u: "read_data (audio_file_inode ?s) 0 (magics ?s) 4 ?s = (n, u)" by fastforce
      have ku: "keeps s u" by (rule krn.frame_trans [OF keeps_sound(1) read_data_keepsD [OF u]])
      have "kept s (Reset_DSP u \<bind> (\<lambda>(_, s). strlen s f \<bind> (\<lambda>n.
          sys_open f (s\<lparr>audio_filename := g n s\<rparr>) \<bind> (\<lambda>(fd, s). P fd s))))"
        if "\<And>fd t. keeps s t \<Longrightarrow> kept s (P fd t)" for g P
      proof (rule pred_bind_state [OF krn.frame_result [OF machine_result_keeps(2) [OF dsp_commands_machine(3)] ku]])
        fix t assume t: "keeps s (t :: 'a sound_scheme)"
        show "kept s (strlen t f \<bind> (\<lambda>n. sys_open f (t\<lparr>audio_filename := g n t\<rparr>) \<bind> (\<lambda>(fd, s). P fd s)))"
          by (cases "strlen t f")
            (auto intro!: pred_bind_state [OF krn.frame_result [OF sys_open_kept krn.frame_trans [OF t keeps_sound(2)]]] that)
      qed
      note run = this [OF play_programmed [OF krn.frame_trans [OF _ keeps_sound(3)]]]
      show ?thesis
        unfolding play_music_def Let_def d bind.bind_lunit prod.case Some option.case u
        using run [unfolded Let_def] msg [OF ku] krn.frame_refl by (intro pred_if) auto
    qed
  qed
qed

lemma play_kept: "kept s (play f s)"
  unfolding play_def by (intro pred_if pred_bind_state [OF play_music_kept]) (simp_all add: krn.frame_refl)

lemma pred_ifI: "(c \<Longrightarrow> pred_option P a) \<Longrightarrow> (\<not> c \<Longrightarrow> pred_option P b) \<Longrightarrow> pred_option P (if c then a else b)"
  by simp

lemma keeps_fine: "keeps s t \<Longrightarrow> kernel_ok s \<Longrightarrow> fine (Some (r, t))"
  by (simp add: keeps_ok)

lemma keeps_console_ops:
  "keeps s (enter_handler s)" "keeps s (backspace_handler s)" "keeps s (key_arr_push c s)" "keeps s (set_cursor_position x y s)"
  by (simp_all only: only_console_keeps only_console_ops)
    (rule only_console_keeps, simp add: only_console_def)

lemma keeps_keys:
  "keeps s (s\<lparr>shift_state := k\<rparr>)" "keeps s (s\<lparr>ctrl_state := k\<rparr>)" "keeps s (s\<lparr>alt_state := k\<rparr>)" "keeps s (s\<lparr>caps_lock_enabled := k\<rparr>)"
  by (simp_all add: keeps_def paging_simps)

lemmas key_steps = keeps_steps keeps_console_ops [THEN krn.frame_trans [rotated]] keeps_keys [THEN krn.frame_trans [rotated]]

lemma switch_key_fine: "kernel_ok s \<Longrightarrow> fine (switch_key t s)"
  unfolding switch_key_def Let_def
  by (rule fine_control [OF switch_to_terminal_fine]) (erule keeps_ok [rotated], intro keeps_steps)

lemma input_handler_fine:
  assumes "kernel_ok s"
  shows "fine (input_handler code s)"
proof -
  have clear: "fine (printf cb fmt args (set_cursor_position 0 0 (clear s)) \<bind> (\<lambda>(_, s). Some (r, set_column_stack s)))"
    for cb fmt args and r :: control
  proof (rule pred_bind_state [OF printf_console])
    fix t assume "only_console (set_cursor_position 0 0 (clear s)) t"
    then have "keeps s t"
      by (intro krn.frame_trans [OF krn.frame_trans [OF keeps_ops(8) keeps_console_ops(4)] only_console_keeps])
    then show "fine (Some (r, set_column_stack t))"
      by (intro keeps_fine [OF krn.frame_trans [OF _ keeps_ops(7)] assms])
  qed
  have signal: "fine (stop (send_eoi KEYBOARD_IRQ s) \<bind> (\<lambda>s. top_process (current_terminal (cli s)) (cli s) \<bind> (\<lambda>p.
      Some (r, sti (pcb_upd (get_pcb_by_index p) (\<lambda>b. b\<lparr>pending_signal := 2\<rparr>) (cli s))))))" for r :: control
  proof (rule pred_bind [OF krn.frame_state [OF stop_keeps keeps_ops(5)]])
    fix t assume t: "keeps s (t :: 'a keyboard_scheme)"
    have k: "keeps t (sti (pcb_upd a (\<lambda>b. b\<lparr>pending_signal := 2\<rparr>) (cli t)))" for a
      by (intro keeps_steps) (simp add: same_process_def)
    have "fine (Some (r, sti (pcb_upd a (\<lambda>b. b\<lparr>pending_signal := 2\<rparr>) (cli t))))" for a
      by (rule keeps_fine [OF krn.frame_trans [OF t k] assms])
    then show "fine (top_process (current_terminal (cli t)) (cli t) \<bind> (\<lambda>p.
        Some (r, sti (pcb_upd (get_pcb_by_index p) (\<lambda>b. b\<lparr>pending_signal := 2\<rparr>) (cli t)))))"
      by (cases "top_process (current_terminal (cli t)) (cli t)") simp_all
  qed
  have echo: "fine (key_state s \<bind> (\<lambda>k. Some (r, key_arr_push (c k) (putc (c k) s))))" for r :: control and c
    using keeps_fine [OF krn.frame_trans [OF keeps_ops(3) keeps_console_ops(3)] assms] by (cases "key_state s") simp_all
  show ?thesis
    unfolding input_handler_def Let_def
    by (intro pred_if clear signal switch_key_fine echo) (simp_all add: assms)
qed

lemma scancode_action_fine:
  assumes "kernel_ok s"
  shows "fine (scancode_action code s)"
  unfolding scancode_action_def Let_def
  by (intro pred_if keeps_fine [OF _ assms] input_handler_fine [OF assms] key_steps)

lemma read_scancode_machine:
  assumes "read_scancode s = Some y"
  shows "only_machine s (snd y)"
  by (rule read_scancode.raw_induct [where P = "\<lambda>s y. only_machine s (snd y)", OF _ assms])
    (auto split: prod.splits if_splits simp: inb_def only_machine_def)

lemma keyboard_handler_fine:
  assumes "kernel_ok s"
  shows "fine (keyboard_handler s)"
proof -
  obtain f u where u: "cli_and_save s = (f, u)" by fastforce
  have "u = cli s" using u by (simp add: cli_and_save_def cli_def)
  then have k: "keeps s u" by (simp add: keeps_updates(1))
  have "pred_option (\<lambda>(c, t). only_machine u t) (read_scancode u)"
    using read_scancode_machine [of u] by (cases "read_scancode u") force+
  then have scan: "kept s (read_scancode u)"
    by (intro krn.frame_result [OF machine_result_keeps(2) k])
  have "kernel_ok (restore_flags f (send_eoi KEYBOARD_IRQ t))" if "kernel_ok t" for t :: "'a keyboard_scheme"
    by (rule keeps_ok [OF krn.frame_trans [OF keeps_ops(5) [of t KEYBOARD_IRQ]] that]) (simp add: keeps_def restore_flags_def paging_simps)
  then show ?thesis
    unfolding keyboard_handler_def Let_def u prod.case
    by (intro pred_bind_state [OF scan] fine_control [OF scancode_action_fine]) (auto intro: keeps_ok [OF _ assms])
qed

lemma pit_handler_fine:
  assumes "kernel_ok s"
  shows "fine (pit_handler s)"
proof -
  have sig: "fine (send_signal n u \<bind> (\<lambda>(c, t). case c of Return _ \<Rightarrow> Some (Return 0, g t) | _ \<Rightarrow> Some (c, t)))"
    if "keeps s u" "\<And>t. kernel_ok t \<Longrightarrow> kernel_ok (g t)" for n u g
    by (rule fine_control [OF send_signal_fine that(2)]) (rule keeps_ok [OF that(1) assms])
  have nt: "unat (next_terminal u) < 3" for u :: "'a scheduling_scheme"
  proof -
    have "unat (word_of_nat (k mod 3) :: u8) < 3" for k
      by (rule le_less_trans [of _ "k mod 3"]) (simp_all add: unat_of_nat)
    then show ?thesis unfolding next_terminal_def Let_def by (simp split: option.splits)
  qed
  have small: "ucast n < (6 :: u32)" if "\<not> (5 :: u8) < n" for n
    using that by (simp add: word_less_nat_alt unat_ucast_mod)
  have rt: "keeps u (u\<lparr>running_terminal := t\<rparr>)" if "unat t < 3" for u :: "'a scheduling_scheme" and t
    using that by (simp add: keeps_def paging_simps)
  have pi: "keeps u (u\<lparr>pending_interrupt := x\<rparr>)" for u :: "'a scheduling_scheme" and x by (simp add: keeps_def paging_simps)
  have sched: "keeps u (pcb_upd a (\<lambda>b. b\<lparr>schedule_esp := e, schedule_ebp := f\<rparr>) u)" for u :: "'a scheduling_scheme" and a e f
    by (rule keeps_pcb_upd) (simp add: same_process_def)
  note steps = keeps_updates(1,2,4,6) [THEN krn.frame_trans [rotated]] keeps_maps(1) [OF small, THEN krn.frame_trans [rotated]] keeps_maps(3) [OF nt, THEN krn.frame_trans [rotated]]
    sched [THEN krn.frame_trans [rotated]] pi [THEN krn.frame_trans [rotated]] rt [OF nt, THEN krn.frame_trans [rotated]]
    keeps_ops(5) [THEN krn.frame_trans [rotated]] krn.frame_refl
  have ok: "kernel_ok (sti t)" if "kernel_ok t" for t :: "'a scheduling_scheme" using that by (simp add: kernel_ok_sti)
  have ok': "kernel_ok (sti (pcb_upd a (\<lambda>b. b\<lparr>pending_signal := 0x3F\<rparr>) t))" if "kernel_ok t" for t :: "'a scheduling_scheme" and a
    by (rule keeps_ok [OF krn.frame_trans [OF keeps_pcb_upd keeps_updates(2)] that]) (simp add: same_process_def)
  have maybe: "fine ((if c then send_signal n u else Some (Return 0, u)) \<bind> (\<lambda>(c, t). case c of Return _ \<Rightarrow> Some (Return 0, sti t) | _ \<Rightarrow> Some (c, t)))"
    if "keeps s u" for c n u
    by (rule fine_control) (auto intro: ok send_signal_fine keeps_ok [OF that assms])
  have none: "fine (Some (Return 0 :: control, sti (cli (send_eoi 0 s))))"
    by (rule keeps_fine [OF _ assms], intro steps)
  have bind: "fine (top_process x y \<bind> f)" if "\<And>p. fine (f p)" for x f and y :: "'a scheduling_scheme"
    by (cases "top_process x y") (simp_all add: that)
  show ?thesis
    unfolding pit_handler_def Let_def
    by (intro pred_ifI bind none maybe sig steps ok') assumption+
qed

lemma rtc_handler_keeps: "keeps s (rtc_handler s)"
proof -
  have tick: "keeps t (rtc_tick i t)" for i and t :: "'a kernel_scheme"
    by (simp add: rtc_tick_def Let_def keeps_def paging_simps)
  obtain v u where u: "inb CMOS_PORT (outb RTC_REG_C RTC_PORT (for_loop 0 3 rtc_tick (cli (send_eoi RTC_IRQ s)))) = (v, u)" by fastforce
  have "keeps s (outb RTC_REG_C RTC_PORT (for_loop 0 3 rtc_tick (cli (send_eoi RTC_IRQ s))))"
    by (intro keeps_steps tick)
  then have "keeps s (sti u)"
    using krn.frame_trans keeps_updates(15) [of "outb RTC_REG_C RTC_PORT (for_loop 0 3 rtc_tick (cli (send_eoi RTC_IRQ s)))" CMOS_PORT] u
    by (intro keeps_updates(2) [THEN krn.frame_trans [rotated]]) simp
  then show ?thesis unfolding rtc_handler_def Let_def by (simp add: u)
qed

section \<open>The kernel as a step relation\<close>

text \<open>
  One rule for every system call and every interrupt handler; between them user code changes memory and, by
  the next entry into the kernel, the stack registers; devices answer port reads as they like.
\<close>

inductive kernel_step :: "'a scheduling_scheme \<Rightarrow> 'a scheduling_scheme \<Rightarrow> bool" where
  step_halt: "halt status s = Some (c, t) \<Longrightarrow> kernel_step s t"
| step_execute: "execute command s = Some (c, t) \<Longrightarrow> kernel_step s t"
| step_read: "sys_read fd buf n s = Some (r, t) \<Longrightarrow> kernel_step s t"
| step_write: "sys_write fd buf n s = Some (r, t) \<Longrightarrow> kernel_step s t"
| step_open: "sys_open filename s = Some (r, t) \<Longrightarrow> kernel_step s t"
| step_close: "sys_close fd s = Some (r, t) \<Longrightarrow> kernel_step s t"
| step_getargs: "getargs buf n s = Some (r, t) \<Longrightarrow> kernel_step s t"
| step_vidmap: "vidmap a s = (r, t) \<Longrightarrow> kernel_step s t"
| step_set_handler: "set_handler signum h s = (r, t) \<Longrightarrow> kernel_step s t"
| step_sigreturn: "sigreturn s = (r, t) \<Longrightarrow> kernel_step s t"
| step_play: "play filename s = Some (r, t) \<Longrightarrow> kernel_step s t"
| step_pit: "pit_handler s = Some (c, t) \<Longrightarrow> kernel_step s t"
| step_keyboard: "keyboard_handler s = Some (c, t) \<Longrightarrow> kernel_step s t"
| step_rtc: "kernel_step s (rtc_handler s)"
| step_sound: "sb16_handler s = Some t \<Longrightarrow> kernel_step s t"
| step_user: "kernel_step s (s\<lparr>phys := m, clk := n, esp := x, ebp := y\<rparr>)"

lemma kernel_step_ok:
  assumes "kernel_step s t" "kernel_ok s"
  shows "kernel_ok t"
  using assms
proof (induction rule: kernel_step.induct)
  case step_user
  then show ?case by (elim keeps_ok [rotated]) (simp add: keeps_def paging_simps)
next
  case (step_vidmap a s r t)
  then show ?case using keeps_ok [OF other_calls_kept(2) [of s a]] by simp
next
  case (step_set_handler sig h s r t)
  then show ?case using keeps_ok [OF other_calls_kept(3) [of s sig h]] by simp
next
  case (step_sigreturn s r t)
  then show ?case using keeps_ok [OF other_calls_kept(4) [of s]] by simp
qed (auto dest: pred_optionD [OF halt_fine] pred_optionD [OF execute_fine] pred_optionD [OF kept_fine [OF sys_read_kept]]
    pred_optionD [OF kept_fine [OF sys_write_kept]] pred_optionD [OF kept_fine [OF sys_open_kept]]
    pred_optionD [OF kept_fine [OF sys_close_kept]] pred_optionD [OF kept_fine [OF other_calls_kept(1)]]
    pred_optionD [OF kept_fine [OF play_kept]] pred_optionD [OF pit_handler_fine] pred_optionD [OF keyboard_handler_fine]
    pred_optionD [OF sb16_handler_keeps] intro: keeps_ok [OF rtc_handler_keeps] keeps_ok)

lemma kernel_steps_ok: "kernel_step\<^sup>*\<^sup>* s t \<Longrightarrow> kernel_ok s \<Longrightarrow> kernel_ok t"
  by (induction rule: rtranclp_induct) (auto intro: kernel_step_ok)

text \<open>The physical bytes that belong to user code: the four screens and the page of the mapped program.\<close>

definition user_frame :: "u32 option \<Rightarrow> u32 \<Rightarrow> bool" where
  "user_frame prog p \<longleftrightarrow> 0xB8000 \<le> unat p \<and> unat p < 0xBC000
     \<or> (\<exists>q. prog = Some q \<and> q < 6 \<and> 0x800000 + 0x400000 * unat q \<le> unat p \<and> unat p < 0xC00000 + 0x400000 * unat q)"

lemma user_walk_range:
  assumes "mapped s prog vid" "user_walk s a = Some p"
  shows "user_frame prog p"
proof -
  have t: "tables s prog vid" using assms(1) by (simp add: mapped_def)
  have us: "user_space prog vid a = Some p" using walk_space(2) [OF t] assms(2) by simp
  have scr: "0xB8000 \<le> unat p \<and> unat p < 0xBC000" if "vid = Some f" "0xD000000 \<le> unat a" "unat a < 0xD001000" "p = f + (a - USER_VIDEO)" for f
  proof -
    have f: "unat f \<in> {0xB8000, 0xB9000, 0xBA000, 0xBB000}" using t that(1) by (auto simp: tables_def screen_frame_def)
    have "unat (a - USER_VIDEO) < 4096"
      using that(2,3) unat_sub_of_nat [of "0xD000000" a] by (simp add: USER_VIDEO_def)
    then show ?thesis using f unat_add_small [of f "unat (a - USER_VIDEO)"] by (auto simp: that(4))
  qed
  show ?thesis
  proof (cases prog)
    case (Some q)
    have q: "q < 6" using t Some by (simp add: tables_def)
    show ?thesis
      by (rule user_space_cases [of s q vid a p]) (use t us Some q scr in \<open>auto simp: user_frame_def\<close>)
  next
    case None
    then show ?thesis using us scr by (auto simp: user_space_unat user_frame_def split: if_splits)
  qed
qed

section \<open>Properties\<close>

definition sched0 :: scheduling where
  "sched0 = keyboard.extend (sound.extend (kernel.extend kernel0 (sound.fields 0x500000 0x500000 [] 0 0 0 0))
     (keyboard.fields 0 0 0 0)) (scheduling.fields 0)"

lemma sched0_ok: "kernel_ok sched0"
proof -
  have "mapped sched0 None None"
    using kernel0_mapped by (simp add: mapped_def tables_def sched0_def keyboard.defs sound.defs kernel.defs scheduling.defs)
  then have "paging_ok sched0" by (auto simp: paging_ok_def)
  moreover have "procs sched0 = procs kernel0" "used sched0 = used kernel0" "tables_sized sched0 = tables_sized kernel0" "pcbs sched0 = pcbs kernel0"
    by (simp_all add: procs_def used_def tables_sized_def fun_eq_iff sched0_def keyboard.defs sound.defs kernel.defs scheduling.defs)
  ultimately show ?thesis using kernel0_procs(2) by (simp add: kernel_ok_def procs_ok_def)
qed





end
