(* ===== verification/Syscall_Spec.thy ===== *)
theory Syscall_Spec
  imports Kernel_Invariant
begin

text \<open>
  The system calls on descriptors and arguments: finding the control block from the stack pointer, opening,
  reading and closing files as streams of bytes, and what a started program gets as its argument.
\<close>

section \<open>The control block of the running stack\<close>

lemma pcb_mask_and: "PCB_MASK AND w = word_of_nat ((unat w div 8192) mod 1024 * 8192)" for w :: u32
proof -
  have m: "PCB_MASK = push_bit 13 (mask 10)"
    by (simp add: PCB_MASK_def mask_eq_exp_minus_1 push_bit_eq_mult)
  have "PCB_MASK AND w = push_bit 13 (take_bit 10 (drop_bit 13 w))"
    unfolding m by (rule bit_word_eqI) (auto simp: bit_simps)
  also have "\<dots> = word_of_nat (unat (push_bit 13 (take_bit 10 (drop_bit 13 w))))" by simp
  also have "unat (push_bit 13 (take_bit 10 (drop_bit 13 w))) = (unat w div 8192) mod 1024 * 8192"
  proof -
    have "unat (take_bit 10 (drop_bit 13 w)) = (unat w div 8192) mod 1024"
      by (simp add: take_bit_eq_mod drop_bit_eq_div unat_div unat_mod)
    moreover have "(unat w div 8192) mod 1024 * 8192 < 2 ^ LENGTH(32)"
      using mod_less_divisor [of 1024 "unat w div 8192"] by (simp del: mod_less_divisor)
    ultimately show ?thesis
      by (simp add: push_bit_eq_mult unat_word_ariths)
  qed
  finally show ?thesis .
qed

lemma unat_pcb: "p < 6 \<Longrightarrow> unat (get_pcb_by_index p) = 8192 * (1023 - unat p)"
  using pid_cases [of p] by (auto simp: get_pcb_by_index_def EIGHT_MB_SIZE_def EIGHT_KB_SIZE_def)

lemma curr_pcb:
  assumes "p < 6" "unat (get_pcb_by_index p) \<le> unat (esp s)" "unat (esp s) < unat (get_pcb_by_index p) + 8192"
  shows "get_curr_pcb s = get_pcb_by_index p"
proof -
  have "unat (esp s) div 8192 = 1023 - unat p"
    using assms unat_pcb [OF assms(1)] by (intro div_nat_eqI) simp_all
  then have "get_curr_pcb s = word_of_nat (unat (get_pcb_by_index p))"
    unfolding get_curr_pcb_def pcb_mask_and unat_pcb [OF assms(1)] by (simp add: mult.commute)
  then show ?thesis by simp
qed

section \<open>Descriptors\<close>

lemma pcbs_curr: "curr_files (pcb_upd (get_curr_pcb s) f s) = files (f (pcbs s (get_curr_pcb s)))"
  by (simp add: get_curr_pcb_def)

lemma curr_fd_upd: "curr_files (fd_upd (get_curr_pcb s) i f s) = (curr_files s)[i := f (curr_files s ! i)]"
  unfolding fd_upd_def pcbs_curr by simp

lemma fd_upd_fields [simp]:
  "get_curr_pcb (fd_upd a i f s) = get_curr_pcb s" "phys (fd_upd a i f s) = phys s" "xl (fd_upd a i f s) = xl s"
  by (simp_all add: fd_upd_def get_curr_pcb_def)

lemma call_open_ok:
  assumes "funcs_of_type t = Some funcs"
  shows "\<exists>u. call_open funcs filename s = Some (0, u) \<and> pcbs u = pcbs s \<and> esp u = esp s"
proof -
  have "rtc_open filename s = Some (0, s\<lparr>iflag := True, constant_arr := (constant_arr s)[unat (running_terminal s) := 512]\<rparr>)"
    using rtc_set_freq_pow2 [of 1 s] by (simp add: rtc_open_def)
  then show ?thesis
    using assms by (auto simp: funcs_of_type_def dir_open_def file_open_def split: if_splits)
qed

lemma call_close_ok: "funcs_of_type t = Some funcs \<Longrightarrow> call_close funcs fd s = Some (0, s)"
  by (auto simp: funcs_of_type_def dir_close_def file_close_def rtc_close_def split: if_splits)

lemma find_upt:
  "find P [a..<b] = Some i \<longleftrightarrow> a \<le> i \<and> i < b \<and> P i \<and> (\<forall>j. a \<le> j \<and> j < i \<longrightarrow> \<not> P j)" (is "_ \<longleftrightarrow> ?R")
proof
  assume "find P [a..<b] = Some i"
  then obtain k where k: "k < b - a" "P i" "i = a + k" "\<forall>j<k. \<not> P ([a..<b] ! j)"
    unfolding find_Some_iff by auto
  have "\<not> P j" if "a \<le> j" "j < i" for j using k(4) [rule_format, of "j - a"] k(1,3) that by simp
  then show ?R using k by simp
next
  assume ?R
  then show "find P [a..<b] = Some i" unfolding find_Some_iff by (intro exI [of _ "i - a"]) auto
qed

lemma free_fd_some:
  "free_fd fs = Some i \<longleftrightarrow> 2 \<le> i \<and> i < 8 \<and> flags (fs ! i) = NOT_IN_USE \<and> (\<forall>j. 2 \<le> j \<and> j < i \<longrightarrow> flags (fs ! j) \<noteq> NOT_IN_USE)"
  unfolding free_fd_def by (rule find_upt)

lemma sint_fd: "i < 8 \<Longrightarrow> sint (word_of_nat i :: i32) = int i"
proof -
  assume "i < 8"
  then have "i \<in> {0, 1, 2, 3, 4, 5, 6, 7}" by auto
  then show ?thesis by auto
qed

text \<open>\<open>open\<close> of a name in the directory.\<close>

lemma sys_open_eq:
  assumes "filename \<noteq> 0" "image_ok s" "cstr s filename n" "n \<le> 32" "lookup s (read_bytes s filename n) = Some d"
    "funcs_of_type (f_type d) = Some funcs" "free_fd (curr_files s) = Some i" "length (curr_files s) = 8"
  shows "\<exists>t. sys_open filename s = Some (word_of_nat i, t) \<and> get_curr_pcb t = get_curr_pcb s
    \<and> curr_files t = (curr_files s)[i := \<lparr>ptrs = funcs, inode = i_node d, file_pos = 0, flags = IN_USE\<rparr>]"
proof -
  have i: "2 \<le> i" "i < 8" using assms(7) by (simp_all add: free_fd_some)
  have d: "read_dentry_by_name filename s = Some (0, Some d)"
    using read_dentry_by_name_eq [OF assms(2,3)] assms(4,5) by simp
  let ?a = "get_curr_pcb s"
  let ?u = "fd_upd ?a i (\<lambda>f. f\<lparr>ptrs := funcs\<rparr>) (fd_upd ?a i (\<lambda>f. f\<lparr>flags := IN_USE, file_pos := 0, inode := i_node d\<rparr>) s)"
  obtain t where t: "call_open funcs filename ?u = Some (0, t)" "pcbs t = pcbs ?u" "esp t = esp ?u"
    using call_open_ok [OF assms(6)] by metis
  have fd_eta: "f\<lparr>flags := x, file_pos := y, inode := z, ptrs := p\<rparr> = \<lparr>ptrs = p, inode = z, file_pos = y, flags = x\<rparr>" for f x y z p
    by (cases f) simp
  have run: "sys_open filename s = Some (word_of_nat i, t)"
    unfolding sys_open_def using assms(1,6,7) d t(1) by (simp add: Let_def)
  have "get_curr_pcb t = get_curr_pcb s" using t(3) by (simp add: get_curr_pcb_def fd_upd_def)
  moreover from this have "curr_files t = curr_files ?u" using t(2) by simp
  moreover have "curr_files ?u = (curr_files s)[i := \<lparr>ptrs = funcs, inode = i_node d, file_pos = 0, flags = IN_USE\<rparr>]"
    using curr_fd_upd [of "fd_upd ?a i (\<lambda>f. f\<lparr>flags := IN_USE, file_pos := 0, inode := i_node d\<rparr>) s" i] curr_fd_upd [of s i] assms(8) i
    by (simp add: fd_eta)
  ultimately show ?thesis using run by auto
qed

lemma sys_close_eq:
  assumes "2 \<le> i" "i < 8" "length (curr_files s) = 8" "flags (curr_files s ! i) \<noteq> NOT_IN_USE"
    "funcs_of_type t = Some (ptrs (curr_files s ! i))"
  shows "\<exists>u. sys_close (word_of_nat i) s = Some (0, u) \<and> get_curr_pcb u = get_curr_pcb s
    \<and> curr_files u = (curr_files s)[i := (curr_files s ! i)\<lparr>flags := NOT_IN_USE\<rparr>]"
proof -
  have n: "unat (word_of_nat i :: u32) = i" by (rule unat_of_nat_u32) (use assms in simp)
  note sg = sint_fd [OF assms(2)]
  let ?u = "fd_upd (get_curr_pcb s) i (\<lambda>f. f\<lparr>flags := NOT_IN_USE\<rparr>) s"
  have "sys_close (word_of_nat i) s = Some (0, ?u)"
    using assms curr_fd_upd [of s i] call_close_ok [OF assms(5)] by (simp add: sys_close_def sg n Let_def)
  then show ?thesis using curr_fd_upd [of s i] by auto
qed

section \<open>Streams\<close>

text \<open>A source of bytes that delivers the next ones on every call, and the loop that reads it to the end.\<close>

fun drain :: "(nat \<Rightarrow> 's \<Rightarrow> (u8 list \<times> 's) option) \<Rightarrow> nat \<Rightarrow> nat \<Rightarrow> 's \<Rightarrow> (u8 list \<times> 's) option" where
  "drain rd n 0 s = None"
| "drain rd n (Suc fuel) s =
     do { (xs, t) \<leftarrow> rd n s;
          if xs = [] then Some ([], t) else do { (ys, u) \<leftarrow> drain rd n fuel t; Some (xs @ ys, u) } }"

locale byte_stream =
  fixes rd :: "nat \<Rightarrow> 's \<Rightarrow> (u8 list \<times> 's) option"
    and rest :: "'s \<Rightarrow> u8 list"
    and ready :: "'s \<Rightarrow> bool"
    and cap :: nat
  assumes rd_next: "ready s \<Longrightarrow> n \<le> cap \<Longrightarrow> \<exists>t. rd n s = Some (take n (rest s), t) \<and> ready t \<and> rest t = drop n (rest s)"
begin

lemma drain_all:
  assumes "ready s" "0 < n" "n \<le> cap" "length (rest s) < fuel"
  shows "\<exists>t. drain rd n fuel s = Some (rest s, t) \<and> ready t \<and> rest t = []"
  using assms(1,4)
proof (induction fuel arbitrary: s)
  case (Suc fuel)
  obtain t where t: "rd n s = Some (take n (rest s), t)" "ready t" "rest t = drop n (rest s)"
    using rd_next [OF Suc.prems(1) assms(3)] by auto
  show ?case
  proof (cases "rest s = []")
    case False
    then have "length (rest t) < fuel" using t(3) Suc.prems(2) assms(2) by (cases "rest s") auto
    from Suc.IH [OF t(2) this] obtain u where "drain rd n fuel t = Some (rest t, u)" "ready u" "rest u = []" by auto
    then show ?thesis using False t assms(2) by auto
  qed (use t in simp)
qed simp

end

definition stream :: "nat \<Rightarrow> 'a kernel_scheme \<Rightarrow> u8 list" where
  "stream i s = drop (unat (file_pos (curr_files s ! i))) (file_content s (unat (inode (curr_files s ! i))))"

text \<open>Descriptor \<open>i\<close> is an open file, and \<open>buf\<close> has room for \<open>n\<close> bytes.\<close>

definition readable :: "nat \<Rightarrow> addr \<Rightarrow> nat \<Rightarrow> 'a kernel_scheme \<Rightarrow> bool" where
  "readable i buf n s \<longleftrightarrow> i < 8 \<and> length (curr_files s) = 8 \<and> flags (curr_files s ! i) \<noteq> NOT_IN_USE
     \<and> ptrs (curr_files s ! i) = File_funcs \<and> valid_file s (unat (inode (curr_files s ! i)))
     \<and> unat (file_pos (curr_files s ! i)) \<le> file_size s (unat (inode (curr_files s ! i)))
     \<and> buffer_ok s buf n \<and> buf \<noteq> 0 \<and> n < 2 ^ 31"

definition read_call :: "nat \<Rightarrow> addr \<Rightarrow> nat \<Rightarrow> 'a kernel_scheme \<Rightarrow> (u8 list \<times> 'a kernel_scheme) option" where
  "read_call i buf n s =
     do { (r, t) \<leftarrow> sys_read (word_of_nat i) buf (word_of_nat n) s; Some (read_bytes t buf (unat r), t) }"

lemma fd_upd_fs [simp]:
  "valid_file (fd_upd a i f s) = valid_file s" "file_content (fd_upd a i f s) = file_content s"
  "file_size (fd_upd a i f s) = file_size s" "buffer_ok (fd_upd a i f s) = buffer_ok s"
  "read_bytes (fd_upd a i f s) = read_bytes s"
  by (simp_all add: fd_upd_def pcb_upd_def valid_file_def file_content_def file_size_def buffer_ok_def read_bytes_def file_ok_def
      image_ok_def file_byte_def file_block_def img32_def img_def data_pos_def fs_bytes_def ld32_def ld_def fun_eq_iff)

lemma sint_nonneg: "m < 2 ^ 31 \<Longrightarrow> sint (word_of_nat m :: i32) = int m"
  using unat_of_nat_u32 [of m] by (simp add: sint_uint uint_nat signed_take_bit_int_eq_self)

lemma sys_read_next:
  assumes "readable i buf n s" "m \<le> n"
  shows "\<exists>r t. sys_read (word_of_nat i) buf (word_of_nat m) s = Some (r, t) \<and> unat r = length (take m (stream i s))
    \<and> read_bytes t buf (unat r) = take m (stream i s) \<and> readable i buf n t \<and> stream i t = drop m (stream i s)"
proof -
  let ?f = "curr_files s ! i"
  let ?c = "file_content s (unat (inode ?f))"
  have i: "i < 8" "unat (word_of_nat i :: u32) = i" using assms(1) unat_of_nat_u32 [of i] by (auto simp: readable_def)
  have m: "m < 2 ^ 31" "unat (word_of_nat m :: u32) = m" using assms unat_of_nat_u32 [of m] by (auto simp: readable_def)
  have fok: "valid_file s (unat (inode ?f))" and buf: "buffer_ok s buf (unat (word_of_nat m :: u32))"
    using assms(1) buffer_mono [of s buf n m] assms(2) m by (auto simp: readable_def)
  obtain r u where ru: "read_data (inode ?f) (file_pos ?f) buf (word_of_nat m) s = (r, u)" by fastforce
  note slice = disk.rd_slice [OF fok buf ru] and keep = disk.rd_keeps [OF fok buf ru]
  have len: "unat r = length (take m (stream i s))" "read_bytes u buf (unat r) = take m (stream i s)"
    using conjunct2 [OF slice] conjunct1 [OF slice] unfolding m(2) stream_def .
  have fields: "pcbs u = pcbs s" "esp u = esp s"
    using only_phys_kernel(1,8) [OF only_phys_read_data, of "inode ?f" "file_pos ?f" buf "word_of_nat m" s] ru by simp_all
  have cur: "get_curr_pcb u = get_curr_pcb s" using fields by (simp add: get_curr_pcb_def)
  let ?t = "fd_upd (get_curr_pcb s) i (\<lambda>f. f\<lparr>file_pos := file_pos f + r\<rparr>) u"
  have "sys_read (word_of_nat i) buf (word_of_nat m) s = Some (r, ?t)"
    using assms(1) i m ru sint_fd [OF i(1)] sint_nonneg [OF m(1)] by (simp add: sys_read_def readable_def file_read_def Let_def)
  moreover have files: "curr_files ?t = (curr_files s)[i := ?f\<lparr>file_pos := file_pos ?f + r\<rparr>]"
    using curr_fd_upd [of u i] fields cur by simp
  have size: "length ?c = file_size s (unat (inode ?f))" "unat (file_pos ?f) \<le> length ?c" "length ?c < 2 ^ 32"
    using assms(1) disk.content_bound [OF fok] by (simp_all add: readable_def)
  have le: "unat (file_pos ?f) + unat r \<le> length ?c" using len(1) size(2) by (simp add: stream_def)
  then have pos: "unat (file_pos ?f + r) = unat (file_pos ?f) + unat r" using size(3) by (simp add: unat_word_ariths)
  have i8: "i < length (curr_files s)" using assms(1) by (simp add: readable_def)
  have content: "file_content u (unat (inode ?f)) = ?c" "valid_file u (unat (inode ?f))" using keep by simp_all
  have "file_size u (unat (inode ?f)) = length ?c" using content(1) by (metis length_file_content)
  then have "readable i buf n ?t"
    using assms(1) i8 files pos le keep content by (simp add: readable_def)
  moreover have "stream i ?t = drop m (stream i s)"
  proof -
    have "stream i ?t = drop (unat r) (stream i s)"
      using files i8 pos content(1) by (simp add: stream_def add.commute)
    then show ?thesis using len(1) by (cases "m \<le> length (stream i s)") simp_all
  qed
  ultimately show ?thesis using len by auto
qed

interpretation fd_stream: byte_stream "read_call i buf" "stream i" "readable i buf n" n
proof
  fix s :: "'a kernel_scheme" and m assume "readable i buf n s" "m \<le> n"
  from sys_read_next [OF this] show "\<exists>t. read_call i buf m s = Some (take m (stream i s), t) \<and> readable i buf n t \<and> stream i t = drop m (stream i s)"
    by (auto simp: read_call_def)
qed

section \<open>Properties\<close>

text \<open>C20. On a kernel stack the control block is found from the stack pointer: while the pointer lies inside the
  8 KB of the stack of a process, \<open>get_curr_pcb\<close> is that process's control block, and the stack a system
  call of the process starts on (the address \<open>set_tss\<close> leaves in the TSS) lies inside.\<close>

theorem curr_pcb_of_stack:
  assumes "p < 6"
  shows "(unat (get_pcb_by_index p) \<le> unat (esp s) \<and> unat (esp s) < unat (get_pcb_by_index p) + 8192 \<longrightarrow> get_curr_pcb s = get_pcb_by_index p)
    \<and> get_curr_pcb (s\<lparr>esp := tss_esp0 (set_tss p s)\<rparr>) = get_pcb_by_index p"
proof -
  have "get_curr_pcb (s\<lparr>esp := tss_esp0 (set_tss p s)\<rparr>) = get_pcb_by_index p"
  proof (rule curr_pcb [OF assms])
    have "tss_esp0 (set_tss p s) = word_of_nat (8192 * (1024 - unat p) - 4)"
      using pid_cases [OF assms] by (auto simp: set_tss_def EIGHT_MB_SIZE_def EIGHT_KB_SIZE_def ESP_OFFSET_def)
    moreover have "unat (word_of_nat (8192 * (1024 - unat p) - 4) :: u32) = 8192 * (1024 - unat p) - 4"
      by (rule unat_of_nat_u32) simp
    ultimately show "unat (get_pcb_by_index p) \<le> unat (esp (s\<lparr>esp := tss_esp0 (set_tss p s)\<rparr>))"
      "unat (esp (s\<lparr>esp := tss_esp0 (set_tss p s)\<rparr>)) < unat (get_pcb_by_index p) + 8192"
      using assms by (simp_all add: unat_pcb word_less_nat_alt)
  qed
  then show ?thesis using curr_pcb [OF assms, of s] by blast
qed

theorem curr_pcb_of_stack_witness:
  "get_curr_pcb (kernel0\<lparr>esp := tss_esp0 (set_tss 3 kernel0)\<rparr>) = 0x7F8000 \<and> get_curr_pcb kernel0 = 0x7FE000"
proof -
  have "get_pcb_by_index 3 = 0x7F8000" "get_pcb_by_index 0 = 0x7FE000"
    by (simp_all add: get_pcb_by_index_def EIGHT_MB_SIZE_def EIGHT_KB_SIZE_def)
  then show ?thesis using curr_pcb_of_stack [of 3 kernel0] curr_pcb_of_stack [of 0 kernel0] by simp
qed

text \<open>C24. Opening and closing: \<open>open\<close> of a file in the directory returns the lowest free descriptor from 2 on, which then
  stands for the start of that file; all other descriptors of the process are untouched. Closing it
  succeeds and makes it the lowest free descriptor again.\<close>

theorem open_close:
  assumes "filename \<noteq> 0" "image_ok s" "cstr s filename n" "n \<le> 32" "lookup s (read_bytes s filename n) = Some d"
    "f_type d = 0 \<or> f_type d = 1 \<or> f_type d = 2" "length (curr_files s) = 8"
    "2 \<le> i" "i < 8" "flags (curr_files s ! i) = NOT_IN_USE" "\<forall>j. 2 \<le> j \<and> j < i \<longrightarrow> flags (curr_files s ! j) \<noteq> NOT_IN_USE"
  shows "\<exists>t u. sys_open filename s = Some (word_of_nat i, t)
    \<and> inode (curr_files t ! i) = i_node d \<and> file_pos (curr_files t ! i) = 0 \<and> flags (curr_files t ! i) = IN_USE
    \<and> funcs_of_type (f_type d) = Some (ptrs (curr_files t ! i))
    \<and> sys_close (word_of_nat i) t = Some (0, u) \<and> free_fd (curr_files u) = Some i
    \<and> (\<forall>j. j \<noteq> i \<longrightarrow> curr_files t ! j = curr_files s ! j \<and> curr_files u ! j = curr_files s ! j)"
proof -
  obtain funcs where funcs: "funcs_of_type (f_type d) = Some funcs" using assms(6) by (auto simp: funcs_of_type_def)
  have free: "free_fd (curr_files s) = Some i" using assms(8-11) by (simp add: free_fd_some)
  let ?f = "\<lparr>ptrs = funcs, inode = i_node d, file_pos = 0, flags = IN_USE\<rparr>"
  obtain t where t: "sys_open filename s = Some (word_of_nat i, t)" "curr_files t = (curr_files s)[i := ?f]"
    using sys_open_eq [OF assms(1-5) funcs free assms(7)] by auto
  have ft: "curr_files t ! i = ?f" "length (curr_files t) = 8" using t(2) assms(7,9) by simp_all
  obtain u where u: "sys_close (word_of_nat i) t = Some (0, u)" "curr_files u = (curr_files t)[i := ?f\<lparr>flags := NOT_IN_USE\<rparr>]"
    using sys_close_eq [OF assms(8,9) ft(2), of "f_type d"] ft(1) funcs by (auto simp: IN_USE_def NOT_IN_USE_def)
  have "free_fd (curr_files u) = Some i"
    using assms(8-11) assms(7) u(2) t(2) by (simp add: free_fd_some)
  then show ?thesis using t u ft funcs by auto
qed

lemma kernel0_name: "cstr kernel0 0x400040 2" "read_bytes kernel0 0x400040 2 = [0x73, 0x68]"
proof -
  have "ld kernel0 (0x400040 + word_of_nat i) \<noteq> 0" if "i < 2" for i
    using that by (auto simp: less_2_cases_iff kernel0_ld disk1_def)
  then show "cstr kernel0 0x400040 2" by (simp add: cstr_def kernel0_ld disk1_def)
  show "read_bytes kernel0 0x400040 2 = [0x73, 0x68]"
    by (simp add: read_bytes_def kernel0_ld disk1_def upt_rec)
qed

theorem open_close_witness:
  "\<exists>t u. sys_open 0x400040 kernel0 = Some (2, t) \<and> sys_close 2 t = Some (0, u) \<and> free_fd (curr_files u) = Some 2"
proof -
  have "f_type (dentry_at kernel0 0x400040) = 2" by (simp add: dentry_at_def ld32_def kernel0_ld disk1_def)
  moreover obtain d where "lookup kernel0 [0x73, 0x68] = Some d" using kernel0_lookup(1) by auto
  moreover from this have "d = dentry_at kernel0 0x400040"
    by (auto simp: lookup_def entry_addr_def split: if_splits)
  ultimately show ?thesis
    using open_close [of "0x400040" kernel0 2 d 2] kernel0_file(5) kernel0_name by (auto simp: pcb0_def NOT_IN_USE_def)
qed

text \<open>C23. Reading a file through its descriptor: a program that calls \<open>read\<close> in a loop with a buffer of \<open>n\<close> bytes
  until a call returns 0 gets the file from the current position to its end, in order and complete, and
  the loop ends; afterwards the descriptor is at the end of the file.\<close>

theorem read_whole_file:
  assumes "readable i buf n s" "0 < n"
  shows "\<exists>t. drain (read_call i buf) n (Suc (length (stream i s))) s = Some (stream i s, t) \<and> stream i t = []"
  using fd_stream.drain_all [OF assms order_refl, of "Suc (length (stream i s))"] by (auto simp del: drain.simps)

definition reading0 :: kernel where
  "reading0 = kernel0\<lparr>pcbs := (\<lambda>_. pcb0\<lparr>files := (files pcb0)[2 := \<lparr>ptrs = File_funcs, inode = 0, file_pos = 24, flags = IN_USE\<rparr>]\<rparr>)\<rparr>"

lemma reading0_readable: "readable 2 0x7E0000 16 reading0" "stream 2 reading0 = [0x18, 0x80, 4, 8]"
proof -
  have same: "valid_file reading0 = valid_file kernel0" "file_content reading0 = file_content kernel0" "file_size reading0 = file_size kernel0"
      "buffer_ok reading0 = buffer_ok kernel0"
    by (simp_all add: reading0_def valid_file_def file_content_def file_size_def buffer_ok_def file_ok_def
        image_ok_def file_byte_def file_block_def img32_def img_def data_pos_def fs_bytes_def ld32_def ld_def fun_eq_iff)
  have fd: "curr_files reading0 ! 2 = \<lparr>ptrs = File_funcs, inode = 0, file_pos = 24, flags = IN_USE\<rparr>" "length (curr_files reading0) = 8"
    by (simp_all add: reading0_def pcb0_def)
  have len: "length (drop 24 (file_content kernel0 0)) = 4" using kernel0_file(1) by simp
  then have "drop 24 (file_content kernel0 0) = take 4 (drop 24 (file_content kernel0 0))" by simp
  then show "stream 2 reading0 = [0x18, 0x80, 4, 8]" using fd kernel0_file(3) by (simp add: stream_def same)
  have at: "unat (0x7E0000 + word_of_nat i :: u32) = 0x7E0000 + i" if "i < 16" for i
    using unat_add_small [of "0x7E0000 :: u32" i] that by simp
  then have xl: "unat (xl kernel0 (0x7E0000 + word_of_nat i)) = 0x7E0000 + i" if "i < 16" for i
    using xl_kernel [OF kernel0_mapped, of "0x7E0000 + word_of_nat i"] that by simp
  have img: "unat (xl kernel0 (0x400000 + word_of_nat m)) < 0x7E0000" if "m < fs_bytes kernel0" for m
    using xl_layout(2) [OF kernel0_layout that] unat_image [OF kernel0_layout that] that by (simp add: fs_bytes_def)
  have "inj_on (\<lambda>i. xl kernel0 (0x7E0000 + word_of_nat i)) {..<16}"
    by (rule inj_onI) (metis xl lessThan_iff add_left_imp_eq)
  moreover have "xl kernel0 (0x7E0000 + word_of_nat i) \<noteq> xl kernel0 (0x400000 + word_of_nat m)" if "i < 16" "m < fs_bytes kernel0" for i m
    using xl [OF that(1)] img [OF that(2)] by (metis leD le_add1)
  ultimately have "buffer_ok kernel0 0x7E0000 16" by (simp add: buffer_ok_def)
  moreover have "valid_file kernel0 0" using kernel0_file(4,5) by (simp add: valid_file_def program_ok_def)
  ultimately show "readable 2 0x7E0000 16 reading0"
    using fd kernel0_file(1) by (simp add: readable_def same IN_USE_def NOT_IN_USE_def)
qed

theorem read_whole_file_witness:
  "\<exists>t. drain (read_call 2 0x7E0000) 3 5 reading0 = Some ([0x18, 0x80, 4, 8], t)"
proof -
  have "readable 2 0x7E0000 3 reading0"
    using reading0_readable(1) buffer_mono [of reading0 "0x7E0000" 16 3] by (simp add: readable_def)
  from read_whole_file [OF this] show ?thesis unfolding reading0_readable(2) by (auto simp: numeral_eq_Suc)
qed

text \<open>C26. Descriptors that are out of range or not in use, a missing buffer and a negative length are refused with -1
  by \<open>read\<close>, \<open>write\<close> and \<open>close\<close>, the standard descriptors cannot be closed, and \<open>open\<close> fails for a name that is not in the directory
  and when all descriptors are in use; nothing changes in any of these cases.\<close>

theorem descriptor_errors:
  "(sint fd < 0 \<or> 8 \<le> sint fd \<or> flags (curr_files s ! unat fd) = NOT_IN_USE \<or> sint n < 0 \<or> buf = 0
      \<longrightarrow> sys_read fd buf n s = Some (-1, s) \<and> sys_write fd buf n s = Some (-1, s))
   \<and> (sint fd < 2 \<or> 8 \<le> sint fd \<or> flags (curr_files s ! unat fd) = NOT_IN_USE \<longrightarrow> sys_close fd s = Some (-1, s))
   \<and> (image_ok s \<and> cstr s filename k \<and> k < 2 ^ 32
        \<and> (lookup s (read_bytes s filename k) = None \<or> 32 < k \<or> free_fd (curr_files s) = None)
      \<longrightarrow> sys_open filename s = Some (-1, s))"
proof (intro conjI impI)
  assume a: "image_ok s \<and> cstr s filename k \<and> k < 2 ^ 32
    \<and> (lookup s (read_bytes s filename k) = None \<or> 32 < k \<or> free_fd (curr_files s) = None)"
  then have "read_dentry_by_name filename s = Some (-1, None)
      \<or> (\<exists>d. read_dentry_by_name filename s = Some (0, Some d) \<and> free_fd (curr_files s) = None)"
    using read_dentry_by_name_eq [of s filename k] by (auto split: option.splits)
  then show "sys_open filename s = Some (-1, s)" by (auto simp: sys_open_def Let_def)
qed (auto simp: sys_read_def sys_write_def sys_close_def Let_def)

theorem descriptor_errors_witness:
  "sys_read 5 0x7E0000 4 reading0 = Some (-1, reading0) \<and> sys_close 1 reading0 = Some (-1, reading0)"
proof -
  have "flags (curr_files reading0 ! 5) = NOT_IN_USE" by (simp add: reading0_def pcb0_def NOT_IN_USE_def)
  then show ?thesis using descriptor_errors [of 5 reading0 4 "0x7E0000" 0 0] descriptor_errors [of 1 reading0 4 0 0 0] by simp
qed

section \<open>Arguments\<close>

lemma arg_start_eq:
  assumes "length arg = 100" "cstring arg = replicate k 0x20 @ rest" "0 < k" "rest = [] \<or> hd rest \<noteq> 0x20" "k + length rest < 100"
  shows "arg_start arg = Some k" "arg ! 0 = 0x20" "cstring (drop k arg) = rest" "0 \<in> set (drop k arg)"
proof -
  let ?c = "cstring arg"
  have len: "length ?c = k + length rest" using assms(2) by simp
  have arg: "arg ! j = ?c ! j" if "j < k + length rest" for j
    using that len cstring_eq_take [of arg] by (metis nth_take)
  have stop: "arg ! (k + length rest) = 0" using cstring_stop [of "k + length rest" arg] len assms(1,5) by simp
  have blank: "arg ! j = 0x20" if "j < k" for j using arg [of j] that by (simp add: assms(2) nth_append)
  then show "arg ! 0 = 0x20" using assms(3) by simp
  have "arg ! k \<noteq> 0x20"
  proof (cases rest)
    case Nil
    then show ?thesis using stop by simp
  next
    case (Cons x xs)
    then show ?thesis using arg [of k] assms(2,4) by (simp add: nth_append)
  qed
  then have "find (\<lambda>i. arg ! i = 0x20 \<and> arg ! Suc i \<noteq> 0x20) [0..<99] = Some (k - 1)"
    using blank assms(3,5) by (auto simp: find_upt)
  then show "arg_start arg = Some k" using assms(3) by (simp add: arg_start_def)
  have split: "arg = ?c @ 0 # drop (Suc (length ?c)) arg"
    using cstring_eq_take [of arg] id_take_nth_drop [of "length ?c" arg] stop len assms(1,5) by simp
  then have "drop k arg = rest @ 0 # drop (Suc (length ?c)) arg"
    using assms(2) len by (metis append.assoc append_eq_conv_conj length_replicate)
  then show "0 \<in> set (drop k arg)" "cstring (drop k arg) = rest"
    using set_cstring [of _ arg] assms(2) cstring_append_0 [of rest] by auto
qed

lemma getargs_eq:
  assumes "length (argument (pcbs s (get_curr_pcb s))) = 100" "cstring (argument (pcbs s (get_curr_pcb s))) = args"
    "args \<noteq> []" "hd args = 0x20" "length args < 100"
  shows "getargs buf n s = Some (0, write_list buf (take (unat n) (dropWhile (\<lambda>c. c = 0x20) args)
    @ replicate (unat n - length (dropWhile (\<lambda>c. c = 0x20) args)) 0) s)"
proof -
  let ?rest = "dropWhile (\<lambda>c. c = 0x20) args" and ?k = "length (takeWhile (\<lambda>c. c = 0x20) args)"
  have "takeWhile (\<lambda>c. c = 0x20) args = replicate ?k 0x20"
    by (rule replicate_length_same [symmetric]) (auto dest: set_takeWhileD)
  then have split: "cstring (argument (pcbs s (get_curr_pcb s))) = replicate ?k 0x20 @ ?rest"
    using assms(2) takeWhile_dropWhile_id by metis
  have k: "0 < ?k" using assms(3,4) by (cases args) simp_all
  have rest: "?rest = [] \<or> hd ?rest \<noteq> 0x20" using hd_dropWhile [of "\<lambda>c. c = 0x20" args] by blast
  have "?k + length ?rest < 100" using assms(2,5) arg_cong [OF split, of length] by simp
  note start = arg_start_eq [OF assms(1) split k rest this]
  show ?thesis
    using start by (simp add: getargs_def Let_def strncpy_local_eq)
qed

text \<open>C25. The argument reaches the program: after \<open>execute\<close> of a command with something behind the program name, \<open>getargs\<close>
  called by the new process returns 0 and fills its buffer with the rest of the command, leading blanks
  removed, cut at the buffer's size or padded with NUL bytes.\<close>

theorem getargs_after_execute:
  assumes "kernel_layout s prog vid" "command_ok s command cmd" "lookup s (cmd_name cmd) = Some d"
    "program_ok s (unat (i_node d))" "procs_ok s" "get_pid s \<noteq> - 1" "cmd_args cmd \<noteq> []"
    "execute command s = Some (c, t)" "tss_esp0 t - 4096 < e" "e \<le> tss_esp0 t"
    "inj_on (\<lambda>i. xl t (buf + word_of_nat i)) {..<unat n}"
  shows "\<exists>u. getargs buf n (t\<lparr>esp := e\<rparr>) = Some (0, u) \<and> read_bytes u buf (unat n) =
    take (unat n) (dropWhile (\<lambda>c. c = 0x20) (cmd_args cmd) @ replicate (unat n) 0)"
proof -
  let ?p = "get_pid s" and ?t = "t\<lparr>esp := e\<rparr>" and ?rest = "dropWhile (\<lambda>c. c = 0x20) (cmd_args cmd)"
  note facts = started_facts [OF assms(1,2,4-6)]
  have t: "t = started cmd (unat (i_node d)) ?p s" using execute_eq [OF assms(1-6)] assms(8) by simp
  have p6: "?p < 6" by (rule facts(7))
  have tss: "tss_esp0 t = get_pcb_by_index ?p + 8188"
    by (simp add: t started_def Let_def sti_def set_tss_def get_pcb_by_index_def EIGHT_KB_SIZE_def ESP_OFFSET_def algebra_simps)
  have top: "unat (tss_esp0 t) = unat (get_pcb_by_index ?p) + 8188"
    unfolding tss using unat_add_small [of "get_pcb_by_index ?p" 8188] unat_pcb [OF p6] by simp
  moreover have "unat (tss_esp0 t - 4096) = unat (tss_esp0 t) - 4096" using unat_sub_of_nat [of 4096 "tss_esp0 t"] top by simp
  ultimately have cur: "get_curr_pcb ?t = get_pcb_by_index ?p"
    using assms(9,10) by (intro curr_pcb [OF p6]) (simp_all add: word_less_nat_alt word_le_nat_alt)
  have fresh: "cstring (argument (pcbs ?t (get_curr_pcb ?t))) = cmd_args cmd"
    unfolding cur using facts(8) by (simp add: fresh_pcb_def t)
  have len: "length (argument (pcbs ?t (get_curr_pcb ?t))) = 100"
    unfolding cur using facts(5) p6 by (simp add: procs_ok_def tables_sized_def t)
  have "hd (cmd_args cmd) = 0x20" using args_first [OF assms(7)] assms(7) by (simp add: hd_conv_nth)
  moreover have "length (cmd_args cmd) < 100" using assms(2) by (simp add: command_ok_def)
  ultimately have run: "getargs buf n ?t = Some (0, write_list buf (take (unat n) ?rest @ replicate (unat n - length ?rest) 0) ?t)"
    by (rule getargs_eq [OF len fresh assms(7)])
  let ?xs = "take (unat n) ?rest @ replicate (unat n - length ?rest) 0"
  have xs: "length ?xs = unat n" "?xs = take (unat n) (?rest @ replicate (unat n) 0)" by simp_all
  have "read_bytes (write_list buf ?xs ?t) buf (length ?xs) = ?xs"
    by (rule read_write_list) (use assms(11) xs(1) in simp)
  then show ?thesis using run unfolding xs(1) unfolding xs(2) by auto
qed

theorem getargs_after_execute_witness:
  "\<exists>t u. execute 0x7F0000 kernel0 = Some (Enter_user 0x8048018, t)
     \<and> getargs 0x8000100 4 (t\<lparr>esp := 0x7FFF00\<rparr>) = Some (0, u) \<and> read_bytes u 0x8000100 4 = [0x78, 0, 0, 0]"
proof -
  obtain d where d: "lookup kernel0 [0x73, 0x68] = Some d" "i_node d = 0" using kernel0_lookup by auto
  have name: "lookup kernel0 (cmd_name [0x73, 0x68, 0x20, 0x78]) = Some d" "program_ok kernel0 (unat (i_node d))"
    using d kernel0_command(3) kernel0_file(4) by simp_all
  have pid: "get_pid kernel0 \<noteq> - 1" using kernel0_procs(3) by simp
  let ?t = "started [0x73, 0x68, 0x20, 0x78] 0 0 kernel0"
  have run: "execute 0x7F0000 kernel0 = Some (Enter_user 0x8048018, ?t)"
    using execute_eq [OF kernel0_layout kernel0_command(1) name kernel0_procs(2) pid] d(2) kernel0_file(3) kernel0_procs(3) by simp
  have tss: "tss_esp0 ?t = 0x7FFFFC"
    by (simp add: started_def Let_def sti_def set_tss_def EIGHT_MB_SIZE_def ESP_OFFSET_def)
  have "kernel_layout ?t (Some 0) None"
    using started_facts(1) [OF kernel0_layout kernel0_command(1) name(2) kernel0_procs(2) pid] d(2) kernel0_procs(3) by simp
  then have m: "mapped ?t (Some 0) None" by (simp add: kernel_layout_def)
  have xl: "xl ?t (0x8000100 + word_of_nat i) = 0x800100 + word_of_nat i" if "i < 4" for i
  proof -
    have "unat (0x8000100 + word_of_nat i :: u32) = 0x8000100 + i" using unat_add_small [of "0x8000100 :: u32" i] that by simp
    then show ?thesis using m that by (simp add: mapped_def space_unat user_space_unat EIGHT_MB_SIZE_def)
  qed
  have inj: "inj_on (\<lambda>i. xl ?t (0x8000100 + word_of_nat i)) {..<unat (4 :: u32)}"
  proof (rule inj_onI)
    fix i j assume ij: "i \<in> {..<unat (4 :: u32)}" "j \<in> {..<unat (4 :: u32)}"
      "xl ?t (0x8000100 + word_of_nat i) = xl ?t (0x8000100 + word_of_nat j)"
    then have "word_of_nat i = (word_of_nat j :: u32)" using xl [of i] xl [of j] by simp
    then have same: "unat (word_of_nat i :: u32) = unat (word_of_nat j :: u32)" by (rule arg_cong)
    have "unat (word_of_nat i :: u32) = i" "unat (word_of_nat j :: u32) = j"
      by (rule unat_of_nat_u32, use ij(1,2) in simp)+
    then show "i = j" using same by metis
  qed
  have "replicate 4 (0 :: u8) = [0, 0, 0, 0]" by (simp add: numeral_eq_Suc)
  then have pad: "take 4 ([0x78] @ replicate 4 0) = [0x78, 0, 0, 0 :: u8]" by simp
  have args: "dropWhile (\<lambda>c. c = 0x20) (cmd_args [0x73, 0x68, 0x20, 0x78]) = [0x78]"
    "cmd_args [0x73, 0x68, 0x20, 0x78] \<noteq> []" unfolding kernel0_command(4) by simp_all
  have four: "unat (4 :: u32) = 4" by simp
  obtain u where "getargs 0x8000100 4 (?t\<lparr>esp := 0x7FFF00\<rparr>) = Some (0, u)"
      "read_bytes u 0x8000100 4 = take 4 ([0x78] @ replicate 4 0)"
    using getargs_after_execute [OF kernel0_layout kernel0_command(1) name kernel0_procs(2) pid args(2) run _ _ inj, of "0x7FFF00"]
    unfolding tss args(1) four by auto
  then show ?thesis using run unfolding pad by blast
qed

end
