(* ===== verification/Terminal_Spec.thy ===== *)
theory Terminal_Spec
  imports Syscall_Spec
begin

text \<open>
  What the three terminals are for their users. Each terminal has a text screen, a line being typed, and a column
  behind the prompt, whether it is the visible one (then they are the console's variables and the page at 0xB8000)
  or not (then they are its \<open>terminal_t\<close> and its saved page). \<open>terminal_of\<close> is this abstract terminal;
  switching terminals changes none of the three, and writing or typing changes exactly one.
\<close>

record terminal_view =
  shown :: text_screen
  typed :: "u8 list"
  dropped :: u8
  prompt :: nat

definition terminal_of :: "u8 \<Rightarrow> 'a console_scheme \<Rightarrow> terminal_view" where
  "terminal_of t s =
     (if t = current_terminal s
      then \<lparr>shown = screen_of s, typed = key_line s, dropped = key_arr_overflow s, prompt = nat (column_stack s)\<rparr>
      else \<lparr>shown = saved_of t s, typed = take (unat (key_arr_ptr_old (ti t s))) (key_arr_old (ti t s)),
            dropped = key_arr_overflow_old (ti t s), prompt = unat (column_stack_old (ti t s))\<rparr>)"

definition line_ok :: "u8 list \<Rightarrow> u8 \<Rightarrow> u8 \<Rightarrow> bool" where
  "line_ok ks n d \<longleftrightarrow> length ks = KEY_ARR_SIZE + 1 \<and> unat n \<le> KEY_ARR_SIZE - 1 \<and> (d = 0 \<or> unat n = KEY_ARR_SIZE - 1)
     \<and> 0 \<notin> set (take (unat n) ks)"

definition background_ok :: "u8 \<Rightarrow> 'a console_scheme \<Rightarrow> bool" where
  "background_ok t s \<longleftrightarrow> saved_ok t s \<and> line_ok (key_arr_old (ti t s)) (key_arr_ptr_old (ti t s)) (key_arr_overflow_old (ti t s))
     \<and> unat (column_stack_old (ti t s)) < 80"

definition foreground_ok :: "'a console_scheme \<Rightarrow> bool" where
  "foreground_ok s \<longleftrightarrow> console_ok s \<and> line_ok (key_arr s) (key_arr_ptr s) (key_arr_overflow s)
     \<and> 0 \<le> column_stack s \<and> column_stack s < NUM_COLS"

definition terminals_ok :: "'a console_scheme \<Rightarrow> bool" where
  "terminals_ok s \<longleftrightarrow> foreground_ok s
     \<and> (\<forall>t. unat t < MAX_TERMINAL_NUM \<longrightarrow> screen_buffer (ti t s) = saved_screen ! unat t
          \<and> length (key_arr_old (ti t s)) = KEY_ARR_SIZE + 1
          \<and> (t \<noteq> current_terminal s \<longrightarrow> background_ok t s))"

section \<open>The pieces of a switch\<close>

lemma take_strncpy_arr:
  assumes "0 \<notin> set (take k src)" "k \<le> n" "n \<le> length src"
  shows "take k (strncpy_arr dst src n) = take k src"
proof (rule nth_equalityI)
  have "cstring (take n src) = take k src @ cstring (drop k (take n src))"
    using assms(1,2) append_take_drop_id [of k "take n src"] takeWhile_append2 [of "take k src" "\<lambda>c. c \<noteq> 0"]
    by (metis cstring_def min.absorb1 take_take)
  then have len: "k \<le> length (cstring (take n src))" using assms(2,3) by simp
  show "length (take k (strncpy_arr dst src n)) = length (take k src)"
    using len assms(2,3) length_cstring_le [of "take n src"] by (simp add: strncpy_arr_def Let_def)
  show "take k (strncpy_arr dst src n) ! i = take k src ! i" if "i < length (take k (strncpy_arr dst src n))" for i
    using that len assms(2,3) nth_strncpy_arr [of i n src dst] by simp
qed

interpretation ph: frame_relation only_phys
  by unfold_locales (auto intro: only_phys_refl only_phys_trans)

lemma only_phys_clear: "only_phys s (clear s)"
  unfolding clear_def Let_def
  by (rule ph.frame_trans, rule ph.frame_trans) (rule ph.frame_loop, rule only_phys_put_cell)+

lemma view_put_cell_first:
  assumes "screen_mapped s" "k < 2048" "0 < j" "j < 4"
  shows "view j (put_cell VIDEO (int k) c col s) = view j s"
proof (rule ext)
  fix i
  have "ld (st (off a) v t) (off (4096 * j + b)) = ld t (off (4096 * j + b))"
    if "screen_mapped t" "a < 4096" "b < 4096" for a b v and t :: "'a machine_scheme"
    using ld_st_off [OF that(1), of a "4096 * j + b" v] that(2,3) assms(3,4) by simp
  then have "ld (put_cell VIDEO (int k) c col s) (off (4096 * j + b)) = ld s (off (4096 * j + b))" if "b < 4096" for b
    using assms(1,2) that put_cell_off [of 0 k c col s] by (simp add: page_0)
  from this [of "2 * i"] this [of "2 * i + 1"]
  show "view j (put_cell VIDEO (int k) c col s) i = view j s i" by (simp only: view_off) auto
qed

lemma view_clear:
  assumes "screen_mapped s" "0 < j" "j < 4" "unat (current_terminal s) < 3"
  shows "view j (clear s) = view j s"
proof -
  let ?P = "\<lambda>t. screen_mapped t \<and> view j t = view j s"
  have cell: "?P (put_cell VIDEO (int k) c col t)" if "?P t" "k < 2048" for t :: "'a console_scheme" and k c col
    using that assms(2,3) by (simp add: view_put_cell_first)
  have h: "high ! unat (current_terminal s) \<le> 57"
    using assms(4) less_Suc_eq numeral_3_eq_3 by (auto simp: high_def numeral_3_eq_3 less_Suc_eq)
  define s1 where "s1 = for_loop 0 1920 (\<lambda>i s. put_cell VIDEO (int i) 0x20 (cur_attrib s) s) s"
  define s2 where "s2 = for_loop 1920 2000 (\<lambda>i s. put_cell VIDEO (int i) (bartext ! (i - 1920)) ATTRIB_BAR s) s1"
  have 1: "?P s1" unfolding s1_def by (rule for_loop_invariant) (use assms(1) cell in auto)
  have 2: "?P s2" unfolding s2_def by (rule for_loop_invariant [where P = ?P, OF 1]) (use cell in auto)
  have "only_phys s s2" unfolding s1_def s2_def
    by (rule ph.frame_trans) (rule ph.frame_loop, rule only_phys_put_cell)+
  then have "?P (clear s)"
    unfolding clear_def Let_def s1_def [symmetric] s2_def [symmetric] only_phys_console(10) [OF \<open>only_phys s s2\<close>]
    by (intro for_loop_invariant [where P = ?P, OF 2]) (use cell h in auto)
  then show ?thesis by simp
qed

text \<open>Saving the visible terminal makes its \<open>terminal_t\<close> and its page hold what the console shows.\<close>

lemma save_terminal:
  assumes "terminals_ok s" "t = current_terminal s"
  obtains f where "save_terminal_info t s = (0, copy_from_screen_buffer (page (Suc (unat t))) (ti_upd t f s))"
    "unat (screen_pos_x (f (ti t s))) = nat (screen_x s)" "unat (screen_pos_y (f (ti t s))) = nat (screen_y s)"
    "unat (row_stack_old (f (ti t s))) = nat (row_stack s)" "unat (column_stack_old (f (ti t s))) = nat (column_stack s)"
    "key_arr_ptr_old (f (ti t s)) = key_arr_ptr s" "key_arr_overflow_old (f (ti t s)) = key_arr_overflow s"
    "length (key_arr_old (f (ti t s))) = 129" "screen_buffer (f (ti t s)) = screen_buffer (ti t s)"
    "take (unat (key_arr_ptr s)) (key_arr_old (f (ti t s))) = key_line s"
proof -
  have ok: "foreground_ok s" "screen_buffer (ti t s) = saved_screen ! unat t" "length (key_arr_old (ti t s)) = 129" "unat t < 3"
    "length (terminal_info s) = 3"
    using assms by (auto simp: terminals_ok_def foreground_ok_def console_ok_def)
  let ?f = "\<lambda>i. i\<lparr>screen_pos_x := word_of_int (screen_x s), screen_pos_y := word_of_int (screen_y s), key_arr_ptr_old := key_arr_ptr s,
     key_arr_overflow_old := key_arr_overflow s, row_stack_old := word_of_int (row_stack s), column_stack_old := word_of_int (column_stack s),
     key_arr_old := strncpy_arr (key_arr_old i) (key_arr s) KEY_ARR_SIZE\<rparr>"
  have small: "unat (word_of_int x :: u8) = nat x" if "0 \<le> x" "x < 80" for x
    using that by (simp only: unat_eq_nat_uint uint_word_of_int) simp
  have fg: "0 \<le> screen_x s" "screen_x s < 80" "0 \<le> screen_y s" "screen_y s < 24" "0 \<le> row_stack s" "row_stack s \<le> screen_y s"
    "0 \<le> column_stack s" "column_stack s < 80" "length (key_arr s) = 129" "unat (key_arr_ptr s) \<le> 127"
    "0 \<notin> set (take (unat (key_arr_ptr s)) (key_arr s))"
    using ok(1) by (simp_all add: foreground_ok_def console_ok_def line_ok_def)
  have "save_terminal_info t s = (0, copy_from_screen_buffer (page (Suc (unat t))) (ti_upd t ?f s))"
    using ok by (simp add: save_terminal_info_def Let_def saved_screen_page ti_def ti_upd_def)
  moreover have "take (unat (key_arr_ptr s)) (strncpy_arr (key_arr_old (ti t s)) (key_arr s) 128) = key_line s"
    using take_strncpy_arr [OF fg(11), of 128] fg(9,10) by (simp add: key_line_def)
  ultimately show thesis using that [of ?f] fg ok by (simp add: small)
qed

text \<open>Restoring a terminal makes the console show it; the saved screens stay as they are.\<close>

lemma restore_terminal:
  assumes "background_ok t s" "screen_buffer (ti t s) = saved_screen ! unat t" "length (key_arr s) = 129"
    "current_terminal s = t"
  obtains u where "restore_terminal_info t s = Some (0, u)" "foreground_ok u" "only_console s u" "terminal_info u = terminal_info s"
    "screen_of u = saved_of t s" "key_line u = take (unat (key_arr_ptr_old (ti t s))) (key_arr_old (ti t s))"
    "key_arr_overflow u = key_arr_overflow_old (ti t s)" "column_stack u = uint (column_stack_old (ti t s))"
    "\<And>j. 0 < j \<Longrightarrow> j < 4 \<Longrightarrow> view j u = view j s"
proof -
  let ?i = "ti t s"
  have b: "screen_mapped s" "unat t < 3" "length (terminal_info s) = 3" "unat (screen_pos_x ?i) < 80" "unat (screen_pos_y ?i) < 24"
    "unat (row_stack_old ?i) \<le> unat (screen_pos_y ?i)" "unat (column_stack_old ?i) < 80"
    "length (key_arr_old ?i) = 129" "unat (key_arr_ptr_old ?i) \<le> 127"
    "0 \<notin> set (take (unat (key_arr_ptr_old ?i)) (key_arr_old ?i))"
    "key_arr_overflow_old ?i = 0 \<or> unat (key_arr_ptr_old ?i) = 127"
    using assms(1) by (simp_all add: background_ok_def saved_ok_def line_ok_def text_ok_def saved_of_def)
  define v where "v = (set_cursor_position (uint (screen_pos_x ?i)) (uint (screen_pos_y ?i)) s)
    \<lparr>key_arr_ptr := key_arr_ptr_old ?i, key_arr_overflow := key_arr_overflow_old ?i, row_stack := uint (row_stack_old ?i),
     column_stack := uint (column_stack_old ?i), key_arr := strncpy_arr (key_arr s) (key_arr_old ?i) 128\<rparr>"
  have y: "\<not> 24 \<le> uint (screen_pos_y ?i)" using uint_less_nat [OF b(5)] by simp
  have v: "xl v = xl s" "terminal_info v = terminal_info s" "current_terminal v = t" "phys v = phys s" "only_console s v"
    "screen_x v = uint (screen_pos_x ?i)" "screen_y v = uint (screen_pos_y ?i)" "row_stack v = uint (row_stack_old ?i)"
    using y assms(4) by (simp_all add: v_def set_cursor_position_def Let_def only_console_def)
  have "view j v = view j s" for j by (rule view_cong) (simp add: ld_def v(1,4))
  moreover have mapped: "screen_mapped v" using b(1) v(1) by (simp add: screen_mapped_def)
  moreover have "restore_terminal_info t s = Some (0, memcpy (page 0) (page (Suc (unat t))) 3840 v)"
    using b(2) assms(2) v(2)
    by (simp add: restore_terminal_info_def Let_def v_def copy_to_screen_buffer_def page_0 saved_screen_page set_row_stack_in_def
        set_column_stack_in_def ti_def set_cursor_position_def)
  moreover have "only_console s (memcpy (page 0) (page (Suc (unat t))) 3840 v)"
    by (rule con.frame_trans [OF v(5) only_phys_only_console [OF only_phys_memcpy]])
  moreover have "take (unat (key_arr_ptr_old ?i)) (key_arr v) = take (unat (key_arr_ptr_old ?i)) (key_arr_old ?i)"
    using take_strncpy_arr [OF b(10), of 128] b(8,9) by (simp add: v_def)
  moreover have "view j (memcpy (page 0) (page (Suc (unat t))) 3840 v) = (if j = 0 then view (Suc (unat t)) v else view j v)"
    if "j < 4" for j using view_memcpy_page [OF mapped, of 0 "Suc (unat t)" j] b(2) that by simp
  moreover have "foreground_ok (memcpy (page 0) (page (Suc (unat t))) 3840 v)"
  proof -
    have "uint (row_stack_old ?i) \<le> uint (screen_pos_y ?i)" using b(6) by (simp only: word_le_nat_alt [symmetric] word_le_def)
    then show ?thesis
      using v b mapped assms(3) uint_less_nat [OF b(4)] uint_less_nat [OF b(5)] uint_less_nat [OF b(7)] calculation
      by (simp add: foreground_ok_def console_ok_def line_ok_def) (simp add: v_def)
  qed
  ultimately show thesis
    using that [of "memcpy (page 0) (page (Suc (unat t))) 3840 v"] v b
    by (simp add: screen_of_def saved_of_def key_line_def v_def)
qed

text \<open>The console after the visible terminal \<open>c\<close> has been saved and the screen cleared for \<open>t\<close>.\<close>

lemma save_and_clear:
  assumes "terminals_ok s" "unat t < 3" "t \<noteq> current_terminal s"
  obtains w where "save_terminal_info (current_terminal s) s = (0, w)"
    "background_ok t (clear (w\<lparr>current_terminal := t\<rparr>))"
    "\<And>r. unat r < 3 \<Longrightarrow> r \<noteq> t \<Longrightarrow> background_ok r (clear (w\<lparr>current_terminal := t\<rparr>))"
    "\<And>r. unat r < 3 \<Longrightarrow> saved_of r (clear (w\<lparr>current_terminal := t\<rparr>)) = shown (terminal_of r s)"
    "\<And>r. unat r < 3 \<Longrightarrow> take (unat (key_arr_ptr_old (ti r w))) (key_arr_old (ti r w)) = typed (terminal_of r s)
        \<and> key_arr_overflow_old (ti r w) = dropped (terminal_of r s) \<and> unat (column_stack_old (ti r w)) = prompt (terminal_of r s)
        \<and> screen_buffer (ti r w) = saved_screen ! unat r \<and> length (key_arr_old (ti r w)) = 129"
    "key_arr w = key_arr s" "only_console s w"
proof -
  let ?c = "current_terminal s"
  obtain f where f: "save_terminal_info ?c s = (0, copy_from_screen_buffer (page (Suc (unat ?c))) (ti_upd ?c f s))"
    "unat (screen_pos_x (f (ti ?c s))) = nat (screen_x s)" "unat (screen_pos_y (f (ti ?c s))) = nat (screen_y s)"
    "unat (row_stack_old (f (ti ?c s))) = nat (row_stack s)" "unat (column_stack_old (f (ti ?c s))) = nat (column_stack s)"
    "key_arr_ptr_old (f (ti ?c s)) = key_arr_ptr s" "key_arr_overflow_old (f (ti ?c s)) = key_arr_overflow s"
    "length (key_arr_old (f (ti ?c s))) = 129" "screen_buffer (f (ti ?c s)) = screen_buffer (ti ?c s)"
    "take (unat (key_arr_ptr s)) (key_arr_old (f (ti ?c s))) = key_line s"
    by (rule save_terminal [OF assms(1) refl])
  define w where "w = copy_from_screen_buffer (page (Suc (unat ?c))) (ti_upd ?c f s)"
  define x where "x = clear (w\<lparr>current_terminal := t\<rparr>)"
  have s: "foreground_ok s" "screen_mapped s" "unat ?c < 3" "length (terminal_info s) = 3"
    "\<And>r. unat r < 3 \<Longrightarrow> screen_buffer (ti r s) = saved_screen ! unat r \<and> length (key_arr_old (ti r s)) = 129"
    "\<And>r. unat r < 3 \<Longrightarrow> r \<noteq> ?c \<Longrightarrow> background_ok r s"
    using assms(1) by (simp_all add: terminals_ok_def foreground_ok_def console_ok_def)
  have w: "ti r w = (if r = ?c then f (ti ?c s) else ti r s)" for r
    using s(3,4) by (simp add: w_def copy_from_screen_buffer_def ti_ti_upd_other)
  have viewx: "view (Suc (unat r)) x = (if r = ?c then view 0 s else view (Suc (unat r)) s)" if "unat r < 3" for r
  proof -
    have "view (Suc (unat r)) (w\<lparr>current_terminal := t\<rparr>) = view (Suc (unat r)) w" by (rule view_cong) (simp add: ld_def)
    moreover have "view (Suc (unat r)) w = (if r = ?c then view 0 s else view (Suc (unat r)) s)"
      using view_memcpy_page [of "ti_upd ?c f s" "Suc (unat ?c)" 0 "Suc (unat r)"] s(2,3) that
      by (simp add: w_def copy_from_screen_buffer_def page_0 word_unat_eq_iff)
    moreover have "screen_mapped (w\<lparr>current_terminal := t\<rparr>)"
      using s(2) by (simp add: w_def copy_from_screen_buffer_def screen_mapped_def)
    ultimately show ?thesis using view_clear [of "w\<lparr>current_terminal := t\<rparr>"] that assms(2) by (simp add: x_def)
  qed
  note phx = only_phys_console [OF only_phys_clear [of "w\<lparr>current_terminal := t\<rparr>"], folded x_def]
  have tix: "ti r x = ti r w" for r by (simp add: ti_def phx)
  have saved: "saved_of r x = shown (terminal_of r s)" if "unat r < 3" for r
    using viewx [OF that] f(2-4) by (simp add: saved_of_def tix w terminal_of_def screen_of_def)
  have bg: "background_ok r x" if "unat r < 3" for r
  proof -
    have "text_ok (shown (terminal_of r s))"
      using s(1) s(6) [of r] that visible.inv_text_ok by (auto simp: terminal_of_def foreground_ok_def background_ok_def saved_ok_def)
    moreover have "screen_mapped x" "length (terminal_info x) = 3"
      using s(2,4) by (simp_all add: screen_mapped_def phx w_def copy_from_screen_buffer_def)
    ultimately show ?thesis
      using s(1) s(6) [of r] that f(5-8,10) saved [OF that]
      by (auto simp: background_ok_def saved_ok_def tix w foreground_ok_def line_ok_def key_line_def)
  qed
  have fields: "take (unat (key_arr_ptr_old (ti r w))) (key_arr_old (ti r w)) = typed (terminal_of r s)
        \<and> key_arr_overflow_old (ti r w) = dropped (terminal_of r s) \<and> unat (column_stack_old (ti r w)) = prompt (terminal_of r s)
        \<and> screen_buffer (ti r w) = saved_screen ! unat r \<and> length (key_arr_old (ti r w)) = 129" if "unat r < 3" for r
    using s(5) [OF that] f by (auto simp: w terminal_of_def)
  have "key_arr w = key_arr s" "only_console s w" by (simp_all add: w_def copy_from_screen_buffer_def only_console_def)
  then show thesis using that [of w] f(1) bg saved fields assms(2) by (simp add: w_def [symmetric] x_def [symmetric])
qed

text \<open>The terminals depend on memory and on the console's variables only.\<close>

lemma terminals_cong:
  assumes "phys u = phys s" "xl u = xl s" "screen_x u = screen_x s" "screen_y u = screen_y s" "row_stack u = row_stack s"
    "column_stack u = column_stack s" "terminal_info u = terminal_info s" "key_arr u = key_arr s" "key_arr_ptr u = key_arr_ptr s"
    "key_arr_overflow u = key_arr_overflow s" "current_terminal u = current_terminal s"
  shows "terminals_ok u = terminals_ok s" "terminal_of t u = terminal_of t s"
proof -
  have "view j u = view j s" for j by (rule view_cong) (simp add: ld_def assms)
  then show "terminals_ok u = terminals_ok s" "terminal_of t u = terminal_of t s"
    by (simp_all add: terminals_ok_def terminal_of_def foreground_ok_def background_ok_def console_ok_def saved_ok_def
        screen_of_def saved_of_def key_line_def screen_mapped_def ti_def assms)
qed

lemma terminals_ok_flag [simp]:
  "terminals_ok (cli s) = terminals_ok s" "terminals_ok (sti s) = terminals_ok s"
  "terminal_of t (cli s) = terminal_of t s" "terminal_of t (sti s) = terminal_of t s"
  by (rule terminals_cong; simp add: cli_def sti_def)+

lemma terminals_ok_esp [simp]: "terminals_ok (s\<lparr>esp := e\<rparr>) = terminals_ok s" "terminal_of t (s\<lparr>esp := e\<rparr>) = terminal_of t s"
  by (rule terminals_cong; simp)+

text \<open>A kernel with two terminals: process 0 runs on the visible first one, process 1 on the second, where the timer has interrupted it.\<close>

definition desk0 :: scheduling where
  "desk0 = sched0\<lparr>esp := 0x7FFFFC, terminal_running := [1, 1, 0], process := [1, 1, 0, 0, 0, 0],
     process_terminal := [[0, 0, 0, 0, 0, 0], [1, 0, 0, 0, 0, 0], [0, 0, 0, 0, 0, 0]], process_terminal_cnt := [1, 1, 0],
     pcbs := (\<lambda>a. if a = get_pcb_by_index 1 then pcb0\<lparr>pid := 1, schedule_esp := 0x7FDF00, schedule_ebp := 0x7FDF80, pending_signal := 0x3F\<rparr>
              else pcb0\<lparr>pending_signal := 0x3F\<rparr>)\<rparr>"

lemma boot0_console:
  "screen_x boot0 = 0" "screen_y boot0 = 0" "row_stack boot0 = 0" "column_stack boot0 = 0" "current_terminal boot0 = 0"
  "running_terminal boot0 = 0" "terminal_info boot0 = map terminal0 [0, 1, 2]" "key_arr boot0 = replicate 129 0"
  "key_arr_ptr boot0 = 0" "key_arr_overflow boot0 = 0"
proof -
  have init: "screen_x (filesystem_init a s) = screen_x s" "screen_y (filesystem_init a s) = screen_y s"
    "row_stack (filesystem_init a s) = row_stack s" "column_stack (filesystem_init a s) = column_stack s"
    "current_terminal (filesystem_init a s) = current_terminal s" "running_terminal (filesystem_init a s) = running_terminal s"
    "terminal_info (filesystem_init a s) = terminal_info s" "key_arr (filesystem_init a s) = key_arr s"
    "key_arr_ptr (filesystem_init a s) = key_arr_ptr s" "key_arr_overflow (filesystem_init a s) = key_arr_overflow s"
    for a and s :: fs by (simp_all add: filesystem_init_def Let_def)
  show "screen_x boot0 = 0" "screen_y boot0 = 0" "row_stack boot0 = 0" "column_stack boot0 = 0" "current_terminal boot0 = 0"
    "running_terminal boot0 = 0" "terminal_info boot0 = map terminal0 [0, 1, 2]" "key_arr boot0 = replicate 129 0"
    "key_arr_ptr boot0 = 0" "key_arr_overflow boot0 = 0"
    by (simp_all add: boot0_def fs.defs fs0_def init console.defs console0_def)
qed

lemma desk0_fields [simp]:
  "screen_x desk0 = 0" "screen_y desk0 = 0" "row_stack desk0 = 0" "column_stack desk0 = 0" "current_terminal desk0 = 0"
  "running_terminal desk0 = 0" "terminal_info desk0 = map terminal0 [0, 1, 2]" "key_arr desk0 = replicate 129 0"
  "key_arr_ptr desk0 = 0" "key_arr_overflow desk0 = 0"
  "terminal_running desk0 = [1, 1, 0]" "esp desk0 = 0x7FFFFC"
  by (simp_all add: desk0_def sched0_def keyboard.defs sound.defs scheduling.defs kernel0_def rtc.defs kernel.defs rtc0_def paging.defs
      only_paging_fields [OF only_paging_init_page, of boot0] boot0_console del: replicate.simps)

lemma desk0_ok: "terminals_ok desk0"
proof -
  have "screen_mapped kernel0" by (rule mapped_screens [OF kernel0_mapped])
  then have mapped: "screen_mapped desk0"
    by (simp add: screen_mapped_def desk0_def sched0_def keyboard.defs sound.defs scheduling.defs kernel.defs)
  have ti: "ti t desk0 = terminal0 t" if "unat t < 3" for t
  proof -
    have "t = 0 \<or> t = 1 \<or> t = 2" using that by (auto simp: word_unat_eq_iff)
    then show ?thesis by (auto simp: ti_def)
  qed
  have "saved_ok t desk0" if "unat t < 3" for t
    using that mapped by (simp add: saved_ok_def saved_of_def ti text_ok_def) (simp add: terminal0_def)
  then show ?thesis
    using mapped ti
    by (simp add: terminals_ok_def foreground_ok_def background_ok_def console_ok_def line_ok_def) (simp add: terminal0_def)
qed

text \<open>C10. Switching loses nothing: when \<open>switch_to_terminal\<close> brings another running terminal to the screen, every terminal keeps its
  text, cursor, typed line and prompt column; the one that left the screen has them in its saved page and
  \<open>terminal_t\<close>, and the chosen one is the visible one.\<close>

theorem switch_keeps_terminals:
  assumes "terminals_ok s" "unat t < 3" "t \<noteq> current_terminal s" "terminal_running s ! unat t \<noteq> 0"
  shows "\<exists>u. switch_to_terminal t s = Some (Return 0, u) \<and> current_terminal u = t \<and> terminals_ok u \<and> iflag u
    \<and> (\<forall>r. unat r < 3 \<longrightarrow> terminal_of r u = terminal_of r s)
    \<and> running_terminal u = running_terminal s \<and> console.more u = console.more s"
proof -
  let ?s = "cli s"
  obtain w where w: "save_terminal_info (current_terminal ?s) ?s = (0, w)"
    "background_ok t (clear (w\<lparr>current_terminal := t\<rparr>))"
    "\<And>r. unat r < 3 \<Longrightarrow> r \<noteq> t \<Longrightarrow> background_ok r (clear (w\<lparr>current_terminal := t\<rparr>))"
    "\<And>r. unat r < 3 \<Longrightarrow> saved_of r (clear (w\<lparr>current_terminal := t\<rparr>)) = shown (terminal_of r ?s)"
    "\<And>r. unat r < 3 \<Longrightarrow> take (unat (key_arr_ptr_old (ti r w))) (key_arr_old (ti r w)) = typed (terminal_of r ?s)
        \<and> key_arr_overflow_old (ti r w) = dropped (terminal_of r ?s) \<and> unat (column_stack_old (ti r w)) = prompt (terminal_of r ?s)
        \<and> screen_buffer (ti r w) = saved_screen ! unat r \<and> length (key_arr_old (ti r w)) = 129"
    "key_arr w = key_arr ?s" "only_console ?s w"
    using save_and_clear [of ?s t] assms(1-3) by (metis terminals_ok_flag(1) terminals_kept(1))
  define x where "x = clear (w\<lparr>current_terminal := t\<rparr>)"
  note phx = only_phys_console [OF only_phys_clear [of "w\<lparr>current_terminal := t\<rparr>"], folded x_def]
  have tix: "ti r x = ti r w" for r by (simp add: ti_def phx)
  have "length (key_arr x) = 129" using assms(1) w(6)
    by (simp add: phx terminals_ok_def foreground_ok_def line_ok_def cli_def)
  then obtain u where u: "restore_terminal_info t x = Some (0, u)" "foreground_ok u" "only_console x u" "terminal_info u = terminal_info x"
    "screen_of u = saved_of t x" "key_line u = take (unat (key_arr_ptr_old (ti t x))) (key_arr_old (ti t x))"
    "key_arr_overflow u = key_arr_overflow_old (ti t x)" "column_stack u = uint (column_stack_old (ti t x))"
    "\<And>j. 0 < j \<Longrightarrow> j < 4 \<Longrightarrow> view j u = view j x"
    using restore_terminal [of t x] w(2) w(5) [OF assms(2)] by (auto simp: x_def [symmetric] tix phx)
  have tiu: "ti r u = ti r w" for r using u(4) by (simp add: ti_def phx)
  have cu: "current_terminal u = t" using only_consoleD(2) [OF u(3)] by (simp add: phx)
  have savu: "saved_of r u = saved_of r x" if "unat r < 3" for r
    using u(9) [of "Suc (unat r)"] that by (simp add: saved_of_def tiu tix)
  have "switch_to_terminal t s = Some (Return 0, sti u)"
  proof -
    have "terminal_running ?s ! unat t \<noteq> 0" "t \<noteq> current_terminal ?s" using assms(3,4) by (simp_all add: cli_def)
    then show ?thesis using assms(2) w(1) u(1) by (simp add: switch_to_terminal_def Let_def x_def [symmetric])
  qed
  moreover have "terminal_of r u = terminal_of r s" if "unat r < 3" for r
  proof (cases "r = t")
    case True
    then have "terminal_of r u = \<lparr>shown = saved_of t x, typed = typed (terminal_of r s), dropped = dropped (terminal_of r s),
        prompt = prompt (terminal_of r s)\<rparr>"
      using w(5) [OF that] u(5-8) by (simp add: terminal_of_def [of _ u] cu tix)
    then show ?thesis using True w(4) [OF that] by (simp add: x_def)
  next
    case False
    then have "terminal_of r u = \<lparr>shown = saved_of r u, typed = typed (terminal_of r s), dropped = dropped (terminal_of r s),
        prompt = prompt (terminal_of r s)\<rparr>"
      using w(5) [OF that] by (simp add: terminal_of_def [of _ u] cu tiu)
    then show ?thesis using w(4) [OF that] savu [OF that] by (simp add: x_def)
  qed
  moreover have "terminals_ok u"
  proof -
    have "background_ok r u" if "unat r < 3" "r \<noteq> t" for r
      using w(3) [OF that, folded x_def] savu [OF that(1)] u(4) only_consoleD(4) [OF u(3)]
      by (simp add: background_ok_def saved_ok_def screen_mapped_def tiu tix)
    then show ?thesis using u(2) w(5) by (simp add: terminals_ok_def tiu cu)
  qed
  moreover have "running_terminal u = running_terminal s" "console.more u = console.more s"
    using only_consoleD [OF u(3)] only_consoleD [OF w(7)] by (simp_all add: phx)
  moreover have "iflag (sti u)" by (simp add: sti_def)
  ultimately show ?thesis using cu by (intro exI [of _ "sti u"]) simp
qed

theorem switch_keeps_terminals_witness:
  "\<exists>u. switch_to_terminal 1 desk0 = Some (Return 0, u) \<and> current_terminal u = 1 \<and> terminal_of 0 u = terminal_of 0 desk0"
  using switch_keeps_terminals [OF desk0_ok, of 1] by auto

end
