(* ===== verification/Terminal_IO.thy ===== *)
theory Terminal_IO
  imports Terminal_Spec
begin

text \<open>
  The terminal driver on the abstract terminals of \<open>Terminal_Spec\<close>: \<open>terminal_write\<close> prints on the terminal of
  the calling process and on no other. Both loops of \<open>terminal_write\<close> satisfy the contract \<open>text_writer\<close>: a character printer that
  leaves the buffer it prints from alone.
\<close>

section \<open>Printing a buffer\<close>

locale text_writer = char_printer put inv abst colour + frame_relation R
  for put :: "u8 \<Rightarrow> 's \<Rightarrow> 's" and inv abst colour R +
  fixes rd :: "'s \<Rightarrow> nat \<Rightarrow> u8" and n :: nat
  assumes put_rd: "inv s \<Longrightarrow> i < n \<Longrightarrow> rd (put c s) i = rd s i"
    and put_frame: "inv s \<Longrightarrow> R s (put c s)"
begin

lemma frame_all: "inv s \<Longrightarrow> R s (fold put cs s)"
proof (induction cs arbitrary: s)
  case (Cons c cs)
  then show ?case using frame_trans [OF put_frame [of s c]] put_inv [of s c] by simp
qed (simp add: frame_refl)

lemma rd_all: "inv s \<Longrightarrow> i < n \<Longrightarrow> rd (fold put cs s) i = rd s i"
  by (induction cs arbitrary: s) (simp_all add: put_rd put_inv)

lemma print_loop:
  assumes "inv s" "k \<le> n"
  shows "for_loop 0 k (\<lambda>i s. put (rd s i) s) s = fold put (map (rd s) [0..<k]) s"
  using assms(2)
proof (induction k)
  case (Suc k)
  then show ?case using rd_all [OF assms(1), of k] by (simp add: for_loop_last)
qed simp

lemma printed:
  assumes "inv s"
  defines "u \<equiv> for_loop 0 n (\<lambda>i s. put (rd s i) s) s"
  shows "abst u = fold (text_put (colour s)) (map (rd s) [0..<n]) (abst s)" "inv u" "R s u"
  using put_all [OF assms(1)] frame_all [OF assms(1)] by (simp_all add: u_def print_loop [OF assms(1)])

end

section \<open>Memory off the screens\<close>

definition off_screens :: "u32 \<Rightarrow> bool" where
  "off_screens p \<longleftrightarrow> (\<forall>i < 16384. p \<noteq> off i)"

lemma off_screens_off_screen: "off_screens p \<Longrightarrow> off_screen p"
  by (simp add: off_screens_def off_screen_def)

definition buffer_off :: "addr \<Rightarrow> nat \<Rightarrow> 'a machine_scheme \<Rightarrow> bool" where
  "buffer_off buf n s \<longleftrightarrow> (\<forall>i < n. off_screens (xl s (buf + word_of_nat i)))"

lemma put_cell_off_screens:
  assumes "screen_mapped s" "j < 4" "0 \<le> k" "k < 1920" "off_screens p"
  shows "phys (put_cell (page j) k c col s) p = phys s p"
proof -
  have lt: "4096 * j + 2 * nat k < 16384" "4096 * j + (2 * nat k + 1) < 16384" using assms(2,4) by simp_all
  then have "off (4096 * j + 2 * nat k) \<noteq> p" "off (4096 * j + (2 * nat k + 1)) \<noteq> p"
    using assms(5) unfolding off_screens_def by blast+
  then show ?thesis
    using put_cell_off [of j "nat k" c col s] assms(1,3) lt by (simp add: phys_st screen_mapped_def)
qed

lemma blank_row_off_screens:
  assumes "screen_mapped s" "j < 4" "0 \<le> row" "row < 24" "off_screens p"
  shows "phys (blank_row (page j) row col s) p = phys s p"
proof -
  let ?f = "\<lambda>i s. put_cell (page j) (80 * row + int i) 0x20 col s"
  have "phys (for_loop 0 80 ?f s) p = phys s p \<and> screen_mapped (for_loop 0 80 ?f s)"
    by (rule for_loop_invariant) (use assms in \<open>auto simp: put_cell_off_screens\<close>)
  then show ?thesis by (simp add: blank_row_def)
qed

lemma memcpy_off_screens:
  assumes "screen_mapped s" "j < 4" "unat n \<le> 3840" "off_screens p"
  shows "phys (memcpy (page j) (page j + 160) n s) p = phys s p"
proof -
  have "\<not> unat (p - page j) < unat n"
  proof
    assume less: "unat (p - page j) < unat n"
    have "p = page j + word_of_nat (unat (p - page j))" by simp
    then have "p = off (4096 * j + unat (p - page j))" by (simp only: page_plus)
    moreover have "4096 * j + unat (p - page j) < 16384" using less assms(2,3) by simp
    ultimately show False using assms(4) unfolding off_screens_def by blast
  qed
  then show ?thesis using memcpy_scroll [OF assms(1-3), of p] by simp
qed

lemma scroll_saved_off_screens:
  assumes "screen_mapped s" "unat t < 3" "n = 3840 \<or> n = 3680" "off_screens p"
  shows "phys (blank_row (page (Suc (unat t))) 23 col
      (ti_upd t f (memcpy (page (Suc (unat t))) (page (Suc (unat t)) + 160) n s))) p = phys s p"
  using assms by (auto simp: blank_row_off_screens memcpy_off_screens)

lemma putc_terminal_off_screens:
  assumes "saved_ok t s" "off_screens p"
  shows "phys (putc_terminal c t s) p = phys s p"
proof -
  have ok: "screen_mapped s" "unat t < 3" "length (terminal_info s) = 3" "unat (screen_pos_x (ti t s)) < 80" "unat (screen_pos_y (ti t s)) < 24"
    using assms(1) by (simp_all add: saved_ok_def text_ok_def saved_of_def)
  have enter: "phys (enter_handler_terminal t s) p = phys s p"
    using ok assms(2)
    by (simp add: enter_handler_terminal_def enter_and_scroll_terminal_def Let_def saved_screen_page scroll_saved_off_screens)
  let ?s1 = "ti_upd t (\<lambda>i. i\<lparr>screen_pos_x := screen_pos_x i + 1\<rparr>)
      (put_cell (page (Suc (unat t))) (int (80 * cur_y (saved_of t s) + cur_x (saved_of t s))) c (attrib ! unat t) s)"
  have "phys ?s1 p = phys s p"
    using ok assms(2) by (simp add: put_cell_off_screens saved_of_def del: of_nat_add of_nat_mult)
  moreover have "phys (putc_terminal_wrap t ?s1) p = phys ?s1 p"
    using ok assms(2) by (simp add: putc_terminal_wrap_def Let_def saved_screen_page scroll_saved_off_screens del: of_nat_add of_nat_mult)
  ultimately have plain: "phys (putc_terminal c t s) p = phys s p" if "c \<noteq> 0x0A" "c \<noteq> 0x0D"
    using putc_terminal_plain [OF assms(1) that] by (simp del: of_nat_add of_nat_mult)
  show ?thesis
  proof (cases "c = 0x0A \<or> c = 0x0D")
    case True
    then show ?thesis using enter by (simp add: putc_terminal_def)
  qed (use plain in blast)
qed

section \<open>What printing leaves alone\<close>

definition beside_screen :: "'a console_scheme \<Rightarrow> 'a console_scheme \<Rightarrow> bool" where
  "beside_screen s u \<longleftrightarrow> only_console s u \<and> terminal_info u = terminal_info s \<and> key_arr u = key_arr s
     \<and> key_arr_ptr u = key_arr_ptr s \<and> key_arr_overflow u = key_arr_overflow s \<and> enter_state u = enter_state s
     \<and> (\<forall>j. 0 < j \<and> j < 4 \<longrightarrow> view j u = view j s)"

definition same_line :: "terminal_t \<Rightarrow> terminal_t \<Rightarrow> bool" where
  "same_line i k \<longleftrightarrow> key_arr_ptr_old k = key_arr_ptr_old i \<and> key_arr_old k = key_arr_old i \<and> key_arr_overflow_old k = key_arr_overflow_old i
     \<and> column_stack_old k = column_stack_old i \<and> screen_buffer k = screen_buffer i"

definition same_console :: "'a console_scheme \<Rightarrow> 'a console_scheme \<Rightarrow> bool" where
  "same_console s u \<longleftrightarrow> screen_x u = screen_x s \<and> screen_y u = screen_y s \<and> row_stack u = row_stack s
     \<and> column_stack u = column_stack s \<and> key_arr u = key_arr s \<and> key_arr_ptr u = key_arr_ptr s
     \<and> key_arr_overflow u = key_arr_overflow s \<and> enter_state u = enter_state s"

definition beside_saved :: "u8 \<Rightarrow> 'a console_scheme \<Rightarrow> 'a console_scheme \<Rightarrow> bool" where
  "beside_saved t s u \<longleftrightarrow> only_console s u \<and> same_console s u \<and> same_line (ti t s) (ti t u)
     \<and> (\<forall>j. j < 4 \<and> j \<noteq> Suc (unat t) \<longrightarrow> view j u = view j s) \<and> (\<forall>r. r \<noteq> t \<longrightarrow> ti r u = ti r s)
     \<and> length (terminal_info u) = length (terminal_info s)"

lemma putc_beside:
  assumes "console_ok s"
  shows "beside_screen s (putc c s)" "column_stack (putc c s) = column_stack s"
proof -
  have "key_arr (putc c s) = key_arr s \<and> key_arr_ptr (putc c s) = key_arr_ptr s
      \<and> key_arr_overflow (putc c s) = key_arr_overflow s \<and> enter_state (putc c s) = enter_state s"
    by (simp add: putc_def enter_handler_def enter_and_scroll_def putc_wrap_def Let_def set_cursor_position_def)
  then show "beside_screen s (putc c s)"
    using putc_refines(3,4) [OF assms] only_console_ops(4) [of s c] by (simp add: beside_screen_def)
  show "column_stack (putc c s) = column_stack s"
    by (simp add: putc_def enter_handler_def enter_and_scroll_def putc_wrap_def Let_def set_cursor_position_def)
qed

lemma putc_column_beside:
  assumes "console_ok s"
  shows "beside_screen s (set_column_stack (putc c s))"
proof -
  have "view j (set_column_stack u) = view j u" for j and u :: "'a console_scheme"
    by (rule view_cong) (simp add: ld_def set_column_stack_def)
  then show ?thesis
    using putc_beside [OF assms, of c] by (simp add: beside_screen_def only_console_def set_column_stack_def)
qed

text \<open>The steps of \<open>putc_terminal\<close>, which only move the saved cursor and write to the saved page.\<close>

definition cursor_only :: "u8 \<Rightarrow> 'a console_scheme \<Rightarrow> 'a console_scheme \<Rightarrow> bool" where
  "cursor_only t s u \<longleftrightarrow> same_console s u \<and> (unat t < length (terminal_info s) \<longrightarrow> same_line (ti t s) (ti t u))
     \<and> length (terminal_info u) = length (terminal_info s)"

interpretation cur: frame_relation "cursor_only t" for t
  by unfold_locales (auto simp: cursor_only_def same_console_def same_line_def)

lemma cursor_only_ti: "(\<And>i. same_line i (f i)) \<Longrightarrow> cursor_only t s (ti_upd t f s)"
  by (simp add: cursor_only_def same_console_def ti_upd_def same_line_def ti_def)

lemma cursor_only_phys: "only_phys s u \<Longrightarrow> cursor_only t s u"
  by (simp add: cursor_only_def same_console_def same_line_def only_phys_console ti_def)

lemmas cursor_steps = cur.frame_trans [OF _ cursor_only_ti] cur.frame_trans [OF _ cursor_only_phys [OF only_phys_put_cell]]
  cur.frame_trans [OF _ cursor_only_phys [OF only_phys_memcpy]] cur.frame_trans [OF _ cursor_only_phys [OF only_phys_blank_row]]

lemma putc_terminal_cursor: "cursor_only t s (putc_terminal c t s)"
proof -
  have scroll: "cursor_only t s (enter_and_scroll_terminal t u)" if "cursor_only t s u" for u
    unfolding enter_and_scroll_terminal_def Let_def by (intro cursor_steps that) (simp_all add: same_line_def)
  have enter: "cursor_only t s (enter_handler_terminal t s)"
    unfolding enter_handler_terminal_def Let_def
    by (auto intro!: cursor_steps scroll cur.frame_refl simp: same_line_def)
  have wrap: "cursor_only t s (putc_terminal_wrap t u)" if "cursor_only t s u" for u
    unfolding putc_terminal_wrap_def Let_def by (auto intro!: cursor_steps that simp: same_line_def)
  show ?thesis unfolding putc_terminal_def Let_def
    by (auto intro!: cursor_steps enter wrap cur.frame_refl simp: same_line_def)
qed

lemma putc_terminal_beside:
  assumes "saved_ok t s"
  shows "beside_saved t s (putc_terminal c t s)"
  using assms putc_terminal_refines(2,3) [OF assms] only_console_ops(10) [of s c t] putc_terminal_cursor [of t s c]
  by (simp add: beside_saved_def cursor_only_def saved_ok_def)

section \<open>Both loops of \<open>terminal_write\<close>\<close>

lemma buffer_off_xl: "xl u = xl s \<Longrightarrow> buffer_off buf n u = buffer_off buf n s"
  by (simp add: buffer_off_def)

lemma screen_of_column [simp]: "screen_of (set_column_stack s) = screen_of s"
proof -
  have "view 0 (set_column_stack s) = view 0 s" by (rule view_cong) (simp add: ld_def set_column_stack_def)
  then show ?thesis by (simp add: screen_of_def set_column_stack_def)
qed

lemma foreground_ok_putc:
  assumes "foreground_ok s"
  shows "foreground_ok (set_column_stack (putc c s))"
proof -
  have ok: "console_ok s" "console_ok (putc c s)" using assms putc_refines(2) by (auto simp: foreground_ok_def)
  then have "console_ok (set_column_stack (putc c s))" "0 \<le> screen_x (putc c s)" "screen_x (putc c s) < 80"
    by (simp_all add: console_ok_def set_column_stack_def screen_mapped_def)
  then show ?thesis
    using assms putc_column_beside [OF ok(1), of c] by (simp add: foreground_ok_def beside_screen_def line_ok_def set_column_stack_def)
qed

interpretation vis: text_writer "\<lambda>c s. set_column_stack (putc c s)" "\<lambda>s. foreground_ok s \<and> buffer_off buf n s" screen_of
  cur_attrib beside_screen "\<lambda>s i. ld s (buf + word_of_nat i)" n for buf n
proof
  fix s :: "'a console_scheme" and c
  assume a: "foreground_ok s \<and> buffer_off buf n s"
  then have ok: "console_ok s" by (simp add: foreground_ok_def)
  note p = putc_column_beside [OF ok, of c]
  show "screen_of (set_column_stack (putc c s)) = text_put (cur_attrib s) c (screen_of s)"
    using putc_refines(1) [OF ok] by simp
  show "foreground_ok (set_column_stack (putc c s)) \<and> buffer_off buf n (set_column_stack (putc c s))"
    using a p foreground_ok_putc buffer_off_xl [of "set_column_stack (putc c s)" s] by (auto simp: beside_screen_def only_console_def)
  show "cur_attrib (set_column_stack (putc c s)) = cur_attrib s" using p by (simp add: beside_screen_def only_console_def)
  show "text_ok (screen_of s)" by (rule visible.inv_text_ok [OF ok])
  show "beside_screen s (set_column_stack (putc c s))" by (rule p)
  fix i assume "i < n"
  then show "ld (set_column_stack (putc c s)) (buf + word_of_nat i) = ld s (buf + word_of_nat i)"
    using ld_putc [OF ok, of "buf + word_of_nat i"] a
    by (simp add: buffer_off_def off_screens_off_screen) (simp add: ld_def set_column_stack_def)
qed (auto simp: beside_screen_def only_console_def)

lemma background_ok_putc:
  assumes "background_ok t s"
  shows "background_ok t (putc_terminal c t s)"
  using assms saved.put_inv [of t s c] putc_terminal_beside [of t s c]
  by (simp add: background_ok_def beside_saved_def same_line_def)

interpretation bgd: text_writer "\<lambda>c s. putc_terminal c t s" "\<lambda>s. background_ok t s \<and> buffer_off buf n s" "saved_of t"
  "\<lambda>_. attrib ! unat t" "beside_saved t" "\<lambda>s i. ld s (buf + word_of_nat i)" n for t buf n
proof
  fix s :: "'a console_scheme" and c
  assume a: "background_ok t s \<and> buffer_off buf n s"
  then have ok: "saved_ok t s" by (simp add: background_ok_def)
  note p = putc_terminal_beside [OF ok, of c]
  show "saved_of t (putc_terminal c t s) = text_put (attrib ! unat t) c (saved_of t s)" by (rule putc_terminal_refines(1) [OF ok])
  show "background_ok t (putc_terminal c t s) \<and> buffer_off buf n (putc_terminal c t s)"
    using a p background_ok_putc buffer_off_xl [of "putc_terminal c t s" s] by (auto simp: beside_saved_def only_console_def)
  show "text_ok (saved_of t s)" by (rule saved.inv_text_ok [OF ok])
  show "beside_saved t s (putc_terminal c t s)" by (rule p)
  fix i assume "i < n"
  then show "ld (putc_terminal c t s) (buf + word_of_nat i) = ld s (buf + word_of_nat i)"
    using putc_terminal_off_screens [OF ok, of "xl s (buf + word_of_nat i)" c] putc_terminal_refines(4) [OF ok, of c] a
    by (simp add: buffer_off_def ld_def)
qed (auto simp: beside_saved_def only_console_def same_console_def same_line_def)

lemma terminals_beside_screen:
  assumes "terminals_ok s" "foreground_ok u" "beside_screen s u"
  shows "terminals_ok u" "unat r < 3 \<Longrightarrow> r \<noteq> current_terminal s \<Longrightarrow> terminal_of r u = terminal_of r s"
    "terminal_of (current_terminal s) u = (terminal_of (current_terminal s) s)\<lparr>shown := screen_of u, prompt := nat (column_stack u)\<rparr>"
proof -
  have b: "current_terminal u = current_terminal s" "ti r u = ti r s" "xl u = xl s" "terminal_info u = terminal_info s" for r
    using assms(3) by (simp_all add: beside_screen_def only_console_def ti_def)
  have saved: "saved_of r u = saved_of r s" if "unat r < 3" for r
    using assms(3) that by (simp add: saved_of_def b beside_screen_def)
  then have "background_ok r u = background_ok r s" if "unat r < 3" for r
    using that by (simp add: background_ok_def saved_ok_def b screen_mapped_def)
  then show "terminals_ok u" using assms(1,2) by (simp add: terminals_ok_def b)
  show "terminal_of r u = terminal_of r s" if "unat r < 3" "r \<noteq> current_terminal s"
    using that saved by (simp add: terminal_of_def b)
  show "terminal_of (current_terminal s) u = (terminal_of (current_terminal s) s)\<lparr>shown := screen_of u, prompt := nat (column_stack u)\<rparr>"
    using assms(3) by (simp add: terminal_of_def b beside_screen_def key_line_def)
qed

lemma terminals_beside_saved:
  assumes "terminals_ok s" "unat t < 3" "t \<noteq> current_terminal s" "background_ok t u" "beside_saved t s u"
  shows "terminals_ok u" "unat r < 3 \<Longrightarrow> r \<noteq> t \<Longrightarrow> terminal_of r u = terminal_of r s"
    "terminal_of t u = (terminal_of t s)\<lparr>shown := saved_of t u\<rparr>" "current_terminal u = current_terminal s"
proof -
  have b: "current_terminal u = current_terminal s" "\<And>r. r \<noteq> t \<Longrightarrow> ti r u = ti r s" "xl u = xl s" "same_line (ti t s) (ti t u)"
    "length (terminal_info u) = length (terminal_info s)" "same_console s u" "view 0 u = view 0 s"
    "\<And>r. r \<noteq> t \<Longrightarrow> unat r < 3 \<Longrightarrow> view (Suc (unat r)) u = view (Suc (unat r)) s"
    using assms(5) by (simp_all add: beside_saved_def only_console_def word_unat_eq_iff)
  have screen: "screen_of u = screen_of s" using b(6,7) by (simp add: screen_of_def same_console_def)
  have saved: "saved_of r u = saved_of r s" if "unat r < 3" "r \<noteq> t" for r
    using that by (simp add: saved_of_def b)
  have "foreground_ok u" using assms(1) b(6) by (simp add: terminals_ok_def foreground_ok_def console_ok_def screen_mapped_def b same_console_def)
  moreover have "background_ok r u" if "unat r < 3" "r \<noteq> current_terminal s" for r
  proof (cases "r = t")
    case False
    then show ?thesis
      using assms(1) that saved by (simp add: background_ok_def saved_ok_def b screen_mapped_def terminals_ok_def)
  qed (use assms(4) in simp)
  moreover have "screen_buffer (ti r u) = saved_screen ! unat r \<and> length (key_arr_old (ti r u)) = 129" if "unat r < 3" for r
    using assms(1) that b(2) [of r] b(4) by (cases "r = t") (simp_all add: terminals_ok_def same_line_def)
  ultimately show "terminals_ok u" by (simp add: terminals_ok_def b)
  show "terminal_of r u = terminal_of r s" if "unat r < 3" "r \<noteq> t"
    using that saved screen b(6) by (simp add: terminal_of_def b same_console_def key_line_def)
  show "terminal_of t u = (terminal_of t s)\<lparr>shown := saved_of t u\<rparr>"
    using b(4) assms(3) by (simp add: terminal_of_def b(1) same_line_def)
qed (use assms(5) in \<open>simp add: beside_saved_def only_console_def\<close>)

text \<open>Moving the prompt column of a background terminal behind its text.\<close>

lemma terminals_prompt:
  assumes "terminals_ok s" "unat t < 3" "t \<noteq> current_terminal s"
  defines "u \<equiv> ti_upd t (\<lambda>i. i\<lparr>column_stack_old := screen_pos_x i\<rparr>) s"
  shows "terminals_ok u" "unat r < 3 \<Longrightarrow> r \<noteq> t \<Longrightarrow> terminal_of r u = terminal_of r s"
    "terminal_of t u = (terminal_of t s)\<lparr>prompt := cur_x (shown (terminal_of t s))\<rparr>"
proof -
  have len: "length (terminal_info s) = 3" and bg: "background_ok t s"
    using assms(1-3) by (simp_all add: terminals_ok_def foreground_ok_def console_ok_def)
  have ti: "ti r u = (if r = t then (ti t s)\<lparr>column_stack_old := screen_pos_x (ti t s)\<rparr> else ti r s)" for r
    using len assms(2) by (simp add: u_def ti_ti_upd_other)
  have saved: "saved_of r u = saved_of r s" for r by (simp add: saved_of_def ti) (simp add: u_def)
  have screen: "screen_of u = screen_of s" "key_line u = key_line s" by (simp_all add: screen_of_def key_line_def u_def)
  have bgu: "background_ok r u" if "background_ok r s" for r
    using that bg by (auto simp: background_ok_def saved_ok_def saved ti) (simp_all add: u_def saved_of_def text_ok_def)
  have fg: "foreground_ok u" using assms(1) by (simp add: terminals_ok_def foreground_ok_def console_ok_def u_def)
  show "terminals_ok u"
    using assms(1,2) fg bgu by (auto simp: terminals_ok_def ti) (simp_all add: u_def)
  show "unat r < 3 \<Longrightarrow> r \<noteq> t \<Longrightarrow> terminal_of r u = terminal_of r s"
    by (simp add: terminal_of_def saved ti screen) (simp add: u_def)
  show "terminal_of t u = (terminal_of t s)\<lparr>prompt := cur_x (shown (terminal_of t s))\<rparr>"
    using assms(3) by (simp add: terminal_of_def saved ti) (simp add: u_def saved_of_def)
qed

section \<open>Properties of the terminal driver\<close>

lemma iflag_sti [simp]: "iflag (sti s)"
  by (simp add: sti_def)

lemma terminal_write_spec:
  assumes "terminals_ok s" "t = get_terminal_id (pid (pcbs s (get_curr_pcb s))) s" "unat t < 3" "unat n < 2 ^ 31"
    "buffer_off buf (unat n) s"
  shows "\<exists>u. terminal_write fd buf n s = (n, u) \<and> terminals_ok u \<and> iflag u
    \<and> shown (terminal_of t u) = fold (text_put (attrib ! unat t)) (read_bytes s buf (unat n)) (shown (terminal_of t s))
    \<and> typed (terminal_of t u) = typed (terminal_of t s) \<and> dropped (terminal_of t u) = dropped (terminal_of t s)
    \<and> (0 < n \<longrightarrow> prompt (terminal_of t u) = cur_x (shown (terminal_of t u)))
    \<and> (\<forall>r. unat r < 3 \<and> r \<noteq> t \<longrightarrow> terminal_of r u = terminal_of r s)"
proof -
  let ?s = "cli s"
  have n: "nat (sint n) = unat n" "(word_of_nat (unat n) :: u32) = n"
    using sint_nonneg [OF assms(4)] by simp_all
  have s: "terminals_ok ?s" "buffer_off buf (unat n) ?s" "get_curr_pcb ?s = get_curr_pcb s" "pcbs ?s = pcbs s"
    "get_terminal_id p ?s = get_terminal_id p s" "read_bytes ?s buf (unat n) = read_bytes s buf (unat n)" for p
    using assms(1,5) by (simp_all add: buffer_off_def) (simp_all add: cli_def get_curr_pcb_def get_terminal_id_def read_bytes_def ld_def)
  show ?thesis
  proof (cases "t = current_terminal s")
    case True
    define v where "v = for_loop 0 (unat n) (\<lambda>i s. set_column_stack (putc (ld s (buf + word_of_nat i)) s)) ?s"
    have "foreground_ok ?s" using s(1) by (simp only: terminals_ok_def)
    note v = vis.printed [OF conjI [OF this s(2)], folded v_def read_bytes_def]
    note tv = terminals_beside_screen [OF s(1) conjunct1 [OF v(2)] v(3)]
    have "nat (column_stack v) = cur_x (screen_of v)" if "0 < n"
    proof -
      obtain m where "unat n = Suc m" using \<open>0 < n\<close> by (cases "unat n") (simp_all add: word_less_nat_alt)
      then show ?thesis by (simp add: v_def for_loop_last set_column_stack_def screen_of_def)
    qed
    moreover have "terminal_write fd buf n s = (n, sti v)"
      using assms(2) True n s(3-5) by (simp add: terminal_write_def Let_def v_def)
    moreover have "shown (terminal_of t ?s) = screen_of ?s" "cur_attrib ?s = attrib ! unat t" using True by (simp_all add: terminal_of_def)
    ultimately show ?thesis
      using True tv v(1) s(6) by (intro exI [of _ "sti v"]) simp
  next
    case False
    define v where "v = for_loop 0 (unat n) (\<lambda>i s. putc_terminal (ld s (buf + word_of_nat i)) t s) ?s"
    define u where "u = ti_upd t (\<lambda>i. i\<lparr>column_stack_old := screen_pos_x i\<rparr>) v"
    have ne: "t \<noteq> current_terminal ?s" using False by simp
    have "background_ok t ?s" using s(1) ne assms(3) unfolding terminals_ok_def by blast
    note v = bgd.printed [OF conjI [OF this s(2)], folded v_def read_bytes_def]
    note tv = terminals_beside_saved [OF s(1) assms(3) ne conjunct1 [OF v(2)] v(3)]
    have "t \<noteq> current_terminal v" using ne tv(4) by simp
    note tu = terminals_prompt [OF tv(1) assms(3) this, folded u_def]
    have "terminal_write fd buf n s = (n, sti u)"
      using assms(2,3) False n s(3-5) by (simp add: terminal_write_def Let_def v_def u_def)
    moreover have "shown (terminal_of t ?s) = saved_of t ?s" using ne by (simp add: terminal_of_def)
    ultimately show ?thesis
      using tv tu v(1) s(6) by (intro exI [of _ "sti u"]) simp
  qed
qed

text \<open>C13. Writing: \<open>terminal_write\<close> prints its buffer, character by character, on the terminal of the calling process, whether that terminal is
  the visible one or in the background, and returns the number of bytes; the line being typed there is kept, the
  prompt column moves behind the text, and the other terminals do not change.\<close>

theorem terminal_write_prints:
  assumes "terminals_ok s" "t = get_terminal_id (pid (pcbs s (get_curr_pcb s))) s" "unat t < 3" "unat n < 2 ^ 31"
    "buffer_off buf (unat n) s"
  shows "\<exists>u. terminal_write fd buf n s = (n, u) \<and> terminals_ok u \<and> iflag u
    \<and> shown (terminal_of t u) = fold (text_put (attrib ! unat t)) (read_bytes s buf (unat n)) (shown (terminal_of t s))
    \<and> typed (terminal_of t u) = typed (terminal_of t s) \<and> dropped (terminal_of t u) = dropped (terminal_of t s)
    \<and> (0 < n \<longrightarrow> prompt (terminal_of t u) = cur_x (shown (terminal_of t u)))
    \<and> (\<forall>r. unat r < 3 \<and> r \<noteq> t \<longrightarrow> terminal_of r u = terminal_of r s)"
  by (rule terminal_write_spec [OF assms])

lemma desk0_buffer: "buffer_off 0x7F0000 16 (desk0\<lparr>esp := e\<rparr>)"
  unfolding buffer_off_def
proof (intro allI impI)
  fix i :: nat assume i: "i < 16"
  have u: "unat (0x7F0000 + word_of_nat i :: u32) = 0x7F0000 + i" using unat_add_small [of "0x7F0000 :: u32" i] i by simp
  then have "xl kernel0 (0x7F0000 + word_of_nat i) = 0x7F0000 + word_of_nat i" using i by (intro xl_kernel [OF kernel0_mapped]) simp_all
  moreover have "0x7F0000 + word_of_nat i \<noteq> off k" if "k < 16384" for k
  proof
    assume "0x7F0000 + word_of_nat i = off k"
    moreover have "unat (off k) = 0xB8000 + k" using unat_add_small [of "0xB8000 :: u32" k] that by (simp add: off_def VIDEO_def)
    ultimately show False using u that by simp
  qed
  ultimately show "off_screens (xl (desk0\<lparr>esp := e\<rparr>) (0x7F0000 + word_of_nat i))"
    by (simp add: off_screens_def desk0_def sched0_def keyboard.defs sound.defs scheduling.defs kernel.defs)
qed

theorem terminal_write_prints_witness:
  "\<exists>u. terminal_write 1 0x7F0000 5 (desk0\<lparr>esp := 0x7FDFFC\<rparr>) = (5, u) \<and> terminal_of 0 u = terminal_of 0 desk0
    \<and> shown (terminal_of 1 u) = fold (text_put 0x8A) (read_bytes (desk0\<lparr>esp := 0x7FDFFC\<rparr>) 0x7F0000 5) (shown (terminal_of 1 desk0))"
proof -
  let ?s = "desk0\<lparr>esp := 0x7FDFFC\<rparr>"
  have pcb: "get_curr_pcb ?s = get_pcb_by_index 1" by (simp add: get_curr_pcb_def get_pcb_by_index_def PCB_MASK_def EIGHT_MB_SIZE_def EIGHT_KB_SIZE_def)
  have "get_terminal_id (pid (pcbs ?s (get_curr_pcb ?s))) ?s = 1"
    unfolding pcb by (simp add: get_terminal_id_def desk0_def upt_rec)
  moreover have "buffer_off 0x7F0000 (unat (5 :: i32)) ?s" using desk0_buffer by (simp add: buffer_off_def)
  ultimately show ?thesis
    using terminal_write_prints [of ?s 1 5 "0x7F0000" 1] desk0_ok by (auto simp: attrib_def)
qed

end
