(* ===== verification/Scheduling_Spec.thy ===== *)
theory Scheduling_Spec
  imports Terminal_IO
begin

text \<open>
  What the timer interrupt promises: the processor goes round the running terminals, and no process notices. The context of a
  process is its pair of stack registers: those of the processor while it runs, those in its control block while it is
  suspended. \<open>pit_handler\<close> changes which process runs and no context.
\<close>

section \<open>Contexts\<close>

definition context_of :: "u32 \<Rightarrow> 'a kernel_scheme \<Rightarrow> u32 \<times> u32" where
  "context_of p s =
     (if get_curr_pcb s = get_pcb_by_index p then (esp s, ebp s)
      else (schedule_esp (pcbs s (get_pcb_by_index p)), schedule_ebp (pcbs s (get_pcb_by_index p))))"

definition in_stack :: "u32 \<Rightarrow> u32 \<Rightarrow> bool" where
  "in_stack p e \<longleftrightarrow> unat (get_pcb_by_index p) \<le> unat e \<and> unat e < unat (get_pcb_by_index p) + 8192"

definition runs :: "u8 \<Rightarrow> 'a kernel_scheme \<Rightarrow> bool" where
  "runs t s \<longleftrightarrow> unat t < MAX_TERMINAL_NUM \<and> terminal_running s ! unat t = 1"

text \<open>The process on top of a running terminal can be resumed: its stack pointer is in its own kernel stack, and no signal is pending for
  it.\<close>

definition ready :: "u32 \<Rightarrow> 'a kernel_scheme \<Rightarrow> bool" where
  "ready p s \<longleftrightarrow> p < 6 \<and> in_stack p (fst (context_of p s)) \<and> pending_signal (pcbs s (get_pcb_by_index p)) = 0x3F"

definition sched_ok :: "'a kernel_scheme \<Rightarrow> bool" where
  "sched_ok s \<longleftrightarrow> (process_terminal_cnt s ! 1 \<noteq> 0 \<or> process_terminal_cnt s ! 2 \<noteq> 0)
     \<and> (\<forall>t. runs t s \<longrightarrow> (\<exists>p. top_process t s = Some p \<and> ready p s))
     \<and> runs (running_terminal s) s
     \<and> top_process (running_terminal s) s \<in> Some ` {p. get_curr_pcb s = get_pcb_by_index p}
     \<and> (\<exists>prog vid. mapped s prog vid)"

lemma pcb_inject: "p < 6 \<Longrightarrow> q < 6 \<Longrightarrow> get_pcb_by_index p = get_pcb_by_index q \<longleftrightarrow> p = q"
  using unat_pcb [of p] unat_pcb [of q] by (auto simp: word_unat_eq_iff word_less_nat_alt)

section \<open>The next terminal\<close>

lemma next_terminal_eq:
  assumes "unat (running_terminal s) < 3"
  shows "next_terminal s =
    (let nth = (\<lambda>i. word_of_nat ((unat (running_terminal s) + 1 + i) mod 3) :: u8)
     in if runs (nth 0) s then nth 0 else if runs (nth 1) s then nth 1 else nth 2)"
proof -
  have "is_running (word_of_nat (k mod 3)) s = Some 1 \<longleftrightarrow> runs (word_of_nat (k mod 3)) s" for k
  proof -
    have "unat (word_of_nat (k mod 3) :: u8) < 3"
      by (rule le_less_trans [of _ "k mod 3"]) (simp_all add: unat_of_nat)
    then show ?thesis by (simp add: is_running_def runs_def)
  qed
  then show ?thesis by (simp add: next_terminal_def Let_def upt_rec)
qed

lemma terminal_cases: "unat (t :: u8) < 3 \<Longrightarrow> t = 0 \<or> t = 1 \<or> t = 2"
  by (auto simp: word_unat_eq_iff)

lemma next_terminal_runs:
  assumes "runs (running_terminal s) s"
  shows "runs (next_terminal s) s"
proof -
  have "unat (running_terminal s) < 3" using assms by (simp add: runs_def)
  with terminal_cases [OF this] show ?thesis
    using assms by (auto simp: next_terminal_eq Let_def)
qed

text \<open>Steps of the round until terminal \<open>t\<close> has its turn; the next terminal is nearer, or it is \<open>t\<close>.\<close>

definition turns :: "u8 \<Rightarrow> u8 \<Rightarrow> nat" where
  "turns c t = (unat t + 2 - unat c) mod 3"

lemma next_terminal_turns:
  assumes "runs (running_terminal s) s" "runs t s"
  shows "next_terminal s = t \<or> turns (next_terminal s) t < turns (running_terminal s) t"
proof -
  have "unat (running_terminal s) < 3" "unat t < 3" using assms by (simp_all add: runs_def)
  with terminal_cases [OF this(1)] terminal_cases [OF this(2)] show ?thesis
    using assms by (auto simp: next_terminal_eq Let_def turns_def)
qed

section \<open>One tick\<close>

lemma video_buffer_mapped:
  assumes "mapped s prog vid" "unat t < 3"
  shows "mapped (map_user_video_to_buffer t s) prog
    (Some (if t = current_terminal s then VIDEO_OFFSET else VIDEO_OFFSET + (ucast t + 1) * FOUR_KB_SIZE))"
  using map_user_video_mapped [OF assms(1)] map_terminal_video_mapped [OF assms]
  by (simp add: map_user_video_to_buffer_def)

lemma video_buffer_kernel:
  "pcbs (map_user_video_to_buffer t s) = pcbs s" "process_terminal (map_user_video_to_buffer t s) = process_terminal s"
  "process_terminal_cnt (map_user_video_to_buffer t s) = process_terminal_cnt s"
  "terminal_running (map_user_video_to_buffer t s) = terminal_running s" "esp (map_user_video_to_buffer t s) = esp s"
  "ebp (map_user_video_to_buffer t s) = ebp s" "running_terminal (map_user_video_to_buffer t s) = running_terminal s"
  "tss_esp0 (map_user_video_to_buffer t s) = tss_esp0 s" "iflag (map_user_video_to_buffer t s) = iflag s"
  "current_terminal (map_user_video_to_buffer t s) = current_terminal s"
  by (simp_all add: only_paging_kernel [OF only_paging_maps(4)] only_paging_fields [OF only_paging_maps(4)])

lemma pit_switch:
  assumes "sched_ok s"
  obtains q u where "pit_handler s = Some (Return 0, u)" "top_process (next_terminal s) s = Some q" "ready q s"
    "running_terminal u = next_terminal s" "iflag u" "current_terminal u = current_terminal s"
    "pcbs u = (pcbs s)(get_curr_pcb s := (pcbs s (get_curr_pcb s))\<lparr>schedule_esp := esp s, schedule_ebp := ebp s\<rparr>)"
    "esp u = schedule_esp (pcbs u (get_pcb_by_index q))" "ebp u = schedule_ebp (pcbs u (get_pcb_by_index q))"
    "process_terminal u = process_terminal s" "process_terminal_cnt u = process_terminal_cnt s" "terminal_running u = terminal_running s"
    "tss_esp0 u = tss_esp0 (set_tss q s)" "mapped u (Some q) (Some (if next_terminal s = current_terminal s then VIDEO_OFFSET
       else VIDEO_OFFSET + (ucast (next_terminal s) + 1) * FOUR_KB_SIZE))"
proof -
  have runs: "runs (running_terminal s) s" and cnt: "process_terminal_cnt s ! 1 \<noteq> 0 \<or> process_terminal_cnt s ! 2 \<noteq> 0"
    using assms by (simp_all add: sched_ok_def)
  have nr: "runs (next_terminal s) s" by (rule next_terminal_runs [OF runs])
  then obtain q where q: "top_process (next_terminal s) s = Some q" "ready q s" using assms by (auto simp: sched_ok_def)
  obtain prog vid where m: "mapped s prog vid" using assms by (auto simp: sched_ok_def)
  have q6: "q < 6" "unat q < 6" using q(2) by (simp_all add: ready_def word_less_nat_alt)
  have uq: "unat (ucast q :: u8) = unat q" using q6(2) by (simp add: unat_ucast_mod)
  have small: "\<not> (5 :: u8) < ucast q" "(ucast (ucast q :: u8) :: u32) = q"
    using q6(2) uq by (simp_all add: word_less_nat_alt word_unat_eq_iff unat_ucast_mod)
  define s1 where "s1 = cli (send_eoi 0 s)"
  define s2 where "s2 = map_program q s1"
  define s5 where "s5 = set_tss q (s2\<lparr>running_terminal := next_terminal s, pending_interrupt := 0x3F\<rparr>)"
  define s6 where "s6 = map_user_video_to_buffer (next_terminal s) s5"
  define s7 where "s7 = pcb_upd (get_curr_pcb s) (\<lambda>b. b\<lparr>schedule_esp := esp s, schedule_ebp := ebp s\<rparr>) s6"
  define u where "u = sti (s7\<lparr>esp := schedule_esp (pcbs s7 (get_pcb_by_index q)), ebp := schedule_ebp (pcbs s7 (get_pcb_by_index q))\<rparr>)"
  have s1: "process_terminal s1 = process_terminal s" "process_terminal_cnt s1 = process_terminal_cnt s" "terminal_running s1 = terminal_running s"
    "pcbs s1 = pcbs s" "esp s1 = esp s" "ebp s1 = ebp s" "running_terminal s1 = running_terminal s" "current_terminal s1 = current_terminal s"
    "tss_esp0 s1 = tss_esp0 s" "mapped s1 = mapped s"
    by (simp_all add: s1_def cli_def send_eoi_def outb_def mapped_def tables_def fun_eq_iff)
  have s2: "process_terminal s2 = process_terminal s" "process_terminal_cnt s2 = process_terminal_cnt s" "terminal_running s2 = terminal_running s"
    "pcbs s2 = pcbs s" "esp s2 = esp s" "ebp s2 = ebp s" "current_terminal s2 = current_terminal s" "mapped s2 (Some q) vid"
    using map_program_mapped [of s1 prog vid q] m q6(1) by (simp_all add: s2_def s1)
  have s5: "process_terminal s5 = process_terminal s" "process_terminal_cnt s5 = process_terminal_cnt s" "terminal_running s5 = terminal_running s"
    "pcbs s5 = pcbs s" "esp s5 = esp s" "ebp s5 = ebp s" "current_terminal s5 = current_terminal s" "mapped s5 (Some q) vid"
    "running_terminal s5 = next_terminal s" "tss_esp0 s5 = tss_esp0 (set_tss q s)" "pending_interrupt s5 = 0x3F"
    using s2 by (simp_all add: s5_def set_tss_def mapped_def tables_def)
  have s6: "pending_interrupt s6 = 0x3F" "mapped s6 (Some q) (Some (if next_terminal s = current_terminal s then VIDEO_OFFSET
       else VIDEO_OFFSET + (ucast (next_terminal s) + 1) * FOUR_KB_SIZE))"
    using only_paging_eq [OF only_paging_maps(4), of pending_interrupt "next_terminal s" s5] s5(7,11) nr
      video_buffer_mapped [OF s5(8), of "next_terminal s"]
    by (simp_all add: s6_def wipe_paging_def runs_def)
  have u: "running_terminal u = next_terminal s" "iflag u" "current_terminal u = current_terminal s"
    "pcbs u = (pcbs s)(get_curr_pcb s := (pcbs s (get_curr_pcb s))\<lparr>schedule_esp := esp s, schedule_ebp := ebp s\<rparr>)"
    "esp u = schedule_esp (pcbs u (get_pcb_by_index q))" "ebp u = schedule_ebp (pcbs u (get_pcb_by_index q))"
    "process_terminal u = process_terminal s" "process_terminal_cnt u = process_terminal_cnt s" "terminal_running u = terminal_running s"
    "tss_esp0 u = tss_esp0 (set_tss q s)"
    using s5 by (simp_all add: u_def s7_def s6_def video_buffer_kernel sti_def pcb_upd_def)
  have mu: "mapped u = mapped s6" by (simp add: u_def s7_def sti_def pcb_upd_def mapped_def tables_def fun_eq_iff)
  have "next_terminal s1 = next_terminal s" "top_process t s1 = top_process t s" "get_curr_pcb s2 = get_curr_pcb s" for t
    by (simp_all add: next_terminal_def is_running_def top_process_def s1 s2 get_curr_pcb_def Let_def)
  moreover have "pending_signal (pcbs s (get_pcb_by_index q)) = 0x3F" using q(2) by (simp add: ready_def)
  moreover have "pending_interrupt s7 = 0x3F" "esp s6 = esp s" "ebp s6 = ebp s" using s6(1) s5 by (simp_all add: s7_def s6_def video_buffer_kernel pcb_upd_def)
  ultimately have "pit_handler s = Some (Return 0, u)"
    using cnt q(1) small
    by (simp add: pit_handler_def s1_def [symmetric] s1 s2_def [symmetric] s2 s5_def [symmetric] s6_def [symmetric] s7_def [symmetric] u_def Let_def)
  then show thesis using that [of u q] q u s6(2) unfolding mu by blast
qed

text \<open>A tick changes no context, and the state stays schedulable.\<close>

lemma pit_contexts:
  assumes "sched_ok s" "pit_handler s = Some (c, u)"
  shows "c = Return 0" "sched_ok u" "running_terminal u = next_terminal s" "\<And>p. p < 6 \<Longrightarrow> context_of p u = context_of p s"
    "\<And>t. runs t u = runs t s" "\<And>t. top_process t u = top_process t s"
    "\<And>q. top_process (next_terminal s) s = Some q \<Longrightarrow> get_curr_pcb u = get_pcb_by_index q \<and> tss_esp0 u = tss_esp0 (set_tss q s)
       \<and> mapped u (Some q) (Some (if next_terminal s = current_terminal s then VIDEO_OFFSET
            else VIDEO_OFFSET + (ucast (next_terminal s) + 1) * FOUR_KB_SIZE))"
proof -
  obtain q w where w: "pit_handler s = Some (Return 0, w)" "top_process (next_terminal s) s = Some q" "ready q s"
    "running_terminal w = next_terminal s" "iflag w" "current_terminal w = current_terminal s"
    "pcbs w = (pcbs s)(get_curr_pcb s := (pcbs s (get_curr_pcb s))\<lparr>schedule_esp := esp s, schedule_ebp := ebp s\<rparr>)"
    "esp w = schedule_esp (pcbs w (get_pcb_by_index q))" "ebp w = schedule_ebp (pcbs w (get_pcb_by_index q))"
    "process_terminal w = process_terminal s" "process_terminal_cnt w = process_terminal_cnt s" "terminal_running w = terminal_running s"
    "tss_esp0 w = tss_esp0 (set_tss q s)" "mapped w (Some q) (Some (if next_terminal s = current_terminal s then VIDEO_OFFSET
       else VIDEO_OFFSET + (ucast (next_terminal s) + 1) * FOUR_KB_SIZE))"
    by (rule pit_switch [OF assms(1)])
  have eq: "c = Return 0" "w = u" using w(1) assms(2) by simp_all
  note v = eq(1) w(2-4,7-14) [unfolded eq(2)]
  have q: "q < 6" "in_stack q (fst (context_of q s))" using v(3) by (simp_all add: ready_def)
  have regs: "(esp u, ebp u) = context_of q s" using v(5-7) by (simp add: context_of_def)
  then have "in_stack q (esp u)" using q(2) by (metis fst_conv)
  then have curr: "get_curr_pcb u = get_pcb_by_index q" using curr_pcb [OF q(1), of u] by (simp add: in_stack_def)
  show ctx: "context_of p u = context_of p s" if "p < 6" for p
    using regs curr v(5) pcb_inject [OF that q(1)] by (cases "p = q") (simp_all add: context_of_def)
  show runs: "runs t u = runs t s" for t by (simp add: runs_def v(10))
  show top: "top_process t u = top_process t s" for t by (simp add: top_process_def Let_def v(8,9))
  have rdy: "ready p u = ready p s" for p
    using ctx [of p] v(5) by (auto simp: ready_def)
  have "runs (next_terminal s) s" using assms(1) by (simp add: sched_ok_def next_terminal_runs)
  then show "sched_ok u"
    using assms(1) v(2,4,9,12) curr by (auto simp: sched_ok_def runs top rdy)
  show "c = Return 0" "running_terminal u = next_terminal s" using v by simp_all
  show "get_curr_pcb u = get_pcb_by_index q' \<and> tss_esp0 u = tss_esp0 (set_tss q' s)
       \<and> mapped u (Some q') (Some (if next_terminal s = current_terminal s then VIDEO_OFFSET
            else VIDEO_OFFSET + (ucast (next_terminal s) + 1) * FOUR_KB_SIZE))" if "top_process (next_terminal s) s = Some q'" for q'
    using that v curr by simp
qed

lemma desk0_sched: "sched_ok desk0" "top_process 1 desk0 = Some 1" "runs 1 desk0" "context_of 1 desk0 = (0x7FDF00, 0x7FDF80)"
proof -
  have tab: "process_terminal desk0 = [[0, 0, 0, 0, 0, 0], [1, 0, 0, 0, 0, 0], [0, 0, 0, 0, 0, 0]]" "process_terminal_cnt desk0 = [1, 1, 0]"
    "pcbs desk0 = (\<lambda>a. if a = get_pcb_by_index 1 then pcb0\<lparr>pid := 1, schedule_esp := 0x7FDF00, schedule_ebp := 0x7FDF80, pending_signal := 0x3F\<rparr>
              else pcb0\<lparr>pending_signal := 0x3F\<rparr>)"
    by (simp_all add: desk0_def)
  show top: "top_process 1 desk0 = Some 1" by (simp add: top_process_def tab)
  have top0: "top_process 0 desk0 = Some 0" by (simp add: top_process_def tab)
  have pcb: "get_pcb_by_index 0 = 0x7FE000" "get_pcb_by_index 1 = 0x7FC000"
    by (simp_all add: get_pcb_by_index_def EIGHT_MB_SIZE_def EIGHT_KB_SIZE_def)
  have curr: "get_curr_pcb desk0 = 0x7FE000" by (simp add: get_curr_pcb_def PCB_MASK_def)
  show ctx: "context_of 1 desk0 = (0x7FDF00, 0x7FDF80)" by (simp add: context_of_def curr pcb tab)
  have "ready 0 desk0" by (simp add: ready_def in_stack_def context_of_def curr pcb tab)
  moreover have "ready 1 desk0" by (simp add: ready_def in_stack_def ctx) (simp add: pcb tab)
  moreover have runs: "runs t desk0 \<longleftrightarrow> t = 0 \<or> t = 1" for t
    using terminal_cases [of t] by (auto simp: runs_def)
  moreover have "mapped desk0 None None"
    using kernel0_mapped by (simp add: mapped_def tables_def desk0_def sched0_def keyboard.defs sound.defs kernel.defs scheduling.defs)
  ultimately show "sched_ok desk0" using top top0 curr pcb by (auto simp: sched_ok_def tab)
  show "runs 1 desk0" by (simp add: runs)
qed

text \<open>C11. Context switch: on a timer interrupt with more than one terminal in use and no signal pending, \<open>pit_handler\<close> resumes the process on top
  of the next running terminal, on its kernel stack and with its program page, its screen and its stack in the TSS. No
  process loses its context: for each of the six, the registers it will continue with are those it was interrupted with.\<close>

theorem pit_keeps_contexts:
  assumes "sched_ok s"
  shows "\<exists>u q. pit_handler s = Some (Return 0, u) \<and> sched_ok u \<and> running_terminal u = next_terminal s
    \<and> top_process (next_terminal s) s = Some q \<and> get_curr_pcb u = get_pcb_by_index q \<and> tss_esp0 u = tss_esp0 (set_tss q s)
    \<and> mapped u (Some q) (Some (if next_terminal s = current_terminal s then VIDEO_OFFSET
         else VIDEO_OFFSET + (ucast (next_terminal s) + 1) * FOUR_KB_SIZE))
    \<and> (\<forall>p < 6. context_of p u = context_of p s)"
proof -
  obtain q u where "pit_handler s = Some (Return 0, u)" "top_process (next_terminal s) s = Some q"
    using pit_switch [OF assms] by metis
  with pit_contexts [OF assms this(1)] show ?thesis by blast
qed

theorem pit_keeps_contexts_witness:
  "\<exists>u. pit_handler desk0 = Some (Return 0, u) \<and> context_of 0 u = context_of 0 desk0 \<and> context_of 1 u = (0x7FDF00, 0x7FDF80)"
proof -
  have "(0 :: u32) < 6" "(1 :: u32) < 6" by simp_all
  then show ?thesis using pit_keeps_contexts [OF desk0_sched(1)] desk0_sched(4) by metis
qed

section \<open>A sequence of ticks\<close>

fun ticks :: "nat \<Rightarrow> 'a scheduling_scheme \<Rightarrow> 'a scheduling_scheme option" where
  "ticks 0 s = Some s"
| "ticks (Suc n) s = do { (_, s) \<leftarrow> pit_handler s; ticks n s }"

text \<open>C12. Round robin: every running terminal gets the processor within three timer interrupts, whichever is running now, and its top process
  then runs with the context it had.\<close>

theorem pit_round_robin:
  assumes "sched_ok s" "runs t s" "top_process t s = Some p"
  shows "\<exists>k u. 1 \<le> k \<and> k \<le> 3 \<and> ticks k s = Some u \<and> running_terminal u = t \<and> get_curr_pcb u = get_pcb_by_index p
    \<and> (esp u, ebp u) = context_of p s"
proof -
  have p6: "p < 6" using assms by (auto simp: sched_ok_def ready_def)
  have "\<exists>k u. 1 \<le> k \<and> k \<le> Suc (turns (running_terminal s) t) \<and> ticks k s = Some u \<and> running_terminal u = t
      \<and> get_curr_pcb u = get_pcb_by_index p \<and> context_of p u = context_of p s"
    using assms
  proof (induction "turns (running_terminal s) t" arbitrary: s rule: less_induct)
    case less
    obtain q u where u: "pit_handler s = Some (Return 0, u)" "top_process (next_terminal s) s = Some q"
      using pit_switch [OF less.prems(1)] by metis
    note c = pit_contexts [OF less.prems(1) u(1)]
    show ?case
    proof (cases "next_terminal s = t")
      case True
      then show ?thesis using u c(3) c(4) [OF p6] c(7) [of p] less.prems(3) by (intro exI [of _ 1] exI [of _ u]) simp
    next
      case False
      have "turns (running_terminal u) t < turns (running_terminal s) t"
        using next_terminal_turns [of s t] less.prems False c(3) by (simp add: sched_ok_def)
      from less.hyps [OF this c(2)] less.prems c(5,6) obtain k v where
        "1 \<le> k" "k \<le> Suc (turns (running_terminal u) t)" "ticks k u = Some v" "running_terminal v = t"
        "get_curr_pcb v = get_pcb_by_index p" "context_of p v = context_of p u" by auto
      then show ?thesis
        using u(1) c(4) [OF p6] \<open>turns (running_terminal u) t < turns (running_terminal s) t\<close>
        by (intro exI [of _ "Suc k"] exI [of _ v]) simp
    qed
  qed
  then obtain k u where u: "1 \<le> k" "k \<le> Suc (turns (running_terminal s) t)" "ticks k s = Some u" "running_terminal u = t"
    "get_curr_pcb u = get_pcb_by_index p" "context_of p u = context_of p s" by blast
  have "(unat t + 2 - unat (running_terminal s)) mod 3 < 3" by (rule mod_less_divisor) simp
  then have "k \<le> 3" using u(2) by (simp add: turns_def)
  moreover have "(esp u, ebp u) = context_of p s" using u(5,6) by (simp add: context_of_def)
  ultimately show ?thesis using u by blast
qed

theorem pit_round_robin_witness:
  "\<exists>k u. k \<le> 3 \<and> ticks k desk0 = Some u \<and> running_terminal u = 1 \<and> esp u = 0x7FDF00"
  using pit_round_robin [OF desk0_sched(1,3,2)] desk0_sched(4) by auto

end
