(* ===== verification/Keyboard_Spec.thy ===== *)
theory Keyboard_Spec
  imports Terminal_IO
begin

text \<open>
  What pressing a key does. The layout is given independently of the tables of \<^verbatim>\<open>keyboard.c\<close>: each key has a
  character, Shift and Caps Lock change letters to capitals when exactly one of them is on, and Shift alone selects the
  second symbol of the other keys.
\<close>

section \<open>The layout\<close>

definition us_layout :: "(nat \<times> u8) list" where
  "us_layout = zip ([2..<14] @ [16..<28] @ [30..<42] @ [43..<54] @ [57])
     (bytes_of (''1234567890-='' @ ''qwertyuiop[]'' @ ''asdfghjkl;'' @ [CHR 0x27, CHR 0x60] @ [CHR 0x5C] @ ''zxcvbnm,./'' @ '' ''))"

definition second_symbol :: "(u8 \<times> u8) list" where
  "second_symbol = zip (bytes_of (''1234567890-=[];,./'' @ [CHR 0x27, CHR 0x60, CHR 0x5C]))
     (bytes_of (''!@#$%^&*()_+{}:<>?'' @ [CHR 0x22, CHR 0x7E, CHR 0x7C]))"

definition with_modifiers :: "bool \<Rightarrow> bool \<Rightarrow> u8 \<Rightarrow> u8" where
  "with_modifiers shift caps c =
     (if 0x61 \<le> c \<and> c \<le> 0x7A then (if shift \<noteq> caps then c - 0x20 else c)
      else if shift then (case map_of second_symbol c of Some d \<Rightarrow> d | None \<Rightarrow> c) else c)"

lemma layout_table:
  "\<forall>(k, c) \<in> set us_layout. key_scancode ! 0 ! k = with_modifiers False False c \<and> key_scancode ! 1 ! k = with_modifiers True False c
     \<and> key_scancode ! 2 ! k = with_modifiers False True c \<and> key_scancode ! 3 ! k = with_modifiers True True c"
  by (simp add: us_layout_def bytes_of_def upt_rec key_scancode_def key_row_def with_modifiers_def second_symbol_def)

lemma layout_codes:
  "\<forall>(k, c) \<in> set us_layout. 2 \<le> k \<and> k < 0x3B \<and> k \<notin> {0x2A, 0x36, 0x3A, 0x1D, 0x1C, 0x0E, 0x0F, 0x38, 0x37}"
  by (simp add: us_layout_def bytes_of_def upt_rec)

lemma layout_chars:
  "\<forall>(k, c) \<in> set us_layout. with_modifiers x y c \<noteq> 0 \<and> with_modifiers x y c \<noteq> 0x0A \<and> with_modifiers x y c \<noteq> 0x0D"
  by (cases x; cases y) (simp_all add: us_layout_def bytes_of_def upt_rec with_modifiers_def second_symbol_def)

section \<open>The keyboard controller\<close>

text \<open>The handler polls the data port until it delivers a non-zero byte; \<open>scancode_after n c\<close> says that this is \<open>c\<close>, after \<open>n\<close> zeros.\<close>

definition scancode_after :: "nat \<Rightarrow> u8 \<Rightarrow> 'a machine_scheme \<Rightarrow> bool" where
  "scancode_after n c s \<longleftrightarrow> c \<noteq> 0 \<and> dev s (clk s + n) KEY_DATA_PORT = c \<and> (\<forall>i < n. dev s (clk s + i) KEY_DATA_PORT = 0)"

lemma unat_ucast_u8: "unat (ucast (c :: u8) :: u32) = unat c"
  using unat_u8_lt [of c] by (simp add: unat_ucast_mod del: unat_u8_lt)

lemma read_scancode_result:
  assumes "scancode_after n c s"
  shows "read_scancode s = Some (ucast c, s\<lparr>clk := clk s + Suc n\<rparr>)"
  using assms
proof (induction n arbitrary: s)
  case 0
  then have "(ucast c :: u32) > 0" by (simp add: scancode_after_def word_less_nat_alt unat_ucast_u8 unat_gt_0)
  then show ?case using 0 by (simp add: scancode_after_def read_scancode.simps inb_def)
next
  case (Suc n)
  have "dev s (clk s) KEY_DATA_PORT = 0" using Suc.prems by (auto simp: scancode_after_def)
  moreover have "scancode_after n c (s\<lparr>clk := Suc (clk s)\<rparr>)"
    using Suc.prems by (auto simp: scancode_after_def)
  ultimately show ?case using Suc.IH [of "s\<lparr>clk := Suc (clk s)\<rparr>"]
    by (subst read_scancode.simps) (simp add: inb_def)
qed

section \<open>The visible terminal while a key is handled\<close>

lemma terminals_push:
  assumes "terminals_ok s" "e \<noteq> 0"
  defines "u \<equiv> key_arr_push e s" and "c \<equiv> current_terminal s"
  shows "terminals_ok u" "unat r < 3 \<Longrightarrow> r \<noteq> c \<Longrightarrow> terminal_of r u = terminal_of r s"
    "shown (terminal_of c u) = shown (terminal_of c s)" "prompt (terminal_of c u) = prompt (terminal_of c s)"
    "typed (terminal_of c u) = (if length (typed (terminal_of c s)) < 127 then typed (terminal_of c s) @ [e] else typed (terminal_of c s))"
proof -
  have fg: "length (key_arr s) = 129" "unat (key_arr_ptr s) \<le> 127" "foreground_ok s" "0 \<notin> set (take (unat (key_arr_ptr s)) (key_arr s))"
    using assms(1) by (simp_all add: terminals_ok_def foreground_ok_def line_ok_def)
  have u: "phys u = phys s" "xl u = xl s" "screen_x u = screen_x s" "screen_y u = screen_y s" "row_stack u = row_stack s"
    "column_stack u = column_stack s" "terminal_info u = terminal_info s" "current_terminal u = c"
    by (simp_all add: u_def c_def key_arr_push_def)
  have v: "view j u = view j s" for j by (rule view_cong) (simp add: ld_def u)
  have len: "length (typed (terminal_of c s)) = unat (key_arr_ptr s)" using fg by (simp add: terminal_of_def c_def key_line_def)
  have saved: "saved_of r u = saved_of r s" "ti r u = ti r s" for r by (simp_all add: saved_of_def ti_def u v)
  show "terminal_of r u = terminal_of r s" if "unat r < 3" "r \<noteq> c" using that by (simp add: terminal_of_def u c_def saved)
  show "shown (terminal_of c u) = shown (terminal_of c s)" "prompt (terminal_of c u) = prompt (terminal_of c s)"
    by (simp_all add: terminal_of_def c_def u [unfolded c_def] screen_of_def v)
  have line: "take (unat (key_arr_ptr u)) (key_arr u) =
      (if unat (key_arr_ptr s) < 127 then take (unat (key_arr_ptr s)) (key_arr s) @ [e] else take (unat (key_arr_ptr s)) (key_arr s))"
    using fg by (simp add: u_def key_arr_push_def u8_inc take_Suc_conv_app_nth)
  then show "typed (terminal_of c u) = (if length (typed (terminal_of c s)) < 127 then typed (terminal_of c s) @ [e] else typed (terminal_of c s))"
    unfolding len by (simp add: terminal_of_def c_def u [unfolded c_def] key_line_def)
  have "line_ok (key_arr u) (key_arr_ptr u) (key_arr_overflow u)"
    using fg assms(2) line by (auto simp: line_ok_def u_def key_arr_push_def u8_inc foreground_ok_def)
  then have "foreground_ok u"
    using fg(3) by (simp add: foreground_ok_def console_ok_def u screen_mapped_def c_def)
  then show "terminals_ok u" using assms(1)
    by (simp add: terminals_ok_def saved background_ok_def saved_ok_def u screen_mapped_def c_def)
qed

text \<open>Which character a key of the layout is, and what the handler does with it.\<close>

lemma layout_key:
  assumes "(k, c) \<in> set us_layout" "e = with_modifiers shift caps c"
    "i = (if shift then if caps then 3 else 1 else if caps then 2 else 0)"
  shows "e \<noteq> 0" "e \<noteq> 0x0A" "e \<noteq> 0x0D" "key_scancode ! i ! k = e" "2 \<le> k" "k < 0x3B"
    "k \<notin> {0x2A, 0x36, 0x3A, 0x1D, 0x1C, 0x0E, 0x0F, 0x38, 0x37}"
  using layout_chars [of shift caps] layout_table layout_codes assms by auto

lemma keyboard_enters:
  assumes "scancode_after n (word_of_nat k) s" "(k, c) \<in> set us_layout"
    "shift_state s = (if shift then 1 else 0)" "caps_lock_enabled s = (if caps then 1 else 0)" "ctrl_state s \<noteq> 1"
    and e: "e = with_modifiers shift caps c"
  shows "keyboard_handler s = Some (Return 0, (outb 0x61 0x20
      (key_arr_push e (putc e (s\<lparr>iflag := False, clk := clk s + Suc n\<rparr>))))\<lparr>iflag := iflag s\<rparr>)"
proof -
  define i :: nat where "i = (if shift then if caps then 3 else 1 else if caps then 2 else 0)"
  define s1 where "s1 = s\<lparr>iflag := False, clk := clk s + Suc n\<rparr>"
  define s2 where "s2 = key_arr_push e (putc e s1)"
  note k = layout_key [OF assms(2) e i_def]
  have w: "unat (word_of_nat k :: u32) = k" using k(6) by (simp add: unat_of_nat_u32)
  have ke: "(ucast (word_of_nat k :: u8) :: u32) = word_of_nat k"
    using k(6) by (simp add: unat_of_nat word_unat_eq_iff unat_ucast_u8 w)
  have "key_state s1 = Some i" using assms(3,4) by (simp add: key_state_def s1_def i_def)
  moreover have "\<not> (0x3E :: u32) \<le> word_of_nat k" "\<not> (0x3C :: u32) \<le> word_of_nat k" "word_of_nat k \<noteq> (0x3B :: u32)"
    "word_of_nat k \<noteq> (0x3C :: u32)" "word_of_nat k \<noteq> (0x3D :: u32)"
    using k(6) by (simp_all add: word_unat_eq_iff word_le_nat_alt w)
  moreover have "ctrl_state s1 \<noteq> 1" using assms(5) by (simp add: s1_def)
  ultimately have "input_handler (word_of_nat k) s1 = Some (Return 0, s2)"
    using k(4) w by (simp add: input_handler_def s2_def)
  then have "scancode_action (word_of_nat k) s1 = Some (Return 0, s2)"
    using k(5-7) by (simp add: scancode_action_def word_unat_eq_iff w)
  then have "keyboard_handler s = Some (Return 0, restore_flags (iflag s) (send_eoi KEYBOARD_IRQ s2))"
    using read_scancode_result [of n "word_of_nat k" "s\<lparr>iflag := False\<rparr>"] assms(1)
    by (simp add: keyboard_handler_def cli_and_save_def ke s1_def scancode_after_def)
  then show ?thesis
    by (simp add: s2_def s1_def restore_flags_def send_eoi_def KEYBOARD_IRQ_def IRQ_NUMBER_def MASTER_BOUND_def EOI_def
        MASTER_8259_PORT_def)
qed

text \<open>C14. Typing: when the controller delivers the code of a character key, with any combination of Shift and Caps Lock, \<open>keyboard_handler\<close> echoes
  the character the layout gives at the cursor of the visible terminal and appends it to the line being typed unless 127
  characters are there already; no other terminal changes, the interrupt is acknowledged and the interrupt flag is as
  before.\<close>

theorem key_press_types:
  assumes "terminals_ok s" "scancode_after n (word_of_nat k) s" "(k, c) \<in> set us_layout"
    "shift_state s = (if shift then 1 else 0)" "caps_lock_enabled s = (if caps then 1 else 0)" "ctrl_state s \<noteq> 1"
  shows "\<exists>u. keyboard_handler s = Some (Return 0, u) \<and> terminals_ok u
    \<and> shown (terminal_of (current_terminal s) u) =
         text_put (cur_attrib s) (with_modifiers shift caps c) (shown (terminal_of (current_terminal s) s))
    \<and> typed (terminal_of (current_terminal s) u) = take 127 (typed (terminal_of (current_terminal s) s) @ [with_modifiers shift caps c])
    \<and> prompt (terminal_of (current_terminal s) u) = prompt (terminal_of (current_terminal s) s)
    \<and> (\<forall>r. unat r < 3 \<and> r \<noteq> current_terminal s \<longrightarrow> terminal_of r u = terminal_of r s)
    \<and> iflag u = iflag s \<and> last (outs u) = (0x20, 0x61)"
proof -
  let ?e = "with_modifiers shift caps c" and ?c = "current_terminal s"
  note e = layout_key(1-3) [OF assms(3) refl refl, of shift caps]
  define s1 where "s1 = s\<lparr>iflag := False, clk := clk s + Suc n\<rparr>"
  define s2 where "s2 = key_arr_push ?e (putc ?e s1)"
  define u where "u = (outb 0x61 0x20 s2)\<lparr>iflag := iflag s\<rparr>"
  note run = keyboard_enters [OF assms(2-6) refl, folded s1_def, folded s2_def, folded u_def]
  have "terminals_ok s1 = terminals_ok s" by (rule terminals_cong; simp add: s1_def)
  moreover have "terminal_of r s1 = terminal_of r s" for r by (rule terminals_cong; simp add: s1_def)
  ultimately have s1: "terminals_ok s1" "terminal_of r s1 = terminal_of r s" for r using assms(1) by simp_all
  have ok: "console_ok s1" "foreground_ok s1" using s1(1) by (simp_all add: terminals_ok_def foreground_ok_def)
  have "foreground_ok (putc ?e s1)"
    using ok putc_refines(2) [OF ok(1)] putc_beside [OF ok(1), of ?e]
    by (simp add: foreground_ok_def beside_screen_def)
  note p = terminals_beside_screen [OF s1(1) this putc_beside(1) [OF ok(1)]]
  have c: "current_terminal s1 = ?c" "current_terminal (putc ?e s1) = ?c"
    using putc_refines(5) [OF ok(1)] by (simp_all add: s1_def)
  note q = terminals_push [OF p(1) e(1), folded s2_def, unfolded c]
  have u: "terminals_ok u = terminals_ok s2" "terminal_of r u = terminal_of r s2" for r
    by (rule terminals_cong; simp add: u_def)+
  have out: "iflag u = iflag s" "last (outs u) = (0x20, 0x61)" by (simp_all add: u_def)
  have scr: "screen_of s1 = screen_of s" "shown (terminal_of ?c s) = screen_of s" "prompt (terminal_of ?c s) = nat (column_stack s1)"
    "cur_attrib s1 = cur_attrib s"
    using s1(2) [of ?c] c(1) by (simp_all add: terminal_of_def)
  have "length (typed (terminal_of ?c s)) \<le> 127"
    using assms(1) by (simp add: terminals_ok_def foreground_ok_def line_ok_def terminal_of_def key_line_def)
  then have "typed (terminal_of ?c s2) = take 127 (typed (terminal_of ?c s) @ [?e])"
    using q(5) p(3) s1(2) c(1) by simp
  moreover have "shown (terminal_of ?c s2) = text_put (cur_attrib s) ?e (shown (terminal_of ?c s))"
    using q(3) p(3) c scr putc_refines(1) [OF ok(1), of ?e] by simp
  moreover have "prompt (terminal_of ?c s2) = prompt (terminal_of ?c s)"
    using q(4) p(3) c scr putc_beside(2) [OF ok(1), of ?e] by simp
  moreover have "terminal_of r s2 = terminal_of r s" if "unat r < 3" "r \<noteq> ?c" for r
    using q(2) [OF that] p(2) [OF that(1)] that c s1(2) by simp
  ultimately show ?thesis using q(1) run u out by simp
qed

text \<open>Shift and \<open>a\<close> on the first terminal, the controller having a zero byte first.\<close>

definition typing0 :: scheduling where
  "typing0 = desk0\<lparr>shift_state := 1, caps_lock_enabled := 0, ctrl_state := 0, dev := (\<lambda>i p. if i = 0 then 0 else 0x1E), clk := 0\<rparr>"

theorem key_press_types_witness:
  "\<exists>u. keyboard_handler typing0 = Some (Return 0, u) \<and> typed (terminal_of 0 u) = [0x41] \<and> terminal_of 1 u = terminal_of 1 typing0"
proof -
  have "terminals_ok typing0 = terminals_ok desk0" by (rule terminals_cong; simp add: typing0_def)
  moreover have "typed (terminal_of 0 typing0) = []" by (simp add: terminal_of_def key_line_def typing0_def)
  moreover have "scancode_after 1 (word_of_nat 0x1E) typing0" by (simp add: scancode_after_def typing0_def)
  moreover have "(0x1E, 0x61) \<in> set us_layout" by (simp add: us_layout_def bytes_of_def upt_rec)
  moreover have "with_modifiers True False 0x61 = 0x41" by (simp add: with_modifiers_def)
  ultimately show ?thesis
    using key_press_types [of typing0 1 "0x1E" "0x61" True False] desk0_ok by (auto simp: typing0_def word_unat_eq_iff)
qed

end
