(* ===== verification/Terminal_Read.thy ===== *)
theory Terminal_Read
  imports Keyboard_Spec
begin

text \<open>
  The other direction of the terminal driver: \<open>terminal_read\<close> hands the typed line to the program and empties it. The message the
  driver prints first goes through \<open>printf\<close>; what \<open>printf\<close> leaves of the line comes from the locale \<open>print_frame\<close>.
\<close>

section \<open>Printing keeps the typed line\<close>

lemma only_phys_esp: "only_phys s u \<Longrightarrow> esp u = esp s"
  by (drule only_physD, erule ssubst) simp

lemma esp_console [simp]: "esp (cursor_helper s) = esp s" "esp (put_cell a k c v s) = esp s" "esp (blank_row a r v s) = esp s"
  "esp (memcpy d q n s) = esp s"
  by (simp_all add: cursor_helper_def Let_def set_cursor_position_def outb_def only_phys_esp only_phys_put_cell only_phys_blank_row only_phys_memcpy)

definition line_kept :: "'a console_scheme \<Rightarrow> 'a console_scheme \<Rightarrow> bool" where
  "line_kept s u \<longleftrightarrow> key_arr u = key_arr s \<and> key_arr_ptr u = key_arr_ptr s \<and> key_arr_overflow u = key_arr_overflow s
     \<and> terminal_info u = terminal_info s \<and> column_stack u = column_stack s \<and> esp u = esp s"

interpretation ln: print_frame line_kept
proof
  show "line_kept s (putc c s)" for s :: "'a console_scheme" and c
    by (simp add: line_kept_def putc_def enter_handler_def enter_and_scroll_def putc_wrap_def Let_def set_cursor_position_def)
qed (auto simp: line_kept_def only_phys_console only_phys_esp)

lemma printf_terminal:
  assumes "terminals_ok s" "scratch s cb 64" "buffer_off cb 64 s" "render None fmt args = Some out"
  shows "\<exists>u. printf cb fmt args s = Some (word_of_nat (length fmt), u) \<and> terminals_ok u \<and> only_console s u
    \<and> shown (terminal_of (current_terminal s) u) = fold (text_put (cur_attrib s)) out (shown (terminal_of (current_terminal s) s))
    \<and> key_arr u = key_arr s \<and> key_arr_ptr u = key_arr_ptr s \<and> key_arr_overflow u = key_arr_overflow s \<and> column_stack u = column_stack s
    \<and> (\<forall>r. unat r < 3 \<and> r \<noteq> current_terminal s \<longrightarrow> terminal_of r u = terminal_of r s)
    \<and> (\<forall>q. off_screens q \<and> (\<forall>i < 64. xl s (cb + word_of_nat i) \<noteq> q) \<longrightarrow> phys u q = phys s q) \<and> esp u = esp s"
proof -
  have ok: "foreground_ok s" "console_ok s" using assms(1) by (simp_all add: terminals_ok_def foreground_ok_def)
  obtain u where run: "printf cb fmt args s = Some (word_of_nat (length fmt), u)" and pr: "printed s cb 64 out u"
    using printf_loop_ok [OF ok(2) assms(2,4)] by (auto simp: printf_def)
  have con: "only_console s u" using printf_console [of s cb fmt args] run by simp
  have ln: "line_kept s u" using ln.printf_frame [of s cb fmt args] run by simp
  have map: "screen_mapped s" "screen_mapped u" using pr ok(2) by (simp_all add: printed_def console_ok_def)
  have "ld u (off x) = ld s (off x)" if "4096 \<le> x" "x < 16384" for x
  proof -
    have "off_screen (off x)" using that by (auto simp: off_screen_def off_inject)
    moreover have "xl s (cb + word_of_nat i) \<noteq> off x" if "i < 64" for i
      using assms(3) that \<open>x < 16384\<close> by (simp add: buffer_off_def off_screens_def)
    ultimately have "phys u (off x) = phys s (off x)" using pr by (simp add: printed_def)
    then show ?thesis using map that(2) by (simp add: ld_def screen_mapped_def)
  qed
  then have view: "view j u = view j s" if "0 < j" "j < 4" for j using that by (auto simp: view_off fun_eq_iff)
  have k: "key_arr u = key_arr s" "key_arr_ptr u = key_arr_ptr s" "key_arr_overflow u = key_arr_overflow s"
    "terminal_info u = terminal_info s" "column_stack u = column_stack s" "current_terminal u = current_terminal s" "esp u = esp s"
    "screen_of u = fold (text_put (cur_attrib s)) out (screen_of s)" "console_ok u"
    using ln pr by (simp_all add: line_kept_def printed_def)
  have saved: "saved_of r u = saved_of r s" if "unat r < 3" for r
    using view [of "Suc (unat r)"] that k(4) by (simp add: saved_of_def ti_def)
  have "background_ok r u = background_ok r s" for r
    using saved map k(4) by (cases "unat r < 3") (simp_all add: background_ok_def saved_ok_def ti_def)
  then have "terminals_ok u" using assms(1) k by (simp add: terminals_ok_def foreground_ok_def ti_def)
  moreover have "terminal_of r u = terminal_of r s" if "unat r < 3" "r \<noteq> current_terminal s" for r
    using that saved k by (simp add: terminal_of_def ti_def)
  moreover have "phys u q = phys s q" if "off_screens q" "\<forall>i < 64. xl s (cb + word_of_nat i) \<noteq> q" for q
    using pr that off_screens_off_screen by (simp add: printed_def)
  ultimately show ?thesis using run con k by (intro exI [of _ u]) (simp add: terminal_of_def)
qed

text \<open>The fields of the kernel lie beyond those of the console.\<close>

lemma only_console_kernel:
  assumes "only_console s (u :: 'a kernel_scheme)"
  shows "process u = process s" "pcbs u = pcbs s" "process_terminal u = process_terminal s"
    "process_terminal_cnt u = process_terminal_cnt s" "tss_esp0 u = tss_esp0 s" "xl u = xl s" "current_terminal u = current_terminal s"
  using assms by (cases s; cases u; simp add: only_console_def)+

section \<open>Writing to memory keeps the terminals\<close>

text \<open>The terminals are the same when the four screens and the fields of the console are.\<close>

lemma terminals_view:
  assumes "\<And>j. j < 4 \<Longrightarrow> view j u = view j s" "xl u = xl s" "screen_x u = screen_x s" "screen_y u = screen_y s" "row_stack u = row_stack s"
    "column_stack u = column_stack s" "terminal_info u = terminal_info s" "key_arr u = key_arr s" "key_arr_ptr u = key_arr_ptr s"
    "key_arr_overflow u = key_arr_overflow s" "current_terminal u = current_terminal s"
  shows "terminals_ok u = terminals_ok s" "unat t < 3 \<Longrightarrow> terminal_of t u = terminal_of t s"
proof -
  have saved: "saved_of r u = saved_of r s" if "unat r < 3" for r
    using that assms by (simp add: saved_of_def ti_def)
  then have "background_ok r u = background_ok r s" for r
    by (cases "unat r < 3") (simp_all add: background_ok_def saved_ok_def assms screen_mapped_def ti_def)
  moreover have "screen_of u = screen_of s" using assms by (simp add: screen_of_def)
  ultimately show "terminals_ok u = terminals_ok s" "unat t < 3 \<Longrightarrow> terminal_of t u = terminal_of t s"
    using saved by (simp_all add: terminals_ok_def terminal_of_def foreground_ok_def console_ok_def key_line_def screen_mapped_def ti_def assms)
qed

text \<open>Writes to memory off the screens leave the terminals alone.\<close>

lemma terminals_outside:
  assumes "screen_mapped s" "buffer_off a n s" "unchanged_outside s a n u"
  shows "terminals_ok u = terminals_ok (s :: 'a console_scheme)" "unat t < 3 \<Longrightarrow> terminal_of t u = terminal_of t s"
proof -
  have only: "only_phys s u" using assms(3) by (simp add: unchanged_outside_def)
  note ph = only_phys_console [OF only]
  have xl: "xl u = xl s" by (subst only_physD [OF only]) simp
  have "ld u (off b) = ld s (off b)" if "b < 16384" for b
    using assms that by (simp add: ld_def xl screen_mapped_def buffer_off_def off_screens_def unchanged_outside_def)
  then have v: "view j u = view j s" if "j < 4" for j using that by (auto simp: view_off fun_eq_iff)
  show "terminals_ok u = terminals_ok s" "unat t < 3 \<Longrightarrow> terminal_of t u = terminal_of t s"
    by (rule terminals_view; simp add: v ph xl)+
qed

lemma write_list_outside: "unchanged_outside s a (length xs) (write_list a xs s)"
  by (simp add: unchanged_outside_def only_phys_write_list phys_write_list_outside)

lemmas terminals_write = terminals_outside [OF _ _ write_list_outside]

section \<open>Reading a line\<close>

lemma key_arr_clear_eq:
  "\<exists>ks. key_arr_clear s = s\<lparr>key_arr := ks, key_arr_ptr := 0, key_arr_overflow := 0\<rparr> \<and> length ks = length (key_arr s)"
proof -
  let ?P = "\<lambda>u. \<exists>ks. u = s\<lparr>key_arr := ks, key_arr_ptr := 0, key_arr_overflow := 0\<rparr> \<and> length ks = length (key_arr s)"
  show "?P (key_arr_clear s)"
    unfolding key_arr_clear_def
  proof (rule for_loop_invariant [where P = ?P])
    show "?P (s\<lparr>key_arr_ptr := 0, key_arr_overflow := 0\<rparr>)" by (rule exI [of _ "key_arr s"]) (cases s; simp)
    fix i u assume "?P u"
    then obtain ks where "u = s\<lparr>key_arr := ks, key_arr_ptr := 0, key_arr_overflow := 0\<rparr>" "length ks = length (key_arr s)" by blast
    then show "?P (u\<lparr>key_arr := (key_arr u)[i := 0]\<rparr>)" by (intro exI [of _ "ks[i := 0]"]) (cases s; simp)
  qed
qed

lemma copy_line:
  assumes "i \<le> length (key_arr s)"
  shows "for_loop 0 i (\<lambda>i s. st (buf + word_of_nat i) (key_arr s ! i) s) s = write_list buf (take i (key_arr s)) (s :: 'a console_scheme)"
  using assms
proof (induction i)
  case (Suc i)
  then show ?case
    by (simp add: for_loop_last take_Suc_conv_app_nth write_list_append only_phys_console [OF only_phys_write_list])
qed simp

lemma clear_line:
  assumes "terminals_ok s"
  shows "terminals_ok (key_arr_clear s)" "ld (key_arr_clear s) a = ld s a" "enter_state (key_arr_clear s) = enter_state s"
    "terminal_of r (key_arr_clear s) = (if r = current_terminal s then (terminal_of r s)\<lparr>typed := [], dropped := 0\<rparr> else terminal_of r s)"
proof -
  obtain ks where ks: "key_arr_clear s = s\<lparr>key_arr := ks, key_arr_ptr := 0, key_arr_overflow := 0\<rparr>" "length ks = length (key_arr s)"
    using key_arr_clear_eq by blast
  have view: "view j (key_arr_clear s) = view j s" for j by (rule view_cong) (simp add: ks(1) ld_def)
  show "ld (key_arr_clear s) a = ld s a" "enter_state (key_arr_clear s) = enter_state s" by (simp_all add: ks(1) ld_def)
  have "background_ok r (key_arr_clear s) = background_ok r s" for r
    by (simp add: background_ok_def saved_ok_def saved_of_def view) (simp add: ks(1) ti_def screen_mapped_def)
  moreover have "foreground_ok (key_arr_clear s)"
    using assms ks(2) by (simp add: terminals_ok_def foreground_ok_def console_ok_def line_ok_def) (simp add: ks(1) screen_mapped_def)
  ultimately show "terminals_ok (key_arr_clear s)" using assms by (simp add: terminals_ok_def) (simp add: ks(1) ti_def)
  show "terminal_of r (key_arr_clear s) = (if r = current_terminal s then (terminal_of r s)\<lparr>typed := [], dropped := 0\<rparr> else terminal_of r s)"
    by (simp add: terminal_of_def screen_of_def saved_of_def view) (simp add: ks(1) ti_def key_line_def)
qed

lemma tid_message:
  assumes "unat (t :: u8) < 3"
  shows "render None (bytes_of ''current tid: %d'' @ [0x0A]) [ucast t] = Some (bytes_of ''current tid: '' @ [0x30 + t, 0x0A])"
proof -
  have "t = 0 \<or> t = 1 \<or> t = 2" using assms by (auto simp: word_unat_eq_iff)
  then have "signed_string (ucast t) = [0x30 + t]"
    by (auto simp: signed_string_def number_string_def rev_digits.simps itoa_lookup_def bytes_of_def)
  then show ?thesis by (simp add: bytes_of_def)
qed

text \<open>The call in full: what it returns and leaves in the buffer, and all that it changes.\<close>

text \<open>The line goes to the caller with a NUL behind it, and the line buffer is emptied.\<close>

lemma deliver_line:
  assumes "terminals_ok v" "current_terminal v = t" "k \<le> length (key_arr v)" "inj_on (\<lambda>i. xl v (buf + word_of_nat i)) {..<Suc k}"
    "buffer_off buf (Suc k) v"
  defines "u \<equiv> key_arr_clear (write_list buf (take k (key_arr v) @ [0]) v)"
  shows "terminals_ok u" "holds u buf (take k (key_arr v))" "enter_state u = enter_state v" "only_console v u"
    "\<And>r. unat r < 3 \<Longrightarrow> terminal_of r u = (if r = t then (terminal_of r v)\<lparr>typed := [], dropped := 0\<rparr> else terminal_of r v)"
    "\<And>q. \<forall>i < Suc k. xl v (buf + word_of_nat i) \<noteq> q \<Longrightarrow> phys u q = phys v q"
proof -
  let ?xs = "take k (key_arr v) @ [0]"
  define w where "w = write_list buf ?xs v"
  have len: "length ?xs = Suc k" using assms(3) by simp
  have u: "u = key_arr_clear w" by (simp add: u_def w_def)
  have "screen_mapped v" using assms(1) by (simp add: terminals_ok_def foreground_ok_def console_ok_def)
  note tw = terminals_write [OF this, of buf ?xs, folded w_def, unfolded len, OF assms(5)]
  have cur: "current_terminal w = t" using assms(2) by (simp add: w_def only_phys_console [OF only_phys_write_list])
  note cl = clear_line [of w, folded u, unfolded tw(1), OF assms(1), unfolded cur]
  show "terminals_ok u" by (rule cl(1))
  show "enter_state u = enter_state v" using cl(3) by (simp add: w_def only_phys_console [OF only_phys_write_list])
  show "terminal_of r u = (if r = t then (terminal_of r v)\<lparr>typed := [], dropped := 0\<rparr> else terminal_of r v)" if "unat r < 3" for r
    using cl(4) [of r] tw(2) [OF that] that by (cases "r = t") simp_all
  have "read_bytes w buf (length ?xs) = ?xs" unfolding w_def by (rule read_write_list) (simp only: len assms(4))
  then have "holds w buf (take k (key_arr v))" using assms(3) by (simp add: holds_def read_bytes_def)
  then show "holds u buf (take k (key_arr v))" by (simp add: holds_def read_bytes_def cl(2))
  obtain ks where ks: "u = w\<lparr>key_arr := ks, key_arr_ptr := 0, key_arr_overflow := 0\<rparr>" unfolding u using key_arr_clear_eq by blast
  moreover have "w = v\<lparr>phys := phys w\<rparr>" unfolding w_def by (rule only_physD [OF only_phys_write_list])
  ultimately have "u = v\<lparr>phys := phys w, key_arr := ks, key_arr_ptr := 0, key_arr_overflow := 0\<rparr>" by metis
  then show "only_console v u" by (cases v) (simp add: only_console_def)
  show "phys u q = phys v q" if "\<forall>i < Suc k. xl v (buf + word_of_nat i) \<noteq> q" for q
  proof -
    have "phys u q = phys w q" using ks by simp
    also have "\<dots> = phys v q" unfolding w_def by (rule phys_write_list_outside) (use that len in auto)
    finally show ?thesis .
  qed
qed

lemma terminal_read_spec:
  assumes "terminals_ok s" "t = get_terminal_id (pid (pcbs s (get_curr_pcb s))) s" "t = current_terminal s" "enter_state s \<noteq> 0"
    "scratch s (conv_buf s) 64" "buffer_off (conv_buf s) 64 s" "unat n < 2 ^ 31"
    "k = min (unat n) (length (typed (terminal_of t s)))"
    "inj_on (\<lambda>i. xl s (buf + word_of_nat i)) {..<Suc k}" "buffer_off buf (Suc k) s"
  shows "\<exists>u. terminal_read fd buf n s = Some (word_of_nat k, u) \<and> holds u buf (take k (typed (terminal_of t s))) \<and> terminals_ok u
    \<and> enter_state u = 0 \<and> typed (terminal_of t u) = [] \<and> dropped (terminal_of t u) = 0
    \<and> shown (terminal_of t u) = fold (text_put (attrib ! unat t)) (bytes_of ''current tid: '' @ [0x30 + t, 0x0A]) (shown (terminal_of t s))
    \<and> prompt (terminal_of t u) = prompt (terminal_of t s) \<and> (\<forall>r. unat r < 3 \<and> r \<noteq> t \<longrightarrow> terminal_of r u = terminal_of r s)
    \<and> only_console (s\<lparr>enter_state := 0\<rparr>) u
    \<and> (\<forall>q. off_screens q \<and> (\<forall>i < 64. xl s (conv_buf s + word_of_nat i) \<noteq> q) \<and> (\<forall>i < Suc k. xl s (buf + word_of_nat i) \<noteq> q)
         \<longrightarrow> phys u q = phys s q)"
proof -
  have "render None (bytes_of ''current tid: %d'' @ [0x0A]) [ucast t] = Some (bytes_of ''current tid: '' @ [0x30 + t, 0x0A])"
    by (rule tid_message) (use assms(1,3) in \<open>simp add: terminals_ok_def foreground_ok_def console_ok_def\<close>)
  then obtain u0 where u0: "\<exists>m. printf (conv_buf s) (bytes_of ''current tid: %d'' @ [0x0A]) [ucast t] s = Some (m, u0)" "terminals_ok u0" "only_console s u0"
    "shown (terminal_of (current_terminal s) u0) = fold (text_put (cur_attrib s)) (bytes_of ''current tid: '' @ [0x30 + t, 0x0A]) (shown (terminal_of (current_terminal s) s))"
    "key_arr u0 = key_arr s" "key_arr_ptr u0 = key_arr_ptr s" "key_arr_overflow u0 = key_arr_overflow s" "column_stack u0 = column_stack s"
    "\<forall>r. unat r < 3 \<and> r \<noteq> current_terminal s \<longrightarrow> terminal_of r u0 = terminal_of r s"
    "\<forall>q. off_screens q \<and> (\<forall>i < 64. xl s (conv_buf s + word_of_nat i) \<noteq> q) \<longrightarrow> phys u0 q = phys s q"
    using printf_terminal [OF assms(1,5,6)] by blast
  note con = only_consoleD [OF u0(3)]
  define u1 where "u1 = u0\<lparr>enter_state := 0, iflag := True\<rparr>"
  have line: "line_ok (key_arr s) (key_arr_ptr s) (key_arr_overflow s)" using assms(1) by (simp add: terminals_ok_def foreground_ok_def)
  have typed: "typed (terminal_of t s) = take (unat (key_arr_ptr s)) (key_arr s)" "length (typed (terminal_of t s)) = unat (key_arr_ptr s)"
    using line assms(3) by (simp_all add: terminal_of_def key_line_def line_ok_def)
  have k: "k = min (unat (key_arr_ptr s)) (nat (sint n))" "k \<le> length (key_arr s)" "take k (typed (terminal_of t s)) = take k (key_arr s)"
    using assms(7,8) typed sint_nonneg [of "unat n"] line by (auto simp: line_ok_def)
  define u where "u = key_arr_clear (write_list buf (take k (key_arr s) @ [0]) u1)"
  have ind: "sti ((cli u0)\<lparr>enter_state := 0\<rparr>) = u1" by (simp add: u1_def sti_def cli_def)
  have key1: "key_arr u1 = key_arr s" "key_arr_ptr u1 = key_arr_ptr s" using u0(5,6) by (simp_all add: u1_def)
  have "terminal_read fd buf n s = Some (word_of_nat k, u)"
    using assms(2-4) u0(1) ind copy_line [of k u1 buf] k key1
    by (auto simp: terminal_read_def Let_def u_def write_list_append)
  moreover have t3: "unat t < 3" using assms(1,3) by (simp add: terminals_ok_def foreground_ok_def console_ok_def)
  have ok1: "terminals_ok u1" "terminal_of r u1 = terminal_of r u0" for r
    using u0(2) terminals_cong [of u1 u0] by (simp_all add: u1_def)
  have xl: "xl u1 = xl s" "current_terminal u1 = t" using con(2,4) assms(3) by (simp_all add: u1_def)
  have "inj_on (\<lambda>i. xl u1 (buf + word_of_nat i)) {..<Suc k}" "buffer_off buf (Suc k) u1" using assms(9,10) xl(1) by (simp_all add: buffer_off_def)
  note dl = deliver_line [OF ok1(1) xl(2) _ this, unfolded key1(1), OF k(2), folded u_def]
  have "terminal_of r u = (if r = t then (terminal_of r u0)\<lparr>typed := [], dropped := 0\<rparr> else terminal_of r s)" if "unat r < 3" for r
    using dl(5) [OF that] ok1(2) [of r] u0(9) that assms(3) by (cases "r = t") simp_all
  moreover have "prompt (terminal_of t u0) = prompt (terminal_of t s)" using assms(3) con(2) u0(8) by (simp add: terminal_of_def)
  moreover have "only_console (s\<lparr>enter_state := 0\<rparr>) u"
    using u0(3) dl(4) by (cases s; cases u0; cases u) (simp add: only_console_def u1_def)
  moreover have "phys u q = phys s q" if "off_screens q" "\<forall>i < 64. xl s (conv_buf s + word_of_nat i) \<noteq> q" "\<forall>i < Suc k. xl s (buf + word_of_nat i) \<noteq> q" for q
    using dl(6) [of q] u0(10) that xl(1) by (simp add: u1_def)
  ultimately show ?thesis using dl(1-3) k(3) u0(4) t3 assms(3) by (intro exI [of _ u]) (simp add: u1_def)
qed

text \<open>C15. Reading a line: when Enter has been pressed and the terminal of the calling process is the visible one, \<open>terminal_read\<close> prints its message,
  copies the typed line, cut at the buffer's size, with a NUL behind it, returns the number of characters and leaves an empty line and no
  pending Enter; no other terminal changes.\<close>

theorem terminal_read_line:
  assumes "terminals_ok s" "t = get_terminal_id (pid (pcbs s (get_curr_pcb s))) s" "t = current_terminal s" "enter_state s \<noteq> 0"
    "scratch s (conv_buf s) 64" "buffer_off (conv_buf s) 64 s" "unat n < 2 ^ 31"
    "k = min (unat n) (length (typed (terminal_of t s)))"
    "inj_on (\<lambda>i. xl s (buf + word_of_nat i)) {..<Suc k}" "buffer_off buf (Suc k) s"
  shows "\<exists>u. terminal_read fd buf n s = Some (word_of_nat k, u) \<and> holds u buf (take k (typed (terminal_of t s))) \<and> terminals_ok u
    \<and> enter_state u = 0 \<and> typed (terminal_of t u) = [] \<and> dropped (terminal_of t u) = 0
    \<and> shown (terminal_of t u) = fold (text_put (attrib ! unat t)) (bytes_of ''current tid: '' @ [0x30 + t, 0x0A]) (shown (terminal_of t s))
    \<and> prompt (terminal_of t u) = prompt (terminal_of t s) \<and> (\<forall>r. unat r < 3 \<and> r \<noteq> t \<longrightarrow> terminal_of r u = terminal_of r s)"
  using terminal_read_spec [OF assms] by blast

text \<open>The line \<open>hi\<close> and Enter on the first terminal.\<close>

definition reading_line0 :: scheduling where
  "reading_line0 = desk0\<lparr>enter_state := 1, key_arr := [0x68, 0x69, 0x0A] @ replicate 126 0, key_arr_ptr := 3\<rparr>"

lemma reading_line0_ok: "terminals_ok reading_line0" "typed (terminal_of 0 reading_line0) = [0x68, 0x69, 0x0A]"
proof -
  have view: "view j reading_line0 = view j desk0" for j by (rule view_cong) (simp add: reading_line0_def ld_def)
  have "background_ok r reading_line0 = background_ok r desk0" for r
    by (simp add: background_ok_def saved_ok_def saved_of_def view) (simp add: reading_line0_def ti_def screen_mapped_def)
  moreover have "foreground_ok reading_line0"
    using desk0_ok by (simp add: terminals_ok_def foreground_ok_def console_ok_def) (simp add: reading_line0_def line_ok_def screen_mapped_def)
  ultimately show "terminals_ok reading_line0" using desk0_ok by (simp add: terminals_ok_def) (simp add: reading_line0_def ti_def)
  show "typed (terminal_of 0 reading_line0) = [0x68, 0x69, 0x0A]" by (simp add: terminal_of_def reading_line0_def key_line_def)
qed

lemma reading_line0_range:
  assumes "0x400000 \<le> unat a" "unat a + n \<le> 0x800000"
  shows "inj_on (\<lambda>i. xl reading_line0 (a + word_of_nat i)) {..<n}" "buffer_off a n reading_line0"
proof -
  have u: "unat (xl reading_line0 (a + word_of_nat i)) = unat a + i" if "i < n" for i
  proof -
    have a: "unat (a + word_of_nat i) = unat a + i" using unat_add_small [of a i] assms that by simp
    then have "xl kernel0 (a + word_of_nat i) = a + word_of_nat i" using assms that by (intro xl_kernel [OF kernel0_mapped]) simp_all
    then show ?thesis
      using a by (simp add: reading_line0_def desk0_def sched0_def keyboard.defs sound.defs scheduling.defs kernel.defs)
  qed
  then show "inj_on (\<lambda>i. xl reading_line0 (a + word_of_nat i)) {..<n}" by (intro inj_onI) (metis add_left_cancel lessThan_iff)
  have "xl reading_line0 (a + word_of_nat i) \<noteq> off k" if "i < n" "k < 16384" for i k
  proof
    assume "xl reading_line0 (a + word_of_nat i) = off k"
    moreover have "unat (off k) = 0xB8000 + k" using unat_add_small [of "0xB8000 :: u32" k] that by (simp add: off_def VIDEO_def)
    ultimately show False using u [OF that(1)] assms(1) that by simp
  qed
  then show "buffer_off a n reading_line0" by (simp add: buffer_off_def off_screens_def)
qed

theorem terminal_read_line_witness:
  "\<exists>u. terminal_read 0 0x7F0000 1023 reading_line0 = Some (3, u) \<and> holds u 0x7F0000 [0x68, 0x69, 0x0A] \<and> typed (terminal_of 0 u) = []"
proof -
  have "get_curr_pcb reading_line0 = get_pcb_by_index 0"
    by (simp add: get_curr_pcb_def get_pcb_by_index_def PCB_MASK_def EIGHT_MB_SIZE_def EIGHT_KB_SIZE_def reading_line0_def)
  moreover have "get_terminal_id 0 reading_line0 = 0" "pid (pcbs reading_line0 (get_pcb_by_index 0)) = 0"
    by (simp_all add: get_terminal_id_def reading_line0_def desk0_def upt_rec pcb0_def get_pcb_by_index_def EIGHT_MB_SIZE_def EIGHT_KB_SIZE_def)
  moreover have "current_terminal reading_line0 = 0" "enter_state reading_line0 = 1" by (simp_all add: reading_line0_def)
  moreover have cb: "conv_buf reading_line0 = 0x7FFF34" by (simp add: conv_buf_def reading_line0_def)
  moreover have "scratch reading_line0 0x7FFF34 64" "buffer_off 0x7FFF34 64 reading_line0"
    using reading_line0_range [of "0x7FFF34" 64] by (simp_all add: scratch_def buffer_off_def off_screens_off_screen)
  moreover have "inj_on (\<lambda>i. xl reading_line0 (0x7F0000 + word_of_nat i)) {..<Suc 3}" "buffer_off 0x7F0000 (Suc 3) reading_line0"
    by (rule reading_line0_range, simp, simp)+
  ultimately show ?thesis
    using terminal_read_line [OF reading_line0_ok(1), of 0 1023 3 "0x7F0000" 0] reading_line0_ok(2) by auto
qed

end
