(* ===== verification/User_Lib.thy ===== *)
theory User_Lib
  imports Sound
begin

text \<open>
  What the user programs link against: the system call linkage (\<^verbatim>\<open>syscall_linkage.S\<close> in the kernel,
  \<^verbatim>\<open>ece391syscall.S\<close> in the programs) and the support library (\<^verbatim>\<open>ece391support.c\<close>).

  A program runs on the same machine state as the kernel: its pointers go through the page tables, and a system call is a
  call of the kernel's function with the stack pointer the TSS holds. A string literal of a program lies somewhere in
  its image; \<open>lit\<close> gives the address. Where a program waits for the keyboard, \<open>wait\<close> is what the interrupts do
  to the state until the call returns.
\<close>

section \<open>System calls\<close>

text \<open>
  \<open>syscall_assembly\<close>: the number is checked as a signed one, then the jump table is used. The register arguments
  are those of the C functions.
\<close>

definition syscall_assembly ::
    "u32 \<Rightarrow> u32 \<Rightarrow> u32 \<Rightarrow> u32 \<Rightarrow> 'a sound_scheme \<Rightarrow> (control \<times> 'a sound_scheme) option" where
  "syscall_assembly eax ebx ecx edx s =
     (let ret = map_option (\<lambda>(v, s). (Return v, s))
      in if eax <s 1 \<or> 11 <s eax then Some (Return (-1), s)
         else if eax = 1 then halt (ucast ebx) s
         else if eax = 2 then execute ebx s
         else if eax = 3 then ret (sys_read ebx ecx edx s)
         else if eax = 4 then ret (sys_write ebx ecx edx s)
         else if eax = 5 then ret (sys_open ebx s)
         else if eax = 6 then ret (sys_close ebx s)
         else if eax = 7 then ret (getargs ebx ecx s)
         else if eax = 8 then ret (Some (vidmap ebx s))
         else if eax = 9 then ret (Some (set_handler ebx ecx s))
         else if eax = 10 then ret (Some (sigreturn s))
         else ret (play ebx s))"

text \<open>
  \<open>int $0x80\<close>: the processor takes the kernel stack from the TSS and pushes five registers, the linkage three
  registers and three arguments, the call its return address. A value comes back to the program with its own stack.
\<close>

definition int80 :: "u32 \<Rightarrow> u32 \<Rightarrow> u32 \<Rightarrow> u32 \<Rightarrow> 'a sound_scheme \<Rightarrow> (control \<times> 'a sound_scheme) option" where
  "int80 eax ebx ecx edx s =
     do { (c, t) \<leftarrow> syscall_assembly eax ebx ecx edx (s\<lparr>esp := tss_esp0 s - 48\<rparr>);
          case c of Return v \<Rightarrow> Some (Return v, t\<lparr>esp := esp s\<rparr>) | _ \<Rightarrow> Some (c, t) }"

definition call_value :: "(control \<times> 's) option \<Rightarrow> (i32 \<times> 's) option" where
  "call_value r = do { (c, s) \<leftarrow> r; case c of Return v \<Rightarrow> Some (v, s) | _ \<Rightarrow> None }"

definition ece391_halt :: "u8 \<Rightarrow> 'a sound_scheme \<Rightarrow> (control \<times> 'a sound_scheme) option" where
  "ece391_halt status s = int80 1 (ucast status) 0 0 s"

text \<open>\<open>child\<close> runs the program that \<open>execute\<close> started, until control is back behind the call.\<close>

definition ece391_execute ::
    "(control \<Rightarrow> 'a sound_scheme \<Rightarrow> (i32 \<times> 'a sound_scheme) option) \<Rightarrow> addr \<Rightarrow> 'a sound_scheme \<Rightarrow> (i32 \<times> 'a sound_scheme) option" where
  "ece391_execute child command s =
     do { (c, s) \<leftarrow> int80 2 command 0 0 s; case c of Return v \<Rightarrow> Some (v, s) | _ \<Rightarrow> child c s }"

definition ece391_read :: "i32 \<Rightarrow> addr \<Rightarrow> i32 \<Rightarrow> 'a sound_scheme \<Rightarrow> (i32 \<times> 'a sound_scheme) option" where
  "ece391_read fd buf nbytes s = call_value (int80 3 fd buf nbytes s)"

definition ece391_write :: "i32 \<Rightarrow> addr \<Rightarrow> i32 \<Rightarrow> 'a sound_scheme \<Rightarrow> (i32 \<times> 'a sound_scheme) option" where
  "ece391_write fd buf nbytes s = call_value (int80 4 fd buf nbytes s)"

definition ece391_open :: "addr \<Rightarrow> 'a sound_scheme \<Rightarrow> (i32 \<times> 'a sound_scheme) option" where
  "ece391_open filename s = call_value (int80 5 filename 0 0 s)"

definition ece391_close :: "i32 \<Rightarrow> 'a sound_scheme \<Rightarrow> (i32 \<times> 'a sound_scheme) option" where
  "ece391_close fd s = call_value (int80 6 fd 0 0 s)"

definition ece391_getargs :: "addr \<Rightarrow> i32 \<Rightarrow> 'a sound_scheme \<Rightarrow> (i32 \<times> 'a sound_scheme) option" where
  "ece391_getargs buf nbytes s = call_value (int80 7 buf nbytes 0 s)"

definition ece391_vidmap :: "addr \<Rightarrow> 'a sound_scheme \<Rightarrow> (i32 \<times> 'a sound_scheme) option" where
  "ece391_vidmap screen_start s = call_value (int80 8 screen_start 0 0 s)"

definition ece391_set_handler :: "i32 \<Rightarrow> addr \<Rightarrow> 'a sound_scheme \<Rightarrow> (i32 \<times> 'a sound_scheme) option" where
  "ece391_set_handler signum handler s = call_value (int80 9 signum handler 0 s)"

definition ece391_sigreturn :: "'a sound_scheme \<Rightarrow> (i32 \<times> 'a sound_scheme) option" where
  "ece391_sigreturn s = call_value (int80 10 0 0 0 s)"

definition ece391_play :: "addr \<Rightarrow> 'a sound_scheme \<Rightarrow> (i32 \<times> 'a sound_scheme) option" where
  "ece391_play filename s = call_value (int80 11 filename 0 0 s)"

text \<open>\<open>_start\<close>: \<open>main\<close>, then \<open>halt\<close> with its return value.\<close>

definition start_main ::
    "('a sound_scheme \<Rightarrow> (i32 \<times> 'a sound_scheme) option) \<Rightarrow> 'a sound_scheme \<Rightarrow> (control \<times> 'a sound_scheme) option" where
  "start_main main s = do { (v, s) \<leftarrow> main s; ece391_halt (ucast v) s }"

section \<open>The support library\<close>

partial_function (option) user_strlen_loop :: "'a machine_scheme \<Rightarrow> addr \<Rightarrow> u32 \<Rightarrow> u32 option" where
  "user_strlen_loop m s len = (if ld m s = 0 then Some len else user_strlen_loop m (s + 1) (len + 1))"

definition ece391_strlen :: "'a machine_scheme \<Rightarrow> addr \<Rightarrow> u32 option" where
  "ece391_strlen m s = user_strlen_loop m s 0"

partial_function (option) ece391_strcpy :: "addr \<Rightarrow> addr \<Rightarrow> 'a machine_scheme \<Rightarrow> 'a machine_scheme option" where
  "ece391_strcpy dst src m =
     (let c = ld m src; m = st dst c m in if c = 0 then Some m else ece391_strcpy (dst + 1) (src + 1) m)"

definition ece391_fdputs :: "i32 \<Rightarrow> addr \<Rightarrow> 'a sound_scheme \<Rightarrow> 'a sound_scheme option" where
  "ece391_fdputs fd s m = do { n \<leftarrow> ece391_strlen m s; (_, m) \<leftarrow> ece391_write fd s n m; Some m }"

partial_function (option) ece391_strcmp :: "'a machine_scheme \<Rightarrow> addr \<Rightarrow> addr \<Rightarrow> i32 option" where
  "ece391_strcmp m s1 s2 =
     (if ld m s1 = ld m s2
      then if ld m s1 = 0 then Some 0 else ece391_strcmp m (s1 + 1) (s2 + 1)
      else Some (ucast (ld m s1) - ucast (ld m s2)))"

partial_function (option) user_strncmp_loop :: "'a machine_scheme \<Rightarrow> addr \<Rightarrow> addr \<Rightarrow> u32 \<Rightarrow> i32 option" where
  "user_strncmp_loop m s1 s2 n =
     (if ld m s1 = ld m s2
      then if ld m s1 = 0 \<or> n - 1 = 0 then Some 0 else user_strncmp_loop m (s1 + 1) (s2 + 1) (n - 1)
      else Some (ucast (ld m s1) - ucast (ld m s2)))"

definition ece391_strncmp :: "'a machine_scheme \<Rightarrow> addr \<Rightarrow> addr \<Rightarrow> u32 \<Rightarrow> i32 option" where
  "ece391_strncmp m s1 s2 n = (if n = 0 then Some 0 else user_strncmp_loop m s1 s2 n)"

function user_strrev_loop :: "addr \<Rightarrow> int \<Rightarrow> int \<Rightarrow> 'a machine_scheme \<Rightarrow> 'a machine_scheme" where
  "user_strrev_loop s beg end0 m =
     (if beg < end0
      then let tmp = ld m (s + word_of_int end0);
               m = st (s + word_of_int end0) (ld m (s + word_of_int beg)) m;
               m = st (s + word_of_int beg) tmp m
           in user_strrev_loop s (beg + 1) (end0 - 1) m
      else m)"
  by pat_completeness auto
termination by (relation "measure (\<lambda>(s, beg, end0, m). nat (end0 - beg))") auto

declare user_strrev_loop.simps [simp del]

definition ece391_strrev :: "addr \<Rightarrow> 'a machine_scheme \<Rightarrow> 'a machine_scheme option" where
  "ece391_strrev s m =
     do { n \<leftarrow> ece391_strlen m s;
          let end0 = sint (n - 1 :: i32);
          if end0 \<le> 0 then Some m else Some (user_strrev_loop s 0 end0 m) }"

definition user_lookup :: "u8 list" where
  "user_lookup = bytes_of ''0123456789ABCDEFGHIJKLMNOPQRSTUVWXYZ''"

partial_function (option) user_itoa_loop :: "u32 \<Rightarrow> addr \<Rightarrow> u32 \<Rightarrow> 'a machine_scheme \<Rightarrow> (addr \<times> 'a machine_scheme) option" where
  "user_itoa_loop newval newbuf radix m =
     (if newval > 0
      then if radix = 0 then None
           else let m = st newbuf (user_lookup ! unat (newval mod radix)) m
                in user_itoa_loop (newval div radix) (newbuf + 1) radix m
      else Some (newbuf, m))"

definition ece391_itoa :: "u32 \<Rightarrow> addr \<Rightarrow> u32 \<Rightarrow> 'a machine_scheme \<Rightarrow> 'a machine_scheme option" where
  "ece391_itoa value buf radix m =
     (if value = 0 then Some (st (buf + 1) 0 (st buf 0x30 m))
      else do { (newbuf, m) \<leftarrow> user_itoa_loop value buf radix m; ece391_strrev buf (st newbuf 0 m) })"

end
