(* ===== verification/User_Programs.thy ===== *)
theory User_Programs
  imports User_Lib
begin

text \<open>
  The programs of the repository that only use system calls: \<^verbatim>\<open>ece391cat.c\<close>, \<^verbatim>\<open>ece391ls.c\<close>,
  \<^verbatim>\<open>ece391grep.c\<close>, \<^verbatim>\<open>ece391shell.c\<close>, \<^verbatim>\<open>ece391hello.c\<close>, \<^verbatim>\<open>ece391counter.c\<close>,
  \<^verbatim>\<open>ece391testprint.c\<close>, \<^verbatim>\<open>ece391pingpong.c\<close>. Each \<open>main\<close> takes the address of its string literals and of its local arrays and gives its return
  value. A loop that may run forever is a \<^theory_text>\<open>partial_function\<close>.
\<close>

abbreviation newline :: string where "newline \<equiv> [CHR 0x0A]"

text \<open>\<open>ece391_fdputs (1, literal)\<close> followed by \<open>return v\<close>.\<close>

definition complain :: "(string \<Rightarrow> addr) \<Rightarrow> string \<Rightarrow> i32 \<Rightarrow> 'a sound_scheme \<Rightarrow> (i32 \<times> 'a sound_scheme) option" where
  "complain lit msg v s = do { s \<leftarrow> ece391_fdputs 1 (lit msg) s; Some (v, s) }"

section \<open>cat\<close>

partial_function (option) cat_loop :: "(string \<Rightarrow> addr) \<Rightarrow> i32 \<Rightarrow> addr \<Rightarrow> 'a sound_scheme \<Rightarrow> (i32 \<times> 'a sound_scheme) option" where
  "cat_loop lit fd buf s =
     do {
       (cnt, s) \<leftarrow> ece391_read fd buf 1024 s;
       if cnt = 0 then Some (0, s)
       else if cnt = -1 then complain lit (''file read failed'' @ newline) 3 s
       else do {
         (w, s) \<leftarrow> ece391_write 1 buf cnt s;
         if w = -1 then Some (3, s) else cat_loop lit fd buf s
       }
     }"

definition cat_main :: "(string \<Rightarrow> addr) \<Rightarrow> addr \<Rightarrow> 'a sound_scheme \<Rightarrow> (i32 \<times> 'a sound_scheme) option" where
  "cat_main lit buf s =
     do {
       (r, s) \<leftarrow> ece391_getargs buf 1024 s;
       if r \<noteq> 0 then complain lit (''could not read arguments'' @ newline) 3 s
       else do {
         (fd, s) \<leftarrow> ece391_open buf s;
         if fd = -1 then complain lit (''file not found'' @ newline) 2 s
         else cat_loop lit fd buf s
       }
     }"

section \<open>ls\<close>

partial_function (option) ls_loop :: "(string \<Rightarrow> addr) \<Rightarrow> i32 \<Rightarrow> addr \<Rightarrow> 'a sound_scheme \<Rightarrow> (i32 \<times> 'a sound_scheme) option" where
  "ls_loop lit fd buf s =
     do {
       (cnt, s) \<leftarrow> ece391_read fd buf 32 s;
       if cnt = 0 then Some (0, s)
       else if cnt = -1 then complain lit (''directory entry read failed'' @ newline) 3 s
       else do {
         let s = st (buf + cnt) 0x0A s;
         (w, s) \<leftarrow> ece391_write 1 buf (cnt + 1) s;
         if w = -1 then Some (3, s) else ls_loop lit fd buf s
       }
     }"

definition ls_main :: "(string \<Rightarrow> addr) \<Rightarrow> addr \<Rightarrow> 'a sound_scheme \<Rightarrow> (i32 \<times> 'a sound_scheme) option" where
  "ls_main lit buf s =
     do {
       (fd, s) \<leftarrow> ece391_open (lit ''.'') s;
       if fd = -1 then complain lit (''directory open failed'' @ newline) 2 s
       else ls_loop lit fd buf s
     }"

section \<open>hello, testprint, counter\<close>

definition hello_main ::
    "(string \<Rightarrow> addr) \<Rightarrow> ('a sound_scheme \<Rightarrow> 'a sound_scheme) \<Rightarrow> addr \<Rightarrow> 'a sound_scheme \<Rightarrow> (i32 \<times> 'a sound_scheme) option" where
  "hello_main lit wait buf s =
     do {
       s \<leftarrow> ece391_fdputs 1 (lit (''Hi, what'' @ [CHR 0x27] @ ''s your name? '')) s;
       (cnt, s) \<leftarrow> ece391_read 0 buf 1023 (wait s);
       if cnt = -1 then complain lit (''Can'' @ [CHR 0x27] @ ''t read name from keyboard.'' @ newline) 3 s
       else do {
         let s = st (buf + cnt) 0 s;
         s \<leftarrow> ece391_fdputs 1 (lit ''Hello, '') s;
         s \<leftarrow> ece391_fdputs 1 buf s;
         Some (0, s)
       }
     }"

definition testprint_main :: "(string \<Rightarrow> addr) \<Rightarrow> 'a sound_scheme \<Rightarrow> (i32 \<times> 'a sound_scheme) option" where
  "testprint_main lit s = complain lit (''Hello, if this ran, the program was correct. Yay!'' @ newline) 0 s"

fun counter_loop :: "(string \<Rightarrow> addr) \<Rightarrow> addr \<Rightarrow> u32 \<Rightarrow> nat \<Rightarrow> 'a sound_scheme \<Rightarrow> (i32 \<times> 'a sound_scheme) option" where
  "counter_loop lit buf i 0 s = Some (0, s)"
| "counter_loop lit buf i (Suc n) s =
     do {
       s \<leftarrow> ece391_itoa (i + 1) buf 10 s;
       s \<leftarrow> ece391_fdputs 1 buf s;
       s \<leftarrow> ece391_fdputs 1 (lit newline) s;
       counter_loop lit buf (i + 1) n s
     }"

definition counter_main ::
    "(string \<Rightarrow> addr) \<Rightarrow> ('a sound_scheme \<Rightarrow> 'a sound_scheme) \<Rightarrow> addr \<Rightarrow> 'a sound_scheme \<Rightarrow> (i32 \<times> 'a sound_scheme) option" where
  "counter_main lit wait buf s =
     do {
       s \<leftarrow> ece391_fdputs 1 (lit (''Enter the Test Number: (0): 100, (1): 10000, (2): 100000'' @ newline)) s;
       (cnt, s) \<leftarrow> ece391_read 0 buf 1023 (wait s);
       if cnt = -1 then complain lit (''Can'' @ [CHR 0x27] @ ''t read the number from keyboard.'' @ newline) 3 s
       else do {
         let s = st (buf + cnt) 0 s;
         n \<leftarrow> ece391_strlen s buf;
         if n > 2 \<or> n = 2 \<and> (ld s buf < 0x30 \<or> ld s buf > 0x32)
         then complain lit (''Wrong Choice!'' @ newline) 0 s
         else counter_loop lit buf 0
                (if ld s buf = 0x30 then 100 else if ld s buf = 0x31 then 10000
                 else if ld s buf = 0x32 then 100000 else 0) s
       }
     }"

section \<open>shell\<close>

text \<open>What the shell says about the value a command has come back with.\<close>

definition shell_says :: "(string \<Rightarrow> addr) \<Rightarrow> i32 \<Rightarrow> 'a sound_scheme \<Rightarrow> 'a sound_scheme option" where
  "shell_says lit rval s =
     (if rval = -1 then ece391_fdputs 1 (lit (''no such command'' @ newline)) s
      else if rval = 256 then ece391_fdputs 1 (lit (''program terminated by exception'' @ newline)) s
      else if rval \<noteq> 0 then ece391_fdputs 1 (lit (''program terminated abnormally'' @ newline)) s
      else Some s)"

text \<open>The shell's loop; \<open>child\<close> is the run of the program a command starts.\<close>

partial_function (option) shell_loop ::
    "(string \<Rightarrow> addr) \<Rightarrow> ('a sound_scheme \<Rightarrow> 'a sound_scheme)
     \<Rightarrow> (control \<Rightarrow> 'a sound_scheme \<Rightarrow> (i32 \<times> 'a sound_scheme) option) \<Rightarrow> addr \<Rightarrow> 'a sound_scheme \<Rightarrow> (i32 \<times> 'a sound_scheme) option" where
  "shell_loop lit wait child buf s =
     do {
       s \<leftarrow> ece391_fdputs 1 (lit ''391OS> '') s;
       (cnt, s) \<leftarrow> ece391_read 0 buf 1023 (wait s);
       if cnt = -1 then complain lit (''read from keyboard failed'' @ newline) 3 s
       else do {
         let cnt = (if 0 <s cnt \<and> ld s (buf + (cnt - 1)) = 0x0A then cnt - 1 else cnt);
         let s = st (buf + cnt) 0 s;
         eq \<leftarrow> ece391_strcmp s buf (lit ''exit'');
         if eq = 0 then Some (0, s)
         else if ld s buf = 0 then shell_loop lit wait child buf s
         else do {
           (rval, s) \<leftarrow> ece391_execute child buf s;
           s \<leftarrow> shell_says lit rval s;
           shell_loop lit wait child buf s
         }
       }
     }"

definition shell_main ::
    "(string \<Rightarrow> addr) \<Rightarrow> ('a sound_scheme \<Rightarrow> 'a sound_scheme)
     \<Rightarrow> (control \<Rightarrow> 'a sound_scheme \<Rightarrow> (i32 \<times> 'a sound_scheme) option) \<Rightarrow> addr \<Rightarrow> 'a sound_scheme \<Rightarrow> (i32 \<times> 'a sound_scheme) option" where
  "shell_main lit wait child buf s =
     do { s \<leftarrow> ece391_fdputs 1 (lit (''Starting 391 Shell'' @ newline)) s; shell_loop lit wait child buf s }"

section \<open>pingpong\<close>

text \<open>
  A character between two walls, in lines of 79 columns (\<open>BUFMAX\<close> is 81, \<open>STARTLOOP\<close> 2 and \<open>LOOPMAX\<close> 78). One frame clears
  the inner part, draws the character in column \<open>j\<close> and waits for a tick of the clock.
\<close>

definition pingpong_frame ::
    "('a sound_scheme \<Rightarrow> 'a sound_scheme) \<Rightarrow> i32 \<Rightarrow> addr \<Rightarrow> addr \<Rightarrow> u8 \<Rightarrow> nat \<Rightarrow> 'a sound_scheme \<Rightarrow> 'a sound_scheme option" where
  "pingpong_frame wait rtc_fd garbage buf curchar j s =
     do {
       let s = for_loop 2 78 (\<lambda>i s. st (buf + word_of_nat i) 0x20 s) s;
       let s = st (buf + word_of_nat j) curchar s;
       s \<leftarrow> ece391_fdputs 1 buf s;
       (_, s) \<leftarrow> ece391_read rtc_fd garbage 4 (wait s);
       Some s
     }"

primrec pingpong_frames ::
    "('a sound_scheme \<Rightarrow> 'a sound_scheme) \<Rightarrow> i32 \<Rightarrow> addr \<Rightarrow> addr \<Rightarrow> u8 \<Rightarrow> nat list \<Rightarrow> 'a sound_scheme \<Rightarrow> 'a sound_scheme option" where
  "pingpong_frames wait rtc_fd garbage buf curchar [] s = Some s"
| "pingpong_frames wait rtc_fd garbage buf curchar (j # js) s =
     do { s \<leftarrow> pingpong_frame wait rtc_fd garbage buf curchar j s; pingpong_frames wait rtc_fd garbage buf curchar js s }"

text \<open>A round of the loop: out, back, and the next letter.\<close>

definition pingpong_round ::
    "('a sound_scheme \<Rightarrow> 'a sound_scheme) \<Rightarrow> i32 \<Rightarrow> addr \<Rightarrow> addr \<Rightarrow> u8 \<Rightarrow> 'a sound_scheme \<Rightarrow> (u8 \<times> 'a sound_scheme) option" where
  "pingpong_round wait rtc_fd garbage buf curchar s =
     do {
       s \<leftarrow> pingpong_frames wait rtc_fd garbage buf curchar [2..<78] s;
       s \<leftarrow> pingpong_frames wait rtc_fd garbage buf curchar (rev [2..<78]) s;
       Some (if curchar = 0x5A then 0x41 else curchar + 1, s)
     }"

partial_function (option) pingpong_loop ::
    "('a sound_scheme \<Rightarrow> 'a sound_scheme) \<Rightarrow> i32 \<Rightarrow> addr \<Rightarrow> addr \<Rightarrow> u8 \<Rightarrow> 'a sound_scheme \<Rightarrow> (i32 \<times> 'a sound_scheme) option" where
  "pingpong_loop wait rtc_fd garbage buf curchar s =
     do { (curchar, s) \<leftarrow> pingpong_round wait rtc_fd garbage buf curchar s; pingpong_loop wait rtc_fd garbage buf curchar s }"

text \<open>The buffer with its walls, its newline and its end.\<close>

definition pingpong_walls :: "addr \<Rightarrow> 'a machine_scheme \<Rightarrow> 'a machine_scheme" where
  "pingpong_walls buf s =
     (let s = for_loop 0 81 (\<lambda>i s. st (buf + word_of_nat i) 0x20 s) s;
          s = st (buf + 80) 0 s;
          s = st (buf + 79) 0x0A s;
          s = st (buf + 78) 0x7C s
      in st (buf + 1) 0x7C s)"

definition pingpong_main ::
    "(string \<Rightarrow> addr) \<Rightarrow> ('a sound_scheme \<Rightarrow> 'a sound_scheme) \<Rightarrow> addr \<Rightarrow> addr \<Rightarrow> addr \<Rightarrow> 'a sound_scheme \<Rightarrow> (i32 \<times> 'a sound_scheme) option" where
  "pingpong_main lit wait ret_val garbage buf s =
     do {
       let s = pingpong_walls buf s;
       (rtc_fd, s) \<leftarrow> ece391_open (lit ''rtc'') s;
       (r, s) \<leftarrow> ece391_write rtc_fd ret_val 4 (st32 ret_val 32 s);
       pingpong_loop wait rtc_fd garbage buf 0x41 (st32 ret_val r s)
     }"

section \<open>grep\<close>

text \<open>
  The indices of \<open>do_one_file\<close> are C \<open>int\<close>s between 0 and 1025. The pattern is a \<open>char*\<close>, so its
  first character is sign-extended in the comparison with the unsigned data.
\<close>

function grep_line_end :: "addr \<Rightarrow> int \<Rightarrow> int \<Rightarrow> 'a machine_scheme \<Rightarrow> int" where
  "grep_line_end data last0 line_end m =
     (if line_end < last0 \<and> ld m (data + word_of_int line_end) \<noteq> 0x0A then grep_line_end data last0 (line_end + 1) m
      else line_end)"
  by pat_completeness auto
termination by (relation "measure (\<lambda>(data, last0, line_end, m). nat (last0 - line_end))") auto

declare grep_line_end.simps [simp del]

partial_function (option) grep_search ::
    "(string \<Rightarrow> addr) \<Rightarrow> addr \<Rightarrow> u32 \<Rightarrow> addr \<Rightarrow> addr \<Rightarrow> int \<Rightarrow> int \<Rightarrow> int \<Rightarrow> 'a sound_scheme \<Rightarrow> 'a sound_scheme option" where
  "grep_search lit s s_len fname data line_start line_end check m =
     (if check < line_end
      then do {
        r \<leftarrow> (if (scast (ld m s) :: i32) = ucast (ld m (data + word_of_int check))
              then ece391_strncmp m (data + word_of_int check) s s_len else Some 1);
        if r = 0
        then do {
          m \<leftarrow> ece391_fdputs 1 fname m;
          m \<leftarrow> ece391_fdputs 1 (lit '':'') m;
          m \<leftarrow> ece391_fdputs 1 (data + word_of_int line_start) m;
          ece391_fdputs 1 (lit newline) m
        }
        else grep_search lit s s_len fname data line_start line_end (check + 1) m
      }
      else Some m)"

partial_function (option) grep_lines ::
    "(string \<Rightarrow> addr) \<Rightarrow> addr \<Rightarrow> u32 \<Rightarrow> addr \<Rightarrow> addr \<Rightarrow> i32 \<Rightarrow> int \<Rightarrow> int \<Rightarrow> 'a sound_scheme \<Rightarrow> (int \<times> 'a sound_scheme) option" where
  "grep_lines lit s s_len fname data cnt last0 line_start m =
     (let line_end = grep_line_end data last0 line_start m
      in if ld m (data + word_of_int line_end) \<noteq> 0x0A \<and> cnt \<noteq> 0 \<and> line_start \<noteq> 0
         then do {
           let m = st (data + word_of_int line_end) 0 m;
           m \<leftarrow> ece391_strcpy data (data + word_of_int line_start) m;
           Some (last0 - line_start, m)
         }
         else do {
           let m = st (data + word_of_int line_end) 0 m;
           m \<leftarrow> grep_search lit s s_len fname data line_start line_end line_start m;
           if line_end + 1 \<ge> last0 then Some (0, m)
           else grep_lines lit s s_len fname data cnt last0 (line_end + 1) m
         })"

partial_function (option) grep_file_loop ::
    "(string \<Rightarrow> addr) \<Rightarrow> addr \<Rightarrow> u32 \<Rightarrow> addr \<Rightarrow> i32 \<Rightarrow> addr \<Rightarrow> int \<Rightarrow> 'a sound_scheme \<Rightarrow> (i32 \<times> 'a sound_scheme) option" where
  "grep_file_loop lit s s_len fname fd data last0 m =
     do {
       (cnt, m) \<leftarrow> ece391_read fd (data + word_of_int last0) (word_of_int (1024 - last0)) m;
       if cnt = -1 then complain lit (''file read failed'' @ newline) (-1) m
       else do {
         (last0, m) \<leftarrow> grep_lines lit s s_len fname data cnt (last0 + sint cnt) 0 m;
         if cnt = 0
         then do {
           (r, m) \<leftarrow> ece391_close fd m;
           if r = -1 then complain lit (''file close failed'' @ newline) (-1) m else Some (0, m)
         }
         else grep_file_loop lit s s_len fname fd data last0 m
       }
     }"

definition do_one_file ::
    "(string \<Rightarrow> addr) \<Rightarrow> addr \<Rightarrow> addr \<Rightarrow> addr \<Rightarrow> 'a sound_scheme \<Rightarrow> (i32 \<times> 'a sound_scheme) option" where
  "do_one_file lit data s fname m =
     do {
       s_len \<leftarrow> ece391_strlen m s;
       (fd, m) \<leftarrow> ece391_open fname m;
       if fd = -1 then complain lit (''file open failed'' @ newline) (-1) m
       else grep_file_loop lit s s_len fname fd data 0 m
     }"

partial_function (option) grep_loop ::
    "(string \<Rightarrow> addr) \<Rightarrow> addr \<Rightarrow> addr \<Rightarrow> addr \<Rightarrow> i32 \<Rightarrow> 'a sound_scheme \<Rightarrow> (i32 \<times> 'a sound_scheme) option" where
  "grep_loop lit data buf search fd m =
     do {
       (cnt, m) \<leftarrow> ece391_read fd buf 32 m;
       if cnt = 0 then Some (0, m)
       else if cnt = -1 then complain lit (''directory entry read failed'' @ newline) 3 m
       else if ld m buf = 0x2E then grep_loop lit data buf search fd m
       else do {
         let m = st (buf + cnt) 0 m;
         (r, m) \<leftarrow> do_one_file lit data search buf m;
         if r \<noteq> 0 then Some (3, m) else grep_loop lit data buf search fd m
       }
     }"

definition grep_main ::
    "(string \<Rightarrow> addr) \<Rightarrow> addr \<Rightarrow> addr \<Rightarrow> addr \<Rightarrow> 'a sound_scheme \<Rightarrow> (i32 \<times> 'a sound_scheme) option" where
  "grep_main lit data buf search m =
     do {
       (r, m) \<leftarrow> ece391_getargs search 1024 m;
       if r \<noteq> 0 then complain lit (''could not read argument'' @ newline) 3 m
       else do {
         (fd, m) \<leftarrow> ece391_open (lit ''.'') m;
         if fd = -1 then complain lit (''directory open failed'' @ newline) 2 m
         else grep_loop lit data buf search fd m
       }
     }"

end
