(* ===== verification/User_Tests.thy ===== *)
theory User_Tests
  imports User_Programs
begin

text \<open>
  \<^verbatim>\<open>ece391syserr.c\<close>: the repository's own tests of the error returns of the system calls. Each test prints a verdict and
  returns 0 when the kernel behaves as expected, 2 otherwise.
\<close>

definition NEG_FD :: i32 where "NEG_FD = -1073741823"
definition BIG_FD :: i32 where "BIG_FD = 1073741823"
definition BIG_NUM :: u32 where "BIG_NUM = 1073741823"
definition NEG_NUM :: u32 where "NEG_NUM = -1073741823"

text \<open>The registers besides \<open>eax\<close> hold whatever they held.\<close>

definition call_sys :: "u32 \<Rightarrow> u32 \<Rightarrow> u32 \<Rightarrow> u32 \<Rightarrow> 'a sound_scheme \<Rightarrow> (i32 \<times> 'a sound_scheme) option" where
  "call_sys ebx ecx edx num s = call_value (int80 num ebx ecx edx s)"

text \<open>\<open>if (-1 != call) { fail = 2; ece391_fdputs (1, msg); }\<close>\<close>

definition expect ::
    "(string \<Rightarrow> addr) \<Rightarrow> string \<Rightarrow> ('a sound_scheme \<Rightarrow> (i32 \<times> 'a sound_scheme) option)
     \<Rightarrow> i32 \<times> 'a sound_scheme \<Rightarrow> (i32 \<times> 'a sound_scheme) option" where
  "expect lit msg call = (\<lambda>(fail, s).
     do { (r, s) \<leftarrow> call s;
          if r \<noteq> -1 then do { s \<leftarrow> ece391_fdputs 1 (lit msg) s; Some (2, s) } else Some (fail, s) })"

text \<open>The end of a test: \<open>if (fail) ... FAIL ... else ... PASS\<close>, \<open>return fail\<close>.\<close>

definition verdict :: "(string \<Rightarrow> addr) \<Rightarrow> string \<Rightarrow> i32 \<times> 'a sound_scheme \<Rightarrow> (i32 \<times> 'a sound_scheme) option" where
  "verdict lit name = (\<lambda>(fail, s).
     complain lit (name @ (if fail \<noteq> 0 then '': FAIL'' else '': PASS'') @ newline) fail s)"

definition err_neg_fd :: "(string \<Rightarrow> addr) \<Rightarrow> addr \<Rightarrow> 'a sound_scheme \<Rightarrow> (i32 \<times> 'a sound_scheme) option" where
  "err_neg_fd lit buf s =
     do {
       r \<leftarrow> expect lit (''read fail'' @ newline) (ece391_read NEG_FD buf 31) (0, s);
       r \<leftarrow> expect lit (''write fail'' @ newline) (ece391_write NEG_FD buf 31) r;
       r \<leftarrow> expect lit (''close fail'' @ newline) (ece391_close NEG_FD) r;
       verdict lit ''err_neg_fd'' r
     }"

definition err_big_fd :: "(string \<Rightarrow> addr) \<Rightarrow> addr \<Rightarrow> 'a sound_scheme \<Rightarrow> (i32 \<times> 'a sound_scheme) option" where
  "err_big_fd lit buf s =
     do {
       r \<leftarrow> expect lit (''read fail'' @ newline) (ece391_read BIG_FD buf 31) (0, s);
       r \<leftarrow> expect lit (''write fail'' @ newline) (ece391_write BIG_FD buf 31) r;
       r \<leftarrow> expect lit (''close fail'' @ newline) (ece391_close BIG_FD) r;
       verdict lit ''err_big_fd'' r
     }"

text \<open>The two loops of \<open>err_open_lots\<close>: \<open>n\<close> more calls of \<open>open\<close>, and the calls of \<open>close\<close>, whose results are not
  used.\<close>

fun open_lots :: "(string \<Rightarrow> addr) \<Rightarrow> nat \<Rightarrow> i32 \<Rightarrow> 'a sound_scheme \<Rightarrow> (i32 \<times> 'a sound_scheme) option" where
  "open_lots lit 0 cnt s = Some (cnt, s)"
| "open_lots lit (Suc n) cnt s =
     do { (r, s) \<leftarrow> ece391_open (lit ''.'') s; open_lots lit n (if r = -1 then cnt + 1 else cnt) s }"

fun close_all :: "nat list \<Rightarrow> 'a sound_scheme \<Rightarrow> 'a sound_scheme option" where
  "close_all [] s = Some s"
| "close_all (i # is) s = do { (_, s) \<leftarrow> ece391_close (word_of_nat i) s; close_all is s }"

definition err_open_lots :: "(string \<Rightarrow> addr) \<Rightarrow> 'a sound_scheme \<Rightarrow> (i32 \<times> 'a sound_scheme) option" where
  "err_open_lots lit s =
     do {
       (cnt, s) \<leftarrow> open_lots lit 7 0 s;
       s \<leftarrow> close_all [2..<8] s;
       if cnt = 1 then complain lit (''err_open_lots: PASS'' @ newline) 0 s
       else complain lit (''err_open_lots: FAIL'' @ newline) 2 s
     }"

definition err_open :: "(string \<Rightarrow> addr) \<Rightarrow> 'a sound_scheme \<Rightarrow> (i32 \<times> 'a sound_scheme) option" where
  "err_open lit s =
     do {
       r \<leftarrow> expect lit ([CHR 0x27] @ ''helloo'' @ [CHR 0x27] @ '' fail'' @ newline) (ece391_open (lit ''helloo'')) (0, s);
       r \<leftarrow> expect lit ([CHR 0x27] @ ''shel'' @ [CHR 0x27] @ '' fail'' @ newline) (ece391_open (lit ''shel'')) r;
       r \<leftarrow> expect lit (''empty string fail'' @ newline) (ece391_open (lit '''')) r;
       verdict lit ''err_open'' r
     }"

text \<open>One loop of \<open>err_unopened\<close> over the descriptors \<open>is\<close>.\<close>

fun expect_all ::
    "(string \<Rightarrow> addr) \<Rightarrow> string \<Rightarrow> (i32 \<Rightarrow> 'a sound_scheme \<Rightarrow> (i32 \<times> 'a sound_scheme) option) \<Rightarrow> nat list
     \<Rightarrow> i32 \<times> 'a sound_scheme \<Rightarrow> (i32 \<times> 'a sound_scheme) option" where
  "expect_all lit msg call [] r = Some r"
| "expect_all lit msg call (i # is) r = do { r \<leftarrow> expect lit msg (call (word_of_nat i)) r; expect_all lit msg call is r }"

definition err_unopened :: "(string \<Rightarrow> addr) \<Rightarrow> addr \<Rightarrow> 'a sound_scheme \<Rightarrow> (i32 \<times> 'a sound_scheme) option" where
  "err_unopened lit buf s =
     do {
       r \<leftarrow> expect_all lit (''close unopened or invalid fd fail'' @ newline) ece391_close [0..<8] (0, s);
       r \<leftarrow> expect_all lit (''read from unopened fd fail'' @ newline) (\<lambda>i. ece391_read i buf 31) [2..<8] r;
       r \<leftarrow> expect_all lit (''write to unopened fd fail'' @ newline) (\<lambda>i. ece391_write i buf 31) [2..<8] r;
       verdict lit ''err_unopened'' r
     }"

definition err_vidmap :: "(string \<Rightarrow> addr) \<Rightarrow> 'a sound_scheme \<Rightarrow> (i32 \<times> 'a sound_scheme) option" where
  "err_vidmap lit s =
     do {
       r \<leftarrow> expect lit (''Null pointer fail'' @ newline) (ece391_vidmap 0) (0, s);
       r \<leftarrow> expect lit (''Kernel pointer fail fail'' @ newline) (ece391_vidmap 0x400000) r;
       verdict lit ''err_vidmap'' r
     }"

definition err_stdin_out :: "(string \<Rightarrow> addr) \<Rightarrow> addr \<Rightarrow> 'a sound_scheme \<Rightarrow> (i32 \<times> 'a sound_scheme) option" where
  "err_stdin_out lit buf s =
     do {
       r \<leftarrow> expect lit (''write to stdin fail'' @ newline) (ece391_write 0 buf 31) (0, s);
       r \<leftarrow> expect lit (''read from stdout fail'' @ newline) (ece391_read 1 buf 31) r;
       verdict lit ''err_stdin_out'' r
     }"

definition err_syscall_num :: "(string \<Rightarrow> addr) \<Rightarrow> u32 \<Rightarrow> u32 \<Rightarrow> u32 \<Rightarrow> 'a sound_scheme \<Rightarrow> (i32 \<times> 'a sound_scheme) option" where
  "err_syscall_num lit ebx ecx edx s =
     do {
       r \<leftarrow> expect lit (''syscall 0 fail'' @ newline) (call_sys ebx ecx edx BIG_NUM) (0, s);
       r \<leftarrow> expect lit (''big num syscall fail'' @ newline) (call_sys ebx ecx edx NEG_NUM) r;
       r \<leftarrow> expect lit (''neg num syscall fail'' @ newline) (call_sys ebx ecx edx 0) r;
       verdict lit ''err_syscall_num'' r
     }"

text \<open>\<open>main\<close>: \<open>buf\<close> is its array and \<open>buf32\<close> that of the tests.\<close>

definition syserr_all :: "(string \<Rightarrow> addr) \<Rightarrow> addr \<Rightarrow> u32 \<Rightarrow> u32 \<Rightarrow> u32 \<Rightarrow> 'a sound_scheme \<Rightarrow> (i32 \<times> 'a sound_scheme) option" where
  "syserr_all lit buf32 ebx ecx edx s =
     do {
       (f1, s) \<leftarrow> err_neg_fd lit buf32 s;
       (f2, s) \<leftarrow> err_big_fd lit buf32 s;
       (f3, s) \<leftarrow> err_open_lots lit s;
       (f4, s) \<leftarrow> err_open lit s;
       (f5, s) \<leftarrow> err_unopened lit buf32 s;
       (f6, s) \<leftarrow> err_vidmap lit s;
       (f7, s) \<leftarrow> err_stdin_out lit buf32 s;
       (f8, s) \<leftarrow> err_syscall_num lit ebx ecx edx s;
       let fail = f1 + f2 + f3 + f4 + f5 + f6 + f7 + f8;
       complain lit (newline @ ''Overall Tests: '' @ (if fail \<noteq> 0 then ''FAIL'' else ''PASS'') @ newline) fail s
     }"

definition syserr_main ::
    "(string \<Rightarrow> addr) \<Rightarrow> ('a sound_scheme \<Rightarrow> 'a sound_scheme) \<Rightarrow> addr \<Rightarrow> addr \<Rightarrow> u32 \<Rightarrow> u32 \<Rightarrow> u32 \<Rightarrow> 'a sound_scheme
     \<Rightarrow> (i32 \<times> 'a sound_scheme) option" where
  "syserr_main lit wait buf buf32 ebx ecx edx s =
     do {
       s \<leftarrow> ece391_fdputs 1 (lit ''Choose from tests 1-8. 0 to run all: '') s;
       (cnt, s) \<leftarrow> ece391_read 0 buf 127 (wait s);
       if cnt = -1 then complain lit (''Can'' @ [CHR 0x27] @ ''t read test #'' @ newline) 2 s
       else let select = int (unat (ld s buf)) - 0x30
            in if select = 0 then syserr_all lit buf32 ebx ecx edx s
               else if select = 1 then err_neg_fd lit buf32 s
               else if select = 2 then err_big_fd lit buf32 s
               else if select = 3 then err_open_lots lit s
               else if select = 4 then err_open lit s
               else if select = 5 then err_unopened lit buf32 s
               else if select = 6 then err_vidmap lit s
               else if select = 7 then err_stdin_out lit buf32 s
               else if select = 8 then err_syscall_num lit ebx ecx edx s
               else complain lit ''Invalid test number. Choose from tests 1-8 or 0'' 0 s
     }"

end
