(* ===== verification/User_Spec.thy ===== *)
theory User_Spec
  imports Terminal_Read User_Tests
begin

text \<open>
  What a user program sees of the kernel: a \<open>write\<close> to descriptor 1 prints on the program's terminal and changes nothing else, and a
  string literal goes to the screen through \<open>ece391_fdputs\<close>. \<open>tty p t s\<close> says that process \<open>p\<close> on terminal \<open>t\<close>
  runs, with its standard descriptors open.
\<close>

section \<open>A running program\<close>

abbreviation in_kernel :: "'a kernel_scheme \<Rightarrow> 'a kernel_scheme" where
  "in_kernel s \<equiv> s\<lparr>esp := tss_esp0 s - 48\<rparr>"

abbreviation own_files :: "u32 \<Rightarrow> 'a kernel_scheme \<Rightarrow> file_desc_t list" where
  "own_files p s \<equiv> files (pcbs s (get_pcb_by_index p))"

definition tty :: "u32 \<Rightarrow> u8 \<Rightarrow> 'a kernel_scheme \<Rightarrow> bool" where
  "tty p t s \<longleftrightarrow> p < 6 \<and> tss_esp0 s = tss_esp0 (set_tss p s) \<and> terminals_ok s \<and> unat t < 3
     \<and> get_terminal_id (pid (pcbs s (get_pcb_by_index p))) s = t \<and> length (own_files p s) = 8
     \<and> own_files p s ! 0 = std_fd Stdin_funcs \<and> own_files p s ! 1 = std_fd Stdout_funcs"

lemma tty_curr: "tty p t s \<Longrightarrow> get_curr_pcb (in_kernel s) = get_pcb_by_index p"
proof (rule curr_pcb)
  assume t: "tty p t s"
  then show "p < 6" by (simp add: tty_def)
  then have "unat (tss_esp0 s - 48) = 8192 * (1024 - unat p) - 52"
    using t pid_cases [of p] by (auto simp: tty_def set_tss_def EIGHT_MB_SIZE_def EIGHT_KB_SIZE_def ESP_OFFSET_def)
  moreover have "unat p < 6" using \<open>p < 6\<close> by (simp add: word_less_nat_alt)
  ultimately show "unat (get_pcb_by_index p) \<le> unat (esp (in_kernel s))" "unat (esp (in_kernel s)) < unat (get_pcb_by_index p) + 8192"
    using unat_pcb [OF \<open>p < 6\<close>] by simp_all
qed

text \<open>Nothing but the console and the screens has changed.\<close>

definition screens_only :: "'a console_scheme \<Rightarrow> 'a console_scheme \<Rightarrow> bool" where
  "screens_only s u \<longleftrightarrow> only_console s u \<and> (\<forall>q. off_screens q \<longrightarrow> phys u q = phys s q)"

interpretation scr: frame_relation screens_only
  by unfold_locales (auto simp: screens_only_def intro: con.frame_refl con.frame_trans)

lemma screens_only_ld: "screens_only s u \<Longrightarrow> off_screens (xl s a) \<Longrightarrow> ld u a = ld s a"
  by (simp add: screens_only_def only_console_def ld_def)

lemma screens_only_kernel:
  assumes "screens_only s (u :: 'a kernel_scheme)"
  shows "pcbs u = pcbs s" "process u = process s" "process_terminal u = process_terminal s"
    "process_terminal_cnt u = process_terminal_cnt s" "tss_esp0 u = tss_esp0 s" "fs_addr u = fs_addr s" "fs_bytes u = fs_bytes s"
    "dentry_addr u = dentry_addr s" "inode_addr u = inode_addr s" "d_block_addr u = d_block_addr s" "num_dentries u = num_dentries s"
    "num_inodes u = num_inodes s" "num_d_blocks u = num_d_blocks s" "xl u = xl s"
  using assms by (cases s; cases u; simp add: screens_only_def only_console_def fs_bytes_def)+

section \<open>Writing to the terminal\<close>

lemma putc_screens: "console_ok s \<Longrightarrow> screens_only s (set_column_stack (putc c s))"
  using only_console_ops(4) [of s c] putc_outside(1) [of s] off_screens_off_screen
  by (auto simp: screens_only_def only_console_def set_column_stack_def)

lemma putc_terminal_screens: "saved_ok t s \<Longrightarrow> screens_only s (putc_terminal c t s)"
  using only_console_ops(10) [of s c t] putc_terminal_off_screens [of t s] by (auto simp: screens_only_def)

lemma screens_only_flag: "screens_only s (cli s)" "screens_only s (sti s)" "screens_only s (ti_upd t f s)"
  by (simp_all add: screens_only_def only_console_def cli_def sti_def ti_upd_def)

lemma terminal_write_screens:
  assumes "terminals_ok s" "t = get_terminal_id (pid (pcbs s (get_curr_pcb s))) s" "unat t < 3"
  shows "screens_only s (snd (terminal_write fd buf n s))"
proof -
  let ?n = "nat (sint n)"
  have s: "terminals_ok (cli s)" "get_curr_pcb (cli s) = get_curr_pcb s" "pcbs (cli s) = pcbs s" "get_terminal_id p (cli s) = get_terminal_id p s" for p
    using assms(1) by simp_all (simp_all add: cli_def get_curr_pcb_def get_terminal_id_def)
  show ?thesis
  proof (cases "t = current_terminal s")
    case True
    let ?v = "for_loop 0 ?n (\<lambda>i s. set_column_stack (putc (ld s (buf + word_of_nat i)) s)) (cli s)"
    have step: "foreground_ok (set_column_stack (putc c u)) \<and> screens_only (cli s) (set_column_stack (putc c u))"
      if "foreground_ok u \<and> screens_only (cli s) u" for c u
      using that foreground_ok_putc [of u c] scr.frame_trans [OF _ putc_screens [of u c]] by (simp add: foreground_ok_def)
    have "foreground_ok (cli s)" using s(1) by (simp add: terminals_ok_def)
    then have "foreground_ok ?v \<and> screens_only (cli s) ?v"
      by (intro for_loop_invariant [where P = "\<lambda>u. foreground_ok u \<and> screens_only (cli s) u"]) (simp_all add: scr.frame_refl step)
    then have "screens_only s (sti ?v)"
      by (intro scr.frame_trans [OF scr.frame_trans [OF screens_only_flag(1)] screens_only_flag(2)]) simp
    then show ?thesis using True assms(2) s by (simp add: terminal_write_def Let_def)
  next
    case False
    let ?v = "for_loop 0 ?n (\<lambda>i s. putc_terminal (ld s (buf + word_of_nat i)) t s) (cli s)"
    have step: "background_ok t (putc_terminal c t u) \<and> screens_only (cli s) (putc_terminal c t u)"
      if "background_ok t u \<and> screens_only (cli s) u" for c u
      using that background_ok_putc [of t u c] scr.frame_trans [OF _ putc_terminal_screens [of t u c]] by (simp add: background_ok_def)
    have "background_ok t (cli s)" using s(1) False assms(3) by (simp add: terminals_ok_def)
    then have "background_ok t ?v \<and> screens_only (cli s) ?v"
      by (intro for_loop_invariant [where P = "\<lambda>u. background_ok t u \<and> screens_only (cli s) u"]) (simp_all add: scr.frame_refl step)
    then have "screens_only s (sti (ti_upd t (\<lambda>i. i\<lparr>column_stack_old := screen_pos_x i\<rparr>) ?v))"
      by (intro scr.frame_trans [OF scr.frame_trans [OF scr.frame_trans [OF screens_only_flag(1)] screens_only_flag(3)] screens_only_flag(2)]) simp
    then show ?thesis using False assms(2,3) s by (simp add: terminal_write_def Let_def)
  qed
qed

text \<open>Terminal \<open>t\<close> shows the bytes \<open>bs\<close> more than before, the other terminals the same; \<open>prints_on\<close> says in addition that
  nothing but the screens has changed.\<close>

definition shows_more :: "u8 \<Rightarrow> u8 list \<Rightarrow> 'a console_scheme \<Rightarrow> 'a console_scheme \<Rightarrow> bool" where
  "shows_more t bs s u \<longleftrightarrow> shown (terminal_of t u) = fold (text_put (attrib ! unat t)) bs (shown (terminal_of t s))
     \<and> typed (terminal_of t u) = typed (terminal_of t s) \<and> dropped (terminal_of t u) = dropped (terminal_of t s)
     \<and> (\<forall>r. unat r < 3 \<and> r \<noteq> t \<longrightarrow> terminal_of r u = terminal_of r s)"

definition prints_on :: "u8 \<Rightarrow> u8 list \<Rightarrow> 'a console_scheme \<Rightarrow> 'a console_scheme \<Rightarrow> bool" where
  "prints_on t bs s u \<longleftrightarrow> terminals_ok u \<and> screens_only s u \<and> shows_more t bs s u"

lemma shows_more_trans: "shows_more t xs s u \<Longrightarrow> shows_more t ys u v \<Longrightarrow> shows_more t (xs @ ys) s v"
  by (simp add: shows_more_def)

lemma shows_more_same: "(\<And>r. unat r < 3 \<Longrightarrow> terminal_of r u = terminal_of r s) \<Longrightarrow> unat t < 3 \<Longrightarrow> shows_more t [] s u"
  by (simp add: shows_more_def)

lemma prints_on_tty:
  assumes "tty p t s" "prints_on t' bs s u"
  shows "tty p t u"
proof -
  have "screens_only s u" "terminals_ok u" using assms(2) by (simp_all add: prints_on_def)
  moreover from screens_only_kernel [OF this(1)] have "get_terminal_id q u = get_terminal_id q s" for q
    by (simp add: get_terminal_id_def)
  ultimately show ?thesis using assms(1) by (simp add: tty_def screens_only_kernel set_tss_def)
qed

lemma call_value_int80:
  "ece391_read fd buf n s = map_option (\<lambda>(v, t). (v, t\<lparr>esp := esp s\<rparr>)) (sys_read fd buf n (in_kernel s))"
  "ece391_write fd buf n s = map_option (\<lambda>(v, t). (v, t\<lparr>esp := esp s\<rparr>)) (sys_write fd buf n (in_kernel s))"
  "ece391_open filename s = map_option (\<lambda>(v, t). (v, t\<lparr>esp := esp s\<rparr>)) (sys_open filename (in_kernel s))"
  "ece391_close fd s = map_option (\<lambda>(v, t). (v, t\<lparr>esp := esp s\<rparr>)) (sys_close fd (in_kernel s))"
  "ece391_getargs buf n s = map_option (\<lambda>(v, t). (v, t\<lparr>esp := esp s\<rparr>)) (getargs buf n (in_kernel s))"
  "ece391_vidmap a s = Some (let (v, t) = vidmap a (in_kernel s) in (v, t\<lparr>esp := esp s\<rparr>))"
  by (simp_all add: ece391_read_def ece391_write_def ece391_open_def ece391_close_def ece391_getargs_def ece391_vidmap_def
      int80_def syscall_assembly_def call_value_def map_option_case Let_def word_sless_alt split: option.splits prod.splits)

lemma user_write:
  assumes "tty p t s" "buffer_off buf (unat n) s" "unat n < 2 ^ 31" "buf \<noteq> 0"
  shows "\<exists>u. ece391_write 1 buf n s = Some (n, u) \<and> prints_on t (read_bytes s buf (unat n)) s u \<and> esp u = esp s"
proof -
  let ?k = "in_kernel s"
  note c = tty_curr [OF assms(1)]
  have k: "terminals_ok ?k" "t = get_terminal_id (pid (pcbs ?k (get_curr_pcb ?k))) ?k" "unat t < 3" "buffer_off buf (unat n) ?k"
    "read_bytes ?k buf (unat n) = read_bytes s buf (unat n)"
    unfolding c using assms(1,2) by (simp_all add: tty_def buffer_off_def read_bytes_def ld_def) (simp add: get_terminal_id_def)
  obtain u where u: "terminal_write 1 buf n ?k = (n, u)" "terminals_ok u"
    "shown (terminal_of t u) = fold (text_put (attrib ! unat t)) (read_bytes ?k buf (unat n)) (shown (terminal_of t ?k))"
    "typed (terminal_of t u) = typed (terminal_of t ?k)" "dropped (terminal_of t u) = dropped (terminal_of t ?k)"
    "\<forall>r. unat r < 3 \<and> r \<noteq> t \<longrightarrow> terminal_of r u = terminal_of r ?k"
    using terminal_write_spec [OF k(1-3) assms(3) k(4), of 1] by blast
  have "screens_only ?k u" using terminal_write_screens [OF k(1-3), of 1 buf n] u(1) by simp
  then have "screens_only s (u\<lparr>esp := esp s\<rparr>)" by (simp add: screens_only_def only_console_def)
  moreover have "ece391_write 1 buf n s = Some (n, u\<lparr>esp := esp s\<rparr>)"
  proof -
    have "sint n \<ge> 0" using sint_nonneg [OF assms(3)] by simp
    then show ?thesis
      using assms(1,4) c u(1) by (simp add: call_value_int80 sys_write_def tty_def std_fd_def IN_USE_def NOT_IN_USE_def)
  qed
  ultimately show ?thesis using u k(5) by (intro exI [of _ "u\<lparr>esp := esp s\<rparr>"]) (simp add: prints_on_def shows_more_def)
qed

section \<open>String literals\<close>

lemma user_strlen: "cstr s a n \<Longrightarrow> ece391_strlen s a = Some (word_of_nat n)"
proof -
  have "user_strlen_loop s (a + word_of_nat k) (word_of_nat k) = Some (word_of_nat n)" if "cstr s a n" "k \<le> n" for k
    using that(2)
  proof (induction "n - k" arbitrary: k)
    case 0
    then show ?case using that(1) by (subst user_strlen_loop.simps) (simp add: cstr_def)
  next
    case (Suc d)
    then have "ld s (a + word_of_nat k) \<noteq> 0" using that(1) by (simp add: cstr_def)
    moreover have "user_strlen_loop s (a + word_of_nat (Suc k)) (word_of_nat (Suc k)) = Some (word_of_nat n)"
      using Suc.hyps(1) [of "Suc k"] Suc.hyps(2) Suc.prems by simp
    ultimately show ?case by (subst user_strlen_loop.simps) (simp add: ac_simps)
  qed
  from this [of 0] show "cstr s a n \<Longrightarrow> ece391_strlen s a = Some (word_of_nat n)" by (simp add: ece391_strlen_def)
qed

definition literal :: "(string \<Rightarrow> addr) \<Rightarrow> string \<Rightarrow> 'a machine_scheme \<Rightarrow> bool" where
  "literal lit msg s \<longleftrightarrow> lit msg \<noteq> 0 \<and> length msg < 2 ^ 31 \<and> cstr s (lit msg) (length msg)
     \<and> read_bytes s (lit msg) (length msg) = bytes_of msg \<and> buffer_off (lit msg) (Suc (length msg)) s"

lemma user_puts:
  assumes "tty p t s" "cstr s a n" "buffer_off a n s" "n < 2 ^ 31" "a \<noteq> 0"
  shows "\<exists>u. ece391_fdputs 1 a s = Some u \<and> prints_on t (read_bytes s a n) s u \<and> esp u = esp s"
proof -
  have n: "unat (word_of_nat n :: u32) = n" using assms(4) by (simp add: unat_of_nat_u32)
  then show ?thesis
    using user_write [of p t s a "word_of_nat n"] assms user_strlen [OF assms(2)] by (auto simp: ece391_fdputs_def n)
qed

lemma puts_literal:
  assumes "tty p t s" "literal lit msg s"
  shows "\<exists>u. ece391_fdputs 1 (lit msg) s = Some u \<and> prints_on t (bytes_of msg) s u \<and> esp u = esp s"
  using user_puts [OF assms(1), of "lit msg" "length msg"] assms(2) by (auto simp: literal_def buffer_off_def)

lemma literal_screens:
  assumes "screens_only s u" "literal lit msg s"
  shows "literal lit msg u"
proof -
  have ld: "ld u (lit msg + word_of_nat i) = ld s (lit msg + word_of_nat i)" if "i \<le> length msg" for i
    using that assms by (intro screens_only_ld) (auto simp: literal_def buffer_off_def)
  then have "read_bytes u (lit msg) (length msg) = read_bytes s (lit msg) (length msg)" by (intro read_bytes_eqI) simp
  then show ?thesis
    using assms ld by (simp add: literal_def cstr_def screens_only_def only_console_def buffer_off_def)
qed

end
