(* ===== verification/User_State.thy ===== *)
theory User_State
  imports User_Spec
begin

text \<open>
  A concrete machine for the user programs: the first terminal is visible, process 1 runs on the second one with its standard
  descriptors and the argument \<open>hi\<close>. The image has the directory itself and a file \<open>hi\<close> of three bytes; the string
  literals lie from 0x600000 on, one in every 64 bytes.
\<close>

definition messages :: "string list" where
  "messages = [''.'', ''helloo'', ''shel'', '''', ''err_neg_fd: PASS'' @ newline, ''err_big_fd: PASS'' @ newline,
     ''err_open_lots: PASS'' @ newline, ''err_open: PASS'' @ newline, ''err_unopened: PASS'' @ newline, ''err_vidmap: PASS'' @ newline,
     ''err_stdin_out: PASS'' @ newline, ''err_syscall_num: PASS'' @ newline, newline @ ''Overall Tests: PASS'' @ newline, newline]"

definition shell_messages :: "string list" where
  "shell_messages = [''Starting 391 Shell'' @ newline, ''391OS> '', ''exit'', ''read from keyboard failed'' @ newline,
     ''no such command'' @ newline, ''program terminated by exception'' @ newline, ''program terminated abnormally'' @ newline]"

definition literals0 :: "string list" where
  "literals0 = messages @ shell_messages @ ['':'']"

definition lit0 :: "string \<Rightarrow> addr" where
  "lit0 msg = 0x600000 + 64 * word_of_nat (length (takeWhile (\<lambda>m. m \<noteq> msg) literals0))"

definition disk2 :: "u32 \<Rightarrow> u8" where
  "disk2 a =
     (if 0x600000 \<le> unat a \<and> unat a < 0x600580
      then let m = bytes_of (literals0 ! ((unat a - 0x600000) div 64)); i = (unat a - 0x600000) mod 64
           in if i < length m then m ! i else 0
      else if a = 0x400000 then 2
      else if a = 0x400004 then 3 else if a = 0x400008 then 2
      else if a = 0x400040 then 0x2E else if a = 0x400060 then 1
      else if a = 0x400080 then 0x68 else if a = 0x400081 then 0x69 else if a = 0x4000A0 then 2
      else if a = 0x401000 then 3
      else if a = 0x404000 then 0x68 else if a = 0x404001 then 0x69 else if a = 0x404002 then 0x0A
      else 0)"

definition user_pcb0 :: pcb_t where
  "user_pcb0 = pcb0\<lparr>files := [std_fd Stdin_funcs, std_fd Stdout_funcs] @ replicate 6 \<lparr>ptrs = Null_ptrs, inode = 0, file_pos = 0, flags = 0\<rparr>,
     pid := 1, argument := [0x20, 0x68, 0x69] @ replicate 97 0\<rparr>"

definition user0 :: scheduling where
  "user0 = desk0\<lparr>phys := disk2, num_dentries := 2, pcbs := (\<lambda>_. user_pcb0), tss_esp0 := 0x7FDFFC\<rparr>"

lemma user0_kernel0: "xl user0 = xl kernel0" "phys user0 = disk2" "num_dentries user0 = 2"
  "fs_addr user0 = 0x400000" "num_inodes user0 = 3" "num_d_blocks user0 = 2"
  "dentry_addr user0 = 0x400040" "inode_addr user0 = 0x401000" "d_block_addr user0 = 0x404000"
  by (simp_all add: user0_def desk0_def sched0_def keyboard.defs sound.defs scheduling.defs kernel.defs)

lemma user0_xl: "0x400000 \<le> unat a \<Longrightarrow> unat a < 0x800000 \<Longrightarrow> xl user0 a = a"
  unfolding user0_kernel0(1) by (rule xl_kernel [OF kernel0_mapped])

lemma user0_ld: "0x400000 \<le> unat a \<Longrightarrow> unat a < 0x800000 \<Longrightarrow> ld user0 a = disk2 a"
  by (simp add: ld_def user0_xl user0_kernel0(2))

lemma user0_off:
  assumes "0x400000 \<le> unat a" "unat a + n \<le> 0x800000"
  shows "buffer_off a n user0"
  unfolding buffer_off_def
proof (intro allI impI)
  fix i assume "i < n"
  then have u: "unat (a + word_of_nat i) = unat a + i" "xl user0 (a + word_of_nat i) = a + word_of_nat i"
    using unat_add_small [of a i] user0_xl [of "a + word_of_nat i"] assms by simp_all
  have "a + word_of_nat i \<noteq> off k" if "k < 16384" for k
  proof
    assume "a + word_of_nat i = off k"
    moreover have "unat (off k) = 0xB8000 + k" using unat_add_small [of "0xB8000 :: u32" k] that by (simp add: off_def VIDEO_def)
    ultimately show False using u(1) assms(1) that by simp
  qed
  then show "off_screens (xl user0 (a + word_of_nat i))" by (simp add: u(2) off_screens_def)
qed

lemma user0_terminals: "terminals_ok user0" "unat t < 3 \<Longrightarrow> terminal_of t user0 = terminal_of t desk0"
proof -
  have m: "screen_mapped desk0" using desk0_ok by (simp add: terminals_ok_def foreground_ok_def console_ok_def)
  have xl: "xl user0 = xl desk0" by (simp add: user0_def)
  have phys: "phys desk0 = disk1" by (simp add: desk0_def sched0_def keyboard.defs sound.defs scheduling.defs kernel.defs kernel0_def rtc.defs)
  have "ld user0 (off b) = ld desk0 (off b)" if "b < 16384" for b
  proof -
    have u: "unat (off b) = 0xB8000 + b" using unat_add_small [of "0xB8000 :: u32" b] that by (simp add: off_def VIDEO_def)
    have "disk2 (off b) = 0" "disk1 (off b) = 0"
      using u that by (auto simp: disk2_def disk1_def)
    then show ?thesis using that m by (simp add: ld_def xl phys user0_kernel0(2) screen_mapped_def)
  qed
  then have "view j user0 = view j desk0" if "j < 4" for j using that by (auto simp: view_off fun_eq_iff)
  then show "terminals_ok user0" "unat t < 3 \<Longrightarrow> terminal_of t user0 = terminal_of t desk0"
    using desk0_ok terminals_view [of user0 desk0] by (simp_all add: xl) (simp_all add: user0_def)
qed


lemma user0_tty: "tty 1 1 user0"
proof -
  have "get_terminal_id 1 user0 = 1" by (simp add: get_terminal_id_def user0_def desk0_def upt_rec)
  moreover have "tss_esp0 (set_tss 1 user0) = 0x7FDFFC" by (simp add: set_tss_def EIGHT_MB_SIZE_def EIGHT_KB_SIZE_def ESP_OFFSET_def)
  moreover have "pcbs user0 = (\<lambda>_. user_pcb0)" "tss_esp0 user0 = 0x7FDFFC" by (simp_all add: user0_def)
  ultimately show ?thesis using user0_terminals(1) by (simp add: tty_def) (simp add: user_pcb0_def)
qed

lemma user0_free: "2 \<le> i \<Longrightarrow> i < 8 \<Longrightarrow> flags (own_files 1 user0 ! i) = NOT_IN_USE"
  by (auto simp: user0_def user_pcb0_def NOT_IN_USE_def nth_append)

lemma user0_image: "image_ok user0" "buffer_ok user0 0x700000 1024" "fs_bytes user0 = 24576"
proof -
  show bytes: "fs_bytes user0 = 24576" by (simp add: fs_bytes_def data_pos_def user0_kernel0)
  have "img user0 (64 + 64 * i + 35) = 0" if "i < 2" for i
    using that by (auto simp: less_2_cases_iff img_def user0_kernel0 user0_ld disk2_def)
  then show "image_ok user0" by (simp add: image_ok_def bytes user0_kernel0 data_pos_def)
  have a: "unat (0x700000 + word_of_nat i :: u32) = 0x700000 + i" if "i < 1024" for i
    using unat_add_small [of "0x700000 :: u32" i] that by simp
  have m: "unat (0x400000 + word_of_nat m :: u32) = 0x400000 + m" if "m < 24576" for m
    using unat_add_small [of "0x400000 :: u32" m] that by simp
  have ai: "unat (xl user0 (0x700000 + word_of_nat i)) = 0x700000 + i" if "i < 1024" for i
    using a [OF that] user0_xl [of "0x700000 + word_of_nat i"] that by simp
  have mi: "unat (xl user0 (0x400000 + word_of_nat m)) = 0x400000 + m" if "m < 24576" for m
    using m [OF that] user0_xl [of "0x400000 + word_of_nat m"] that by simp
  have "inj_on (\<lambda>i. xl user0 (0x700000 + word_of_nat i)) {..<1024}"
    by (rule inj_onI) (metis ai add_left_cancel lessThan_iff)
  moreover have "xl user0 (0x700000 + word_of_nat i) \<noteq> xl user0 (0x400000 + word_of_nat m)" if "i < 1024" "m < 24576" for i m
  proof
    assume "xl user0 (0x700000 + word_of_nat i) = xl user0 (0x400000 + word_of_nat m)"
    then have "0x700000 + i = 0x400000 + m" using ai [OF that(1)] mi [OF that(2)] by (simp only:)
    then show False using that by simp
  qed
  ultimately show "buffer_ok user0 0x700000 1024" by (simp add: buffer_ok_def bytes user0_kernel0)
qed

lemma user0_names: "entry_name user0 0 = [0x2E]" "entry_name user0 1 = [0x68, 0x69]"
proof -
  have "read_bytes user0 0x400040 32 = read_bytes user0 0x400040 2 @ read_bytes user0 0x400042 30"
    using read_bytes_append [of user0 "0x400040" 2 30] by simp
  moreover have "read_bytes user0 0x400040 2 = [0x2E, 0]" by (simp add: read_bytes_def user0_ld disk2_def upt_rec)
  ultimately show "entry_name user0 0 = [0x2E]" by (simp add: entry_name_def entry_addr_def user0_kernel0)
  have "read_bytes user0 0x400080 32 = read_bytes user0 0x400080 3 @ read_bytes user0 0x400083 29"
    using read_bytes_append [of user0 "0x400080" 3 29] by simp
  moreover have "read_bytes user0 0x400080 3 = [0x68, 0x69, 0]" by (simp add: read_bytes_def user0_ld disk2_def upt_rec)
  ultimately show "entry_name user0 1 = [0x68, 0x69]" by (simp add: entry_name_def entry_addr_def user0_kernel0)
qed

lemma user0_lookup:
  "\<exists>d. lookup user0 [0x68, 0x69] = Some d \<and> f_type d = 2 \<and> i_node d = 0"
  "\<exists>d. lookup user0 [0x2E] = Some d \<and> f_type d = 1"
  "xs \<noteq> [0x2E] \<Longrightarrow> xs \<noteq> [0x68, 0x69] \<Longrightarrow> lookup user0 xs = None"
  by (auto simp: lookup_def user0_names user0_names(2) [unfolded One_nat_def] user0_kernel0 upt_rec dentry_at_def entry_addr_def ld32_def user0_ld disk2_def)

lemma user0_file: "file_ok user0 0" "file_content user0 0 = [0x68, 0x69, 0x0A]"
proof -
  have size: "file_size user0 0 = 3" by (simp add: file_size_def img32_def ld32_def user0_kernel0 user0_ld disk2_def)
  have block: "file_block user0 0 0 = 0" by (simp add: file_block_def img32_def ld32_def user0_kernel0 user0_ld disk2_def)
  have "file_block user0 0 k < 2" if "4096 * k < 3" for k using that block by (cases k) simp_all
  then show "file_ok user0 0" using size by (simp add: file_ok_def user0_kernel0)
  show "file_content user0 0 = [0x68, 0x69, 0x0A]"
    by (simp add: file_content_def size upt_rec file_byte_def block img_def data_pos_def user0_kernel0 user0_ld disk2_def)
qed

lemma literals0_ok: "distinct literals0" "\<forall>m \<in> set literals0. length m < 64 \<and> 0 \<notin> set (bytes_of m)"
  by (simp_all add: literals0_def messages_def shell_messages_def bytes_of_def)

lemma user0_lit_addr:
  assumes "k < 22"
  shows "unat (lit0 (literals0 ! k)) = 0x600000 + 64 * k"
proof -
  let ?m = "literals0 ! k"
  have k: "k < length literals0" using assms by (simp add: literals0_def messages_def shell_messages_def)
  have "takeWhile (\<lambda>m. m \<noteq> ?m) literals0 = take k literals0"
    using literals0_ok(1) k by (intro takeWhile_eq_take_P_nth) (simp_all add: nth_eq_iff_index_eq)
  then have lit: "lit0 ?m = 0x600000 + word_of_nat (64 * k)" using k by (simp add: lit0_def)
  show ?thesis unfolding lit using unat_add_small [of "0x600000 :: u32" "64 * k"] assms by simp
qed

lemma user0_literal:
  assumes "k < 22"
  shows "literal lit0 (literals0 ! k) user0"
proof -
  let ?m = "literals0 ! k"
  have k: "k < length literals0" using assms by (simp add: literals0_def messages_def shell_messages_def)
  have len: "length ?m < 64" and nz: "0 \<notin> set (bytes_of ?m)" using literals0_ok(2) k by simp_all
  note u = user0_lit_addr [OF assms]
  have byte: "ld user0 (lit0 ?m + word_of_nat i) = (if i < length ?m then bytes_of ?m ! i else 0)" if "i \<le> length ?m" for i
  proof -
    have a: "unat (lit0 ?m + word_of_nat i) = 0x600000 + (64 * k + i)" using unat_add_small [of "lit0 ?m" i] u that len assms by simp
    moreover have "64 * k + i < 1408" using that len assms by simp
    moreover have "(64 * k + i) div 64 = k" "(64 * k + i) mod 64 = i" using that len by simp_all
    ultimately have "disk2 (lit0 ?m + word_of_nat i) = (if i < length ?m then bytes_of ?m ! i else 0)"
      using \<open>64 * k + i < 1408\<close> unfolding disk2_def Let_def by simp
    then show ?thesis using user0_ld [of "lit0 ?m + word_of_nat i"] a that len assms by simp
  qed
  have "read_bytes user0 (lit0 ?m) (length ?m) = bytes_of ?m"
    by (rule nth_equalityI) (simp_all add: byte)
  moreover from this have "holds user0 (lit0 ?m) (bytes_of ?m)" by (simp add: holds_def byte)
  from holds_cstr [OF this nz] have "cstr user0 (lit0 ?m) (length ?m)" by simp
  moreover have "buffer_off (lit0 ?m) (Suc (length ?m)) user0" using user0_off [of "lit0 ?m"] u len assms by simp
  moreover have "lit0 ?m \<noteq> 0" using u by auto
  ultimately show ?thesis using len by (simp add: literal_def)
qed

end
