(* ===== verification/User_Files.thy ===== *)
theory User_Files
  imports User_State
begin

text \<open>
  Programs that read files and write to the terminal, run on the kernel: \<open>cat\<close> prints the file its argument names. The
  theorem goes through \<open>getargs\<close>, \<open>open\<close>, the block-wise \<open>read_data\<close>, the descriptor's position and both ways of printing.
\<close>

section \<open>Memory of the program and of the file system\<close>

text \<open>The image of the file system is not in screen memory.\<close>

definition image_off :: "'a fs_scheme \<Rightarrow> bool" where
  "image_off s \<longleftrightarrow> (\<forall>m < fs_bytes s. off_screens (xl s (fs_addr s + word_of_nat m)))"

lemma screens_same_image:
  assumes "screens_only s u" "image_off s"
  shows "same_image s (u :: 'a kernel_scheme)"
  using assms screens_only_kernel [OF assms(1)] screens_only_ld [OF assms(1)] by (simp add: same_image_def img_def image_off_def)

lemma image_off_cong: "fs_addr u = fs_addr s \<Longrightarrow> fs_bytes u = fs_bytes s \<Longrightarrow> xl u = xl s \<Longrightarrow> image_off u = image_off s"
  by (simp add: image_off_def)

lemma same_image_kernel: "same_image (in_kernel s) (in_kernel u) = same_image s u" "same_image s (in_kernel s)"
  by (simp_all add: same_image_def img_def ld_def fs_bytes_def)

lemma fs_kernel:
  "valid_file (s\<lparr>esp := e\<rparr>) = valid_file s" "file_content (s\<lparr>esp := e\<rparr>) = file_content s" "buffer_ok (s\<lparr>esp := e\<rparr>) = buffer_ok s"
  by (simp_all add: valid_file_def file_content_def file_size_def buffer_ok_def file_ok_def image_ok_def file_byte_def file_block_def img32_def
      img_def data_pos_def fs_bytes_def ld32_def ld_def fun_eq_iff)

section \<open>Descriptors of the program\<close>

text \<open>A descriptor from 2 on changes, nothing else.\<close>

lemma terminals_fd_upd: "terminals_ok (fd_upd b i f s) = terminals_ok s" "terminal_of t (fd_upd b i f s) = terminal_of t s"
  by (rule terminals_cong; simp add: fd_upd_def pcb_upd_def)+

lemma tty_fd_upd:
  assumes "tty p t s" "2 \<le> i"
  shows "tty p t (fd_upd (get_pcb_by_index p) i f s)"
  using assms terminals_fd_upd(1) [of "get_pcb_by_index p" i f s] by (simp add: tty_def fd_upd_def set_tss_def get_terminal_id_def)

lemma tty_outside:
  assumes "tty p t s" "buffer_off a n s" "unchanged_outside s a n u"
  shows "tty p t u" "unat r < 3 \<Longrightarrow> terminal_of r u = terminal_of r s"
proof -
  have "screen_mapped s" using assms(1) by (simp add: tty_def terminals_ok_def foreground_ok_def console_ok_def)
  note w = terminals_outside [OF this assms(2,3)]
  show "unat r < 3 \<Longrightarrow> terminal_of r u = terminal_of r s" by (rule w(2))
  have "only_phys s u" using assms(3) by (simp add: unchanged_outside_def)
  note k = only_phys_kernel [OF this]
  have "get_terminal_id q u = get_terminal_id q s" for q by (simp add: get_terminal_id_def k)
  then show "tty p t u" using assms(1) w(1) by (simp add: tty_def set_tss_def k)
qed

lemmas tty_write = tty_outside [OF _ _ write_list_outside]

lemma fd_eta: "f\<lparr>flags := x, file_pos := y, inode := z, ptrs := p\<rparr> = \<lparr>ptrs = p, inode = z, file_pos = y, flags = x\<rparr>"
  by (cases f) simp

lemma small_count:
  assumes "0 < n" "n < 2 ^ 31"
  shows "unat (word_of_nat n :: u32) = n" "word_of_nat n \<noteq> (0 :: u32)" "word_of_nat n \<noteq> (-1 :: u32)"
proof -
  show "unat (word_of_nat n :: u32) = n" using assms by (simp add: unat_of_nat_u32)
  then show "word_of_nat n \<noteq> (0 :: u32)" using assms(1) by auto
  show "word_of_nat n \<noteq> (-1 :: u32)" using sint_nonneg [OF assms(2)] by auto
qed

lemma write_list_esp: "write_list a xs (s\<lparr>esp := e\<rparr>) = (write_list a xs s)\<lparr>esp := e\<rparr>"
proof (induction xs arbitrary: a s)
  case (Cons x xs)
  have "st a x (s\<lparr>esp := e\<rparr>) = (st a x s)\<lparr>esp := e\<rparr>" by (simp add: st_def)
  then show ?case using Cons by simp
qed simp

text \<open>\<open>open\<close> of a regular file or of the directory.\<close>

lemma user_open:
  assumes "tty p t s" "a \<noteq> 0" "image_ok s" "cstr s a n" "n \<le> 32" "lookup s (read_bytes s a n) = Some d"
    "f_type d = 1 \<or> f_type d = 2" "free_fd (own_files p s) = Some i"
  shows "ece391_open a s = Some (word_of_nat i, (fd_upd (get_pcb_by_index p) i
      (\<lambda>_. \<lparr>ptrs = (if f_type d = 1 then Dir_funcs else File_funcs), inode = i_node d, file_pos = 0, flags = IN_USE\<rparr>) s)
      \<lparr>dir_location := (if f_type d = 1 then 0 else dir_location s)\<rparr>)"
proof -
  let ?k = "in_kernel s" and ?b = "get_pcb_by_index p"
  note c = tty_curr [OF assms(1)]
  note same = same_image_kernel(2) [of s]
  have "cstr ?k a n" "read_bytes ?k a n = read_bytes s a n" using assms(4) by (simp_all add: cstr_def read_bytes_def ld_def)
  then have d: "read_dentry_by_name a ?k = Some (0, Some d)"
    using read_dentry_by_name_eq [OF image_same_image [OF same assms(3)]] assms(5,6) lookup_same_image [OF same assms(3)] by simp
  have i: "2 \<le> i" "i < 8" using assms(8) by (simp_all add: free_fd_some)
  have "length (own_files p s) = 8" using assms(1) by (simp add: tty_def)
  then have upd: "fd_upd ?b i (\<lambda>f. f\<lparr>ptrs := x\<rparr>) (fd_upd ?b i (\<lambda>f. f\<lparr>flags := IN_USE, file_pos := 0, inode := z\<rparr>) ?k) =
      fd_upd ?b i (\<lambda>_. \<lparr>ptrs = x, inode = z, file_pos = 0, flags = IN_USE\<rparr>) ?k" for x z
    using i by (simp add: fd_upd_def pcb_upd_def fd_eta)
  have "word_of_nat i \<noteq> (-1 :: u32)" using sint_fd [OF i(2)] by auto
  define g where "g = (if f_type d = 1 then Dir_funcs else File_funcs)"
  let ?u = "fd_upd ?b i (\<lambda>_. \<lparr>ptrs = g, inode = i_node d, file_pos = 0, flags = IN_USE\<rparr>) ?k"
  have "funcs_of_type (f_type d) = Some g" using assms(7) by (auto simp: funcs_of_type_def g_def)
  moreover have "call_open g a ?u = Some (0, ?u\<lparr>dir_location := (if f_type d = 1 then 0 else dir_location s)\<rparr>)"
    using assms(7) by (auto simp: dir_open_def file_open_def fd_upd_def pcb_upd_def g_def)
  ultimately have "sys_open a ?k = Some (word_of_nat i, ?u\<lparr>dir_location := (if f_type d = 1 then 0 else dir_location s)\<rparr>)"
    unfolding sys_open_def c using assms(2,8) d \<open>word_of_nat i \<noteq> (-1 :: u32)\<close> by (simp add: upd)
  then show ?thesis by (simp add: call_value_int80 fd_upd_def pcb_upd_def flip: g_def)
qed

text \<open>\<open>read\<close> from an open file: the next bytes are in the buffer and the position is behind them.\<close>

lemma user_read:
  assumes "tty p t s" "readable i buf n (in_kernel s)" "m \<le> n"
  defines "xs \<equiv> take m (stream i (in_kernel s))"
  defines "u \<equiv> fd_upd (get_pcb_by_index p) i (\<lambda>f. f\<lparr>file_pos := file_pos f + word_of_nat (length xs)\<rparr>) (write_list buf xs s)"
  shows "ece391_read (word_of_nat i) buf (word_of_nat m) s = Some (word_of_nat (length xs), u)"
    "read_bytes u buf (length xs) = xs" "readable i buf n (in_kernel u)" "stream i (in_kernel u) = drop m (stream i (in_kernel s))"
proof -
  let ?k = "in_kernel s" and ?b = "get_pcb_by_index p"
  let ?f = "own_files p s ! i"
  note c = tty_curr [OF assms(1)]
  have r: "i < 8" "flags ?f \<noteq> NOT_IN_USE" "ptrs ?f = File_funcs" "valid_file ?k (unat (inode ?f))" "buffer_ok ?k buf n" "buf \<noteq> 0" "n < 2 ^ 31"
    using assms(2) c by (simp_all add: readable_def)
  have i: "unat (word_of_nat i :: u32) = i" "unat (word_of_nat m :: u32) = m" using r(1,7) assms(3) by (simp_all add: unat_of_nat_u32)
  have xs: "xs = take m (drop (unat (file_pos ?f)) (file_content ?k (unat (inode ?f))))" using c by (simp add: xs_def stream_def)
  have "read_data (inode ?f) (file_pos ?f) buf (word_of_nat m) ?k = (word_of_nat (length xs), write_list buf xs ?k)"
  proof -
    have "min (file_size ?k (unat (inode ?f)) - unat (file_pos ?f)) m = length xs" by (simp add: xs)
    then show ?thesis
      using read_data_eq [of ?k "inode ?f" buf "file_pos ?f" "word_of_nat m"] r(4) buffer_mono [OF r(5), of "length xs"] assms(3) i(2)
      by (simp add: valid_file_def xs)
  qed
  then have sys: "sys_read (word_of_nat i) buf (word_of_nat m) ?k = Some (word_of_nat (length xs), in_kernel u)"
    using r i c sint_fd [OF r(1)] sint_nonneg [of m] assms(3)
    by (simp add: sys_read_def file_read_def Let_def u_def fd_upd_def pcb_upd_def write_list_esp only_phys_kernel [OF only_phys_write_list])
  obtain v w where v: "sys_read (word_of_nat i) buf (word_of_nat m) ?k = Some (v, w)" "unat v = length xs"
    "read_bytes w buf (unat v) = xs" "readable i buf n w" "stream i w = drop m (stream i ?k)"
    using sys_read_next [OF assms(2,3)] unfolding xs_def by blast
  then have "w = in_kernel u" using sys by simp
  then show "read_bytes u buf (length xs) = xs" "readable i buf n (in_kernel u)" "stream i (in_kernel u) = drop m (stream i ?k)"
    using v by (simp_all add: read_bytes_def ld_def)
  show "ece391_read (word_of_nat i) buf (word_of_nat m) s = Some (word_of_nat (length xs), u)"
    using sys by (simp add: call_value_int80 u_def fd_upd_def pcb_upd_def)
qed

lemma readable_same:
  assumes "readable i buf n s" "same_image s u" "xl u = xl s" "pcbs u = pcbs s" "get_curr_pcb u = get_curr_pcb s"
  shows "readable i buf n u" "stream i u = stream i (s :: 'a kernel_scheme)"
  using assms image_same_image [OF assms(2)] file_same_image [OF assms(2)] content_same_image [OF assms(2)] buffer_same_image [OF assms(2,3)]
  by (simp_all add: readable_def stream_def valid_file_def)

text \<open>What a \<open>read\<close> leaves alone, and what printing leaves of an open file.\<close>

lemma read_frame:
  assumes "tty p t s" "2 \<le> i" "buffer_off buf (length xs) s"
  defines "u \<equiv> fd_upd (get_pcb_by_index p) i (\<lambda>f. f\<lparr>file_pos := file_pos f + word_of_nat (length xs)\<rparr>) (write_list buf xs s)"
  shows "tty p t u" "shows_more t [] s u" "xl u = xl s" "phys u = phys (write_list buf xs s)" "fs_addr u = fs_addr s" "fs_bytes u = fs_bytes s"
    "image_off u = image_off s"
proof -
  note w = tty_write [OF assms(1,3)]
  show "tty p t u" unfolding u_def by (rule tty_fd_upd [OF w(1) assms(2)])
  show "shows_more t [] s u"
    by (rule shows_more_same) (use w(2) assms(1) in \<open>simp_all add: u_def terminals_fd_upd tty_def\<close>)
  show "xl u = xl s" "phys u = phys (write_list buf xs s)" "fs_addr u = fs_addr s" "fs_bytes u = fs_bytes s"
    by (simp_all add: u_def fd_upd_def pcb_upd_def fs_bytes_def only_phys_fs [OF only_phys_write_list])
  then show "image_off u = image_off s" by (intro image_off_cong)
qed

lemma readable_prints:
  assumes "tty p t s" "readable i buf n (in_kernel s)" "image_off s" "prints_on t bs s u"
  shows "readable i buf n (in_kernel u)" "stream i (in_kernel u) = stream i (in_kernel s)" "image_off u" "xl u = xl s" "tty p t u"
proof -
  have scr: "screens_only s u" using assms(4) by (simp add: prints_on_def)
  note k = screens_only_kernel [OF scr]
  show tty: "tty p t u" by (rule prints_on_tty [OF assms(1,4)])
  show "xl u = xl s" by (rule k)
  show "image_off u" using assms(3) k image_off_cong [of u s] by simp
  have "same_image (in_kernel s) (in_kernel u)" using screens_same_image [OF scr assms(3)] by (simp only: same_image_kernel)
  note rs = readable_same [OF assms(2) this]
  have cur: "get_curr_pcb (in_kernel u) = get_curr_pcb (in_kernel s)" using tty_curr [OF tty] tty_curr [OF assms(1)] by simp
  show "readable i buf n (in_kernel u)" "stream i (in_kernel u) = stream i (in_kernel s)"
    using rs(1) [OF _ _ cur] rs(2) [OF _ _ cur] k by simp_all
qed

section \<open>cat\<close>

lemma cat_loop_prints:
  assumes "tty p t s" "readable i buf 1024 (in_kernel s)" "buffer_off buf 1024 s" "image_off s" "2 \<le> i"
  shows "\<exists>u. cat_loop lit (word_of_nat i) buf s = Some (0, u) \<and> shows_more t (stream i (in_kernel s)) s u"
  using assms
proof (induction "length (stream i (in_kernel s))" arbitrary: s rule: less_induct)
  case less
  let ?all = "stream i (in_kernel s)"
  define xs where "xs = take 1024 ?all"
  define s1 where "s1 = fd_upd (get_pcb_by_index p) i (\<lambda>f. f\<lparr>file_pos := file_pos f + word_of_nat (length xs)\<rparr>) (write_list buf xs s)"
  have len: "length xs \<le> 1024" by (simp add: xs_def)
  note rd = user_read [OF less.prems(1,2) order_refl, folded xs_def, folded s1_def]
  have off: "buffer_off buf (length xs) s" using less.prems(3) len by (simp add: buffer_off_def)
  note fr = read_frame [OF less.prems(1,5) off, folded s1_def]
  show ?case
  proof (cases "?all = []")
    case True
    then have "cat_loop lit (word_of_nat i) buf s = Some (0, s1)"
      using rd(1) by (subst cat_loop.simps) (simp add: xs_def)
    then show ?thesis using fr(2) True by auto
  next
    case False
    let ?n = "word_of_nat (length xs) :: u32"
    have n: "unat ?n = length xs" "?n \<noteq> 0" "?n \<noteq> -1"
      using len False small_count [of "length xs"] by (simp_all add: xs_def)
    have "buffer_off buf (unat ?n) s1" using off n(1) fr(3) by (simp add: buffer_off_def)
    moreover have "unat ?n < 2 ^ 31" "buf \<noteq> 0" using n(1) len less.prems(2) by (simp_all add: readable_def)
    ultimately obtain u where u: "ece391_write 1 buf ?n s1 = Some (?n, u)" "prints_on t xs s1 u"
      using user_write [OF fr(1), of buf ?n] rd(2) unfolding n(1) by auto
    have step: "cat_loop lit (word_of_nat i) buf s = cat_loop lit (word_of_nat i) buf u"
      using rd(1) u(1) n by (subst cat_loop.simps) simp
    note pr = readable_prints [OF fr(1) rd(3) _ u(2)]
    have img: "image_off s1" using fr(7) less.prems(4) by simp
    have "\<exists>v. cat_loop lit (word_of_nat i) buf u = Some (0, v) \<and> shows_more t (stream i (in_kernel u)) u v"
      by (rule less.hyps) (use pr [OF img] rd(4) fr(3) False less.prems in \<open>simp_all add: buffer_off_def\<close>)
    then obtain v where v: "cat_loop lit (word_of_nat i) buf u = Some (0, v)" "shows_more t (drop 1024 ?all) u v"
      using pr(2) [OF img] rd(4) by auto
    moreover have "shows_more t xs s1 u" using u(2) by (simp add: prints_on_def)
    from shows_more_trans [OF shows_more_trans [OF fr(2) this] v(2)] have "shows_more t ?all s v" by (simp add: xs_def)
    ultimately show ?thesis using step by auto
  qed
qed

text \<open>\<open>getargs\<close> leaves the argument in the program's buffer, and the file system as it was.\<close>

lemma user_getargs:
  assumes "tty p t s" "length (argument (pcbs s (get_pcb_by_index p))) = 100" "cstring (argument (pcbs s (get_pcb_by_index p))) = args"
    "args \<noteq> []" "hd args = 0x20" "length args < 100" "dropWhile (\<lambda>c. c = 0x20) args = name" "buffer_ok s buf 1024"
    "buffer_off buf 1024 s"
  shows "\<exists>u. ece391_getargs buf 1024 s = Some (0, u) \<and> tty p t u \<and> same_image s u \<and> xl u = xl s \<and> pcbs u = pcbs s
    \<and> holds u buf name \<and> (\<forall>r. unat r < 3 \<longrightarrow> terminal_of r u = terminal_of r s)"
proof -
  let ?xs = "name @ replicate (1024 - length name) 0"
  define u where "u = write_list buf ?xs s"
  have n: "length name < 100" using assms(6,7) length_dropWhile_le [of "\<lambda>c. c = 0x20" args] by simp
  have "getargs buf 1024 (in_kernel s) = Some (0, in_kernel u)"
    using getargs_eq [of "in_kernel s" args buf 1024] tty_curr [OF assms(1)] assms(2-7) n
    by (simp add: u_def write_list_esp only_phys_kernel [OF only_phys_write_list])
  then have run: "ece391_getargs buf 1024 s = Some (0, u)"
    by (simp add: call_value_int80 u_def only_phys_kernel [OF only_phys_write_list])
  have len: "length ?xs = 1024" using n by simp
  have inj: "inj_on (\<lambda>i. xl s (buf + word_of_nat i)) {..<length ?xs}" unfolding len using assms(8) by (simp add: buffer_ok_def)
  have same: "same_image s u" unfolding u_def by (rule write_same_image) (simp only: len assms(8))
  have byte: "ld u (buf + word_of_nat j) = ?xs ! j" if "j < 1024" for j
    using read_write_list [OF inj] that unfolding len u_def [symmetric] by (metis nth_read_bytes)
  then have "read_bytes u buf (length name) = name" using n by (intro nth_equalityI) (simp_all add: nth_append)
  moreover have "ld u (buf + word_of_nat (length name)) = 0" using byte [of "length name"] n by (simp add: nth_append)
  ultimately have "holds u buf name" by (simp add: holds_def)
  moreover note w = tty_write [OF assms(1), of buf ?xs, folded u_def, unfolded len, OF assms(9)]
  ultimately show ?thesis using run same by (auto simp: u_def only_phys_kernel [OF only_phys_write_list])
qed

lemma user0_image_off: "image_off user0"
proof -
  have "buffer_off 0x400000 24576 user0" by (rule user0_off) simp_all
  then show ?thesis by (simp add: image_off_def buffer_off_def user0_image(3) user0_kernel0)
qed

text \<open>C16. \<open>cat\<close> prints the file: run by a process with standard descriptors and a free one, with the name of a regular file as its
  argument, \<open>main\<close> of \<^verbatim>\<open>ece391cat.c\<close> returns 0 after its loop of \<open>read\<close> and \<open>write\<close> calls has ended, the process's terminal, visible
  or not, shows the whole content of the file behind what it showed before, and no other terminal has changed.\<close>

theorem cat_prints_file:
  assumes "tty p t s" "length (argument (pcbs s (get_pcb_by_index p))) = 100" "cstring (argument (pcbs s (get_pcb_by_index p))) = args"
    "args \<noteq> []" "hd args = 0x20" "length args < 100" "dropWhile (\<lambda>c. c = 0x20) args = name" "length name \<le> 32"
    "image_ok s" "image_off s" "lookup s name = Some d" "f_type d = 2" "file_ok s (unat (i_node d))"
    "free_fd (own_files p s) = Some i" "buf \<noteq> 0" "buffer_ok s buf 1024" "buffer_off buf 1024 s"
  shows "\<exists>u. cat_main lit buf s = Some (0, u) \<and> shows_more t (file_content s (unat (i_node d))) s u"
proof -
  obtain s1 where s1: "ece391_getargs buf 1024 s = Some (0, s1)" "tty p t s1" "same_image s s1" "xl s1 = xl s" "pcbs s1 = pcbs s"
    "holds s1 buf name" "\<forall>r. unat r < 3 \<longrightarrow> terminal_of r s1 = terminal_of r s"
    using user_getargs [OF assms(1-7,16,17)] by blast
  have "0 \<notin> set args" using assms(3) set_cstring by blast
  then have "0 \<notin> set name" using assms(7) set_dropWhileD by fast
  then have name: "cstr s1 buf (length name)" "read_bytes s1 buf (length name) = name"
    using s1(6) holds_cstr by (simp_all add: holds_def)
  let ?fd = "\<lparr>ptrs = File_funcs, inode = i_node d, file_pos = 0, flags = IN_USE\<rparr>"
  define s2 where "s2 = fd_upd (get_pcb_by_index p) i (\<lambda>_. ?fd) s1"
  have op: "ece391_open buf s1 = Some (word_of_nat i, s2)"
    using user_open [OF s1(2) assms(15) image_same_image [OF s1(3) assms(9)] name(1) assms(8), of d i] assms(11,12,14)
      lookup_same_image [OF s1(3) assms(9)] name(2) s1(5) by (simp add: s2_def fd_upd_def pcb_upd_def)
  have i: "2 \<le> i" "i < 8" "word_of_nat i \<noteq> (-1 :: u32)" using assms(14) small_count(3) [of i] by (simp_all add: free_fd_some)
  have tty2: "tty p t s2" unfolding s2_def by (rule tty_fd_upd [OF s1(2) i(1)])
  have img: "image_ok s1" "file_ok s1 (unat (i_node d))" "file_content s1 (unat (i_node d)) = file_content s (unat (i_node d))"
    "buffer_ok s1 buf 1024" "image_off s2" "buffer_off buf 1024 s2"
    using image_same_image [OF s1(3) assms(9)] file_same_image [OF s1(3) assms(13)] content_same_image [OF s1(3) assms(13)]
      buffer_same_image [OF s1(3,4)] assms(10,16,17) image_off_cong [of s2 s] same_imageD [OF s1(3)] s1(4)
    by (simp_all add: s2_def fd_upd_def pcb_upd_def fs_bytes_def buffer_off_def)
  have fd: "own_files p s2 ! i = ?fd" "length (own_files p s2) = 8"
    using assms(1) i(2) s1(5) by (simp_all add: s2_def fd_upd_def pcb_upd_def tty_def)
  have keep: "valid_file (in_kernel s2) = valid_file s1" "file_content (in_kernel s2) = file_content s1" "buffer_ok (in_kernel s2) = buffer_ok s1"
    by (simp_all add: s2_def fs_kernel)
  have "readable i buf 1024 (in_kernel s2)" "stream i (in_kernel s2) = file_content s (unat (i_node d))"
    using tty_curr [OF tty2] fd img i(2) assms(15) keep by (simp_all add: readable_def stream_def valid_file_def IN_USE_def NOT_IN_USE_def)
  then obtain u where u: "cat_loop lit (word_of_nat i) buf s2 = Some (0, u)" "shows_more t (file_content s (unat (i_node d))) s2 u"
    using cat_loop_prints [OF tty2 _ img(6,5) i(1)] by metis
  have "cat_main lit buf s = Some (0, u)" using s1(1) op u(1) i(3) by (simp add: cat_main_def)
  moreover have "shows_more t [] s s2"
    by (rule shows_more_same) (use s1(7) assms(1) in \<open>simp_all add: s2_def terminals_fd_upd tty_def\<close>)
  ultimately show ?thesis using shows_more_trans [OF _ u(2)] by fastforce
qed

theorem cat_prints_file_witness:
  "\<exists>u. cat_main lit0 0x700000 user0 = Some (0, u) \<and> shows_more 1 [0x68, 0x69, 0x0A] user0 u"
proof -
  obtain d where d: "lookup user0 [0x68, 0x69] = Some d" "f_type d = 2" "i_node d = 0" using user0_lookup(1) by auto
  have "argument (pcbs user0 (get_pcb_by_index 1)) = [0x20, 0x68, 0x69] @ replicate 97 0" by (simp add: user0_def user_pcb0_def)
  moreover have "cstring (replicate 97 (0 :: u8)) = []" by (simp add: cstring_def)
  moreover have "free_fd (own_files 1 user0) = Some 2" using user0_free by (simp add: free_fd_some)
  ultimately show ?thesis
    using cat_prints_file [OF user0_tty, of "[0x20, 0x68, 0x69]" "[0x68, 0x69]" d 2 "0x700000" lit0] user0_image(1,2) user0_image_off
      d user0_file user0_off [of "0x700000" 1024] by (simp add: cstring_append_nonzero)
qed

end
