(* ===== verification/User_Errors.thy ===== *)
theory User_Errors
  imports User_Files
begin

text \<open>
  The repository's test program for the error returns of the system calls, \<^verbatim>\<open>ece391syserr.c\<close>, passes on the kernel: every call that
  has to fail returns -1 and leaves the state as it was, and the program prints the eight verdicts.
\<close>

section \<open>A call that fails\<close>

definition refused :: "('a sound_scheme \<Rightarrow> (i32 \<times> 'a sound_scheme) option) \<Rightarrow> 'a sound_scheme \<Rightarrow> bool" where
  "refused call s \<longleftrightarrow> call s = Some (-1, s)"

lemma expect_refused: "refused call s \<Longrightarrow> expect lit msg call (f, s) = Some (f, s)"
  by (simp add: refused_def expect_def)

lemma expect_all_refused: "(\<And>i. i \<in> set is \<Longrightarrow> refused (call (word_of_nat i)) s) \<Longrightarrow> expect_all lit msg call is (f, s) = Some (f, s)"
  by (induction "is") (simp_all add: expect_refused)

lemma refused_fd:
  assumes "sint fd < 0 \<or> 8 \<le> sint fd"
  shows "refused (ece391_read fd buf n) s" "refused (ece391_write fd buf n) s" "refused (ece391_close fd) s"
  using assms by (auto simp: refused_def call_value_int80 sys_read_def sys_write_def sys_close_def)

lemma refused_unopened:
  assumes "tty p t s" "i < 8" "flags (own_files p s ! i) = NOT_IN_USE"
  shows "refused (ece391_read (word_of_nat i) buf n) s" "refused (ece391_write (word_of_nat i) buf n) s"
    "refused (ece391_close (word_of_nat i)) s"
  using assms sint_fd [of i] unat_of_nat_u32 [of i] tty_curr [OF assms(1)]
  by (simp_all add: refused_def call_value_int80 sys_read_def sys_write_def sys_close_def Let_def)

lemma refused_close_std: "i < 2 \<Longrightarrow> refused (ece391_close (word_of_nat i)) s"
  using sint_fd [of i] by (simp add: refused_def call_value_int80 sys_close_def)

lemma refused_std:
  assumes "tty p t s"
  shows "refused (ece391_write 0 buf n) s" "refused (ece391_read 1 buf n) s"
  using assms tty_curr [OF assms]
  by (auto simp: refused_def call_value_int80 sys_read_def sys_write_def tty_def std_fd_def IN_USE_def NOT_IN_USE_def fail_def)

lemma refused_vidmap: "refused (ece391_vidmap 0) s" "refused (ece391_vidmap 0x400000) s"
  by (simp_all add: refused_def call_value_int80 vidmap_def FOUR_MB_SIZE_def)

lemma refused_number: "num <s 1 \<or> 11 <s num \<Longrightarrow> refused (call_sys ebx ecx edx num) s"
  by (simp add: refused_def call_sys_def call_value_def int80_def syscall_assembly_def)

lemma refused_open:
  assumes "tty p t s" "image_ok s" "literal lit msg s" "length msg \<le> 32" "lookup s (bytes_of msg) = None"
  shows "refused (ece391_open (lit msg)) s"
proof -
  let ?k = "in_kernel s"
  note same = same_image_kernel(2) [of s]
  have "cstr ?k (lit msg) (length msg)" "read_bytes ?k (lit msg) (length msg) = bytes_of msg"
    using assms(3) by (simp_all add: literal_def cstr_def read_bytes_def ld_def)
  then have "read_dentry_by_name (lit msg) ?k = Some (-1, None)"
    using read_dentry_by_name_eq [OF image_same_image [OF same assms(2)]] assms(4,5) lookup_same_image [OF same assms(2)] by simp
  then have "sys_open (lit msg) ?k = Some (-1, ?k)" by (simp add: sys_open_def Let_def)
  then show ?thesis by (simp add: refused_def call_value_int80)
qed

section \<open>The state of the tests\<close>

text \<open>All descriptors but the standard ones are free, the directory has an entry for itself and none of the names that must not open,
  and the literals are in memory.\<close>

definition bench :: "(string \<Rightarrow> addr) \<Rightarrow> u32 \<Rightarrow> u8 \<Rightarrow> 'a kernel_scheme \<Rightarrow> bool" where
  "bench lit p t s \<longleftrightarrow> tty p t s \<and> (\<forall>i. 2 \<le> i \<and> i < 8 \<longrightarrow> flags (own_files p s ! i) = NOT_IN_USE) \<and> image_ok s \<and> image_off s
     \<and> (\<exists>d. lookup s (bytes_of ''.'') = Some d \<and> f_type d = 1)
     \<and> (\<forall>msg \<in> {''helloo'', ''shel'', ''''}. lookup s (bytes_of msg) = None) \<and> (\<forall>msg \<in> set messages. literal lit msg s)"

lemma bench_printed:
  assumes "bench lit p t s" "prints_on t bs s u"
  shows "bench lit p t u"
proof -
  have scr: "screens_only s u" using assms(2) by (simp add: prints_on_def)
  have img: "same_image s u" by (rule screens_same_image [OF scr]) (use assms(1) in \<open>simp add: bench_def\<close>)
  note keep = screens_only_kernel [OF scr]
  have "image_off u = image_off s" by (rule image_off_cong) (use keep in simp_all)
  moreover have ok: "image_ok s" using assms(1) by (simp add: bench_def)
  moreover have "tty p t u" by (rule prints_on_tty [OF _ assms(2)]) (use assms(1) in \<open>simp add: bench_def\<close>)
  ultimately show ?thesis
    using assms(1) keep lookup_same_image [OF img ok] image_same_image [OF img ok] literal_screens [OF scr] unfolding bench_def by auto
qed

text \<open>\<open>passes\<close>: a test returns 0, prints the message \<open>msg\<close> and leaves the state ready for the next test.\<close>

definition passes :: "(string \<Rightarrow> addr) \<Rightarrow> u32 \<Rightarrow> u8 \<Rightarrow> string \<Rightarrow> ('a sound_scheme \<Rightarrow> (i32 \<times> 'a sound_scheme) option) \<Rightarrow> 'a sound_scheme \<Rightarrow> bool" where
  "passes lit p t msg test s \<longleftrightarrow> (\<exists>u. test s = Some (0, u) \<and> bench lit p t u \<and> shows_more t (bytes_of msg) s u)"

lemma passes_complain:
  assumes "bench lit p t s" "msg \<in> set messages" "test s = complain lit msg 0 s"
  shows "passes lit p t msg test s"
proof -
  obtain u where "ece391_fdputs 1 (lit msg) s = Some u" "prints_on t (bytes_of msg) s u"
    using puts_literal [of p t s lit msg] assms(1,2) by (auto simp: bench_def)
  then show ?thesis
    using assms(3) bench_printed [OF assms(1)] by (auto simp: passes_def complain_def prints_on_def)
qed

lemma verdict_pass: "verdict lit name (0, s) = complain lit (name @ '': PASS'' @ newline) 0 s"
  by (simp add: verdict_def)

section \<open>Opening the directory until no descriptor is left\<close>

text \<open>The directory is open on the descriptors in \<open>U\<close>, and nothing else has changed since \<open>s\<close>.\<close>

definition dirs_open :: "(string \<Rightarrow> addr) \<Rightarrow> u32 \<Rightarrow> u8 \<Rightarrow> nat set \<Rightarrow> 'a kernel_scheme \<Rightarrow> 'a kernel_scheme \<Rightarrow> bool" where
  "dirs_open lit p t U s u \<longleftrightarrow> bench lit p t s \<and> tty p t u \<and> same_image s u \<and> xl u = xl s \<and> phys u = phys s
     \<and> (\<forall>r. terminal_of r u = terminal_of r s)
     \<and> (\<forall>i. 2 \<le> i \<and> i < 8 \<longrightarrow> (if i \<in> U then flags (own_files p u ! i) = IN_USE \<and> ptrs (own_files p u ! i) = Dir_funcs
                                else flags (own_files p u ! i) = NOT_IN_USE))"

lemma dirs_open_bench: "dirs_open lit p t {} s u \<Longrightarrow> bench lit p t u"
proof -
  assume d: "dirs_open lit p t {} s u"
  then have same: "same_image s u" and ok: "image_ok s" by (simp_all add: dirs_open_def bench_def)
  have ld: "ld u = ld s" "xl u = xl s" using d by (simp_all add: dirs_open_def ld_def fun_eq_iff)
  have "image_off u = image_off s" using image_off_cong [of u s] same_imageD [OF same] ld(2) by simp
  moreover have "literal lit msg u = literal lit msg s" for msg using ld by (simp add: literal_def cstr_def read_bytes_def buffer_off_def)
  ultimately show ?thesis
    using d lookup_same_image [OF same ok] image_same_image [OF same ok] by (simp add: dirs_open_def bench_def)
qed

lemma dirs_open_upd:
  assumes "dirs_open lit p t U s u" "2 \<le> i" "i < 8"
    "if i \<in> U' then flags (f (own_files p u ! i)) = IN_USE \<and> ptrs (f (own_files p u ! i)) = Dir_funcs
     else flags (f (own_files p u ! i)) = NOT_IN_USE" "insert i U = insert i U'"
  shows "dirs_open lit p t U' s ((fd_upd (get_pcb_by_index p) i f u)\<lparr>dir_location := x\<rparr>)"
proof -
  define v where "v = (fd_upd (get_pcb_by_index p) i f u)\<lparr>dir_location := x\<rparr>"
  have "terminals_ok v = terminals_ok (fd_upd (get_pcb_by_index p) i f u)" unfolding v_def by (rule terminals_cong) simp_all
  then have tty: "tty p t v"
    using tty_fd_upd [of p t u i f] assms(1,2) by (simp add: v_def tty_def dirs_open_def set_tss_def get_terminal_id_def)
  have "terminal_of r v = terminal_of r u" for r
    using terminals_fd_upd(2) [of r "get_pcb_by_index p" i f u] terminals_cong(2) [of v "fd_upd (get_pcb_by_index p) i f u" r] by (simp add: v_def)
  moreover have files: "own_files p v = (own_files p u)[i := f (own_files p u ! i)]" by (simp add: v_def fd_upd_def pcb_upd_def)
  have len: "length (own_files p u) = 8" using assms(1) by (simp add: dirs_open_def tty_def)
  have fds: "if j \<in> U' then flags (own_files p v ! j) = IN_USE \<and> ptrs (own_files p v ! j) = Dir_funcs
       else flags (own_files p v ! j) = NOT_IN_USE" if "2 \<le> j" "j < 8" for j
  proof (cases "j = i")
    case True
    then show ?thesis using assms(4) len that unfolding files by simp
  next
    case False
    then have "j \<in> U' \<longleftrightarrow> j \<in> U" using assms(5) by blast
    then show ?thesis using False assms(1) that unfolding files by (simp add: dirs_open_def)
  qed
  moreover have "same_image u v" "xl v = xl u" "phys v = phys u"
    by (simp_all add: v_def same_image_def img_def ld_def fs_bytes_def fd_upd_def pcb_upd_def)
  ultimately show ?thesis
    using assms(1) tty same_image_trans [of s u v] unfolding dirs_open_def v_def [symmetric] by simp
qed

lemma open_dir:
  assumes "dirs_open lit p t {2..<k} s u" "2 \<le> k" "k < 8"
  shows "\<exists>v. ece391_open (lit ''.'') u = Some (word_of_nat k, v) \<and> dirs_open lit p t {2..<Suc k} s v"
proof -
  let ?a = "lit ''.''"
  obtain d where d: "lookup s (bytes_of ''.'') = Some d" "f_type d = 1" and lit: "literal lit ''.'' s" and ok: "image_ok s"
    using assms(1) by (auto simp: dirs_open_def bench_def messages_def)
  have u: "tty p t u" "same_image s u" "ld u = ld s" using assms(1) by (simp_all add: dirs_open_def ld_def fun_eq_iff)
  then have "cstr u ?a 1" "read_bytes u ?a 1 = bytes_of ''.''" "?a \<noteq> 0" using lit by (simp_all add: literal_def cstr_def read_bytes_def)
  moreover have free: "free_fd (own_files p u) = Some k"
    using assms by (auto simp: free_fd_some dirs_open_def IN_USE_def NOT_IN_USE_def split: if_splits)
  ultimately have "ece391_open ?a u = Some (word_of_nat k, (fd_upd (get_pcb_by_index p) k
      (\<lambda>_. \<lparr>ptrs = Dir_funcs, inode = i_node d, file_pos = 0, flags = IN_USE\<rparr>) u)\<lparr>dir_location := 0\<rparr>)"
    using user_open [OF u(1) _ image_same_image [OF u(2) ok], of ?a 1 d k] d lookup_same_image [OF u(2) ok] by simp
  moreover have "insert k {2..<k} = insert k {2..<Suc k}" by auto
  ultimately show ?thesis using assms by (auto intro!: dirs_open_upd)
qed

lemma open_dir_full:
  assumes "dirs_open lit p t {2..<8} s u"
  shows "refused (ece391_open (lit ''.'')) u"
proof -
  obtain d where d: "lookup s (bytes_of ''.'') = Some d" and lit: "literal lit ''.'' s" and ok: "image_ok s"
    using assms by (auto simp: dirs_open_def bench_def messages_def)
  let ?k = "in_kernel u"
  have u: "tty p t u" "same_image s u" "ld ?k = ld s" using assms by (simp_all add: dirs_open_def ld_def fun_eq_iff)
  have same: "same_image s ?k" using same_image_trans [OF u(2) same_image_kernel(2)] .
  have "cstr ?k (lit ''.'') 1" "read_bytes ?k (lit ''.'') 1 = bytes_of ''.''" using lit u(3) by (simp_all add: literal_def cstr_def read_bytes_def)
  then have "read_dentry_by_name (lit ''.'') ?k = Some (0, Some d)"
    using read_dentry_by_name_eq [OF image_same_image [OF same ok]] lookup_same_image [OF same ok] d by simp
  moreover have "free_fd (own_files p u) = None"
    using assms by (auto simp: free_fd_def find_None_iff dirs_open_def IN_USE_def NOT_IN_USE_def split: if_splits)
  ultimately have "sys_open (lit ''.'') ?k = Some (-1, ?k)" using tty_curr [OF u(1)] by (simp add: sys_open_def Let_def)
  then show ?thesis by (simp add: refused_def call_value_int80)
qed

lemma close_dir:
  assumes "dirs_open lit p t {k..<8} s u" "2 \<le> k" "k < 8"
  shows "\<exists>v. ece391_close (word_of_nat k) u = Some (0, v) \<and> dirs_open lit p t {Suc k..<8} s v"
proof -
  have u: "tty p t u" "flags (own_files p u ! k) = IN_USE" "ptrs (own_files p u ! k) = Dir_funcs" "length (own_files p u) = 8"
    using assms by (auto simp: dirs_open_def tty_def)
  let ?v = "fd_upd (get_pcb_by_index p) k (\<lambda>f. f\<lparr>flags := NOT_IN_USE\<rparr>)"
  have "sys_close (word_of_nat k) (in_kernel u) = Some (0, ?v (in_kernel u))"
    using u tty_curr [OF u(1)] sint_fd [OF assms(3)] unat_of_nat_u32 [of k] assms(2,3)
    by (simp add: sys_close_def Let_def IN_USE_def NOT_IN_USE_def dir_close_def fd_upd_def pcb_upd_def)
  then have "ece391_close (word_of_nat k) u = Some (0, (?v u)\<lparr>dir_location := dir_location u\<rparr>)"
    by (simp add: call_value_int80 fd_upd_def pcb_upd_def)
  moreover have "insert k {k..<8} = insert k {Suc k..<8}" using assms(3) by auto
  ultimately show ?thesis using assms by (auto intro!: dirs_open_upd)
qed

lemma open_lots_dirs:
  assumes "dirs_open lit p t {2..<k} s u" "2 \<le> k" "k \<le> 8"
  shows "\<exists>v. open_lots lit (8 - k) cnt u = Some (cnt, v) \<and> dirs_open lit p t {2..<8} s v"
  using assms
proof (induction "8 - k" arbitrary: k u)
  case (Suc n)
  then have k: "k < 8" "8 - k = Suc (8 - Suc k)" "n = 8 - Suc k" "Suc k \<le> 8" by simp_all
  obtain v where v: "ece391_open (lit ''.'') u = Some (word_of_nat k, v)" "dirs_open lit p t {2..<Suc k} s v"
    using open_dir [OF Suc.prems(1,2) k(1)] by auto
  have "word_of_nat k \<noteq> (-1 :: u32)" using small_count(3) [of k] Suc.prems(2) k(1) by simp
  then show ?case using Suc.hyps(1) [OF k(3) v(2) _ k(4)] Suc.prems(2) v(1) unfolding k(2) by simp
qed simp

lemma open_lots_append:
  "open_lots lit (m + n) cnt s = do { (cnt, s) \<leftarrow> open_lots lit m cnt s; open_lots lit n cnt s }"
  by (induction m arbitrary: cnt s) (simp_all split: Option.bind_splits prod.splits)

lemma close_all_dirs:
  assumes "dirs_open lit p t {k..<8} s u" "2 \<le> k" "k \<le> 8"
  shows "\<exists>v. close_all [k..<8] u = Some v \<and> dirs_open lit p t {} s v"
  using assms
proof (induction "8 - k" arbitrary: k u)
  case (Suc n)
  then have k: "k < 8" "[k..<8] = k # [Suc k..<8]" "n = 8 - Suc k" "Suc k \<le> 8" by (simp_all add: upt_conv_Cons)
  obtain v where v: "ece391_close (word_of_nat k) u = Some (0, v)" "dirs_open lit p t {Suc k..<8} s v"
    using close_dir [OF Suc.prems(1,2) k(1)] by auto
  then show ?case using Suc.hyps(1) [OF k(3) v(2) _ k(4)] Suc.prems(2) unfolding k(2) by simp
qed simp

section \<open>The eight tests\<close>

lemma err_open_lots_passes:
  assumes "bench lit p t s"
  shows "passes lit p t (''err_open_lots: PASS'' @ newline) (err_open_lots lit) s"
proof -
  have start: "dirs_open lit p t {2..<2} s s" using assms by (simp add: dirs_open_def bench_def same_image_def)
  obtain u where u: "open_lots lit 6 0 s = Some (0, u)" "dirs_open lit p t {2..<8} s u"
    using open_lots_dirs [OF start, of 0] by auto
  then have "open_lots lit 7 0 s = Some (1, u)"
    using open_lots_append [of lit 6 1 0 s] open_dir_full [OF u(2)] by (simp add: refused_def)
  moreover obtain v where v: "close_all [2..<8] u = Some v" "dirs_open lit p t {} s v" using close_all_dirs [OF u(2)] by auto
  ultimately have run: "err_open_lots lit s = complain lit (''err_open_lots: PASS'' @ newline) 0 v"
    by (simp add: err_open_lots_def del: upt_rec_numeral close_all.simps)
  have "passes lit p t (''err_open_lots: PASS'' @ newline) (complain lit (''err_open_lots: PASS'' @ newline) 0) v"
    by (rule passes_complain [OF dirs_open_bench [OF v(2)]]) (simp_all add: messages_def)
  moreover have "shows_more t [] s v"
    by (rule shows_more_same) (use v(2) in \<open>auto simp: dirs_open_def tty_def\<close>)
  ultimately show ?thesis unfolding passes_def run using shows_more_trans by fastforce
qed

lemma syserr_tests:
  assumes "bench lit p t s"
  shows "passes lit p t (''err_neg_fd: PASS'' @ newline) (err_neg_fd lit buf) s"
    "passes lit p t (''err_big_fd: PASS'' @ newline) (err_big_fd lit buf) s"
    "passes lit p t (''err_open: PASS'' @ newline) (err_open lit) s"
    "passes lit p t (''err_unopened: PASS'' @ newline) (err_unopened lit buf) s"
    "passes lit p t (''err_vidmap: PASS'' @ newline) (err_vidmap lit) s"
    "passes lit p t (''err_stdin_out: PASS'' @ newline) (err_stdin_out lit buf) s"
    "passes lit p t (''err_syscall_num: PASS'' @ newline) (err_syscall_num lit ebx ecx edx) s"
proof -
  have tty: "tty p t s" and ok: "image_ok s" using assms by (simp_all add: bench_def)
  show "passes lit p t (''err_neg_fd: PASS'' @ newline) (err_neg_fd lit buf) s"
    by (rule passes_complain [OF assms]) (simp_all add: messages_def err_neg_fd_def expect_refused refused_fd NEG_FD_def verdict_pass)
  show "passes lit p t (''err_big_fd: PASS'' @ newline) (err_big_fd lit buf) s"
    by (rule passes_complain [OF assms]) (simp_all add: messages_def err_big_fd_def expect_refused refused_fd BIG_FD_def verdict_pass)
  have "refused (ece391_open (lit msg)) s" if "msg \<in> {''helloo'', ''shel'', ''''}" for msg
    by (rule refused_open [OF tty ok]) (use assms that in \<open>auto simp: bench_def messages_def\<close>)
  then show "passes lit p t (''err_open: PASS'' @ newline) (err_open lit) s"
    by (intro passes_complain [OF assms]) (simp_all add: messages_def err_open_def expect_refused verdict_pass)
  have "flags (own_files p s ! i) = NOT_IN_USE" if "2 \<le> i" "i < 8" for i using assms that by (simp add: bench_def)
  note unopened = refused_unopened [OF tty _ this]
  have "refused (ece391_close (word_of_nat i)) s" if "i < 8" for i
    using unopened(3) [OF that _ that] refused_close_std [of i s] by (cases "i < 2") simp_all
  then have "expect_all lit m ece391_close [0..<8] (0, s) = Some (0, s)" for m
    by (intro expect_all_refused) (simp del: upt_rec_numeral)
  moreover have "expect_all lit m (\<lambda>i. ece391_read i buf 31) [2..<8] (0, s) = Some (0, s)"
    "expect_all lit m (\<lambda>i. ece391_write i buf 31) [2..<8] (0, s) = Some (0, s)" for m
    by (rule expect_all_refused, simp add: unopened del: upt_rec_numeral)+
  ultimately show "passes lit p t (''err_unopened: PASS'' @ newline) (err_unopened lit buf) s"
    by (intro passes_complain [OF assms]) (simp_all add: messages_def err_unopened_def verdict_pass del: upt_rec_numeral expect_all.simps)
  show "passes lit p t (''err_vidmap: PASS'' @ newline) (err_vidmap lit) s"
    by (rule passes_complain [OF assms]) (simp_all add: messages_def err_vidmap_def expect_refused refused_vidmap verdict_pass)
  show "passes lit p t (''err_stdin_out: PASS'' @ newline) (err_stdin_out lit buf) s"
    by (rule passes_complain [OF assms]) (simp_all add: messages_def err_stdin_out_def expect_refused refused_std [OF tty] verdict_pass)
  show "passes lit p t (''err_syscall_num: PASS'' @ newline) (err_syscall_num lit ebx ecx edx) s"
    by (rule passes_complain [OF assms])
      (simp_all add: messages_def err_syscall_num_def expect_refused refused_number BIG_NUM_def NEG_NUM_def word_sless_alt verdict_pass)
qed

text \<open>C17. The kernel passes the repository's own error tests: on a kernel where a program runs with only its standard descriptors, the
  directory lists itself and none of the names the tests must not find, all eight tests of \<^verbatim>\<open>ece391syserr.c\<close>
  succeed (bad descriptors, exhausted descriptors, unknown names, unopened descriptors, bad \<open>vidmap\<close> pointers, the wrong
  direction on the standard descriptors, bad call numbers), so \<open>main\<close>'s choice 0 returns 0 and the terminal shows nine lines of PASS.\<close>

theorem syserr_passes:
  assumes "bench lit p t s"
  shows "\<exists>u. syserr_all lit buf ebx ecx edx s = Some (0, u) \<and> bench lit p t u
    \<and> shows_more t (bytes_of (concat (map (\<lambda>name. name @ '': PASS'' @ newline)
        [''err_neg_fd'', ''err_big_fd'', ''err_open_lots'', ''err_open'', ''err_unopened'', ''err_vidmap'', ''err_stdin_out'', ''err_syscall_num''])
      @ newline @ ''Overall Tests: PASS'' @ newline)) s u"
proof -
  note more = shows_more_trans
  obtain s1 where s1: "err_neg_fd lit buf s = Some (0, s1)" "bench lit p t s1" "shows_more t (bytes_of (''err_neg_fd: PASS'' @ newline)) s s1"
    using syserr_tests(1) [OF assms] unfolding passes_def by blast
  obtain s2 where s2: "err_big_fd lit buf s1 = Some (0, s2)" "bench lit p t s2" "shows_more t (bytes_of (''err_big_fd: PASS'' @ newline)) s1 s2"
    using syserr_tests(2) [OF s1(2)] unfolding passes_def by blast
  obtain s3 where s3: "err_open_lots lit s2 = Some (0, s3)" "bench lit p t s3" "shows_more t (bytes_of (''err_open_lots: PASS'' @ newline)) s2 s3"
    using err_open_lots_passes [OF s2(2)] unfolding passes_def by blast
  obtain s4 where s4: "err_open lit s3 = Some (0, s4)" "bench lit p t s4" "shows_more t (bytes_of (''err_open: PASS'' @ newline)) s3 s4"
    using syserr_tests(3) [OF s3(2)] unfolding passes_def by blast
  obtain s5 where s5: "err_unopened lit buf s4 = Some (0, s5)" "bench lit p t s5" "shows_more t (bytes_of (''err_unopened: PASS'' @ newline)) s4 s5"
    using syserr_tests(4) [OF s4(2)] unfolding passes_def by blast
  obtain s6 where s6: "err_vidmap lit s5 = Some (0, s6)" "bench lit p t s6" "shows_more t (bytes_of (''err_vidmap: PASS'' @ newline)) s5 s6"
    using syserr_tests(5) [OF s5(2)] unfolding passes_def by blast
  obtain s7 where s7: "err_stdin_out lit buf s6 = Some (0, s7)" "bench lit p t s7" "shows_more t (bytes_of (''err_stdin_out: PASS'' @ newline)) s6 s7"
    using syserr_tests(6) [OF s6(2)] unfolding passes_def by blast
  obtain s8 where s8: "err_syscall_num lit ebx ecx edx s7 = Some (0, s8)" "bench lit p t s8"
    "shows_more t (bytes_of (''err_syscall_num: PASS'' @ newline)) s7 s8"
    using syserr_tests(7) [OF s7(2)] unfolding passes_def by blast
  let ?over = "newline @ ''Overall Tests: PASS'' @ newline"
  have "passes lit p t ?over (complain lit ?over 0) s8"
    by (rule passes_complain [OF s8(2)]) (simp_all add: messages_def)
  then obtain u where u: "complain lit ?over 0 s8 = Some (0, u)" "bench lit p t u" "shows_more t (bytes_of ?over) s8 u"
    unfolding passes_def by blast
  have "syserr_all lit buf ebx ecx edx s = Some (0, u)"
    using s1(1) s2(1) s3(1) s4(1) s5(1) s6(1) s7(1) s8(1) u(1) by (simp add: syserr_all_def)
  moreover note more [OF more [OF more [OF more [OF more [OF more [OF more [OF more [OF s1(3) s2(3)] s3(3)] s4(3)] s5(3)] s6(3)] s7(3)] s8(3)] u(3)]
  ultimately show ?thesis using u(2) by (simp add: bytes_of_def)
qed

lemma user0_bench: "bench lit0 1 1 user0"
proof -
  have "literal lit0 msg user0" if "msg \<in> set messages" for msg
  proof -
    obtain k where k: "k < length messages" "msg = messages ! k" using \<open>msg \<in> set messages\<close> by (metis in_set_conv_nth)
    moreover have "length messages = 14" by (simp add: messages_def)
    ultimately show ?thesis using user0_literal [of k] by (simp add: literals0_def nth_append)
  qed
  then show ?thesis
    using user0_tty user0_free user0_image(1) user0_image_off user0_lookup(2,3)
    unfolding bench_def by (simp add: bytes_of_def)
qed

theorem syserr_passes_witness:
  "\<exists>u. syserr_all lit0 0x700000 0 0 0 user0 = Some (0, u) \<and> bench lit0 1 1 u"
  using syserr_passes [OF user0_bench] by blast

end
