(* ===== verification/User_Listing.thy ===== *)
theory User_Listing
  imports User_Errors
begin

text \<open>
  \<open>ls\<close> on the kernel: the directory's position is a variable of the file system, every \<open>read\<close> delivers one name, and the program ends after
  the last entry.
\<close>

section \<open>The position in the directory\<close>

lemma dir_location_kept:
  "tty p t (s\<lparr>dir_location := x\<rparr>) = tty p t s" "terminal_of r (s\<lparr>dir_location := x\<rparr>) = terminal_of r s" "same_image s (s\<lparr>dir_location := x\<rparr>)"
proof -
  have "terminals_ok (s\<lparr>dir_location := x\<rparr>) = terminals_ok s" by (rule terminals_cong) simp_all
  then show "tty p t (s\<lparr>dir_location := x\<rparr>) = tty p t s" by (simp add: tty_def set_tss_def get_terminal_id_def)
  show "terminal_of r (s\<lparr>dir_location := x\<rparr>) = terminal_of r s" by (rule terminals_cong) simp_all
  show "same_image s (s\<lparr>dir_location := x\<rparr>)" by (simp add: same_image_def img_def ld_def)
qed

lemma screens_only_dir: "screens_only s (u :: 'a kernel_scheme) \<Longrightarrow> dir_location u = dir_location s"
  by (cases s; cases u; simp add: screens_only_def only_console_def)

text \<open>\<open>listing p t i buf k s\<close>: entry \<open>k\<close> is the next one, descriptor \<open>i\<close> is the directory.\<close>

definition listing :: "u32 \<Rightarrow> u8 \<Rightarrow> nat \<Rightarrow> addr \<Rightarrow> nat \<Rightarrow> 'a kernel_scheme \<Rightarrow> bool" where
  "listing p t i buf k s \<longleftrightarrow> tty p t s \<and> 2 \<le> i \<and> i < 8 \<and> flags (own_files p s ! i) = IN_USE \<and> ptrs (own_files p s ! i) = Dir_funcs
     \<and> image_ok s \<and> image_off s \<and> dir_location s = word_of_nat k \<and> k \<le> unat (num_dentries s)
     \<and> (\<forall>j < unat (num_dentries s). length (entry_name s j) \<in> {0<..<32})
     \<and> buf \<noteq> 0 \<and> buffer_ok s buf 33 \<and> buffer_off buf 33 s"

lemma listing_kept:
  assumes "listing p t i buf k s" "same_image s u" "xl u = xl s" "pcbs u = pcbs s" "tty p t u" "dir_location u = word_of_nat k'"
    "k' \<le> unat (num_dentries s)"
  shows "listing p t i buf k' u" "j < unat (num_dentries s) \<Longrightarrow> entry_name u j = entry_name s j" "num_dentries u = num_dentries s"
proof -
  have ok: "image_ok s" using assms(1) by (simp add: listing_def)
  note name = entry_same_image(1) [OF assms(2) ok]
  then show "j < unat (num_dentries s) \<Longrightarrow> entry_name u j = entry_name s j" .
  show "num_dentries u = num_dentries s" by (rule same_imageD(5) [OF assms(2)])
  have "image_off u = image_off s" using image_off_cong [of u s] same_imageD [OF assms(2)] assms(3) by simp
  then show "listing p t i buf k' u"
    using assms name image_same_image [OF assms(2) ok] buffer_same_image [OF assms(2,3)] same_imageD(5) [OF assms(2)]
    by (simp add: listing_def buffer_off_def)
qed

lemma user_read_entry:
  assumes "listing p t i buf k s" "k < unat (num_dentries s)"
  defines "name \<equiv> entry_name s k"
  shows "ece391_read (word_of_nat i) buf 32 s = Some (word_of_nat (length name),
    (write_list buf name (write_list buf (replicate 32 0) s))\<lparr>dir_location := word_of_nat (Suc k)\<rparr>)"
proof -
  let ?k = "in_kernel s"
  have l: "tty p t s" "i < 8" "2 \<le> i" "flags (own_files p s ! i) = IN_USE" "ptrs (own_files p s ! i) = Dir_funcs" "image_ok s" "buf \<noteq> 0"
    "dir_location s = word_of_nat k" "length name < 32"
    using assms by (auto simp: listing_def)
  have pos: "unat (dir_location ?k) = k" using assms(2) l(8) unat_of_nat_le_u32 [of k "num_dentries s"] by simp
  have name: "entry_name ?k = entry_name s" by (simp add: entry_name_def entry_addr_def read_bytes_def ld_def fun_eq_iff)
  have ok: "image_ok ?k" by (rule image_same_image [OF same_image_kernel(2) l(6)])
  have "dir_location ?k < num_dentries ?k" using pos assms(2) by (simp add: word_less_nat_alt)
  moreover have u32: "unat (32 :: u32) = 32" by simp
  ultimately have "dir_read (word_of_nat i) buf 32 ?k = Some (word_of_nat (min 32 (length name)),
      write_list buf (take 32 name) (write_list buf (replicate 32 0) ?k)\<lparr>dir_location := dir_location ?k + 1\<rparr>)"
    using dir_read_entry [OF ok, of "word_of_nat i" buf 32] l(9) unfolding pos name name_def [symmetric] u32 by simp
  then
  have "dir_read (word_of_nat i) buf 32 ?k = Some (word_of_nat (length name),
      write_list buf name (write_list buf (replicate 32 0) ?k)\<lparr>dir_location := word_of_nat (Suc k)\<rparr>)"
    using l(8,9) by (simp add: add.commute)
  then have "sys_read (word_of_nat i) buf 32 ?k = Some (word_of_nat (length name),
      write_list buf name (write_list buf (replicate 32 0) ?k)\<lparr>dir_location := word_of_nat (Suc k)\<rparr>)"
    using l tty_curr [OF l(1)] sint_fd [OF l(2)] unat_of_nat_u32 [of i] by (simp add: sys_read_def IN_USE_def NOT_IN_USE_def)
  then show ?thesis by (simp add: call_value_int80 write_list_esp only_phys_kernel [OF only_phys_write_list])
qed

lemma user_read_end:
  assumes "listing p t i buf (unat (num_dentries s)) s"
  shows "ece391_read (word_of_nat i) buf 32 s = Some (0, s\<lparr>dir_location := 0\<rparr>)"
proof -
  have l: "tty p t s" "i < 8" "2 \<le> i" "flags (own_files p s ! i) = IN_USE" "ptrs (own_files p s ! i) = Dir_funcs" "buf \<noteq> 0"
    "dir_location s = num_dentries s" using assms by (auto simp: listing_def)
  then have "sys_read (word_of_nat i) buf 32 (in_kernel s) = Some (0, (in_kernel s)\<lparr>dir_location := 0\<rparr>)"
    using tty_curr [OF l(1)] sint_fd [OF l(2)] unat_of_nat_u32 [of i]
    by (simp add: sys_read_def dir_read_def read_dentry_by_index_def IN_USE_def NOT_IN_USE_def)
  then show ?thesis by (simp add: call_value_int80)
qed

text \<open>Bytes in the program's buffer, and a new position.\<close>

lemma listing_write:
  assumes "listing p t i buf k s" "length xs \<le> 33"
  shows "listing p t i buf k (write_list buf xs s)" "read_bytes (write_list buf xs s) buf (length xs) = xs"
    "unat r < 3 \<Longrightarrow> terminal_of r (write_list buf xs s) = terminal_of r s"
    "num_dentries (write_list buf xs s) = num_dentries s"
    "j < unat (num_dentries s) \<Longrightarrow> entry_name (write_list buf xs s) j = entry_name s j"
proof -
  have l: "tty p t s" "buffer_ok s buf (length xs)" "buffer_off buf (length xs) s" "dir_location s = word_of_nat k" "k \<le> unat (num_dentries s)"
    using assms buffer_mono [of s buf 33 "length xs"] by (auto simp: listing_def buffer_off_def)
  show "read_bytes (write_list buf xs s) buf (length xs) = xs" using l(2) by (intro read_write_list) (simp add: buffer_ok_def)
  note tty = tty_write [OF l(1,3)]
  then show "unat r < 3 \<Longrightarrow> terminal_of r (write_list buf xs s) = terminal_of r s" by simp
  have "dir_location (write_list buf xs s) = word_of_nat k" by (simp add: only_phys_fs [OF only_phys_write_list] l(4))
  note lk = listing_kept [OF assms(1) write_same_image [OF l(2)] xl_write_list only_phys_kernel(1) [OF only_phys_write_list] tty(1) this l(5)]
  show "listing p t i buf k (write_list buf xs s)" "num_dentries (write_list buf xs s) = num_dentries s"
    "j < unat (num_dentries s) \<Longrightarrow> entry_name (write_list buf xs s) j = entry_name s j" by (fact lk)+
qed

lemma entry_name_position: "entry_name (s\<lparr>dir_location := x\<rparr>) = entry_name s"
  by (simp add: entry_name_def entry_addr_def read_bytes_def ld_def fun_eq_iff)

lemma listing_position:
  assumes "listing p t i buf k s" "k' \<le> unat (num_dentries s)"
  shows "listing p t i buf k' (s\<lparr>dir_location := word_of_nat k'\<rparr>)"
proof -
  have "tty p t (s\<lparr>dir_location := word_of_nat k'\<rparr>)" using assms(1) by (simp add: listing_def dir_location_kept(1))
  from listing_kept(1) [OF assms(1) dir_location_kept(3) _ _ this _ assms(2)] show "listing p t i buf k' (s\<lparr>dir_location := word_of_nat k'\<rparr>)"
    by simp
qed

text \<open>One round of the loop: the name and a line feed are written.\<close>

lemma ls_round:
  assumes "listing p t i buf k s" "k < unat (num_dentries s)"
  shows "\<exists>u. ls_loop lit (word_of_nat i) buf s = ls_loop lit (word_of_nat i) buf u \<and> listing p t i buf (Suc k) u
    \<and> shows_more t (entry_name s k @ [0x0A]) s u \<and> num_dentries u = num_dentries s
    \<and> (\<forall>j < unat (num_dentries s). entry_name u j = entry_name s j)"
proof -
  define n where "n = length (entry_name s k)"
  define line where "line = entry_name s k @ [0x0A]"
  have n: "0 < n" "n < 32" "length line = Suc n" using assms by (auto simp: listing_def n_def line_def)
  define s0 where "s0 = write_list buf (replicate 32 0) s"
  define s1 where "s1 = write_list buf line s0"
  define s2 where "s2 = s1\<lparr>dir_location := word_of_nat (Suc k)\<rparr>"
  note l0 = listing_write [OF assms(1), of "replicate 32 0", folded s0_def, simplified]
  note l1 = listing_write [OF l0(1), of line, folded s1_def, unfolded n(3)]
  have l2: "listing p t i buf (Suc k) s2" unfolding s2_def by (rule listing_position [OF l1(1)]) (use n l0 l1 assms(2) in simp_all)
  then have tty2: "tty p t s2" and off: "buffer_off buf (Suc n) s2" "buf \<noteq> 0" "image_off s2" using n by (auto simp: listing_def buffer_off_def)
  have rb: "read_bytes s2 buf (Suc n) = line" using l1(2) n by (simp add: s2_def read_bytes_def ld_def)
  have more: "shows_more t [] s s2"
    by (rule shows_more_same) (use l0(3) l1(3) n assms(1) in \<open>simp_all add: s2_def dir_location_kept listing_def tty_def\<close>)
  have put: "st (buf + word_of_nat n) 0x0A ((write_list buf (entry_name s k) s0)\<lparr>dir_location := word_of_nat (Suc k)\<rparr>) = s2"
    by (simp add: s2_def s1_def line_def n_def write_list_append st_def)
  have sn: "unat (word_of_nat n + 1 :: u32) = Suc n" "word_of_nat n + 1 \<noteq> (-1 :: u32)"
    using small_count [of "Suc n"] n by (simp_all add: add.commute)
  obtain u where u: "ece391_write 1 buf (word_of_nat n + 1) s2 = Some (word_of_nat n + 1, u)" "prints_on t line s2 u"
    using user_write [OF tty2, of buf "word_of_nat n + 1"] off rb n unfolding sn(1) by auto
  have scr: "screens_only s2 u" using u(2) by (simp add: prints_on_def)
  note lk = listing_kept [OF l2 screens_same_image [OF scr off(3)] _ _ prints_on_tty [OF tty2 u(2)]]
  have at: "dir_location u = word_of_nat (Suc k)" using screens_only_dir [OF scr] by (simp add: s2_def)
  have "num_dentries s2 = num_dentries s" "\<And>j. j < unat (num_dentries s) \<Longrightarrow> entry_name s2 j = entry_name s j"
    using l0(4,5) l1(4,5) n by (simp_all add: s2_def entry_name_position)
  then have "listing p t i buf (Suc k) u" "\<And>j. j < unat (num_dentries s) \<Longrightarrow> entry_name u j = entry_name s j" "num_dentries u = num_dentries s"
    using lk [OF _ _ at] screens_only_kernel [OF scr] assms(2) by simp_all
  moreover have "ls_loop lit (word_of_nat i) buf s = ls_loop lit (word_of_nat i) buf u"
    using user_read_entry [OF assms, folded n_def s0_def] small_count [of n] n put u(1) sn(2) by (subst ls_loop.simps) (simp add: Let_def)
  moreover have "shows_more t line s u" using shows_more_trans [OF more, of line u] u(2) by (simp add: prints_on_def)
  ultimately show ?thesis unfolding line_def by blast
qed

lemma ls_loop_prints:
  assumes "listing p t i buf k s"
  shows "\<exists>u. ls_loop lit (word_of_nat i) buf s = Some (0, u)
    \<and> shows_more t (concat (map (\<lambda>j. entry_name s j @ [0x0A]) [k..<unat (num_dentries s)])) s u"
  using assms
proof (induction "unat (num_dentries s) - k" arbitrary: k s)
  case 0
  then have k: "k = unat (num_dentries s)" by (simp add: listing_def)
  then have "ls_loop lit (word_of_nat i) buf s = Some (0, s\<lparr>dir_location := 0\<rparr>)"
    using user_read_end [of p t i buf s] 0 by (subst ls_loop.simps) simp
  moreover have "shows_more t [] s (s\<lparr>dir_location := 0\<rparr>)"
    by (rule shows_more_same) (use 0 in \<open>simp_all add: dir_location_kept listing_def tty_def\<close>)
  ultimately show ?case using k by simp
next
  case (Suc d)
  then have k: "k < unat (num_dentries s)" by simp
  obtain u where u: "ls_loop lit (word_of_nat i) buf s = ls_loop lit (word_of_nat i) buf u" "listing p t i buf (Suc k) u"
    "shows_more t (entry_name s k @ [0x0A]) s u" "num_dentries u = num_dentries s" "\<forall>j < unat (num_dentries s). entry_name u j = entry_name s j"
    using ls_round [OF Suc.prems k] by blast
  have "concat (map (\<lambda>j. entry_name u j @ [0x0A]) [Suc k..<unat (num_dentries s)]) = concat (map (\<lambda>j. entry_name s j @ [0x0A]) [Suc k..<unat (num_dentries s)])"
    by (rule arg_cong [of _ _ concat], rule map_cong) (use u(5) in auto)
  then obtain v where "ls_loop lit (word_of_nat i) buf u = Some (0, v)"
    "shows_more t (concat (map (\<lambda>j. entry_name s j @ [0x0A]) [Suc k..<unat (num_dentries s)])) u v"
    using Suc.hyps(1) [OF _ u(2)] Suc.hyps(2) k unfolding u(4) by fastforce
  then show ?case using u(1) shows_more_trans [OF u(3)] k by (auto simp: upt_conv_Cons)
qed



end
