(* ===== verification/User_Counter.thy ===== *)
theory User_Counter
  imports User_Listing
begin

text \<open>
  Numbers in user programs: the support library's \<open>itoa\<close> writes what the kernel's does, and the loop of \<^verbatim>\<open>ece391counter.c\<close> ends with every
  number printed.
\<close>

section \<open>The support library's \<open>itoa\<close>\<close>

lemma user_strlen_agrees: "strlen m p = Some n \<Longrightarrow> ece391_strlen m p = Some n"
proof -
  have "user_strlen_loop m (p + len) len = Some n" if "strlen_loop m p len = Some n" for p len
    by (rule strlen_loop.raw_induct [where P = "\<lambda>m p len n. user_strlen_loop m (p + len) len = Some n", OF _ that])
      (subst user_strlen_loop.simps, auto simp: add.assoc split: if_splits)
  then show "strlen m p = Some n \<Longrightarrow> ece391_strlen m p = Some n" by (fastforce simp: strlen_def ece391_strlen_def)
qed

lemma user_strrev_loop_agrees: "user_strrev_loop p b e m = strrev_loop p b e m"
proof (induction p b e m rule: strrev_loop.induct)
  case (1 p b e m)
  then show ?case by (subst user_strrev_loop.simps, subst strrev_loop.simps) (simp add: Let_def)
qed

lemma user_strrev_agrees: "strrev p m = Some u \<Longrightarrow> ece391_strrev p m = Some u"
proof -
  assume "strrev p m = Some u"
  then obtain n where n: "strlen m p = Some n" "u = strrev_loop p 0 (sint (n - 1)) m" by (auto simp: strrev_def split: bind_splits)
  moreover have "strrev_loop p 0 e m = m" if "e \<le> 0" for e using that by (subst strrev_loop.simps) simp
  ultimately show "ece391_strrev p m = Some u"
    by (simp add: ece391_strrev_def user_strlen_agrees user_strrev_loop_agrees Let_def)
qed

lemma user_itoa_loop_agrees: "2 \<le> unat r \<Longrightarrow> user_itoa_loop v b r m = itoa_loop v b r (m :: 'a machine_scheme)"
proof (induction "unat v" arbitrary: v b m rule: less_induct)
  case less
  show ?case
  proof (cases "v = 0")
    case True
    then show ?thesis by (subst user_itoa_loop.simps, subst itoa_loop.simps) simp
  next
    case False
    then have "unat (v div r) < unat v" using less.prems by (simp add: unat_div unat_gt_0)
    then have "user_itoa_loop (v div r) b' r m' = itoa_loop (v div r) b' r m'" for b' and m' :: "'a machine_scheme"
      using less by blast
    moreover have "r \<noteq> 0" using less.prems by auto
    ultimately show ?thesis
      using False by (subst user_itoa_loop.simps, subst itoa_loop.simps) (simp add: Let_def user_lookup_def itoa_lookup_def)
  qed
qed

lemma user_itoa_correct:
  assumes "2 \<le> unat r" "unat r \<le> 36" "unat v < unat r ^ k" "0 < k" "k < n" "n < 2 ^ 31" "scratch s buf n"
  shows "\<exists>t. ece391_itoa v buf r s = Some t \<and> holds t buf (number_string (unat r) (unat v)) \<and> unchanged_outside s buf n t"
proof -
  obtain t where t: "itoa v buf r s = Some t" "holds t buf (number_string (unat r) (unat v))" "unchanged_outside s buf n t"
    using itoa_correct [OF assms] by blast
  moreover have "ece391_itoa v buf r s = Some t"
    using t(1) user_itoa_loop_agrees [OF assms(1), of v buf s] user_strrev_agrees
    by (auto simp: itoa_def ece391_itoa_def split: if_splits bind_splits)
  ultimately show ?thesis by blast
qed

section \<open>counter\<close>

text \<open>The program's buffer has room for a number, and the line feed's literal is not in it.\<close>

definition counting :: "(string \<Rightarrow> addr) \<Rightarrow> u32 \<Rightarrow> u8 \<Rightarrow> addr \<Rightarrow> 'a kernel_scheme \<Rightarrow> bool" where
  "counting lit p t buf s \<longleftrightarrow> tty p t s \<and> literal lit newline s \<and> inj_on (\<lambda>i. xl s (buf + word_of_nat i)) {..<16} \<and> buffer_off buf 16 s
     \<and> buf \<noteq> 0 \<and> (\<forall>i < 16. \<forall>j < 2. xl s (buf + word_of_nat i) \<noteq> xl s (lit newline + word_of_nat j))"

lemma counting_prints: "counting lit p t buf s \<Longrightarrow> prints_on t bs s u \<Longrightarrow> counting lit p t buf u"
  using prints_on_tty [of p t s t bs u] literal_screens [of s u lit newline]
  by (auto simp: counting_def prints_on_def screens_only_kernel buffer_off_def)

lemma counting_outside:
  assumes "counting lit p t buf s" "unchanged_outside s buf 16 u"
  shows "counting lit p t buf u" "shows_more t [] s u"
proof -
  have c: "tty p t s" "buffer_off buf 16 s" using assms(1) by (simp_all add: counting_def)
  note w = tty_outside [OF c assms(2)]
  show "shows_more t [] s u" by (rule shows_more_same) (use w(2) c(1) in \<open>simp_all add: tty_def\<close>)
  have "only_phys s u" using assms(2) by (simp add: unchanged_outside_def)
  note xl = only_phys_console(15) [OF this]
  have ld: "ld u (lit newline + word_of_nat j) = ld s (lit newline + word_of_nat j)" if "j < 2" for j
    using assms that by (simp add: ld_def xl unchanged_outside_def counting_def)
  have "literal lit newline u"
    using assms(1) ld [of 0] ld [of 1] by (simp add: counting_def literal_def cstr_def read_bytes_def buffer_off_def xl)
  then show "counting lit p t buf u" using assms(1) w(1) by (simp add: counting_def buffer_off_def xl)
qed

lemma counter_round:
  assumes "counting lit p t buf s"
  shows "\<exists>u. counter_loop lit buf i (Suc n) s = counter_loop lit buf (i + 1) n u \<and> counting lit p t buf u
    \<and> shows_more t (number_string 10 (unat (i + 1)) @ [0x0A]) s u"
proof -
  have "scratch s buf 16" using assms by (simp add: counting_def scratch_def buffer_off_def off_screens_off_screen)
  moreover have "unat (i + 1) < 10 ^ 10" using order_less_trans [OF unsigned_less [of "i + 1"], of "10 ^ 10"] by simp
  ultimately obtain s1 where s1: "ece391_itoa (i + 1) buf 10 s = Some s1" "holds s1 buf (number_string 10 (unat (i + 1)))" "unchanged_outside s buf 16 s1"
    using user_itoa_correct [of 10 "i + 1" 10 16 s buf] by auto
  let ?ds = "number_string 10 (unat (i + 1))"
  note c1 = counting_outside [OF assms s1(3)]
  have len: "length ?ds \<le> 10" by (rule number_string_length) (use \<open>unat (i + 1) < 10 ^ 10\<close> in simp_all)
  have c: "cstr s1 buf (length ?ds)" by (rule holds_cstr [OF s1(2)]) (simp add: number_string_nonzero)
  have "tty p t s1" "buffer_off buf (length ?ds) s1" "length ?ds < 2 ^ 31" "buf \<noteq> 0" "read_bytes s1 buf (length ?ds) = ?ds"
    using c1(1) len s1(2) by (simp_all add: counting_def buffer_off_def holds_def)
  then obtain s2 where s2: "ece391_fdputs 1 buf s1 = Some s2" "prints_on t ?ds s1 s2"
    using user_puts [OF _ c, of p t] by auto
  have c2: "counting lit p t buf s2" by (rule counting_prints [OF c1(1) s2(2)])
  then obtain s3 where s3: "ece391_fdputs 1 (lit newline) s2 = Some s3" "prints_on t (bytes_of newline) s2 s3"
    using puts_literal [of p t s2 lit newline] by (auto simp: counting_def)
  have "counter_loop lit buf i (Suc n) s = counter_loop lit buf (i + 1) n s3" using s1(1) s2(1) s3(1) by simp
  moreover have "shows_more t (?ds @ [0x0A]) s s3"
    using shows_more_trans [OF shows_more_trans [OF c1(2)], of ?ds s2 "bytes_of newline" s3] s2(2) s3(2) by (simp add: prints_on_def bytes_of_def)
  ultimately show ?thesis using counting_prints [OF c2 s3(2)] by blast
qed

text \<open>C32. The counter ends: for every number of rounds up to the 32-bit limit the loop of \<^verbatim>\<open>ece391counter.c\<close> returns 0, although it runs
  through the unbounded loops of \<open>ece391_itoa\<close> and \<open>ece391_strlen\<close> in every round, and the terminal shows the decimal numbers from 1 on, each
  on a line of its own.\<close>

theorem counter_counts:
  assumes "counting lit p t buf s" "n < 2 ^ 32"
  shows "\<exists>u. counter_loop lit buf 0 n s = Some (0, u)
    \<and> shows_more t (concat (map (\<lambda>k. number_string 10 k @ [0x0A]) [1..<Suc n])) s u"
proof -
  have "\<exists>u. counter_loop lit buf (word_of_nat i) m s = Some (0, u)
      \<and> shows_more t (concat (map (\<lambda>k. number_string 10 k @ [0x0A]) [Suc i..<Suc i + m])) s u"
    if "counting lit p t buf s" "i + m < 2 ^ 32" for i m s
    using that
  proof (induction m arbitrary: i s)
    case 0
    then show ?case using shows_more_same [of s s t] by (simp add: counting_def tty_def)
  next
    case (Suc m)
    have w: "word_of_nat i + 1 = (word_of_nat (Suc i) :: u32)" "unat (word_of_nat (Suc i) :: u32) = Suc i"
      using unat_of_nat_u32 [of "Suc i"] Suc.prems(2) by (simp_all add: add.commute)
    obtain u where u: "counter_loop lit buf (word_of_nat i) (Suc m) s = counter_loop lit buf (word_of_nat (Suc i)) m u" "counting lit p t buf u"
      "shows_more t (number_string 10 (Suc i) @ [0x0A]) s u"
      using counter_round [OF Suc.prems(1), of "word_of_nat i" m] unfolding w by blast
    moreover obtain v where "counter_loop lit buf (word_of_nat (Suc i)) m u = Some (0, v)"
      "shows_more t (concat (map (\<lambda>k. number_string 10 k @ [0x0A]) [Suc (Suc i)..<Suc (Suc i) + m])) u v"
      using Suc.IH [OF u(2), of "Suc i"] Suc.prems(2) by auto
    moreover have "[Suc i..<Suc i + Suc m] = Suc i # [Suc (Suc i)..<Suc (Suc i) + m]" by (simp add: upt_conv_Cons del: upt_Suc)
    ultimately show ?case using shows_more_trans [OF u(3)] by (simp del: upt_Suc counter_loop.simps)
  qed
  from this [OF assms(1), of 0 n] show ?thesis using assms(2) by simp
qed

lemma user0_counting: "counting lit0 1 1 0x700000 user0"
proof -
  have "literal lit0 (literals0 ! 13) user0" by (rule user0_literal) simp
  then have lit: "literal lit0 newline user0" by (simp add: literals0_def messages_def)
  have a: "lit0 newline = 0x600340" by (simp add: lit0_def literals0_def messages_def)
  have "buffer_ok user0 0x700000 16" by (rule buffer_mono [OF user0_image(2)]) simp
  then have "inj_on (\<lambda>i. xl user0 (0x700000 + word_of_nat i)) {..<16}" by (simp add: buffer_ok_def)
  moreover have "xl user0 (0x700000 + word_of_nat i) \<noteq> xl user0 (0x600340 + word_of_nat j)" if "i < 16" "j < 2" for i j
  proof -
    have u: "unat (0x700000 + word_of_nat i :: u32) = 0x700000 + i" "unat (0x600340 + word_of_nat j :: u32) = 0x600340 + j"
      using unat_add_small [of "0x700000 :: u32" i] unat_add_small [of "0x600340 :: u32" j] that by simp_all
    then have "xl user0 (0x700000 + word_of_nat i) = 0x700000 + word_of_nat i" "xl user0 (0x600340 + word_of_nat j) = 0x600340 + word_of_nat j"
      using that by (auto intro: user0_xl)
    moreover have "(0x700000 + word_of_nat i :: u32) \<noteq> 0x600340 + word_of_nat j"
    proof
      assume "(0x700000 + word_of_nat i :: u32) = 0x600340 + word_of_nat j"
      then have "0x700000 + i = 0x600340 + j" using u by metis
      then show False using that by simp
    qed
    ultimately show ?thesis by simp
  qed
  ultimately show ?thesis using user0_tty lit user0_off [of "0x700000" 16] by (simp add: counting_def a)
qed

theorem counter_counts_witness:
  "\<exists>u. counter_loop lit0 0x700000 0 10 user0 = Some (0, u)
    \<and> shows_more 1 (concat (map (\<lambda>k. number_string 10 k @ [0x0A]) [1..<Suc 10])) user0 u"
  using counter_counts [OF user0_counting, of 10] by simp

end
