(* ===== verification/User_Shell.thy ===== *)
theory User_Shell
  imports User_Counter
begin

text \<open>
  The shell (\<^verbatim>\<open>ece391shell.c\<close>): one round of its loop, from the prompt to the answer. The line comes from the terminal driver
  (\<open>Terminal_Read\<close>); \<open>shell_room\<close> says where the shell's buffer, its string literals and the kernel's stack lie.
\<close>

section \<open>Comparing strings\<close>

lemma holds_Nil: "holds s p [] \<longleftrightarrow> ld s p = 0"
  by (simp add: holds_def read_bytes_def)

lemma holds_Cons_iff: "holds s p (x # xs) \<longleftrightarrow> ld s p = x \<and> holds s (p + 1) xs"
  by (auto simp: holds_def read_bytes_Suc add.assoc)

lemma ucast_u8_inj: "(ucast (a :: u8) :: i32) = ucast b \<longleftrightarrow> a = b" "(ucast a :: i32) = 0 \<longleftrightarrow> a = 0"
  using unat_ucast_u8 [of a] unat_ucast_u8 [of b] by (metis word_unat_eq_iff) (metis unat_ucast_u8 word_unat_eq_iff unsigned_0)

text \<open>\<open>ece391_strcmp\<close> ends, and gives 0 exactly for equal strings.\<close>

lemma user_strcmp:
  assumes "holds s a xs" "0 \<notin> set xs" "holds s b ys" "0 \<notin> set ys"
  shows "\<exists>r. ece391_strcmp s a b = Some r \<and> (r = 0 \<longleftrightarrow> xs = ys)"
  using assms
proof (induction xs arbitrary: a b ys)
  case Nil
  then show ?case by (cases ys) (simp_all add: ece391_strcmp.simps holds_Nil holds_Cons_iff ucast_u8_inj)
next
  case (Cons x xs)
  show ?case
  proof (cases ys)
    case Nil
    then show ?thesis using Cons.prems by (simp add: ece391_strcmp.simps holds_Nil holds_Cons_iff ucast_u8_inj)
  next
    case (Cons y ys')
    then have h: "ld s a = x" "ld s b = y" "x \<noteq> 0" "holds s (a + 1) xs" "holds s (b + 1) ys'" "0 \<notin> set xs" "0 \<notin> set ys'"
      using Cons.prems by (auto simp: holds_Cons_iff)
    obtain r where "ece391_strcmp s (a + 1) (b + 1) = Some r" "r = 0 \<longleftrightarrow> xs = ys'"
      using Cons.IH [OF h(4,6,5,7)] by blast
    then show ?thesis using h(1-3) Cons by (subst ece391_strcmp.simps) (simp add: ucast_u8_inj)
  qed
qed

section \<open>The shell's memory\<close>

text \<open>The stack area \<open>printf\<close> uses in a system call.\<close>

abbreviation kernel_area :: "'a kernel_scheme \<Rightarrow> addr" where
  "kernel_area s \<equiv> tss_esp0 s - 248"

text \<open>A literal that neither the buffer nor the kernel's stack area overlaps.\<close>

definition safe_literal :: "(string \<Rightarrow> addr) \<Rightarrow> addr \<Rightarrow> string \<Rightarrow> 'a kernel_scheme \<Rightarrow> bool" where
  "safe_literal lit buf msg s \<longleftrightarrow> literal lit msg s \<and> 0 \<notin> set (bytes_of msg)
     \<and> (\<forall>j \<le> length msg. (\<forall>i < 1024. xl s (buf + word_of_nat i) \<noteq> xl s (lit msg + word_of_nat j))
          \<and> (\<forall>i < 64. xl s (kernel_area s + word_of_nat i) \<noteq> xl s (lit msg + word_of_nat j)))"

definition shell_room :: "(string \<Rightarrow> addr) \<Rightarrow> u32 \<Rightarrow> u8 \<Rightarrow> addr \<Rightarrow> 'a kernel_scheme \<Rightarrow> bool" where
  "shell_room lit p t buf s \<longleftrightarrow> tty p t s \<and> (\<forall>msg \<in> set shell_messages. safe_literal lit buf msg s)
     \<and> buf \<noteq> 0 \<and> inj_on (\<lambda>i. xl s (buf + word_of_nat i)) {..<1024} \<and> buffer_off buf 1024 s
     \<and> scratch s (kernel_area s) 64 \<and> buffer_off (kernel_area s) 64 s"

text \<open>The bytes of the buffer, of the stack area and of the screens may change.\<close>

definition shell_step :: "addr \<Rightarrow> 'a kernel_scheme \<Rightarrow> 'a kernel_scheme \<Rightarrow> bool" where
  "shell_step buf s u \<longleftrightarrow> xl u = xl s \<and> tss_esp0 u = tss_esp0 s
     \<and> (\<forall>q. off_screens q \<and> (\<forall>i < 64. xl s (kernel_area s + word_of_nat i) \<noteq> q) \<and> (\<forall>i < 1024. xl s (buf + word_of_nat i) \<noteq> q)
          \<longrightarrow> phys u q = phys s q)"

lemma safe_literal_step:
  assumes "safe_literal lit buf msg s" "shell_step buf s u"
  shows "safe_literal lit buf msg u"
proof -
  have xl: "xl u = xl s" "tss_esp0 u = tss_esp0 s" using assms(2) by (simp_all add: shell_step_def)
  have lit: "literal lit msg s" using assms(1) by (simp add: safe_literal_def)
  have ld: "ld u (lit msg + word_of_nat j) = ld s (lit msg + word_of_nat j)" if "j \<le> length msg" for j
  proof -
    have "off_screens (xl s (lit msg + word_of_nat j))" using lit that by (simp add: literal_def buffer_off_def)
    then show ?thesis using assms that unfolding ld_def xl by (simp add: shell_step_def safe_literal_def)
  qed
  then have "read_bytes u (lit msg) (length msg) = read_bytes s (lit msg) (length msg)" by (intro read_bytes_eqI) simp
  then have "literal lit msg u" using lit ld by (simp add: literal_def cstr_def buffer_off_def xl)
  then show ?thesis using assms(1) by (simp add: safe_literal_def xl)
qed

lemma shell_room_step:
  assumes "shell_room lit p t buf s" "shell_step buf s u" "tty p t u"
  shows "shell_room lit p t buf u"
proof -
  have "xl u = xl s" "tss_esp0 u = tss_esp0 s" using assms(2) by (simp_all add: shell_step_def)
  moreover have "\<forall>msg \<in> set shell_messages. safe_literal lit buf msg u"
    using assms(1) safe_literal_step [OF _ assms(2)] by (simp add: shell_room_def)
  ultimately show ?thesis using assms(1,3) by (simp add: shell_room_def scratch_def buffer_off_def)
qed

lemma shell_room_prints:
  assumes "shell_room lit p t buf s" "prints_on t bs s u"
  shows "shell_room lit p t buf u"
proof (rule shell_room_step [OF assms(1)])
  have "screens_only s u" using assms(2) by (simp add: prints_on_def)
  then show "shell_step buf s u" by (simp add: shell_step_def screens_only_kernel) (simp add: screens_only_def)
  show "tty p t u" using assms prints_on_tty by (auto simp: shell_room_def)
qed

lemma shell_puts:
  assumes "shell_room lit p t buf s" "msg \<in> set shell_messages"
  shows "\<exists>u. ece391_fdputs 1 (lit msg) s = Some u \<and> prints_on t (bytes_of msg) s u \<and> shell_room lit p t buf u"
proof -
  have "tty p t s" "literal lit msg s" using assms by (simp_all add: shell_room_def safe_literal_def)
  then obtain u where "ece391_fdputs 1 (lit msg) s = Some u" "prints_on t (bytes_of msg) s u" using puts_literal by blast
  then show ?thesis using shell_room_prints [OF assms(1)] by blast
qed

section \<open>Reading the command\<close>

text \<open>A line \<open>l\<close> and Enter have been typed on the shell's terminal, which is visible.\<close>

definition line_waiting :: "(string \<Rightarrow> addr) \<Rightarrow> u32 \<Rightarrow> u8 \<Rightarrow> addr \<Rightarrow> u8 list \<Rightarrow> 'a kernel_scheme \<Rightarrow> bool" where
  "line_waiting lit p t buf l s \<longleftrightarrow> shell_room lit p t buf s \<and> current_terminal s = t \<and> enter_state s \<noteq> 0
     \<and> typed (terminal_of t s) = l @ [0x0A]"

lemma shell_reads:
  assumes "line_waiting lit p t buf l s"
  shows "\<exists>u. ece391_read 0 buf 1023 s = Some (word_of_nat (Suc (length l)), u) \<and> holds u buf (l @ [0x0A]) \<and> length l < 127 \<and> 0 \<notin> set l
    \<and> shell_room lit p t buf u \<and> typed (terminal_of t u) = [] \<and> enter_state u = 0"
proof -
  let ?k = "in_kernel s"
  have s: "shell_room lit p t buf s" "t = current_terminal s" "enter_state s \<noteq> 0" "typed (terminal_of t s) = l @ [0x0A]" "tty p t s"
    using assms by (simp_all add: line_waiting_def shell_room_def)
  note c = tty_curr [OF s(5)]
  have cb: "conv_buf ?k = kernel_area s" by (simp add: conv_buf_def)
  have ok: "terminals_ok ?k" "terminal_of r ?k = terminal_of r s" for r using s(5) by (simp_all add: tty_def)
  have "length (typed (terminal_of t s)) \<le> 127" "0 \<notin> set (typed (terminal_of t s))"
    using s(2,5) by (simp_all add: tty_def terminals_ok_def foreground_ok_def line_ok_def terminal_of_def key_line_def)
  then have l: "length l < 127" "0 \<notin> set l" using s(4) by simp_all
  let ?m = "Suc (length l)"
  have room: "inj_on (\<lambda>i. xl ?k (buf + word_of_nat i)) {..<Suc ?m}" "buffer_off buf (Suc ?m) ?k" "scratch ?k (conv_buf ?k) 64"
      "buffer_off (conv_buf ?k) 64 ?k" "buf \<noteq> 0"
    using s(1) l unfolding cb by (auto simp: shell_room_def buffer_off_def scratch_def intro: inj_on_subset)
  have "t = get_terminal_id (pid (pcbs ?k (get_curr_pcb ?k))) ?k" unfolding c using s(5) by (simp add: tty_def get_terminal_id_def)
  then obtain u where u: "terminal_read 0 buf 1023 ?k = Some (word_of_nat ?m, u)" "holds u buf (l @ [0x0A])" "terminals_ok u" "enter_state u = 0"
      "typed (terminal_of t u) = []" "only_console (?k\<lparr>enter_state := 0\<rparr>) u"
      "\<And>q. off_screens q \<Longrightarrow> \<forall>i < 64. xl s (kernel_area s + word_of_nat i) \<noteq> q \<Longrightarrow> \<forall>i < Suc ?m. xl s (buf + word_of_nat i) \<noteq> q \<Longrightarrow> phys u q = phys s q"
    using terminal_read_spec [OF ok(1) _ _ _ room(3,4) _ _ room(1,2), of t 1023 0] s(2-4) l ok(2)
    by (auto simp: cb)
  have "sys_read 0 buf 1023 ?k = Some (word_of_nat ?m, u)"
    using s(5) c u(1) room(5) by (simp add: sys_read_def tty_def std_fd_def IN_USE_def NOT_IN_USE_def)
  then have run: "ece391_read 0 buf 1023 s = Some (word_of_nat ?m, u\<lparr>esp := esp s\<rparr>)" by (simp add: call_value_int80)
  define v where "v = u\<lparr>esp := esp s\<rparr>"
  note k = only_console_kernel [OF u(6), simplified]
  have "get_terminal_id q v = get_terminal_id q s" for q by (simp add: v_def get_terminal_id_def k)
  then have "tty p t v" using s(5) u(3) by (simp add: tty_def set_tss_def) (simp add: v_def k)
  moreover have "shell_step buf s v" using u(7) l k by (simp add: shell_step_def v_def)
  ultimately have "shell_room lit p t buf v" by (intro shell_room_step [OF s(1)])
  moreover have "holds v buf (l @ [0x0A])" using u(2) by (simp add: v_def holds_def read_bytes_def ld_def)
  ultimately show ?thesis using run l u(4,5) by (intro exI [of _ v]) (simp add: v_def [symmetric], simp add: v_def)
qed

text \<open>What the loop does with the bytes read: the newline goes, and a terminator takes its place.\<close>

lemma shell_cuts_line:
  assumes "shell_room lit p t buf s" "holds s buf (l @ [0x0A])" "length l < 127"
  defines "u \<equiv> st (buf + word_of_nat (length l)) 0 s"
  shows "0 <s (word_of_nat (Suc (length l)) :: i32)" "ld s (buf + word_of_nat (length l)) = 0x0A" "holds u buf l"
    "shell_room lit p t buf u" "typed (terminal_of t u) = typed (terminal_of t s)"
proof -
  have n: "length l < 1024" using assms(3) by simp
  show "0 <s (word_of_nat (Suc (length l)) :: i32)"
    using sint_nonneg [of "Suc (length l)"] assms(3) by (simp add: word_sless_alt del: of_nat_Suc)
  have "read_bytes s buf (length l + 1) = l @ [0x0A]" using assms(2) by (simp add: holds_def)
  then have bytes: "read_bytes s buf (length l) = l" "ld s (buf + word_of_nat (length l)) = 0x0A"
    unfolding read_bytes_append by (simp_all add: read_bytes_def)
  then show "ld s (buf + word_of_nat (length l)) = 0x0A" by simp
  have s: "tty p t s" "buffer_off buf 1024 s" "inj_on (\<lambda>i. xl s (buf + word_of_nat i)) {..<1024}"
    using assms(1) by (simp_all add: shell_room_def)
  have un: "unchanged_outside s buf 1024 u" unfolding u_def by (rule unchanged_st [OF n])
  note w = tty_outside [OF s(1,2) un]
  have "xl s (buf + word_of_nat i) \<noteq> xl s (buf + word_of_nat (length l))" if "i < length l" for i
    using inj_onD [OF s(3), of i "length l"] that n by auto
  then have "read_bytes u buf (length l) = read_bytes s buf (length l)"
    unfolding u_def by (intro read_bytes_eqI) (simp add: ld_st)
  then show "holds u buf l" using bytes by (simp add: holds_def u_def ld_st)
  have "tss_esp0 u = tss_esp0 s" by (simp add: u_def st_def)
  then have "shell_step buf s u" using un by (simp add: shell_step_def unchanged_outside_def) (simp add: u_def)
  then show "shell_room lit p t buf u" by (rule shell_room_step [OF assms(1) _ w(1)])
  show "typed (terminal_of t u) = typed (terminal_of t s)" using w(2) s(1) by (simp add: tty_def)
qed

section \<open>A round of the loop\<close>

text \<open>The shell's report on a command that has come back with a value.\<close>

definition shell_report :: "i32 \<Rightarrow> u8 list" where
  "shell_report rval =
     (if rval = -1 then bytes_of (''no such command'' @ newline)
      else if rval = 256 then bytes_of (''program terminated by exception'' @ newline)
      else if rval \<noteq> 0 then bytes_of (''program terminated abnormally'' @ newline) else [])"

lemma shell_says_report:
  assumes "shell_room lit p t buf v"
  shows "\<exists>w. shell_says lit rval v = Some w \<and> shell_room lit p t buf w \<and> shows_more t (shell_report rval) v w"
proof -
  have "shows_more t [] v v" by (rule shows_more_same) (use assms in \<open>simp_all add: shell_room_def tty_def\<close>)
  moreover have puts: "\<exists>w. ece391_fdputs 1 (lit msg) v = Some w \<and> shell_room lit p t buf w \<and> shows_more t (bytes_of msg) v w"
    if "msg \<in> set shell_messages" for msg
    using shell_puts [OF assms that] by (auto simp: prints_on_def)
  ultimately show ?thesis
    using puts [of "''no such command'' @ newline"] puts [of "''program terminated by exception'' @ newline"]
      puts [of "''program terminated abnormally'' @ newline"] assms
    by (cases "rval = -1"; cases "rval = 256"; cases "rval = 0") (auto simp: shell_report_def shell_says_def shell_messages_def)
qed

text \<open>C21. The shell's loop: it prints its prompt, takes the line typed, without the newline, and then returns 0 for \<open>exit\<close>, goes to the next
  round for an empty line, and for any other line calls \<open>execute\<close> with it; when the program has come back, the shell reports \<open>no such
  command\<close>, the exception or the abnormal end, or nothing for 0, on its own terminal, and goes to the next round.\<close>

theorem shell_round:
  assumes "shell_room lit p t buf s"
    "\<And>v. prints_on t (bytes_of ''391OS> '') s v \<Longrightarrow> line_waiting lit p t buf l (wait v)"
  shows "\<exists>u. holds u buf l \<and> shell_room lit p t buf u \<and> typed (terminal_of t u) = []
    \<and> (l = bytes_of ''exit'' \<longrightarrow> shell_loop lit wait child buf s = Some (0, u))
    \<and> (l = [] \<longrightarrow> shell_loop lit wait child buf s = shell_loop lit wait child buf u)
    \<and> (l \<noteq> [] \<and> l \<noteq> bytes_of ''exit'' \<longrightarrow>
        (\<forall>rval v. ece391_execute child buf u = Some (rval, v) \<and> shell_room lit p t buf v \<longrightarrow>
          (\<exists>w. shell_loop lit wait child buf s = shell_loop lit wait child buf w \<and> shell_room lit p t buf w
             \<and> shows_more t (shell_report rval) v w)))"
proof -
  obtain s1 where s1: "ece391_fdputs 1 (lit ''391OS> '') s = Some s1" "prints_on t (bytes_of ''391OS> '') s s1"
    using shell_puts [OF assms(1), of "''391OS> ''"] by (auto simp: shell_messages_def)
  obtain s2 where s2: "ece391_read 0 buf 1023 (wait s1) = Some (word_of_nat (Suc (length l)), s2)" "holds s2 buf (l @ [0x0A])" "length l < 127"
      "shell_room lit p t buf s2" "typed (terminal_of t s2) = []" "0 \<notin> set l"
    using shell_reads [OF assms(2) [OF s1(2)]] by blast
  define u where "u = st (buf + word_of_nat (length l)) 0 s2"
  note cut = shell_cuts_line [OF s2(4,2,3), folded u_def]
  have "safe_literal lit buf ''exit'' u" using cut(4) by (simp add: shell_room_def shell_messages_def)
  then have "holds u (lit ''exit'') (bytes_of ''exit'')" "0 \<notin> set (bytes_of ''exit'')"
    by (simp_all add: safe_literal_def literal_def holds_def cstr_def)
  then obtain r where r: "ece391_strcmp u buf (lit ''exit'') = Some r" "r = 0 \<longleftrightarrow> l = bytes_of ''exit''"
    using user_strcmp [OF cut(3) s2(6)] by blast
  have empty: "ld u buf = 0 \<longleftrightarrow> l = []" using cut(3) s2(6) by (cases l) (auto simp: holds_Nil holds_Cons_iff)
  define c :: i32 where "c = word_of_nat (Suc (length l))"
  define n :: i32 where "n = word_of_nat (length l)"
  have c: "0 <s c" "c - 1 = n" unfolding n_def using cut(1) by (simp_all add: c_def del: of_nat_Suc) (simp add: c_def)
  then have c1: "c \<noteq> -1" by (auto simp: word_sless_alt)
  have loop: "shell_loop lit wait child buf s =
      (if r = 0 then Some (0, u) else if ld u buf = 0 then shell_loop lit wait child buf u
       else do {
         (rval, v) \<leftarrow> ece391_execute child buf u;
         v \<leftarrow> shell_says lit rval v;
         shell_loop lit wait child buf v
       })"
    by (subst shell_loop.simps) (simp add: s1(1) s2(1) [folded c_def] c c1 cut(2) [folded n_def] Let_def u_def [folded n_def, symmetric] r(1))
  show ?thesis
  proof (rule exI [of _ u], intro conjI impI allI)
    fix rval v assume l: "l \<noteq> [] \<and> l \<noteq> bytes_of ''exit''" and v: "ece391_execute child buf u = Some (rval, v) \<and> shell_room lit p t buf v"
    obtain w where "shell_says lit rval v = Some w" "shell_room lit p t buf w" "shows_more t (shell_report rval) v w"
      using shell_says_report v by blast
    then show "\<exists>w. shell_loop lit wait child buf s = shell_loop lit wait child buf w \<and> shell_room lit p t buf w
        \<and> shows_more t (shell_report rval) v w"
      using loop r(2) empty l v by auto
  qed (use loop r(2) empty cut(3-5) s2(5) in \<open>auto simp: bytes_of_def\<close>)
qed

section \<open>A concrete shell\<close>

text \<open>Process 0 on the visible terminal; \<open>typing l\<close> is the interrupts that bring the line \<open>l\<close> and Enter.\<close>

definition shell0 :: scheduling where
  "shell0 = user0\<lparr>pcbs := (\<lambda>_. user_pcb0\<lparr>pid := 0\<rparr>), tss_esp0 := 0x7FFFFC\<rparr>"

definition typing :: "u8 list \<Rightarrow> scheduling \<Rightarrow> scheduling" where
  "typing l s = s\<lparr>key_arr := l @ [0x0A] @ replicate (128 - length l) 0, key_arr_ptr := word_of_nat (Suc (length l)),
     key_arr_overflow := 0, enter_state := 1\<rparr>"

lemma typing_ok:
  assumes "terminals_ok s" "length l < 127" "0 \<notin> set l"
  shows "terminals_ok (typing l s)" "typed (terminal_of (current_terminal s) (typing l s)) = l @ [0x0A]"
proof -
  have n: "unat (word_of_nat (Suc (length l)) :: u8) = Suc (length l)" using assms(2) by (simp add: unat_of_nat del: of_nat_Suc)
  have view: "view j (typing l s) = view j s" for j by (rule view_cong) (simp add: typing_def ld_def)
  have "background_ok r (typing l s) = background_ok r s" for r
    by (simp add: background_ok_def saved_ok_def saved_of_def view) (simp add: typing_def ti_def screen_mapped_def)
  moreover have "line_ok (key_arr (typing l s)) (key_arr_ptr (typing l s)) (key_arr_overflow (typing l s))"
    using assms(2,3) n by (simp add: line_ok_def typing_def del: of_nat_Suc)
  then have "foreground_ok (typing l s)"
    using assms(1) by (simp add: terminals_ok_def foreground_ok_def console_ok_def) (simp add: typing_def screen_mapped_def)
  ultimately show "terminals_ok (typing l s)" using assms(1) by (simp add: terminals_ok_def) (simp add: typing_def ti_def)
  show "typed (terminal_of (current_terminal s) (typing l s)) = l @ [0x0A]"
    using n by (simp add: terminal_of_def typing_def key_line_def del: of_nat_Suc)
qed

lemma typing_waits:
  assumes "shell_room lit p t buf s" "current_terminal s = t" "length l < 127" "0 \<notin> set l"
  shows "line_waiting lit p t buf l (typing l s)"
proof -
  have "terminals_ok s" using assms(1) by (simp add: shell_room_def tty_def)
  note ok = typing_ok [OF this assms(3,4)]
  have "tty p t (typing l s)" using assms(1) ok(1)
    by (simp add: shell_room_def tty_def) (simp add: typing_def get_terminal_id_def set_tss_def)
  moreover have "shell_step buf s (typing l s)" by (simp add: shell_step_def typing_def)
  ultimately have "shell_room lit p t buf (typing l s)" by (intro shell_room_step [OF assms(1)])
  then show ?thesis using ok(2) assms(2) by (simp add: line_waiting_def) (simp add: typing_def)
qed

lemma shell0_user0: "xl shell0 = xl user0" "phys shell0 = phys user0" "tss_esp0 shell0 = 0x7FFFFC" "current_terminal shell0 = 0"
  by (simp_all add: shell0_def user0_def desk0_def sched0_def keyboard.defs sound.defs scheduling.defs kernel.defs)

lemma shell0_tty: "tty 0 0 shell0"
proof -
  have "terminals_ok shell0 = terminals_ok user0" by (rule terminals_cong; simp add: shell0_def)
  moreover have "get_terminal_id 0 shell0 = 0" by (simp add: get_terminal_id_def shell0_def user0_def desk0_def upt_rec)
  moreover have "tss_esp0 (set_tss 0 shell0) = 0x7FFFFC" by (simp add: set_tss_def EIGHT_MB_SIZE_def EIGHT_KB_SIZE_def ESP_OFFSET_def)
  moreover have "pcbs shell0 = (\<lambda>_. user_pcb0\<lparr>pid := 0\<rparr>)" by (simp add: shell0_def)
  ultimately show ?thesis using user0_terminals(1) shell0_user0(3) by (simp add: tty_def) (simp add: user_pcb0_def)
qed

text \<open>Addresses of the kernel's four megabytes are their own translation.\<close>

lemma shell0_xl:
  assumes "0x400000 \<le> unat a" "unat a + i < 0x800000"
  shows "unat (xl shell0 (a + word_of_nat i)) = unat a + i"
  using unat_add_small [of a i] user0_xl [of "a + word_of_nat i"] assms by (simp add: shell0_user0)

lemma shell0_literal:
  assumes "msg \<in> set shell_messages"
  shows "safe_literal lit0 0x700000 msg shell0"
proof -
  have len: "length shell_messages = 7" by (simp add: shell_messages_def)
  then obtain k where k: "k < 7" "msg = shell_messages ! k" using assms by (metis in_set_conv_nth)
  then have msg: "msg = literals0 ! (14 + k)" using len by (simp add: literals0_def messages_def nth_append)
  have "msg \<in> set literals0" using assms by (simp add: literals0_def)
  moreover have "literal lit0 msg user0" "unat (lit0 msg) = 0x600000 + 64 * (14 + k)"
    unfolding msg by (rule user0_literal, use k(1) in simp, rule user0_lit_addr, use k(1) in simp)
  ultimately have lit: "literal lit0 msg user0" "unat (lit0 msg) = 0x600000 + 64 * (14 + k)" "length msg < 64" "0 \<notin> set (bytes_of msg)"
    using literals0_ok(2) by simp_all
  have ld: "ld shell0 = ld user0" by (simp add: fun_eq_iff ld_def shell0_user0)
  then have "literal lit0 msg shell0"
    using lit(1) by (simp add: literal_def cstr_def read_bytes_def buffer_off_def shell0_user0)
  moreover have low: "unat (xl shell0 (lit0 msg + word_of_nat j)) < 0x700000" if "j \<le> length msg" for j
    using shell0_xl [of "lit0 msg" j] lit(2,3) that k(1) by simp
  have ne: "xl shell0 (a + word_of_nat i) \<noteq> xl shell0 (lit0 msg + word_of_nat j)"
    if "0x700000 \<le> unat a" "unat a + i < 0x800000" "j \<le> length msg" for a i j
  proof
    assume eq: "xl shell0 (a + word_of_nat i) = xl shell0 (lit0 msg + word_of_nat j)"
    then show False using low [OF that(3)] shell0_xl [of a i] that(1,2) unfolding eq [symmetric] by simp
  qed
  ultimately show ?thesis using lit(4) ne [of "0x700000"] ne [of "0x7FFF04"] by (simp add: safe_literal_def shell0_user0(3))
qed

lemma shell0_room: "shell_room lit0 0 0 0x700000 shell0"
proof -
  have inj: "inj_on (\<lambda>i. xl shell0 (a + word_of_nat i)) {..<n}" if "0x400000 \<le> unat a" "unat a + n \<le> 0x800000" for a n
  proof (rule inj_onI)
    fix i j assume ij: "i \<in> {..<n}" "j \<in> {..<n}" and eq: "xl shell0 (a + word_of_nat i) = xl shell0 (a + word_of_nat j)"
    have "unat a + i = unat (xl shell0 (a + word_of_nat i))" by (rule shell0_xl [OF that(1), symmetric]) (use ij that(2) in simp)
    also have "\<dots> = unat a + j" unfolding eq by (rule shell0_xl [OF that(1)]) (use ij that(2) in simp)
    finally show "i = j" by simp
  qed
  have off: "buffer_off a n shell0" if "0x400000 \<le> unat a" "unat a + n \<le> 0x800000" for a n
    using user0_off [OF that] by (simp add: buffer_off_def shell0_user0)
  have area: "kernel_area shell0 = 0x7FFF04" by (simp add: shell0_user0)
  have "scratch shell0 0x7FFF04 64"
    using inj [of "0x7FFF04" 64] off [of "0x7FFF04" 64] by (simp add: scratch_def buffer_off_def off_screens_off_screen)
  then show ?thesis
    using shell0_tty shell0_literal inj [of "0x700000" 1024] off [of "0x700000" 1024] off [of "0x7FFF04" 64]
    unfolding shell_room_def area by simp
qed

theorem shell_round_witness:
  "\<exists>u. shell_loop lit0 (typing (bytes_of ''exit'')) (\<lambda>_ _. None) 0x700000 shell0 = Some (0, u) \<and> holds u 0x700000 (bytes_of ''exit'')"
proof -
  have "line_waiting lit0 0 0 0x700000 (bytes_of ''exit'') (typing (bytes_of ''exit'') v)" if "prints_on 0 (bytes_of ''391OS> '') shell0 v" for v
  proof (rule typing_waits [OF shell_room_prints [OF shell0_room that]])
    show "current_terminal v = 0" using that shell0_user0(4) by (simp add: prints_on_def screens_only_def only_console_def)
  qed (simp_all add: bytes_of_def)
  from shell_round [where wait = "typing (bytes_of ''exit'')" and child = "\<lambda>_ _. None", OF shell0_room this] show ?thesis by blast
qed

end
