(* ===== verification/User_Grep.thy ===== *)
theory User_Grep
  imports User_Shell "HOL-Library.Sublist"
begin

text \<open>
  \<open>grep\<close> (\<^verbatim>\<open>ece391grep.c\<close>) on a file: its buffer holds 1024 bytes, a line that does not end in it is moved to the front before the next
  \<open>read\<close>. \<open>grep_text\<close> says what the program means to print; \<open>do_one_file\<close> prints it for a text file whose lines fit into the
  buffer.
\<close>

section \<open>What grep prints\<close>

definition match_text :: "u8 list \<Rightarrow> u8 list \<Rightarrow> u8 list \<Rightarrow> u8 list" where
  "match_text name pat l = (if sublist pat l then name @ [0x3A] @ l @ [0x0A] else [])"

function text_lines :: "u8 list \<Rightarrow> u8 list list" where
  "text_lines xs =
     (if xs = [] then []
      else takeWhile (\<lambda>c. c \<noteq> 0x0A) xs # text_lines (drop 1 (dropWhile (\<lambda>c. c \<noteq> 0x0A) xs)))"
  by pat_completeness auto
termination
proof (relation "measure length")
  fix xs :: "u8 list" assume "xs \<noteq> []"
  then show "(drop 1 (dropWhile (\<lambda>c. c \<noteq> 0x0A) xs), xs) \<in> measure length"
    using length_dropWhile_le [of "\<lambda>c. c \<noteq> 0x0A" xs] by (cases xs) auto
qed simp

declare text_lines.simps [simp del]

definition grep_text :: "u8 list \<Rightarrow> u8 list \<Rightarrow> u8 list \<Rightarrow> u8 list" where
  "grep_text name pat xs = concat (map (match_text name pat) (text_lines xs))"

lemma text_lines_Nil [simp]: "text_lines [] = []"
  by (simp add: text_lines.simps)

lemma text_lines_line [simp]: "0x0A \<notin> set l \<Longrightarrow> text_lines (l @ 0x0A # xs) = l # text_lines xs"
proof -
  assume "0x0A \<notin> set l"
  then have "c \<noteq> 0x0A" if "c \<in> set l" for c using that by auto
  then show ?thesis by (subst text_lines.simps) (simp add: takeWhile_append2 dropWhile_append2)
qed

lemma text_lines_last:
  assumes "0x0A \<notin> set l" "l \<noteq> []"
  shows "text_lines l = [l]"
proof -
  have "takeWhile (\<lambda>c. c \<noteq> 0x0A) l = l" "dropWhile (\<lambda>c. c \<noteq> 0x0A) l = []" using assms(1) by auto
  then show ?thesis using assms(2) unfolding text_lines.simps [of l] by (simp del: dropWhile_eq_Nil_conv takeWhile_eq_all_conv)
qed

text \<open>Text that ends with a line.\<close>

definition whole_lines :: "u8 list \<Rightarrow> bool" where
  "whole_lines xs \<longleftrightarrow> xs = [] \<or> last xs = 0x0A"

lemma line_cases:
  fixes xs :: "u8 list"
  obtains (last) "0x0A \<notin> set xs" | (line) l ys where "xs = l @ 0x0A # ys" "0x0A \<notin> set l"
  using split_list_first [of "0x0A :: u8" xs] by blast

lemma text_lines_append: "whole_lines xs \<Longrightarrow> text_lines (xs @ ys) = text_lines xs @ text_lines ys"
proof (induction "length xs" arbitrary: xs rule: less_induct)
  case less
  show ?case
  proof (cases xs rule: line_cases)
    case last
    then have "xs = []" using less.prems last_in_set [of xs] by (metis whole_lines_def)
    then show ?thesis by simp
  next
    case (line l zs)
    then have "whole_lines zs" using less.prems by (auto simp: whole_lines_def split: if_splits)
    then show ?thesis using less.hyps [of zs] line by simp
  qed
qed

lemma grep_text_append: "whole_lines xs \<Longrightarrow> grep_text name pat (xs @ ys) = grep_text name pat xs @ grep_text name pat ys"
  by (simp add: grep_text_def text_lines_append)

lemma grep_text_line: "0x0A \<notin> set l \<Longrightarrow> pat \<noteq> [] \<Longrightarrow> grep_text name pat l = match_text name pat l"
  by (cases "l = []") (simp_all add: grep_text_def match_text_def text_lines_last)

section \<open>Comparing with the pattern\<close>

lemma user_strncmp_prefix:
  assumes "holds m a xs" "0 \<notin> set xs" "read_bytes m b (length pat) = pat" "0 \<notin> set pat" "pat \<noteq> []" "length pat < 2 ^ 32"
  shows "\<exists>r. user_strncmp_loop m a b (word_of_nat (length pat)) = Some r \<and> (r = 0 \<longleftrightarrow> prefix pat xs)"
  using assms
proof (induction pat arbitrary: a b xs)
  case (Cons x pat)
  have b: "ld m b = x" "read_bytes m (b + 1) (length pat) = pat" using Cons.prems(3) by (simp_all add: read_bytes_Suc)
  have x: "x \<noteq> 0" using Cons.prems(4) by auto
  have len: "word_of_nat (length (x # pat)) - 1 = (word_of_nat (length pat) :: u32)" by simp
  have z: "(word_of_nat (length pat) :: u32) = 0 \<longleftrightarrow> pat = []"
    using Cons.prems(6) unat_of_nat_u32 [of "length pat"] by (cases "pat = []") auto
  show ?case
  proof (cases xs)
    case Nil
    then have "ld m a = 0" using Cons.prems(1) by (simp add: holds_Nil)
    then show ?thesis using b(1) x Nil by (subst user_strncmp_loop.simps) (simp add: ucast_u8_inj)
  next
    case (Cons y ys)
    then have a: "ld m a = y" "holds m (a + 1) ys" "0 \<notin> set ys" using Cons.prems(1,2) by (auto simp: holds_Cons_iff)
    show ?thesis
    proof (cases "x = y \<and> pat \<noteq> []")
      case True
      then obtain r where "user_strncmp_loop m (a + 1) (b + 1) (word_of_nat (length pat)) = Some r" "r = 0 \<longleftrightarrow> prefix pat ys"
        using Cons.IH [OF a(2,3) b(2)] Cons.prems(4,6) by auto
      then show ?thesis using True a(1) b(1) x z \<open>xs = y # ys\<close> unfolding len by (subst user_strncmp_loop.simps) (simp add: len)
    next
      case False
      then show ?thesis using a(1) b(1) x z \<open>xs = y # ys\<close> by (subst user_strncmp_loop.simps) (auto simp: len ucast_u8_inj)
    qed
  qed
qed simp

text \<open>The first byte of the pattern is compared as a \<open>char\<close>: below 128 that is the comparison of the bytes.\<close>

lemma scast_ascii:
  assumes "(x :: u8) < 0x80"
  shows "(scast x :: i32) = ucast y \<longleftrightarrow> x = y"
proof -
  have "uint x < 2 ^ 7" using assms by (simp add: word_less_def)
  moreover have "- (2 ^ 7) \<le> uint x" by (rule order_trans [of _ 0]) simp_all
  ultimately have "sint x = uint x" using signed_take_bit_int_eq_self [of 7 "uint x"] by (simp add: sint_uint)
  then have "(scast x :: i32) = ucast x" by (metis of_int_sint of_int_uint)
  then show ?thesis by (simp add: ucast_u8_inj)
qed

section \<open>The program's memory\<close>

text \<open>A string outside the buffer and the screens.\<close>

definition text_at :: "addr \<Rightarrow> addr \<Rightarrow> u8 list \<Rightarrow> 'a machine_scheme \<Rightarrow> bool" where
  "text_at data a xs m \<longleftrightarrow> holds m a xs \<and> 0 \<notin> set xs \<and> a \<noteq> 0 \<and> length xs < 2 ^ 31
     \<and> (\<forall>j \<le> length xs. off_screens (xl m (a + word_of_nat j)) \<and> (\<forall>i < 1025. xl m (data + word_of_nat i) \<noteq> xl m (a + word_of_nat j)))"

text \<open>
  The file is open as descriptor \<open>i\<close>; \<open>data\<close> has its 1025 bytes, the last of which is not a line feed: the code looks at it before it
  has written it.
\<close>

definition grep_room ::
    "(string \<Rightarrow> addr) \<Rightarrow> u32 \<Rightarrow> u8 \<Rightarrow> nat \<Rightarrow> addr \<Rightarrow> u8 list \<Rightarrow> addr \<Rightarrow> u8 list \<Rightarrow> addr \<Rightarrow> 'a kernel_scheme \<Rightarrow> bool" where
  "grep_room lit p t i fname name pattern pat data m \<longleftrightarrow> tty p t m \<and> 2 \<le> i \<and> readable i data 1025 (in_kernel m) \<and> image_off m
     \<and> unat data + 1025 < 2 ^ 32 \<and> buffer_off data 1025 m \<and> ld m (data + 1024) \<noteq> 0x0A
     \<and> text_at data fname name m \<and> text_at data pattern pat m \<and> text_at data (lit '':'') [0x3A] m \<and> text_at data (lit newline) [0x0A] m
     \<and> pat \<noteq> [] \<and> hd pat < 0x80"

lemma text_at_kept:
  assumes "text_at data a xs m" "xl u = xl m"
    "\<And>q. off_screens q \<Longrightarrow> \<forall>i < 1025. xl m (data + word_of_nat i) \<noteq> q \<Longrightarrow> phys u q = phys m q"
  shows "text_at data a xs u"
proof -
  have ld: "ld u (a + word_of_nat j) = ld m (a + word_of_nat j)" if "j \<le> length xs" for j
    using assms that unfolding ld_def text_at_def by simp
  then have "read_bytes u a (length xs) = read_bytes m a (length xs)" by (intro read_bytes_eqI) simp
  then show ?thesis using assms(1,2) ld by (simp add: text_at_def holds_def)
qed

lemma grep_room_kept:
  assumes "grep_room lit p t i fname name pattern pat data m" "xl u = xl m"
    "\<And>q. off_screens q \<Longrightarrow> \<forall>i < 1025. xl m (data + word_of_nat i) \<noteq> q \<Longrightarrow> phys u q = phys m q"
    "tty p t u" "readable i data 1025 (in_kernel u)" "image_off u" "ld u (data + 1024) \<noteq> 0x0A"
  shows "grep_room lit p t i fname name pattern pat data u"
  using assms(1,2,4-7) text_at_kept [OF _ assms(2,3)] by (simp add: grep_room_def buffer_off_def)

lemma grep_room_facts:
  assumes "grep_room lit p t i fname name pattern pat data m"
  shows "tty p t m" "inj_on (\<lambda>i. xl m (data + word_of_nat i)) {..<1025}" "buffer_ok m data 1025" "unat t < 3"
  using assms by (simp_all add: grep_room_def readable_def fs_kernel tty_def) (simp add: buffer_ok_def)

lemma data_addr_nonzero: "grep_room lit p t i fname name pattern pat data m \<Longrightarrow> j \<le> 1024 \<Longrightarrow> data + word_of_nat j \<noteq> 0"
proof -
  assume "grep_room lit p t i fname name pattern pat data m" "j \<le> 1024"
  then have d: "unat data + j < 2 ^ 32" "data \<noteq> 0" by (simp_all add: grep_room_def readable_def)
  then have "unat (data + word_of_nat j) = unat data + j" using \<open>j \<le> 1024\<close> by (simp add: unat_word_ariths unat_of_nat_u32)
  moreover have "unat data \<noteq> 0" using d(2) by (simp add: unat_eq_0)
  ultimately show ?thesis by auto
qed

text \<open>Printing and writing to the buffer keep it.\<close>

lemma grep_room_prints:
  assumes "grep_room lit p t i fname name pattern pat data m" "prints_on t bs m u"
  shows "grep_room lit p t i fname name pattern pat data u" "stream i (in_kernel u) = stream i (in_kernel m)"
    "\<And>j. j < 1025 \<Longrightarrow> ld u (data + word_of_nat j) = ld m (data + word_of_nat j)"
proof -
  have scr: "screens_only m u" using assms(2) by (simp add: prints_on_def)
  have m: "tty p t m" "readable i data 1025 (in_kernel m)" "image_off m" using assms(1) by (simp_all add: grep_room_def)
  note pr = readable_prints [OF m assms(2)]
  show "stream i (in_kernel u) = stream i (in_kernel m)" by (rule pr)
  show ld: "ld u (data + word_of_nat j) = ld m (data + word_of_nat j)" if "j < 1025" for j
    using assms(1) that by (intro screens_only_ld [OF scr]) (simp add: grep_room_def buffer_off_def)
  show "grep_room lit p t i fname name pattern pat data u"
    by (rule grep_room_kept [OF assms(1) pr(4) _ pr(5,1,3)]) (use scr ld [of 1024] assms(1) in \<open>simp_all add: screens_only_def grep_room_def\<close>)
qed

lemma grep_room_write:
  assumes "grep_room lit p t i fname name pattern pat data m" "unchanged_outside m data 1025 u" "ld u (data + 1024) \<noteq> 0x0A"
  shows "grep_room lit p t i fname name pattern pat data u" "stream i (in_kernel u) = stream i (in_kernel m)" "shows_more t [] m u"
proof -
  have m: "tty p t m" "readable i data 1025 (in_kernel m)" "image_off m" "buffer_off data 1025 m"
    using assms(1) by (simp_all add: grep_room_def)
  have only: "only_phys m u" and out: "\<And>q. \<forall>i < 1025. xl m (data + word_of_nat i) \<noteq> q \<Longrightarrow> phys u q = phys m q"
    using assms(2) by (simp_all add: unchanged_outside_def)
  note k = only_phys_kernel [OF only] and fs = only_phys_fs [OF only]
  have xl: "xl u = xl m" by (rule only_phys_xl [OF only])
  note tty = tty_outside [OF m(1,4) assms(2)]
  have "img u b = img m b" if "b < fs_bytes m" for b
    using grep_room_facts(3) [OF assms(1)] that out unfolding img_def ld_def xl fs by (simp add: buffer_ok_def)
  then have "same_image m u" by (simp add: same_image_def fs)
  then have same: "same_image (in_kernel m) (in_kernel u)" by (simp only: same_image_kernel)
  have cur: "get_curr_pcb (in_kernel u) = get_curr_pcb (in_kernel m)" using tty_curr [OF tty(1)] tty_curr [OF m(1)] by simp
  note rs = readable_same [OF m(2) same _ _ cur]
  show "stream i (in_kernel u) = stream i (in_kernel m)" using rs(2) k xl by simp
  show "shows_more t [] m u" by (rule shows_more_same) (use tty(2) m(1) in \<open>simp_all add: tty_def\<close>)
  have "image_off u" using m(3) image_off_cong [of u m] xl fs by (simp add: fs_bytes_def)
  then show "grep_room lit p t i fname name pattern pat data u"
    by (intro grep_room_kept [OF assms(1) xl]) (use out tty(1) rs(1) k xl assms(3) in simp_all)
qed

section \<open>Searching a line\<close>

lemma prints_on_trans: "prints_on t xs s u \<Longrightarrow> prints_on t ys u v \<Longrightarrow> prints_on t (xs @ ys) s v"
  by (auto simp: prints_on_def intro: scr.frame_trans shows_more_trans)

lemma prints_on_nothing: "tty p t s \<Longrightarrow> prints_on t [] s s"
  by (simp add: prints_on_def tty_def scr.frame_refl shows_more_def)

lemma puts_holds:
  assumes "tty p t m" "holds m a xs" "0 \<notin> set xs" "a \<noteq> 0" "length xs < 2 ^ 31" "buffer_off a (length xs) m"
  shows "\<exists>u. ece391_fdputs 1 a m = Some u \<and> prints_on t xs m u"
  using user_puts [OF assms(1) holds_cstr [OF assms(2,3)] assms(6,5,4)] assms(2) by (auto simp: holds_def)

lemma puts_text:
  assumes "grep_room lit p t i fname name pattern pat data m" "text_at data a xs m"
  shows "\<exists>u. ece391_fdputs 1 a m = Some u \<and> prints_on t xs m u \<and> grep_room lit p t i fname name pattern pat data u"
  using puts_holds [OF grep_room_facts(1) [OF assms(1)], of a xs] assms(2) grep_room_prints(1) [OF assms(1)]
  by (fastforce simp: text_at_def buffer_off_def)

lemma holds_drop:
  assumes "holds m a l" "c \<le> length l"
  shows "holds m (a + word_of_nat c) (drop c l)"
proof -
  have "l = read_bytes m a c @ read_bytes m (a + word_of_nat c) (length l - c)"
    using assms read_bytes_append [of m a c "length l - c"] by (simp add: holds_def)
  then have "drop c l = read_bytes m (a + word_of_nat c) (length l - c)" by (metis append_eq_conv_conj length_read_bytes)
  moreover have "word_of_nat (length l) = word_of_nat c + (word_of_nat (length l - c) :: u32)" using assms(2) by (metis le_add_diff_inverse of_nat_add)
  ultimately show ?thesis using assms(1) by (simp add: holds_def add.assoc)
qed

text \<open>The line \<open>l\<close> is in the buffer at \<open>k\<close>, with a NUL behind it.\<close>

lemma print_match:
  assumes "grep_room lit p t i fname name pattern pat data m" "holds m (data + word_of_nat k) l" "0 \<notin> set l" "k + length l \<le> 1024"
  shows "\<exists>u. do { m \<leftarrow> ece391_fdputs 1 fname m; m \<leftarrow> ece391_fdputs 1 (lit '':'') m;
                 m \<leftarrow> ece391_fdputs 1 (data + word_of_nat k) m; ece391_fdputs 1 (lit newline) m } = Some u
    \<and> prints_on t (name @ [0x3A] @ l @ [0x0A]) m u"
proof -
  obtain u1 where u1: "ece391_fdputs 1 fname m = Some u1" "prints_on t name m u1" "grep_room lit p t i fname name pattern pat data u1"
    using puts_text [OF assms(1)] assms(1) unfolding grep_room_def by blast
  obtain u2 where u2: "ece391_fdputs 1 (lit '':'') u1 = Some u2" "prints_on t [0x3A] u1 u2" "grep_room lit p t i fname name pattern pat data u2"
    using puts_text [OF u1(3)] u1(3) unfolding grep_room_def by blast
  have p2: "prints_on t (name @ [0x3A]) m u2" by (rule prints_on_trans [OF u1(2) u2(2)])
  note same = grep_room_prints(3) [OF assms(1) p2]
  have byte: "ld u2 (data + word_of_nat k + word_of_nat j) = ld m (data + word_of_nat k + word_of_nat j)" if "j \<le> length l" for j
    using same [of "k + j"] that assms(4) by (simp add: ac_simps)
  then have "read_bytes u2 (data + word_of_nat k) (length l) = read_bytes m (data + word_of_nat k) (length l)" by (intro read_bytes_eqI) simp
  then have h: "holds u2 (data + word_of_nat k) l" using assms(2) byte by (simp add: holds_def)
  have off: "off_screens (xl u2 (data + word_of_nat (k + j)))" if "j < length l" for j
    using u2(3) assms(4) that by (simp add: grep_room_def buffer_off_def del: of_nat_add)
  have "buffer_off (data + word_of_nat k) (length l) u2" unfolding buffer_off_def using off by (simp add: ac_simps)
  then obtain u3 where u3: "ece391_fdputs 1 (data + word_of_nat k) u2 = Some u3" "prints_on t l u2 u3"
    using puts_holds [OF grep_room_facts(1) [OF u2(3)] h assms(3)] data_addr_nonzero [OF u2(3), of k] assms(4) by fastforce
  note r3 = grep_room_prints(1) [OF u2(3) u3(2)]
  obtain u4 where u4: "ece391_fdputs 1 (lit newline) u3 = Some u4" "prints_on t [0x0A] u3 u4"
    using puts_text [OF r3] r3 unfolding grep_room_def by blast
  show ?thesis
    using u1(1) u2(1) u3(1) u4(1) prints_on_trans [OF prints_on_trans [OF p2 u3(2)] u4(2)] by simp
qed

lemma grep_search_from:
  assumes "grep_room lit p t i fname name pattern pat data m" "holds m (data + word_of_nat k) l" "0 \<notin> set l" "k + length l \<le> 1024" "c \<le> length l"
  shows "\<exists>u. grep_search lit pattern (word_of_nat (length pat)) fname data (int k) (int (k + length l)) (int (k + c)) m = Some u
    \<and> prints_on t (if sublist pat (drop c l) then name @ [0x3A] @ l @ [0x0A] else []) m u"
  using assms(5)
proof (induction "length l - c" arbitrary: c)
  case 0
  have "pat \<noteq> []" using assms(1) by (simp add: grep_room_def)
  then show ?case
    using 0 prints_on_nothing [OF grep_room_facts(1) [OF assms(1)]] by (subst grep_search.simps) simp
next
  case (Suc d)
  have pat: "pat \<noteq> []" "hd pat < 0x80" "read_bytes m pattern (length pat) = pat" "0 \<notin> set pat" "length pat < 2 ^ 31"
    using assms(1) by (simp_all add: grep_room_def text_at_def holds_def)
  have c: "c < length l" using Suc by simp
  have ad: "data + word_of_int (int (k + c)) = data + word_of_nat k + word_of_nat c" by (simp add: ac_simps)
  have tail: "holds m (data + word_of_nat k + word_of_nat c) (drop c l)" "0 \<notin> set (drop c l)"
    using holds_drop [OF assms(2), of c] assms(3) c by (auto dest: in_set_dropD)
  have dl: "drop c l = l ! c # drop (Suc c) l" using c by (simp add: Cons_nth_drop_Suc)
  have b: "ld m (data + word_of_nat k + word_of_nat c) = l ! c" using tail(1) dl by (simp add: holds_Cons_iff)
  have p0: "ld m pattern = hd pat" using pat(1,3) by (cases pat) (simp_all add: read_bytes_Suc)
  define r where "r = (if (scast (ld m pattern) :: i32) = ucast (l ! c)
      then ece391_strncmp m (data + word_of_nat k + word_of_nat c) pattern (word_of_nat (length pat)) else Some 1)"
  have "\<exists>v. r = Some v \<and> (v = 0 \<longleftrightarrow> prefix pat (drop c l))"
  proof (cases "hd pat = l ! c")
    case True
    moreover have "word_of_nat (length pat) \<noteq> (0 :: u32)" using small_count(2) [of "length pat"] pat by simp
    ultimately show ?thesis
      using user_strncmp_prefix [OF tail pat(3,4,1)] pat(2,5) p0 scast_ascii by (auto simp: r_def ece391_strncmp_def)
  next
    case False
    then show ?thesis using p0 scast_ascii [OF pat(2)] pat(1) dl by (cases pat) (auto simp: r_def)
  qed
  then obtain v where v: "r = Some v" "v = 0 \<longleftrightarrow> prefix pat (drop c l)" by blast
  have sub: "sublist pat (drop c l) \<longleftrightarrow> prefix pat (drop c l) \<or> sublist pat (drop (Suc c) l)" by (simp add: dl sublist_Cons_right)
  have step: "grep_search lit pattern (word_of_nat (length pat)) fname data (int k) (int (k + length l)) (int (k + c)) m =
      (if v = 0 then do { m \<leftarrow> ece391_fdputs 1 fname m; m \<leftarrow> ece391_fdputs 1 (lit '':'') m;
                 m \<leftarrow> ece391_fdputs 1 (data + word_of_nat k) m; ece391_fdputs 1 (lit newline) m }
       else grep_search lit pattern (word_of_nat (length pat)) fname data (int k) (int (k + length l)) (int (k + Suc c)) m)"
    unfolding grep_search.simps [of _ _ _ _ _ _ _ "int (k + c)"] ad b r_def [symmetric] v(1) using c by (simp add: ac_simps)
  show ?case
  proof (cases "v = 0")
    case True
    then show ?thesis using step print_match [OF assms(1-4)] v(2) sub by simp
  next
    case False
    then show ?thesis using step Suc.hyps(1) [of "Suc c"] Suc.hyps(2) c v(2) sub by simp
  qed
qed

lemma grep_search_line:
  assumes "grep_room lit p t i fname name pattern pat data m" "holds m (data + word_of_nat k) l" "0 \<notin> set l" "k + length l \<le> 1024"
  shows "\<exists>u. grep_search lit pattern (word_of_nat (length pat)) fname data (int k) (int (k + length l)) (int k) m = Some u
    \<and> prints_on t (match_text name pat l) m u"
  using grep_search_from [OF assms, of 0] by (simp add: match_text_def)


section \<open>The lines of the buffer\<close>

lemma data_st:
  assumes "inj_on (\<lambda>i. xl m (data + word_of_nat i)) {..<1025}" "j < 1025" "q < 1025"
  shows "ld (st (data + word_of_nat j) x m) (data + word_of_nat q) = (if q = j then x else ld m (data + word_of_nat q))"
  using inj_onD [OF assms(1), of j q] assms(2,3) by (auto simp: ld_st)

lemma grep_line_end_eq:
  "k \<le> n \<Longrightarrow> grep_line_end data (int n) (int k) m =
     int (k + length (takeWhile (\<lambda>c. c \<noteq> 0x0A) (read_bytes m (data + word_of_nat k) (n - k))))"
proof (induction "n - k" arbitrary: k)
  case 0
  then show ?case by (subst grep_line_end.simps) (simp add: read_bytes_def)
next
  case (Suc d)
  then have n: "n - k = Suc (n - Suc k)" "k < n" by simp_all
  then have "grep_line_end data (int n) (int (Suc k)) m =
      int (Suc k + length (takeWhile (\<lambda>c. c \<noteq> 0x0A) (read_bytes m (data + word_of_nat (Suc k)) (n - Suc k))))"
    by (intro Suc.hyps(1)) (use Suc.hyps(2) in simp_all)
  then show ?case unfolding n(1) read_bytes_Suc using n(2) by (subst grep_line_end.simps) (simp add: ac_simps)
qed

text \<open>The copy to the front of the buffer overlaps its source.\<close>

lemma strcpy_down:
  assumes "inj_on (\<lambda>i. xl m (data + word_of_nat i)) {..<1025}" "j < k" "k + length xs \<le> 1024" "holds m (data + word_of_nat k) xs" "0 \<notin> set xs"
  shows "\<exists>u. ece391_strcpy (data + word_of_nat j) (data + word_of_nat k) m = Some u \<and> unchanged_outside m data 1025 u
    \<and> holds u (data + word_of_nat j) xs \<and> (\<forall>q < 1025. q < j \<or> j + length xs < q \<longrightarrow> ld u (data + word_of_nat q) = ld m (data + word_of_nat q))"
  using assms
proof (induction xs arbitrary: j k m)
  case Nil
  let ?u = "st (data + word_of_nat j) 0 m"
  have "ece391_strcpy (data + word_of_nat j) (data + word_of_nat k) m = Some ?u"
    using Nil.prems(4) by (subst ece391_strcpy.simps) (simp add: holds_Nil)
  then show ?case using Nil.prems data_st [OF Nil.prems(1), of j _ 0] unchanged_st [of j 1025 m data 0] by (simp add: holds_Nil)
next
  case (Cons x xs)
  let ?m = "st (data + word_of_nat j) x m"
  have x: "ld m (data + word_of_nat k) = x" "x \<noteq> 0" "holds m (data + word_of_nat (Suc k)) xs"
    using Cons.prems(4,5) by (auto simp: holds_Cons_iff ac_simps)
  have byte: "ld ?m (data + word_of_nat q) = (if q = j then x else ld m (data + word_of_nat q))" if "q < 1025" for q
    using data_st [OF Cons.prems(1) _ that] Cons.prems(2,3) by simp
  have "ld ?m (data + word_of_nat (Suc k) + word_of_nat q) = ld m (data + word_of_nat (Suc k) + word_of_nat q)" if "q \<le> length xs" for q
    using byte [of "Suc k + q"] that Cons.prems(2,3) by (simp add: ac_simps)
  then have "holds ?m (data + word_of_nat (Suc k)) xs"
    using x(3) read_bytes_eqI [of "length xs" ?m "data + word_of_nat (Suc k)" m "data + word_of_nat (Suc k)"] by (simp add: holds_def)
  then obtain u where u: "ece391_strcpy (data + word_of_nat (Suc j)) (data + word_of_nat (Suc k)) ?m = Some u" "unchanged_outside ?m data 1025 u"
      "holds u (data + word_of_nat (Suc j)) xs"
      "\<forall>q < 1025. q < Suc j \<or> Suc j + length xs < q \<longrightarrow> ld u (data + word_of_nat q) = ld ?m (data + word_of_nat q)"
    using Cons.IH [of ?m "Suc j" "Suc k"] Cons.prems by auto
  have "ece391_strcpy (data + word_of_nat j) (data + word_of_nat k) m = Some u"
    using u(1) x(1,2) by (subst ece391_strcpy.simps) (simp add: ac_simps)
  moreover have "unchanged_outside m data 1025 u"
    by (rule unchanged_trans [OF unchanged_st u(2)]) (use Cons.prems(2,3) in simp)
  moreover have "ld u (data + word_of_nat j) = x" using u(4) byte [of j] Cons.prems(2,3) by simp
  then have "holds u (data + word_of_nat j) (x # xs)" using u(3) by (simp add: holds_Cons_iff ac_simps)
  moreover have "\<forall>q < 1025. q < j \<or> j + length (x # xs) < q \<longrightarrow> ld u (data + word_of_nat q) = ld m (data + word_of_nat q)"
    using u(4) byte by simp
  ultimately show ?case by blast
qed

text \<open>The end of a line is marked with a NUL.\<close>

lemma mark_end:
  assumes "grep_room lit p t i fname name pattern pat data m" "read_bytes m (data + word_of_nat k) (length l) = l" "k + length l \<le> 1024"
  defines "u \<equiv> st (data + word_of_nat (k + length l)) 0 m"
  shows "grep_room lit p t i fname name pattern pat data u" "stream i (in_kernel u) = stream i (in_kernel m)" "shows_more t [] m u"
    "holds u (data + word_of_nat k) l" "unchanged_outside m data 1025 u"
    "\<And>q. q < 1025 \<Longrightarrow> q \<noteq> k + length l \<Longrightarrow> ld u (data + word_of_nat q) = ld m (data + word_of_nat q)"
proof -
  note inj = grep_room_facts(2) [OF assms(1)]
  show un: "unchanged_outside m data 1025 u" unfolding u_def by (rule unchanged_st) (use assms(3) in simp)
  have byte: "ld u (data + word_of_nat q) = (if q = k + length l then 0 else ld m (data + word_of_nat q))" if "q < 1025" for q
    unfolding u_def by (rule data_st [OF inj _ that]) (use assms(3) in simp)
  then show "\<And>q. q < 1025 \<Longrightarrow> q \<noteq> k + length l \<Longrightarrow> ld u (data + word_of_nat q) = ld m (data + word_of_nat q)" by simp
  have "ld m (data + 1024) \<noteq> 0x0A" using assms(1) by (simp add: grep_room_def)
  then have "ld u (data + 1024) \<noteq> 0x0A" using byte [of 1024] by simp
  note w = grep_room_write [OF assms(1) un this]
  show "grep_room lit p t i fname name pattern pat data u" "stream i (in_kernel u) = stream i (in_kernel m)" "shows_more t [] m u" by (rule w)+
  have "read_bytes u (data + word_of_nat k) (length l) = read_bytes m (data + word_of_nat k) (length l)"
    by (rule read_bytes_eqI) (use byte [of "k + _"] assms(3) in \<open>simp add: ac_simps\<close>)
  then show "holds u (data + word_of_nat k) l" using assms(2) byte [of "k + length l"] assms(3) by (simp add: holds_def ac_simps)
qed

lemma search_marked:
  assumes "grep_room lit p t i fname name pattern pat data m" "read_bytes m (data + word_of_nat k) (length l) = l" "k + length l \<le> 1024" "0 \<notin> set l"
  shows "\<exists>u. grep_search lit pattern (word_of_nat (length pat)) fname data (int k) (int (k + length l)) (int k)
        (st (data + word_of_nat (k + length l)) 0 m) = Some u
    \<and> grep_room lit p t i fname name pattern pat data u \<and> stream i (in_kernel u) = stream i (in_kernel m)
    \<and> shows_more t (match_text name pat l) m u
    \<and> (\<forall>q < 1025. q \<noteq> k + length l \<longrightarrow> ld u (data + word_of_nat q) = ld m (data + word_of_nat q))"
proof -
  note e = mark_end [OF assms(1-3)]
  obtain u where u: "grep_search lit pattern (word_of_nat (length pat)) fname data (int k) (int (k + length l)) (int k)
        (st (data + word_of_nat (k + length l)) 0 m) = Some u" "prints_on t (match_text name pat l) (st (data + word_of_nat (k + length l)) 0 m) u"
    using grep_search_line [OF e(1,4) assms(4,3)] by blast
  then have "shows_more t (match_text name pat l) m u" using shows_more_trans [OF e(3)] by (simp add: prints_on_def)
  then show ?thesis using u(1) grep_room_prints [OF e(1) u(2)] e(2,6) by simp
qed


definition lines_done ::
    "(string \<Rightarrow> addr) \<Rightarrow> u32 \<Rightarrow> u8 \<Rightarrow> nat \<Rightarrow> addr \<Rightarrow> u8 list \<Rightarrow> addr \<Rightarrow> u8 list \<Rightarrow> addr \<Rightarrow> u8 list \<Rightarrow> u8 list \<Rightarrow> 'a kernel_scheme \<Rightarrow> 'a kernel_scheme \<Rightarrow> bool" where
  "lines_done lit p t i fname name pattern pat data pre left m u \<longleftrightarrow> grep_room lit p t i fname name pattern pat data u
     \<and> stream i (in_kernel u) = stream i (in_kernel m) \<and> read_bytes u data (length left) = left \<and> 0x0A \<notin> set left
     \<and> (whole_lines pre \<or> left = []) \<and> shows_more t (grep_text name pat pre) m u"

text \<open>A last line without its line feed is moved to the front, unless it starts there or the file has ended.\<close>

lemma move_line:
  assumes "grep_room lit p t i fname name pattern pat data m" "read_bytes m (data + word_of_nat k) (length l) = l" "0 < k" "k + length l \<le> 1024"
    "0 \<notin> set l" "0x0A \<notin> set l"
  shows "\<exists>u. ece391_strcpy data (data + word_of_nat k) (st (data + word_of_nat (k + length l)) 0 m) = Some u
    \<and> lines_done lit p t i fname name pattern pat data [] l m u"
proof -
  let ?m = "st (data + word_of_nat (k + length l)) 0 m"
  note e = mark_end [OF assms(1,2,4)]
  obtain u where u: "ece391_strcpy data (data + word_of_nat k) ?m = Some u" "unchanged_outside ?m data 1025 u" "holds u data l"
      "\<forall>q < 1025. length l < q \<longrightarrow> ld u (data + word_of_nat q) = ld ?m (data + word_of_nat q)"
    using strcpy_down [OF grep_room_facts(2) [OF e(1)] assms(3,4) e(4) assms(5)] by auto
  have "ld ?m (data + 1024) \<noteq> 0x0A" using e(1) by (simp add: grep_room_def)
  then have "ld u (data + 1024) \<noteq> 0x0A" using u(4) [rule_format, of 1024] assms(3,4) by simp
  note w = grep_room_write [OF e(1) u(2) this]
  have "shows_more t [] m u" using shows_more_trans [OF e(3) w(3)] by simp
  then show ?thesis using u(1,3) w(1,2) e(2) assms(6) by (simp add: lines_done_def holds_def whole_lines_def grep_text_def)
qed

lemma lines_done_line:
  assumes "lines_done lit p t i fname name pattern pat data pre left v u" "stream i (in_kernel v) = stream i (in_kernel m)"
    "shows_more t (match_text name pat l) m v" "0x0A \<notin> set l"
  shows "lines_done lit p t i fname name pattern pat data (l @ 0x0A # pre) left m u"
  using assms shows_more_trans [OF assms(3)] by (auto simp: lines_done_def whole_lines_def grep_text_def)

lemma grep_lines_last:
  fixes cnt :: i32
  assumes "grep_room lit p t i fname name pattern pat data m" "k \<le> n" "n \<le> 1024" "0 \<notin> set rest"
    "rest = read_bytes m (data + word_of_nat k) (n - k)" "0x0A \<notin> set rest"
  shows "\<exists>u pre left. grep_lines lit pattern (word_of_nat (length pat)) fname data cnt (int n) (int k) m = Some (int (length left), u)
    \<and> rest = pre @ left \<and> lines_done lit p t i fname name pattern pat data pre left m u
    \<and> (cnt = 0 \<longrightarrow> left = []) \<and> (cnt \<noteq> 0 \<and> n = 1024 \<and> (k \<noteq> 0 \<or> 0x0A \<in> set rest) \<longrightarrow> whole_lines pre)"
proof -
  have n: "n = k + length rest" "k + length rest \<le> 1024" "read_bytes m (data + word_of_nat k) (length rest) = rest" using assms(2,3,5) by simp_all
  have pat: "pat \<noteq> []" using assms(1) by (simp add: grep_room_def)
  have tw: "takeWhile (\<lambda>c. c \<noteq> 0x0A) rest = rest" using assms(6) by auto
  have le: "grep_line_end data (int n) (int k) m = int (k + length rest)" by (simp only: grep_line_end_eq [OF assms(2)] assms(5) [symmetric] tw)
  let ?g = "grep_lines lit pattern (word_of_nat (length pat)) fname data cnt (int n) (int k) m"
  show ?thesis
  proof (cases "ld m (data + word_of_nat (k + length rest)) \<noteq> 0x0A \<and> cnt \<noteq> 0 \<and> k \<noteq> 0")
    case True
    then obtain u where u: "ece391_strcpy data (data + word_of_nat k) (st (data + word_of_nat (k + length rest)) 0 m) = Some u"
        "lines_done lit p t i fname name pattern pat data [] rest m u"
      using move_line [OF assms(1) n(3) _ n(2) assms(4,6)] by auto
    have "?g = Some (int (length rest), u)"
      unfolding grep_lines.simps [of _ _ _ _ _ _ _ "int k"] le using True u(1) n(1) by simp
    then show ?thesis using True u(2) by (intro exI [of _ u] exI [of _ "[]"] exI [of _ rest]) (simp add: whole_lines_def)
  next
    case False
    obtain u where u: "grep_search lit pattern (word_of_nat (length pat)) fname data (int k) (int (k + length rest)) (int k)
        (st (data + word_of_nat (k + length rest)) 0 m) = Some u" "grep_room lit p t i fname name pattern pat data u"
        "stream i (in_kernel u) = stream i (in_kernel m)" "shows_more t (match_text name pat rest) m u"
      using search_marked [OF assms(1) n(3,2) assms(4)] by blast
    have "?g = Some (0, u)"
      unfolding grep_lines.simps [of _ _ _ _ _ _ _ "int k"] le Let_def using False u(1) n(1) by (auto simp del: of_nat_add)
    moreover have "ld m (data + 1024) \<noteq> 0x0A" using assms(1) by (simp add: grep_room_def)
    then have "cnt = 0 \<or> n \<noteq> 1024 \<or> k = 0" using False n(1) by (auto simp del: of_nat_add)
    ultimately show ?thesis
      using u(2-4) assms(6) grep_text_line [OF assms(6) pat]
      by (intro exI [of _ u] exI [of _ rest] exI [of _ "[]"]) (auto simp: lines_done_def read_bytes_def)
  qed
qed


text \<open>A line that ends in the buffer is searched, and the loop goes on behind it.\<close>

lemma grep_lines_step:
  fixes cnt :: i32
  assumes "grep_room lit p t i fname name pattern pat data m" "k \<le> n" "n \<le> 1024" "0 \<notin> set l"
    "l @ 0x0A # ys = read_bytes m (data + word_of_nat k) (n - k)" "0x0A \<notin> set l"
  shows "\<exists>v. grep_lines lit pattern (word_of_nat (length pat)) fname data cnt (int n) (int k) m =
        (if ys = [] then Some (0, v)
         else grep_lines lit pattern (word_of_nat (length pat)) fname data cnt (int n) (int (k + length l + 1)) v)
    \<and> grep_room lit p t i fname name pattern pat data v \<and> stream i (in_kernel v) = stream i (in_kernel m)
    \<and> shows_more t (match_text name pat l) m v \<and> n = k + length l + 1 + length ys
    \<and> ys = read_bytes v (data + word_of_nat (k + length l + 1)) (n - (k + length l + 1))"
proof -
  have n: "n = k + length l + 1 + length ys" "k + length l \<le> 1024" "n - k = length l + Suc (length ys)"
    using assms(2,3) arg_cong [OF assms(5), of length] by simp_all
  have parts: "read_bytes m (data + word_of_nat k) (length l) = l" "ld m (data + word_of_nat (k + length l)) = 0x0A"
      "read_bytes m (data + word_of_nat (k + length l + 1)) (length ys) = ys"
    using assms(5) unfolding n(3) read_bytes_append by (simp_all add: read_bytes_Suc ac_simps)
  have "c \<noteq> 0x0A" if "c \<in> set l" for c using that assms(6) by auto
  then have tw: "takeWhile (\<lambda>c. c \<noteq> 0x0A) (l @ 0x0A # ys) = l" by (simp add: takeWhile_append2)
  have le: "grep_line_end data (int n) (int k) m = int (k + length l)" by (simp only: grep_line_end_eq [OF assms(2)] assms(5) [symmetric] tw)
  obtain v where v: "grep_search lit pattern (word_of_nat (length pat)) fname data (int k) (int (k + length l)) (int k)
      (st (data + word_of_nat (k + length l)) 0 m) = Some v" "grep_room lit p t i fname name pattern pat data v"
      "stream i (in_kernel v) = stream i (in_kernel m)" "shows_more t (match_text name pat l) m v"
      "\<forall>q < 1025. q \<noteq> k + length l \<longrightarrow> ld v (data + word_of_nat q) = ld m (data + word_of_nat q)"
    using search_marked [OF assms(1) parts(1) n(2) assms(4)] by blast
  have "grep_lines lit pattern (word_of_nat (length pat)) fname data cnt (int n) (int k) m =
      (if ys = [] then Some (0, v)
       else grep_lines lit pattern (word_of_nat (length pat)) fname data cnt (int n) (int (k + length l + 1)) v)"
    unfolding grep_lines.simps [of _ _ _ _ _ _ _ "int k"] le Let_def using v(1) parts(2) n(1) by (simp add: ac_simps)
  moreover have "ld v (data + word_of_nat (k + length l + 1) + word_of_nat q) = ld m (data + word_of_nat (k + length l + 1) + word_of_nat q)"
    if "q < length ys" for q
    using v(5) [rule_format, of "k + length l + 1 + q"] that n assms(3) by (simp add: ac_simps)
  then have "read_bytes v (data + word_of_nat (k + length l + 1)) (length ys) = ys" using parts(3) read_bytes_eqI by metis
  ultimately show ?thesis using v(2-4) n(1) by auto
qed

lemma grep_lines_done:
  fixes cnt :: i32
  assumes "grep_room lit p t i fname name pattern pat data m" "k \<le> n" "n \<le> 1024" "0 \<notin> set rest"
    "rest = read_bytes m (data + word_of_nat k) (n - k)"
  shows "\<exists>u pre left. grep_lines lit pattern (word_of_nat (length pat)) fname data cnt (int n) (int k) m = Some (int (length left), u)
    \<and> rest = pre @ left \<and> lines_done lit p t i fname name pattern pat data pre left m u
    \<and> (cnt = 0 \<longrightarrow> left = []) \<and> (cnt \<noteq> 0 \<and> n = 1024 \<and> (k \<noteq> 0 \<or> 0x0A \<in> set rest) \<longrightarrow> whole_lines pre)"
  using assms
proof (induction "length rest" arbitrary: k m rest rule: less_induct)
  case less
  show ?case
  proof (cases rest rule: line_cases)
    case last
    then show ?thesis by (rule grep_lines_last [OF less.prems])
  next
    case (line l ys)
    have l0: "0 \<notin> set l" "0 \<notin> set ys" using less.prems(4) line(1) by simp_all
    let ?g = "\<lambda>k m. grep_lines lit pattern (word_of_nat (length pat)) fname data cnt (int n) (int k) m"
    obtain v where step: "?g k m = (if ys = [] then Some (0, v) else ?g (k + length l + 1) v)"
      and v: "grep_room lit p t i fname name pattern pat data v" "stream i (in_kernel v) = stream i (in_kernel m)"
        "shows_more t (match_text name pat l) m v" "n = k + length l + 1 + length ys"
        "ys = read_bytes v (data + word_of_nat (k + length l + 1)) (n - (k + length l + 1))"
      using grep_lines_step [OF less.prems(1-3) l0(1) less.prems(5) [unfolded line(1)] line(2), of cnt] by (elim exE conjE) (rule that)
    show ?thesis
    proof (cases "ys = []")
      case True
      have "lines_done lit p t i fname name pattern pat data [] [] v v"
        using v(1) shows_more_same [of v v t] grep_room_facts(4) [OF v(1)] by (simp add: lines_done_def grep_text_def read_bytes_def)
      from lines_done_line [OF this v(2,3) line(2)] show ?thesis
        using step True line(1) by (intro exI [of _ v] exI [of _ rest] exI [of _ "[]"]) (simp add: whole_lines_def)
    next
      case False
      have ys: "length ys < length rest" "k + length l + 1 \<le> n" using v(4) line(1) by simp_all
      obtain u pre left where u: "?g (k + length l + 1) v = Some (int (length left), u)" "ys = pre @ left"
          "lines_done lit p t i fname name pattern pat data pre left v u" "cnt = 0 \<longrightarrow> left = []"
          "cnt \<noteq> 0 \<and> n = 1024 \<and> (k + length l + 1 \<noteq> 0 \<or> 0x0A \<in> set ys) \<longrightarrow> whole_lines pre"
        using less.hyps [OF ys(1) v(1) ys(2) less.prems(3) l0(2) v(5)] by (elim exE conjE) (rule that)
      have g: "?g k m = Some (int (length left), u)" unfolding step using False u(1) by (simp only: if_False)
      have "whole_lines (l @ 0x0A # pre)" if "whole_lines pre" using that by (auto simp: whole_lines_def)
      then have "cnt \<noteq> 0 \<and> n = 1024 \<and> (k \<noteq> 0 \<or> 0x0A \<in> set rest) \<longrightarrow> whole_lines (l @ 0x0A # pre)" using u(5) by simp
      moreover have "rest = (l @ 0x0A # pre) @ left" using line(1) u(2) by simp
      ultimately show ?thesis using g lines_done_line [OF u(3) v(2,3) line(2)] u(4) by (intro exI conjI)
    qed
  qed
qed

section \<open>The file\<close>

lemma readable_part:
  assumes "grep_room lit p t i fname name pattern pat data m" "j \<le> 1024"
  shows "readable i (data + word_of_nat j) (1024 - j) (in_kernel m)"
proof -
  have r: "readable i data 1025 (in_kernel m)" using assms(1) by (simp add: grep_room_def)
  then have "buffer_ok (in_kernel m) data (j + (1024 - j))" using assms(2) buffer_mono [of "in_kernel m" data 1025] by (simp add: readable_def)
  from buffer_shift [OF this] show ?thesis using r data_addr_nonzero [OF assms] by (simp add: readable_def)
qed

text \<open>A \<open>read\<close> puts the next bytes of the file behind what is kept in the buffer.\<close>

lemma read_more:
  assumes "grep_room lit p t i fname name pattern pat data m" "read_bytes m data (length left) = left" "length left < 1024"
  defines "xs \<equiv> take (1024 - length left) (stream i (in_kernel m))"
  shows "\<exists>u. ece391_read (word_of_nat i) (data + word_of_nat (length left)) (word_of_nat (1024 - length left)) m = Some (word_of_nat (length xs), u)
    \<and> grep_room lit p t i fname name pattern pat data u \<and> stream i (in_kernel u) = drop (1024 - length left) (stream i (in_kernel m))
    \<and> shows_more t [] m u \<and> read_bytes u data (length (left @ xs)) = left @ xs"
proof -
  let ?j = "length left"
  let ?a = "data + word_of_nat ?j" and ?n = "1024 - length left"
  define w where "w = write_list ?a xs m"
  define u where "u = fd_upd (get_pcb_by_index p) i (\<lambda>f. f\<lparr>file_pos := file_pos f + word_of_nat (length xs)\<rparr>) w"
  have m: "tty p t m" "2 \<le> i" "image_off m" "buffer_off data 1025 m" "readable i data 1025 (in_kernel m)" using assms(1) by (simp_all add: grep_room_def)
  have len: "?j + length xs \<le> 1024" using assms(3) by (simp add: xs_def)
  note rd = user_read [OF m(1) readable_part [OF assms(1)] order_refl, of ?j, folded xs_def, folded w_def, folded u_def, OF less_imp_le [OF assms(3)]]
  note inj = grep_room_facts(2) [OF assms(1)]
  have at: "?a + word_of_nat q = data + word_of_nat (?j + q)" for q by (simp add: ac_simps)
  have out: "unchanged_outside m data 1025 w"
  proof -
    have "phys w q = phys m q" if "\<forall>r < 1025. xl m (data + word_of_nat r) \<noteq> q" for q
      unfolding w_def by (rule phys_write_list_outside) (use that len in \<open>simp add: at del: of_nat_add\<close>)
    then show ?thesis by (simp add: unchanged_outside_def w_def only_phys_write_list)
  qed
  have "buffer_off ?a (length xs) m" unfolding buffer_off_def at using m(4) len by (simp add: buffer_off_def del: of_nat_add)
  note u = read_frame [OF m(1,2) this, folded w_def, folded u_def]
  have ld: "ld u (data + word_of_nat q) = ld m (data + word_of_nat q)" if "q < 1025" "q < ?j \<or> ?j + length xs \<le> q" for q
  proof -
    have "ld w (data + word_of_nat q) = ld m (data + word_of_nat q)"
      unfolding w_def
    proof (rule ld_write_list_outside, unfold at)
      fix r assume "r < length xs"
      then show "xl m (data + word_of_nat (?j + r)) \<noteq> xl m (data + word_of_nat q)"
        using inj_onD [OF inj, of "?j + r" q] that len by (auto simp del: of_nat_add)
    qed
    then show ?thesis by (simp add: ld_def u w_def)
  qed
  have "readable i data 1025 (in_kernel u)" using rd(3) m(5) u by (simp add: readable_def buffer_ok_def fs_bytes_def)
  moreover have "ld m (data + 1024) \<noteq> 0x0A" using assms(1) by (simp add: grep_room_def)
  then have "ld u (data + 1024) \<noteq> 0x0A" using ld [of 1024] len by simp
  ultimately have room: "grep_room lit p t i fname name pattern pat data u"
    using u(1,7) m(3) out by (intro grep_room_kept [OF assms(1) u(3)]) (simp_all add: u(4) unchanged_outside_def)
  have "read_bytes u data ?j = read_bytes m data ?j" by (rule read_bytes_eqI) (use ld len in simp)
  then have "read_bytes u data (length (left @ xs)) = left @ xs" using assms(2) rd(2) by (simp add: read_bytes_append)
  then show ?thesis using rd(1,4) room u(2) by blast
qed

lemma user_close_file:
  assumes "tty p t m" "readable i buf n (in_kernel m)" "2 \<le> i"
  shows "ece391_close (word_of_nat i) m = Some (0, fd_upd (get_pcb_by_index p) i (\<lambda>f. f\<lparr>flags := NOT_IN_USE\<rparr>) m)"
proof -
  have r: "i < 8" "flags (own_files p m ! i) \<noteq> NOT_IN_USE" "ptrs (own_files p m ! i) = File_funcs" "length (own_files p m) = 8"
    using assms(2) tty_curr [OF assms(1)] by (simp_all add: readable_def)
  then have "sys_close (word_of_nat i) (in_kernel m) = Some (0, fd_upd (get_pcb_by_index p) i (\<lambda>f. f\<lparr>flags := NOT_IN_USE\<rparr>) (in_kernel m))"
    using tty_curr [OF assms(1)] sint_fd [OF r(1)] unat_of_nat_u32 [of i] assms(3)
    by (simp add: sys_close_def Let_def file_close_def fd_upd_def pcb_upd_def)
  then show ?thesis by (simp add: call_value_int80 fd_upd_def pcb_upd_def)
qed


lemma first_line:
  assumes "0x0A \<notin> set xs" "xs @ ys \<noteq> []"
  shows "\<exists>l ls. text_lines (xs @ ys) = l # ls \<and> length xs \<le> length l"
proof -
  have "c \<noteq> 0x0A" if "c \<in> set xs" for c using that assms(1) by auto
  then have "takeWhile (\<lambda>c. c \<noteq> 0x0A) (xs @ ys) = xs @ takeWhile (\<lambda>c. c \<noteq> 0x0A) ys" by (simp add: takeWhile_append2)
  then show ?thesis using assms(2) unfolding text_lines.simps [of "xs @ ys"] by simp
qed

definition short_lines :: "u8 list \<Rightarrow> bool" where
  "short_lines xs \<longleftrightarrow> (\<forall>l \<in> set (text_lines xs). length l < 1024)"

lemma short_lines_prefix: "short_lines (xs @ ys) \<Longrightarrow> 0x0A \<notin> set xs \<Longrightarrow> length xs < 1024"
  using first_line [of xs ys] by (cases "xs = []") (auto simp: short_lines_def)

text \<open>What is left of the file after the lines of the buffer, and what the program prints for it.\<close>

lemma lines_then_rest:
  assumes "whole_lines pre \<or> rest = []" "short_lines (pre @ rest)"
  shows "short_lines rest" "grep_text name pat (pre @ rest) = grep_text name pat pre @ grep_text name pat rest"
  using assms by (auto simp: short_lines_def grep_text_def text_lines_append)

lemma block_then_rest:
  assumes "length left < 1024" "short_lines (left @ zs)" "whole_lines pre \<or> rest = []"
    "length (left @ take (1024 - length left) zs) = 1024 \<and> 0x0A \<in> set (left @ take (1024 - length left) zs) \<longrightarrow> whole_lines pre"
  shows "whole_lines pre \<or> rest @ drop (1024 - length left) zs = []"
proof (cases "length (left @ take (1024 - length left) zs) = 1024")
  case True
  have "short_lines ((left @ take (1024 - length left) zs) @ drop (1024 - length left) zs)" using assms(2) by simp
  then have "0x0A \<in> set (left @ take (1024 - length left) zs)" using short_lines_prefix True by fastforce
  then show ?thesis using assms(4) True by simp
next
  case False
  then have "drop (1024 - length left) zs = []" using assms(1) by (simp add: min_def split: if_splits)
  then show ?thesis using assms(3) by simp
qed

definition searched :: "u32 \<Rightarrow> u8 \<Rightarrow> nat \<Rightarrow> u8 list \<Rightarrow> 'a kernel_scheme \<Rightarrow> 'a kernel_scheme \<Rightarrow> bool" where
  "searched p t i bs m u \<longleftrightarrow> tty p t u \<and> flags (own_files p u ! i) = NOT_IN_USE \<and> shows_more t bs m u"

lemma grep_file_ends:
  assumes "grep_room lit p t i fname name pattern pat data m" "read_bytes m data (length left) = left" "0 \<notin> set left" "length left < 1024"
    "stream i (in_kernel m) = []"
  shows "\<exists>u. grep_file_loop lit pattern (word_of_nat (length pat)) fname (word_of_nat i) data (int (length left)) m = Some (0, u)
    \<and> searched p t i (grep_text name pat left) m u"
proof -
  obtain m1 where m1: "ece391_read (word_of_nat i) (data + word_of_nat (length left)) (word_of_nat (1024 - length left)) m = Some (0, m1)"
      "grep_room lit p t i fname name pattern pat data m1" "shows_more t [] m m1" "read_bytes m1 data (length left) = left"
    using read_more [OF assms(1,2,4)] assms(5) by auto
  obtain v where v: "grep_lines lit pattern (word_of_nat (length pat)) fname data 0 (int (length left)) 0 m1 = Some (0, v)"
      "lines_done lit p t i fname name pattern pat data left [] m1 v"
    using grep_lines_done [OF m1(2) _ _ assms(3), of 0 "length left" 0] m1(4) assms(4) by auto
  have g: "grep_room lit p t i fname name pattern pat data v" "shows_more t (grep_text name pat left) m1 v" using v(2) by (simp_all add: lines_done_def)
  let ?u = "fd_upd (get_pcb_by_index p) i (\<lambda>f. f\<lparr>flags := NOT_IN_USE\<rparr>) v"
  have r: "tty p t v" "2 \<le> i" "readable i data 1025 (in_kernel v)" using g(1) by (simp_all add: grep_room_def)
  have "word_of_int (1024 - int (length left)) = (word_of_nat (1024 - length left) :: u32)" using assms(4) by (simp add: of_nat_diff)
  then have "grep_file_loop lit pattern (word_of_nat (length pat)) fname (word_of_nat i) data (int (length left)) m = Some (0, ?u)"
    using m1(1) v(1) user_close_file [OF r(1,3,2)] by (subst grep_file_loop.simps) simp
  moreover have "i < 8" "length (own_files p v) = 8" using r(3) tty_curr [OF r(1)] by (simp_all add: readable_def)
  then have "flags (own_files p ?u ! i) = NOT_IN_USE" by (simp add: fd_upd_def pcb_upd_def)
  moreover have "shows_more t (grep_text name pat left) m ?u"
    using shows_more_trans [OF m1(3) g(2)] by (simp add: shows_more_def terminals_fd_upd)
  ultimately show ?thesis using tty_fd_upd [OF r(1,2)] by (simp add: searched_def)
qed

lemma grep_file_loop_prints:
  assumes "grep_room lit p t i fname name pattern pat data m" "read_bytes m data (length left) = left" "0x0A \<notin> set left"
    "short_lines (left @ stream i (in_kernel m))" "0 \<notin> set (left @ stream i (in_kernel m))"
  shows "\<exists>u. grep_file_loop lit pattern (word_of_nat (length pat)) fname (word_of_nat i) data (int (length left)) m = Some (0, u)
    \<and> searched p t i (grep_text name pat (left @ stream i (in_kernel m))) m u"
  using assms
proof (induction "length (stream i (in_kernel m))" arbitrary: m left rule: less_induct)
  case less
  let ?n = "1024 - length left" and ?st = "stream i (in_kernel m)"
  define xs where "xs = take ?n ?st"
  let ?cnt = "word_of_nat (length xs) :: i32"
  have short: "length left < 1024" by (rule short_lines_prefix [OF less.prems(4,3)])
  show ?case
  proof (cases "?st = []")
    case True
    then show ?thesis using grep_file_ends [OF less.prems(1,2) _ short] less.prems(5) by simp
  next
    case False
    obtain m1 where m1: "ece391_read (word_of_nat i) (data + word_of_nat (length left)) (word_of_nat ?n) m = Some (?cnt, m1)"
        "grep_room lit p t i fname name pattern pat data m1" "stream i (in_kernel m1) = drop ?n ?st" "shows_more t [] m m1"
        "read_bytes m1 data (length (left @ xs)) = left @ xs"
      using read_more [OF less.prems(1,2) short] by (auto simp: xs_def)
    have xs: "xs \<noteq> []" "length (left @ xs) \<le> 1024" "length xs < 2 ^ 31" using False short by (simp_all add: xs_def)
    have cnt: "?cnt \<noteq> 0" "?cnt \<noteq> -1" "sint ?cnt = int (length xs)"
      using small_count [of "length xs"] xs sint_nonneg [of "length xs"] by simp_all
    have nul: "0 \<notin> set (left @ xs)" using less.prems(5) by (auto simp: xs_def dest: in_set_takeD)
    have here: "left @ xs = read_bytes m1 (data + word_of_nat 0) (length (left @ xs) - 0)" using m1(5) by simp
    obtain v pre rest where v: "grep_lines lit pattern (word_of_nat (length pat)) fname data ?cnt (int (length (left @ xs))) (int 0) m1 = Some (int (length rest), v)"
        "left @ xs = pre @ rest" "lines_done lit p t i fname name pattern pat data pre rest m1 v"
        "?cnt \<noteq> 0 \<and> length (left @ xs) = 1024 \<and> ((0 :: nat) \<noteq> 0 \<or> 0x0A \<in> set (left @ xs)) \<longrightarrow> whole_lines pre"
      using grep_lines_done [OF m1(2) le0 xs(2) nul here, of ?cnt] by (elim exE conjE) (rule that)
    have d: "grep_room lit p t i fname name pattern pat data v" "stream i (in_kernel v) = drop ?n ?st" "read_bytes v data (length rest) = rest"
        "0x0A \<notin> set rest" "whole_lines pre \<or> rest = []" "shows_more t (grep_text name pat pre) m1 v"
      using v(3) m1(3) by (simp_all add: lines_done_def)
    have all: "left @ ?st = pre @ rest @ drop ?n ?st" using v(2) append_take_drop_id [of ?n ?st] by (metis append.assoc xs_def)
    have "whole_lines pre \<or> rest @ drop ?n ?st = []"
      using block_then_rest [OF short less.prems(4) d(5)] v(4) cnt(1) by (auto simp: xs_def)
    note lr = lines_then_rest [OF this, folded all, OF less.prems(4)]
    have "0 \<notin> set (rest @ drop ?n ?st)" using less.prems(5) unfolding all by simp
    moreover have "length (stream i (in_kernel v)) < length ?st"
      using short False length_greater_0_conv [of ?st] unfolding d(2) length_drop by linarith
    ultimately obtain u where u: "grep_file_loop lit pattern (word_of_nat (length pat)) fname (word_of_nat i) data (int (length rest)) v = Some (0, u)"
        "searched p t i (grep_text name pat (rest @ drop ?n ?st)) v u"
      using less.hyps [OF _ d(1,3,4)] lr(1) unfolding d(2) by blast
    have "word_of_int (1024 - int (length left)) = (word_of_nat ?n :: u32)" using short by (simp add: of_nat_diff)
    then have "grep_file_loop lit pattern (word_of_nat (length pat)) fname (word_of_nat i) data (int (length left)) m = Some (0, u)"
      using m1(1) v(1) cnt u(1) by (subst grep_file_loop.simps) simp
    then show ?thesis
      using u(2) shows_more_trans [OF shows_more_trans [OF m1(4) d(6)]] lr(2) by (simp add: searched_def)
  qed
qed


text \<open>C19. \<open>grep\<close> on a file: for a regular file without NUL bytes whose lines have fewer than 1024 bytes, \<open>do_one_file\<close> of \<^verbatim>\<open>ece391grep.c\<close>
  returns 0 with the file closed again, and the terminal shows, for exactly the lines that contain the pattern and in their order, the file's name, a
  colon and the line, wherever the lines lie with respect to the buffer's 1024 bytes; no other terminal changes. The pattern starts with an ASCII
  character.\<close>

theorem do_one_file_greps:
  assumes "tty p t m" "image_ok m" "image_off m" "lookup m name = Some d" "f_type d = 2" "file_ok m (unat (i_node d))"
    "free_fd (own_files p m) = Some i" "length name \<le> 32" "pat \<noteq> []" "hd pat < 0x80"
    "text_at data fname name m" "text_at data pattern pat m" "text_at data (lit '':'') [0x3A] m" "text_at data (lit newline) [0x0A] m"
    "data \<noteq> 0" "unat data + 1025 < 2 ^ 32" "buffer_ok m data 1025" "buffer_off data 1025 m" "ld m (data + 1024) \<noteq> 0x0A"
    "0 \<notin> set (file_content m (unat (i_node d)))" "short_lines (file_content m (unat (i_node d)))"
  shows "\<exists>u. do_one_file lit data pattern fname m = Some (0, u)
    \<and> searched p t i (grep_text name pat (file_content m (unat (i_node d)))) m u"
proof -
  let ?fd = "\<lparr>ptrs = File_funcs, inode = i_node d, file_pos = 0, flags = IN_USE\<rparr>"
  define m1 where "m1 = fd_upd (get_pcb_by_index p) i (\<lambda>_. ?fd) m"
  have i: "2 \<le> i" "i < 8" "word_of_nat i \<noteq> (-1 :: u32)" using assms(7) small_count(3) [of i] by (simp_all add: free_fd_some)
  have name: "cstr m fname (length name)" "read_bytes m fname (length name) = name" "fname \<noteq> 0"
    using assms(11) holds_cstr by (auto simp: text_at_def holds_def)
  have len: "ece391_strlen m pattern = Some (word_of_nat (length pat))"
    using assms(12) holds_cstr by (intro user_strlen) (auto simp: text_at_def)
  have op: "ece391_open fname m = Some (word_of_nat i, m1)"
    using user_open [OF assms(1) name(3) assms(2) name(1) assms(8), of d i] assms(4,5,7) name(2) by (simp add: m1_def fd_upd_def pcb_upd_def)
  have tty: "tty p t m1" unfolding m1_def by (rule tty_fd_upd [OF assms(1) i(1)])
  have fd: "own_files p m1 ! i = ?fd" "length (own_files p m1) = 8" using assms(1) i(2) by (simp_all add: m1_def fd_upd_def pcb_upd_def tty_def)
  have keep: "xl m1 = xl m" "phys m1 = phys m" "valid_file (in_kernel m1) = valid_file m" "file_content (in_kernel m1) = file_content m"
      "buffer_ok (in_kernel m1) = buffer_ok m" "fs_addr m1 = fs_addr m" "fs_bytes m1 = fs_bytes m"
    by (simp_all add: m1_def fs_kernel) (simp_all add: fd_upd_def pcb_upd_def fs_bytes_def)
  have "readable i data 1025 (in_kernel m1)" and st: "stream i (in_kernel m1) = file_content m (unat (i_node d))"
    using tty_curr [OF tty] fd assms(2,6,15,17) i(2) keep by (simp_all add: readable_def stream_def valid_file_def IN_USE_def NOT_IN_USE_def)
  moreover have "text_at data a xs m1 = text_at data a xs m" "ld m1 = ld m" for a xs
    by (simp_all add: text_at_def holds_def read_bytes_def ld_def keep fun_eq_iff)
  ultimately have "grep_room lit p t i fname name pattern pat data m1"
    using assms tty i(1) image_off_cong [OF keep(6,7,1)] keep(1) by (simp add: grep_room_def buffer_off_def)
  then obtain u where u: "grep_file_loop lit pattern (word_of_nat (length pat)) fname (word_of_nat i) data (int (length ([] :: u8 list))) m1 = Some (0, u)"
      "searched p t i (grep_text name pat (file_content m (unat (i_node d)))) m1 u"
    using grep_file_loop_prints [of lit p t i fname name pattern pat data m1 "[]"] assms(20,21) st by (auto simp: read_bytes_def)
  have "shows_more t [] m m1" by (rule shows_more_same) (use assms(1) in \<open>simp_all add: m1_def terminals_fd_upd tty_def\<close>)
  then have "searched p t i (grep_text name pat (file_content m (unat (i_node d)))) m u"
    using u(2) shows_more_trans by (fastforce simp: searched_def)
  then show ?thesis using len op u(1) i(3) by (simp add: do_one_file_def)
qed

text \<open>On the example machine the file and the pattern are both \<open>hi\<close>, as the directory holds the name.\<close>

lemma user0_range:
  assumes "0x400000 \<le> unat a" "unat a + i < 0x800000"
  shows "unat (xl user0 (a + word_of_nat i)) = unat a + i"
  using unat_add_small [of a i] user0_xl [of "a + word_of_nat i"] assms by simp

lemma user0_text:
  assumes "holds user0 a xs" "0 \<notin> set xs" "0x400000 \<le> unat a" "unat a + length xs < 0x700000"
  shows "text_at 0x700000 a xs user0"
proof -
  have "xl user0 (0x700000 + word_of_nat i) \<noteq> xl user0 (a + word_of_nat j)" if "i < 1025" "j \<le> length xs" for i j
    using user0_range [of "0x700000" i] user0_range [of a j] that assms(3,4) by auto
  moreover have "a \<noteq> 0" using assms(3) by auto
  moreover have "buffer_off a (Suc (length xs)) user0" using assms(3,4) by (intro user0_off) simp_all
  ultimately show ?thesis using assms by (simp add: text_at_def buffer_off_def)
qed

lemma user0_literal_text:
  assumes "k < 22"
  shows "text_at 0x700000 (lit0 (literals0 ! k)) (bytes_of (literals0 ! k)) user0"
proof -
  have "literals0 ! k \<in> set literals0" using assms by (intro nth_mem) (simp add: literals0_def messages_def shell_messages_def)
  moreover from this have "length (literals0 ! k) < 64" "0 \<notin> set (bytes_of (literals0 ! k))" using literals0_ok(2) by simp_all
  moreover have "holds user0 (lit0 (literals0 ! k)) (bytes_of (literals0 ! k))"
    using user0_literal [OF assms] by (simp add: literal_def holds_def cstr_def)
  ultimately show ?thesis using user0_lit_addr [OF assms] assms by (intro user0_text) simp_all
qed

lemma user0_data: "buffer_ok user0 0x700000 1025"
proof -
  have a: "unat (xl user0 (0x700000 + word_of_nat i)) = 0x700000 + i" if "i < 1025" for i using user0_range [of "0x700000" i] that by simp
  have "inj_on (\<lambda>i. xl user0 (0x700000 + word_of_nat i)) {..<1025}" by (rule inj_onI) (metis a add_left_cancel lessThan_iff)
  moreover have "xl user0 (0x700000 + word_of_nat i) \<noteq> xl user0 (0x400000 + word_of_nat m)" if "i < 1025" "m < 24576" for i m
    using a [of i] user0_range [of "0x400000" m] that by auto
  ultimately show ?thesis by (simp add: buffer_ok_def user0_image(3) user0_kernel0)
qed

theorem do_one_file_greps_witness:
  "\<exists>u. do_one_file lit0 0x700000 0x400080 0x400080 user0 = Some (0, u)
    \<and> searched 1 1 2 [0x68, 0x69, 0x3A, 0x68, 0x69, 0x0A] user0 u"
proof -
  obtain d where d: "lookup user0 [0x68, 0x69] = Some d" "f_type d = 2" "i_node d = 0" using user0_lookup(1) by auto
  have "holds user0 0x400080 [0x68, 0x69]" by (simp add: holds_def read_bytes_def upt_rec user0_ld disk2_def)
  then have name: "text_at 0x700000 0x400080 [0x68, 0x69] user0" by (rule user0_text) simp_all
  have lits: "text_at 0x700000 (lit0 newline) [0x0A] user0" "text_at 0x700000 (lit0 '':'') [0x3A] user0"
    using user0_literal_text [of 13] user0_literal_text [of 21] by (simp_all add: literals0_def messages_def shell_messages_def bytes_of_def)
  have "free_fd (own_files 1 user0) = Some 2" using user0_free by (simp add: free_fd_some)
  moreover have "ld user0 0x700400 = 0" by (simp add: user0_ld disk2_def)
  moreover have lines: "text_lines [0x68, 0x69, 0x0A] = [[0x68, 0x69]]" using text_lines_line [of "[0x68, 0x69]" "[]"] by simp
  moreover have "grep_text [0x68, 0x69] [0x68, 0x69] [0x68, 0x69, 0x0A] = [0x68, 0x69, 0x3A, 0x68, 0x69, 0x0A]"
    by (simp add: grep_text_def lines match_text_def)
  ultimately show ?thesis
    using do_one_file_greps [OF user0_tty user0_image(1) user0_image_off d(1,2) _ _ _ _ _ name name lits(2,1), of 2] user0_file d(3)
      user0_data user0_off [of "0x700000" 1025] by (simp add: short_lines_def)
qed


end
