(* ===== verification/User_Pingpong.thy ===== *)
theory User_Pingpong
  imports User_Counter
begin

text \<open>
  The animation of \<^verbatim>\<open>ece391pingpong.c\<close>: between two ticks of its virtual clock the program shows one frame on its terminal, with
  the letter one column further. While it waits for the clock, other interrupts may come; \<open>clock_raised\<close> says that they change nothing but the
  clock's tables and the ports.
\<close>

definition clock_raised :: "'a kernel_scheme \<Rightarrow> 'a kernel_scheme \<Rightarrow> bool" where
  "clock_raised v w \<longleftrightarrow> itr_occur_table w ! unat (running_terminal v) \<noteq> 0
     \<and> w = v\<lparr>itr_occur_table := itr_occur_table w, counter_table := counter_table w, outs := outs w, iflag := iflag w, clk := clk w\<rparr>"

text \<open>The interrupt handler of the clock itself stays within this.\<close>

lemma rtc_ticks_only: "\<exists>a b. for_loop 0 n rtc_tick v = v\<lparr>itr_occur_table := a, counter_table := b\<rparr>"
proof (rule for_loop_invariant [where P = "\<lambda>u. \<exists>a b. u = v\<lparr>itr_occur_table := a, counter_table := b\<rparr>"])
  show "\<exists>a b. v = v\<lparr>itr_occur_table := a, counter_table := b\<rparr>" by (intro exI [of _ "itr_occur_table v"] exI [of _ "counter_table v"]) simp
  fix i u assume "\<exists>a b. u = v\<lparr>itr_occur_table := a, counter_table := b\<rparr>"
  then obtain a b where "u = v\<lparr>itr_occur_table := a, counter_table := b\<rparr>" by blast
  then have "rtc_tick i u = v\<lparr>itr_occur_table := itr_occur_table (rtc_tick i u), counter_table := counter_table (rtc_tick i u)\<rparr>"
    by (intro rtc.equality) (simp_all add: rtc_tick_def Let_def)
  then show "\<exists>a b. rtc_tick i u = v\<lparr>itr_occur_table := a, counter_table := b\<rparr>" by blast
qed

lemma rtc_handler_raises:
  assumes "itr_occur_table (rtc_handler v) ! unat (running_terminal v) \<noteq> 0"
  shows "clock_raised v (rtc_handler v)"
proof -
  let ?v = "cli (send_eoi RTC_IRQ v)"
  have "?v = v\<lparr>outs := outs ?v, iflag := False\<rparr>" by (simp add: cli_def send_eoi_def outb_def)
  then obtain os where v: "?v = v\<lparr>outs := os, iflag := False\<rparr>" by blast
  obtain a b where ab: "for_loop 0 MAX_TERMINAL_NUM rtc_tick ?v = ?v\<lparr>itr_occur_table := a, counter_table := b\<rparr>"
    using rtc_ticks_only by blast
  have "rtc_handler v = v\<lparr>itr_occur_table := itr_occur_table (rtc_handler v), counter_table := counter_table (rtc_handler v),
      outs := outs (rtc_handler v), iflag := iflag (rtc_handler v), clk := clk (rtc_handler v)\<rparr>"
    by (intro rtc.equality) (simp_all add: rtc_handler_def Let_def case_prod_unfold ab [unfolded v] v inb_def outb_def sti_def)
  then show ?thesis using assms by (simp add: clock_raised_def)
qed

section \<open>One frame\<close>

definition wall :: "nat \<Rightarrow> u8" where
  "wall i = (if i = 1 \<or> i = 78 then 0x7C else if i = 79 then 0x0A else if i = 80 then 0 else 0x20)"

text \<open>The line with the letter \<open>c\<close> in column \<open>j\<close>.\<close>

definition frame_text :: "u8 \<Rightarrow> nat \<Rightarrow> u8 list" where
  "frame_text c j = (map wall [0..<80])[j := c]"

definition pinging :: "u32 \<Rightarrow> u8 \<Rightarrow> nat \<Rightarrow> addr \<Rightarrow> 'a kernel_scheme \<Rightarrow> bool" where
  "pinging p t rtc buf s \<longleftrightarrow> tty p t s \<and> rtc < 8 \<and> flags (own_files p s ! rtc) \<noteq> NOT_IN_USE \<and> ptrs (own_files p s ! rtc) = Rtc_funcs
     \<and> buf \<noteq> 0 \<and> inj_on (\<lambda>i. xl s (buf + word_of_nat i)) {..<81} \<and> buffer_off buf 81 s
     \<and> (\<forall>i < 81. i < 2 \<or> 78 \<le> i \<longrightarrow> ld s (buf + word_of_nat i) = wall i)"

lemma draw_frame:
  assumes "pinging p t rtc buf s" "2 \<le> j" "j < 78" "c \<noteq> 0"
  defines "u \<equiv> st (buf + word_of_nat j) c (for_loop 2 78 (\<lambda>i s. st (buf + word_of_nat i) 0x20 s) s)"
  shows "pinging p t rtc buf u" "holds u buf (frame_text c j)" "shows_more t [] s u"
proof -
  have s: "tty p t s" "inj_on (\<lambda>i. xl s (buf + word_of_nat i)) {..<81}" "buffer_off buf 81 s"
    and walls: "\<And>i. i < 81 \<Longrightarrow> i < 2 \<or> 78 \<le> i \<Longrightarrow> ld s (buf + word_of_nat i) = wall i"
    using assms(1) by (auto simp: pinging_def)
  have scr: "scratch s buf 81" using s(2,3) by (simp add: scratch_def buffer_off_def off_screens_off_screen)
  define w where "w = for_loop 2 78 (\<lambda>i s. st (buf + word_of_nat i) 0x20 s) s"
  have w: "unchanged_outside s buf 81 w" "\<And>i. i < 81 \<Longrightarrow> ld w (buf + word_of_nat i) = (if 2 \<le> i \<and> i < 78 then 0x20 else ld s (buf + word_of_nat i))"
    using fill_range [OF scr, of 2 78 "0x20"] by (simp_all add: w_def)
  have un: "unchanged_outside s buf 81 u"
    unfolding u_def w_def [symmetric] by (rule unchanged_trans [OF w(1) unchanged_st]) (use assms(3) in simp)
  have only: "only_phys s u" and xl: "xl u = xl s" "xl w = xl s" using un w(1) only_phys_xl by (auto simp: unchanged_outside_def)
  have byte: "ld u (buf + word_of_nat i) = (if i = j then c else wall i)" if "i < 81" for i
  proof -
    have "xl s (buf + word_of_nat i) = xl s (buf + word_of_nat j) \<longleftrightarrow> i = j" using inj_onD [OF s(2), of i j] that assms(3) by auto
    moreover have "wall i = 0x20" if "2 \<le> i" "i < 78" using that by (simp add: wall_def)
    ultimately show ?thesis using w(2) [OF that] walls [OF that] by (auto simp: u_def w_def [symmetric] ld_st xl)
  qed
  note tty = tty_outside [OF s(1,3) un]
  note k = only_phys_kernel [OF only]
  show "pinging p t rtc buf u" using assms(1-3) tty(1) byte by (simp add: pinging_def xl k buffer_off_def)
  have "read_bytes u buf 80 = frame_text c j"
    by (rule nth_equalityI) (use byte assms(3) in \<open>auto simp: frame_text_def nth_list_update\<close>)
  moreover have "ld u (buf + word_of_nat 80) = 0" using byte [of 80] assms(3) by (simp add: wall_def)
  ultimately show "holds u buf (frame_text c j)" by (simp add: holds_def frame_text_def)
  show "shows_more t [] s u" by (rule shows_more_same) (use tty(2) s(1) in \<open>simp_all add: tty_def\<close>)
qed

lemma frame_nonzero: "c \<noteq> 0 \<Longrightarrow> 0 \<notin> set (frame_text c j)"
proof -
  assume "c \<noteq> 0"
  moreover have "wall i \<noteq> 0" if "i < 80" for i using that by (simp add: wall_def)
  ultimately show ?thesis unfolding frame_text_def using set_update_subset_insert [of "map wall [0..<80]" j c] by auto
qed

lemma clock_kept:
  assumes "clock_raised v w"
  shows "tty p t w = tty p t v" "terminal_of r w = terminal_of r v" "ld w = ld v" "xl w = xl v" "pcbs w = pcbs v"
    "running_terminal w = running_terminal v" "tss_esp0 w = tss_esp0 v"
proof -
  have w: "w = v\<lparr>itr_occur_table := itr_occur_table w, counter_table := counter_table w, outs := outs w, iflag := iflag w, clk := clk w\<rparr>"
    using assms by (simp add: clock_raised_def)
  show "terminal_of r w = terminal_of r v" by (subst w, rule terminals_cong) simp_all
  have ok: "terminals_ok w = terminals_ok v" by (subst w, rule terminals_cong) simp_all
  show k: "xl w = xl v" "pcbs w = pcbs v" "running_terminal w = running_terminal v" "tss_esp0 w = tss_esp0 v" by (subst w, simp)+
  have "phys w = phys v" "process_terminal w = process_terminal v" by (subst w, simp)+
  then show "ld w = ld v" "tty p t w = tty p t v" using ok k by (simp_all add: ld_def fun_eq_iff tty_def set_tss_def get_terminal_id_def)
qed

lemma frame_shows:
  assumes "pinging p t rtc buf s" "\<And>v. pinging p t rtc buf v \<Longrightarrow> clock_raised v (wait v)" "garbage \<noteq> 0" "2 \<le> j" "j < 78" "c \<noteq> 0"
  shows "\<exists>u. pingpong_frame wait (word_of_nat rtc) garbage buf c j s = Some u \<and> pinging p t rtc buf u \<and> shows_more t (frame_text c j) s u"
proof -
  define s1 where "s1 = st (buf + word_of_nat j) c (for_loop 2 78 (\<lambda>i s. st (buf + word_of_nat i) 0x20 s) s)"
  note d = draw_frame [OF assms(1,4-6), folded s1_def]
  have cs: "cstr s1 buf 80" using holds_cstr [OF d(2) frame_nonzero [OF assms(6)]] by (simp add: frame_text_def)
  have "tty p t s1" "buffer_off buf 80 s1" "buf \<noteq> 0" using d(1) by (simp_all add: pinging_def buffer_off_def)
  moreover have "read_bytes s1 buf 80 = frame_text c j" using d(2) by (simp add: holds_def frame_text_def)
  ultimately obtain s2 where s2: "ece391_fdputs 1 buf s1 = Some s2" "prints_on t (frame_text c j) s1 s2"
    using user_puts [OF _ cs, of p t] by auto
  have p2: "pinging p t rtc buf s2"
    using d(1) prints_on_tty [of p t s1 t _ s2] s2(2) screens_only_ld [of s1 s2]
    by (auto simp: pinging_def prints_on_def screens_only_kernel buffer_off_def)
  define w where "w = wait s2"
  note raised = assms(2) [OF p2, folded w_def]
  note k = clock_kept [OF raised]
  have pw: "pinging p t rtc buf w" using p2 by (simp add: pinging_def k buffer_off_def)
  define u where "u = w\<lparr>itr_occur_table := (itr_occur_table w)[unat (running_terminal w) := 0]\<rparr>"
  have "ece391_read (word_of_nat rtc) garbage 4 w = Some (0, u)"
  proof -
    have "unat (word_of_nat rtc :: i32) = rtc" "sint (word_of_nat rtc :: i32) = int rtc"
      using pw sint_nonneg [of rtc] by (simp_all add: pinging_def unat_of_nat_u32)
    moreover have "itr_occur_table w ! unat (running_terminal w) \<noteq> 0" using raised by (simp add: clock_raised_def k(6))
    moreover have "tty p t w" using pw by (simp add: pinging_def)
    ultimately show ?thesis
      using pw assms(3) tty_curr [of p t w] by (simp add: call_value_int80 sys_read_def pinging_def rtc_read_def u_def)
  qed
  then have "pingpong_frame wait (word_of_nat rtc) garbage buf c j s = Some u"
    using s2(1) by (simp add: pingpong_frame_def s1_def [symmetric] w_def [symmetric])
  moreover have same: "terminal_of r u = terminal_of r w" "terminals_ok u = terminals_ok w" for r by (rule terminals_cong; simp add: u_def)+
  then have "tty p t u = tty p t w" by (simp add: tty_def) (simp add: u_def set_tss_def get_terminal_id_def)
  then have "pinging p t rtc buf u" using pw by (simp add: pinging_def) (simp add: u_def buffer_off_def ld_def)
  moreover have "shows_more t (frame_text c j) s u"
  proof -
    have "shows_more t (frame_text c j) s1 s2" using s2(2) by (simp add: prints_on_def)
    from shows_more_trans [OF d(3) this] show ?thesis by (simp add: shows_more_def same k(2))
  qed
  ultimately show ?thesis by blast
qed

lemma frames_show:
  assumes "\<And>v. pinging p t rtc buf v \<Longrightarrow> clock_raised v (wait v)" "garbage \<noteq> 0" "c \<noteq> 0"
  shows "pinging p t rtc buf s \<Longrightarrow> \<forall>j \<in> set js. 2 \<le> j \<and> j < 78 \<Longrightarrow>
    \<exists>u. pingpong_frames wait (word_of_nat rtc) garbage buf c js s = Some u \<and> pinging p t rtc buf u
      \<and> shows_more t (concat (map (frame_text c) js)) s u"
proof (induction js arbitrary: s)
  case Nil
  then show ?case using shows_more_same [of s s t] by (simp add: pinging_def tty_def)
next
  case (Cons j js)
  obtain u where u: "pingpong_frame wait (word_of_nat rtc) garbage buf c j s = Some u" "pinging p t rtc buf u" "shows_more t (frame_text c j) s u"
    using frame_shows [OF Cons.prems(1) assms(1,2) _ _ assms(3)] Cons.prems(2) by auto
  obtain v where v: "pingpong_frames wait (word_of_nat rtc) garbage buf c js u = Some v" "pinging p t rtc buf v"
      "shows_more t (concat (map (frame_text c) js)) u v"
    using Cons.IH [OF u(2)] Cons.prems(2) by auto
  then show ?case using u(1) shows_more_trans [OF u(3) v(3)] by simp
qed

text \<open>C36. The ball bounces: if every wait ends with the flag of the program's clock up, a round of \<^verbatim>\<open>ece391pingpong.c\<close> shows the 152 frames with the
  letter in the columns 2 to 77 and back, nothing else on any terminal, and goes on with the next letter of A to Z, A after Z.\<close>

theorem pingpong_bounces:
  assumes "pinging p t rtc buf s" "\<And>v. pinging p t rtc buf v \<Longrightarrow> clock_raised v (wait v)" "garbage \<noteq> 0" "n < 26"
  shows "\<exists>u. pingpong_round wait (word_of_nat rtc) garbage buf (0x41 + word_of_nat n) s = Some (0x41 + word_of_nat (Suc n mod 26), u)
    \<and> pinging p t rtc buf u
    \<and> shows_more t (concat (map (frame_text (0x41 + word_of_nat n)) ([2..<78] @ rev [2..<78]))) s u"
proof -
  define c :: u8 where "c = 0x41 + word_of_nat n"
  have uc: "unat c = 65 + n" using assms(4) unat_of_nat [of n, where 'a = 8] by (simp add: c_def unat_word_ariths)
  have c0: "c \<noteq> 0" using uc by auto
  note sh = frames_show [where p = p and t = t and rtc = rtc and buf = buf, OF assms(2,3) c0]
  obtain u where u: "pingpong_frames wait (word_of_nat rtc) garbage buf c [2..<78] s = Some u" "pinging p t rtc buf u"
      "shows_more t (concat (map (frame_text c) [2..<78])) s u"
    using sh [OF _ assms(1), of "[2..<78]"] by (auto simp del: upt_rec_numeral)
  obtain v where v: "pingpong_frames wait (word_of_nat rtc) garbage buf c (rev [2..<78]) u = Some v" "pinging p t rtc buf v"
      "shows_more t (concat (map (frame_text c) (rev [2..<78]))) u v"
    using sh [OF _ u(2), of "rev [2..<78]"] by (auto simp del: upt_rec_numeral)
  have "(if c = 0x5A then 0x41 else c + 1) = 0x41 + word_of_nat (Suc n mod 26)"
  proof (cases "n = 25")
    case False
    then have "Suc n mod 26 = Suc n" using assms(4) by simp
    moreover have "c \<noteq> 0x5A" using False uc by auto
    ultimately show ?thesis by (simp add: c_def ac_simps)
  qed (simp add: c_def)
  then have "pingpong_round wait (word_of_nat rtc) garbage buf c s = Some (0x41 + word_of_nat (Suc n mod 26), v)"
    unfolding pingpong_round_def u(1) using v(1) by (simp del: upt_rec_numeral)
  then show ?thesis
    unfolding c_def [symmetric] using v(2) shows_more_trans [OF u(3) v(3)] by (simp del: upt_rec_numeral)
qed

definition ping0 :: scheduling where
  "ping0 = write_list 0x700000 (map wall [0..<81])
     (fd_upd (get_pcb_by_index 1) 2 (\<lambda>_. \<lparr>ptrs = Rtc_funcs, inode = 0, file_pos = 0, flags = IN_USE\<rparr>) user0)"

lemma ping0_ok: "pinging 1 1 2 0x700000 ping0"
proof -
  let ?f = "fd_upd (get_pcb_by_index 1) 2 (\<lambda>_. \<lparr>ptrs = Rtc_funcs, inode = 0, file_pos = 0, flags = IN_USE\<rparr>) user0"
  have tty: "tty 1 1 ?f" by (rule tty_fd_upd [OF user0_tty]) simp
  have xl: "xl ?f = xl user0" by (simp add: fd_upd_def pcb_upd_def)
  have off: "buffer_off 0x700000 81 ?f" using user0_off [of "0x700000" 81] by (simp add: buffer_off_def xl)
  have "buffer_ok user0 0x700000 81" by (rule buffer_mono [OF user0_image(2)]) simp
  then have inj: "inj_on (\<lambda>i. xl ?f (0x700000 + word_of_nat i)) {..<81}" by (simp add: buffer_ok_def xl)
  have "read_bytes ping0 0x700000 81 = map wall [0..<81]"
    using read_write_list [of ?f "0x700000" "map wall [0..<81]"] inj by (simp add: ping0_def del: upt_rec_numeral)
  then have "ld ping0 (0x700000 + word_of_nat i) = wall i" if "i < 81" for i
    using that nth_read_bytes [of i 81 ping0 "0x700000"] by (simp del: upt_rec_numeral)
  moreover have "tty 1 1 ping0" using tty_write(1) [OF tty, of "0x700000" "map wall [0..<81]"] off by (simp add: ping0_def del: upt_rec_numeral)
  moreover have "own_files 1 ping0 ! 2 = \<lparr>ptrs = Rtc_funcs, inode = 0, file_pos = 0, flags = IN_USE\<rparr>"
    unfolding ping0_def only_phys_kernel(1) [OF only_phys_write_list] using user0_tty by (simp add: fd_upd_def pcb_upd_def tty_def)
  moreover have "xl ping0 = xl ?f" by (simp add: ping0_def)
  ultimately show ?thesis using inj off by (simp add: pinging_def buffer_off_def IN_USE_def NOT_IN_USE_def)
qed

theorem pingpong_bounces_witness:
  "\<exists>u. pingpong_round (\<lambda>v. v\<lparr>itr_occur_table := replicate 256 1\<rparr>) 2 0x710000 0x700000 0x41 ping0 = Some (0x42, u)
    \<and> shows_more 1 (concat (map (frame_text 0x41) ([2..<78] @ rev [2..<78]))) ping0 u"
proof -
  have "clock_raised v (v\<lparr>itr_occur_table := replicate 256 1\<rparr>)" for v :: scheduling
    using unat_u8_lt [of "running_terminal v"] by (simp add: clock_raised_def)
  from pingpong_bounces [OF ping0_ok this, of "0x710000" 0] show ?thesis by (auto simp del: upt_rec_numeral)
qed

end
