(* ===== verification/Fish.thy ===== *)
theory Fish
  imports User_Lib
begin

text \<open>
  The fish animation (\<^verbatim>\<open>fish/fish.c\<close>) and the routines it drives (\<^verbatim>\<open>fish/blink.S\<close>): a list of characters
  that blink at a place of the text screen, each with the ticks it is on and off.

  The static data of the program are fields: \<open>blink_array\<close>, and \<open>mp1_list_head\<close>. A pointer to a
  \<open>struct mp1_blink_struct\<close> is an index of \<open>blink_array\<close> or \<open>None\<close> for \<open>NULL\<close>: no other structure is ever
  linked. What the system calls read and write has an address: the variables \<open>vmem_base_addr\<close>, \<open>c0\<close>,
  \<open>c1\<close>, \<open>garbage\<close>, \<open>ret_val\<close> and the string literals. A walk along the list ends only at \<open>NULL\<close>,
  so it is a \<^theory_text>\<open>partial_function\<close>.
\<close>

record mp1_blink_struct =
  location :: u16
  on_char :: u8
  off_char :: u8
  on_length :: u16
  off_length :: u16
  countdown :: u16
  status :: u16
  next_blink :: "nat option"

record fish = sound +
  blink_array :: "mp1_blink_struct list"
  mp1_list_head :: "nat option"

text \<open>The commands of \<open>mp1_ioctl\<close> with the argument each takes.\<close>

datatype mp1_command = RTC_ADD mp1_blink_struct | RTC_REMOVE u32 | RTC_FIND mp1_blink_struct | RTC_SYNC u32

section \<open>Memory of the blink structures\<close>

definition zero_blink :: mp1_blink_struct where
  "zero_blink = \<lparr>location = 0, on_char = 0, off_char = 0, on_length = 0, off_length = 0, countdown = 0, status = 0,
     next_blink = None\<rparr>"

definition mp1_malloc :: "'a fish_scheme \<Rightarrow> nat option" where
  "mp1_malloc s = find (\<lambda>i. location (blink_array s ! i) = 0) [0..<80 * 25]"

definition mp1_free :: "nat \<Rightarrow> 'a fish_scheme \<Rightarrow> 'a fish_scheme" where
  "mp1_free p s = s\<lparr>blink_array := (blink_array s)[p := zero_blink]\<rparr>"

section \<open>The routines on the list\<close>

definition mp1_poke :: "addr \<Rightarrow> u8 \<Rightarrow> u32 \<Rightarrow> 'a machine_scheme \<Rightarrow> 'a machine_scheme" where
  "mp1_poke vmem cl eax s = st (ld32 s vmem + eax) cl s"

text \<open>
  One structure of the tasklet's walk: the countdown is compared as a signed number, and at the end of an interval the
  other character is shown.
\<close>

definition tasklet_step :: "addr \<Rightarrow> nat \<Rightarrow> 'a fish_scheme \<Rightarrow> 'a fish_scheme" where
  "tasklet_step vmem p s =
     (let b = blink_array s ! p;
          n = countdown b - 1;
          s = s\<lparr>blink_array := (blink_array s)[p := b\<lparr>countdown := n\<rparr>]\<rparr>
      in if 0 <s n then s
         else let eax = push_bit 1 (ucast (location b));
                  (cl, dx) = (if status b AND 1 = 0 then (on_char b, on_length b) else (off_char b, off_length b));
                  s = mp1_poke vmem cl eax s
              in s\<lparr>blink_array := (blink_array s)[p := b\<lparr>countdown := dx, status := status b XOR 1\<rparr>]\<rparr>)"

partial_function (option) tasklet_loop :: "addr \<Rightarrow> nat option \<Rightarrow> 'a fish_scheme \<Rightarrow> 'a fish_scheme option" where
  "tasklet_loop vmem ebx s =
     (case ebx of None \<Rightarrow> Some s
      | Some p \<Rightarrow> let s = tasklet_step vmem p s in tasklet_loop vmem (next_blink (blink_array s ! p)) s)"

definition mp1_rtc_tasklet :: "addr \<Rightarrow> 'a fish_scheme \<Rightarrow> 'a fish_scheme option" where
  "mp1_rtc_tasklet vmem s = tasklet_loop vmem (mp1_list_head s) s"

partial_function (option) find_loop :: "u16 \<Rightarrow> nat option \<Rightarrow> 'a fish_scheme \<Rightarrow> nat option option" where
  "find_loop ax ebx s =
     (case ebx of None \<Rightarrow> Some None
      | Some p \<Rightarrow> if location (blink_array s ! p) = ax then Some (Some p)
                  else find_loop ax (next_blink (blink_array s ! p)) s)"

definition mp1_find_helper :: "u32 \<Rightarrow> 'a fish_scheme \<Rightarrow> nat option option" where
  "mp1_find_helper loc s = find_loop (ucast loc) (mp1_list_head s) s"

text \<open>The copies between the caller's structure, the stack and the array are copies of the record.\<close>

definition mp1_ioctl_add :: "addr \<Rightarrow> mp1_blink_struct \<Rightarrow> 'a fish_scheme \<Rightarrow> i32 \<times> 'a fish_scheme" where
  "mp1_ioctl_add vmem arg s =
     (if location arg \<ge> 80 * 25 then (-1, s)
      else let b = arg\<lparr>status := 1, countdown := on_length arg\<rparr>
           in case mp1_malloc s of None \<Rightarrow> (-1, s)
              | Some p \<Rightarrow>
                  let s = s\<lparr>blink_array := (blink_array s)[p := b\<lparr>next_blink := mp1_list_head s\<rparr>], mp1_list_head := Some p\<rparr>
                  in (0, mp1_poke vmem (on_char b) (push_bit 1 (ucast (location b))) s))"

text \<open>
  \<open>remove_find_prev\<close>: the link that points to the element, \<open>None\<close> for \<open>mp1_list_head\<close> itself. Past the end of
  the list the routine follows \<open>NULL\<close>.
\<close>

partial_function (option) find_prev :: "nat \<Rightarrow> nat option \<Rightarrow> 'a fish_scheme \<Rightarrow> nat option option" where
  "find_prev p edx s =
     (let link = (case edx of None \<Rightarrow> mp1_list_head s | Some q \<Rightarrow> next_blink (blink_array s ! q))
      in if link = Some p then Some edx
         else case link of None \<Rightarrow> None | Some q \<Rightarrow> find_prev p (Some q) s)"

definition unlink :: "nat \<Rightarrow> nat option \<Rightarrow> 'a fish_scheme \<Rightarrow> 'a fish_scheme" where
  "unlink p edx s =
     (let ecx = next_blink (blink_array s ! p)
      in case edx of None \<Rightarrow> s\<lparr>mp1_list_head := ecx\<rparr>
         | Some q \<Rightarrow> s\<lparr>blink_array := (blink_array s)[q := (blink_array s ! q)\<lparr>next_blink := ecx\<rparr>]\<rparr>)"

definition mp1_ioctl_remove :: "u32 \<Rightarrow> 'a fish_scheme \<Rightarrow> (i32 \<times> 'a fish_scheme) option" where
  "mp1_ioctl_remove arg s =
     do {
       eax \<leftarrow> mp1_find_helper arg s;
       case eax of None \<Rightarrow> Some (-1, s)
       | Some p \<Rightarrow> do { edx \<leftarrow> find_prev p None s; Some (0, mp1_free p (unlink p edx s)) }
     }"

text \<open>\<open>cmovl\<close> after \<open>testb\<close> moves when the sign flag is set: the overflow flag is clear.\<close>

definition mp1_ioctl_sync :: "addr \<Rightarrow> u32 \<Rightarrow> 'a fish_scheme \<Rightarrow> (i32 \<times> 'a fish_scheme) option" where
  "mp1_ioctl_sync vmem arg s =
     do {
       esi \<leftarrow> mp1_find_helper (drop_bit 16 arg) s;
       case esi of None \<Rightarrow> Some (-1, s)
       | Some p \<Rightarrow> do {
           edi \<leftarrow> mp1_find_helper (arg AND 0xFFFF) s;
           case edi of None \<Rightarrow> Some (-1, s)
           | Some q \<Rightarrow>
               let a = blink_array s ! p;
                   b = (blink_array s ! q)\<lparr>on_length := on_length a, off_length := off_length a,
                         countdown := countdown a, status := status a\<rparr>;
                   s = s\<lparr>blink_array := (blink_array s)[q := b]\<rparr>;
                   cl = (if bit ((ucast (status b) :: u8) AND 1) 7 then on_char b else off_char b)
               in Some (0, mp1_poke vmem cl (push_bit 1 (ucast (location b))) s)
         }
     }"

text \<open>\<open>mp1_ioctl_find\<close> gives the caller's structure back, overwritten when the place is found.\<close>

definition mp1_ioctl_find :: "mp1_blink_struct \<Rightarrow> 'a fish_scheme \<Rightarrow> (i32 \<times> mp1_blink_struct) option" where
  "mp1_ioctl_find arg s =
     do {
       eax \<leftarrow> mp1_find_helper (ucast (location arg)) s;
       case eax of None \<Rightarrow> Some (-1, arg) | Some p \<Rightarrow> Some (0, blink_array s ! p)
     }"

definition mp1_ioctl :: "addr \<Rightarrow> mp1_command \<Rightarrow> 'a fish_scheme \<Rightarrow> (i32 \<times> 'a fish_scheme) option" where
  "mp1_ioctl vmem cmd s =
     (case cmd of RTC_ADD b \<Rightarrow> Some (mp1_ioctl_add vmem b s)
      | RTC_REMOVE arg \<Rightarrow> mp1_ioctl_remove arg s
      | RTC_FIND b \<Rightarrow> do { (r, _) \<leftarrow> mp1_ioctl_find b s; Some (r, s) }
      | RTC_SYNC arg \<Rightarrow> mp1_ioctl_sync vmem arg s)"

section \<open>The program\<close>

definition mp1_set_video_mode :: "addr \<Rightarrow> 'a fish_scheme \<Rightarrow> (addr \<times> 'a fish_scheme) option" where
  "mp1_set_video_mode vmem s =
     do { (r, s) \<leftarrow> ece391_vidmap vmem s; if r = -1 then Some (0, s) else Some (ld32 s vmem, s) }"

text \<open>
  \<open>add_frames\<close> reads two text files side by side. \<open>next_char\<close> is the read of one of them: at the end of the file the
  character becomes a newline. \<open>end_row\<close> is what follows a row.
\<close>

definition next_char :: "i32 \<Rightarrow> addr \<Rightarrow> bool \<Rightarrow> 'a fish_scheme \<Rightarrow> (bool \<times> 'a fish_scheme) option" where
  "next_char fd c eof s =
     (if ld s c \<noteq> 0x0A
      then do { (num_bytes, s) \<leftarrow> ece391_read fd c 1 s;
                if num_bytes = 0 then Some (True, st c 0x0A s) else Some (eof, s) }
      else Some (eof, s))"

definition end_row :: "i32 \<Rightarrow> addr \<Rightarrow> bool \<Rightarrow> 'a fish_scheme \<Rightarrow> 'a fish_scheme option" where
  "end_row fd c eof s =
     (if eof then do { (_, s) \<leftarrow> ece391_close fd (st c 0x0A s); Some s } else Some (st c 0x30 s))"

definition add_cell :: "addr \<Rightarrow> mp1_blink_struct \<Rightarrow> addr \<Rightarrow> addr \<Rightarrow> i32 \<Rightarrow> i32 \<Rightarrow> 'a fish_scheme \<Rightarrow> 'a fish_scheme option" where
  "add_cell vmem b c0 c1 row col s =
     (if ld s c0 \<noteq> 0x20 \<and> ld s c0 \<noteq> 0x0A \<or> ld s c1 \<noteq> 0x20 \<and> ld s c1 \<noteq> 0x0A
      then do {
        (_, s) \<leftarrow> mp1_ioctl vmem (RTC_ADD (b\<lparr>on_char := (if ld s c0 = 0x0A then 0x20 else ld s c0),
                  off_char := (if ld s c1 = 0x0A then 0x20 else ld s c1), location := ucast (row * 80 + col + 40)\<rparr>)) s;
        Some s }
      else Some s)"

partial_function (option) add_cols ::
    "addr \<Rightarrow> mp1_blink_struct \<Rightarrow> i32 \<Rightarrow> i32 \<Rightarrow> addr \<Rightarrow> addr \<Rightarrow> i32 \<Rightarrow> i32 \<Rightarrow> bool \<Rightarrow> bool \<Rightarrow> 'a fish_scheme
     \<Rightarrow> (bool \<times> bool \<times> 'a fish_scheme) option" where
  "add_cols vmem b fd0 fd1 c0 c1 row col eof0 eof1 s =
     do {
       (eof0, s) \<leftarrow> next_char fd0 c0 eof0 s;
       (eof1, s) \<leftarrow> next_char fd1 c1 eof1 s;
       if ld s c0 = 0x0A \<and> ld s c1 = 0x0A then Some (eof0, eof1, s)
       else do {
         s \<leftarrow> add_cell vmem b c0 c1 row col s;
         add_cols vmem b fd0 fd1 c0 c1 row (col + 1) eof0 eof1 s
       }
     }"

partial_function (option) add_rows ::
    "addr \<Rightarrow> mp1_blink_struct \<Rightarrow> i32 \<Rightarrow> i32 \<Rightarrow> addr \<Rightarrow> addr \<Rightarrow> i32 \<Rightarrow> bool \<Rightarrow> bool \<Rightarrow> 'a fish_scheme \<Rightarrow> 'a fish_scheme option" where
  "add_rows vmem b fd0 fd1 c0 c1 row eof0 eof1 s =
     (if eof0 \<and> eof1 then Some s
      else do {
        (eof0, eof1, s) \<leftarrow> add_cols vmem b fd0 fd1 c0 c1 row 0 eof0 eof1 s;
        s \<leftarrow> end_row fd0 c0 eof0 s;
        s \<leftarrow> end_row fd1 c1 eof1 s;
        add_rows vmem b fd0 fd1 c0 c1 (row + 1) eof0 eof1 s
      })"

definition add_frames ::
    "addr \<Rightarrow> mp1_blink_struct \<Rightarrow> addr \<Rightarrow> addr \<Rightarrow> addr \<Rightarrow> addr \<Rightarrow> 'a fish_scheme \<Rightarrow> (control \<times> 'a fish_scheme) option" where
  "add_frames vmem b c0 c1 f0 f1 s =
     do {
       let s = st c1 0x30 (st c0 0x30 s);
       let b = b\<lparr>on_length := 15, off_length := 15\<rparr>;
       (fd0, s) \<leftarrow> ece391_open f0 s;
       if fd0 <s 0 then ece391_halt (-1) s
       else do {
         (fd1, s) \<leftarrow> ece391_open f1 s;
         if fd1 <s 0 then ece391_halt (-1) s
         else do { s \<leftarrow> add_rows vmem b fd0 fd1 c0 c1 0 False False s; Some (Return 0, s) }
       }
     }"

text \<open>A waiting loop of \<open>main\<close>; \<open>wait\<close> is what the interrupts do until the clock's flag is up.\<close>

primrec fish_wait ::
    "('a fish_scheme \<Rightarrow> 'a fish_scheme) \<Rightarrow> addr \<Rightarrow> i32 \<Rightarrow> addr \<Rightarrow> nat \<Rightarrow> 'a fish_scheme \<Rightarrow> 'a fish_scheme option" where
  "fish_wait wait vmem rtc_fd garbage 0 s = Some s"
| "fish_wait wait vmem rtc_fd garbage (Suc n) s =
     do {
       (_, s) \<leftarrow> ece391_read rtc_fd garbage 4 (wait s);
       s \<leftarrow> mp1_rtc_tasklet vmem s;
       fish_wait wait vmem rtc_fd garbage n s
     }"

definition fish_show ::
    "('a fish_scheme \<Rightarrow> 'a fish_scheme) \<Rightarrow> addr \<Rightarrow> mp1_blink_struct \<Rightarrow> i32 \<Rightarrow> addr \<Rightarrow> 'a fish_scheme
     \<Rightarrow> (control \<times> 'a fish_scheme) option" where
  "fish_show wait vmem b rtc_fd garbage s =
     do {
       s \<leftarrow> fish_wait wait vmem rtc_fd garbage 100 s;
       (_, s) \<leftarrow> mp1_ioctl vmem (RTC_ADD (b\<lparr>on_char := 0x49, off_char := 0x4D, on_length := 7, off_length := 6,
                   location := 6 * 80 + 60\<rparr>)) s;
       s \<leftarrow> fish_wait wait vmem rtc_fd garbage 100 s;
       (_, s) \<leftarrow> mp1_ioctl vmem (RTC_SYNC (push_bit 16 40 OR (6 * 80 + 60))) s;
       s \<leftarrow> fish_wait wait vmem rtc_fd garbage 100 s;
       (_, s) \<leftarrow> mp1_ioctl vmem (RTC_REMOVE (6 * 80 + 60)) s;
       s \<leftarrow> fish_wait wait vmem rtc_fd garbage 100 s;
       (_, s) \<leftarrow> ece391_close rtc_fd s;
       Some (Return 0, s)
     }"

definition fish_main ::
    "(string \<Rightarrow> addr) \<Rightarrow> ('a fish_scheme \<Rightarrow> 'a fish_scheme) \<Rightarrow> addr \<Rightarrow> mp1_blink_struct \<Rightarrow> mp1_blink_struct \<Rightarrow> addr \<Rightarrow> addr
     \<Rightarrow> addr \<Rightarrow> addr \<Rightarrow> 'a fish_scheme \<Rightarrow> (control \<times> 'a fish_scheme) option" where
  "fish_main lit wait vmem b b' c0 c1 garbage ret_val s =
     do {
       let s = s\<lparr>blink_array := replicate (80 * 25) zero_blink\<rparr>;
       (mode, s) \<leftarrow> mp1_set_video_mode vmem s;
       if mode = 0 then Some (Return (-1), s)
       else do {
         (rtc_fd, s) \<leftarrow> ece391_open (lit ''rtc'') s;
         (c, s) \<leftarrow> add_frames vmem b' c0 c1 (lit ''frame0.txt'') (lit ''frame1.txt'') s;
         case c of
           Return _ \<Rightarrow> do {
             (r, s) \<leftarrow> ece391_write rtc_fd ret_val 4 (st32 ret_val 32 s);
             fish_show wait vmem b rtc_fd garbage (st32 ret_val r s)
           }
         | _ \<Rightarrow> Some (c, s)
       }
     }"

end
