(* ===== verification/Fish_Spec.thy ===== *)
theory Fish_Spec
  imports Fish User_State
begin

text \<open>
  The linked list of \<^verbatim>\<open>blink.S\<close> against a plain list of blinks. \<open>blinks_are s xs\<close> relates them: following the links from
  the head gives exactly the structures in use, each once, with the contents \<open>xs\<close>. Every command of \<open>mp1_ioctl\<close>
  and every tick of the tasklet is then an operation on \<open>xs\<close>, for any sequence of them.
\<close>

section \<open>The list in the array\<close>

fun chain :: "mp1_blink_struct list \<Rightarrow> nat option \<Rightarrow> nat list \<Rightarrow> bool" where
  "chain arr h [] \<longleftrightarrow> h = None"
| "chain arr h (p # ps) \<longleftrightarrow> h = Some p \<and> chain arr (next_blink (arr ! p)) ps"

definition links_ok :: "nat list \<Rightarrow> 'a fish_scheme \<Rightarrow> bool" where
  "links_ok ps s \<longleftrightarrow> length (blink_array s) = 2000 \<and> chain (blink_array s) (mp1_list_head s) ps \<and> distinct ps
     \<and> set ps = {i. i < 2000 \<and> location (blink_array s ! i) \<noteq> 0}"

text \<open>What a structure holds apart from its link.\<close>

abbreviation contents :: "mp1_blink_struct \<Rightarrow> mp1_blink_struct" where
  "contents b \<equiv> b\<lparr>next_blink := None\<rparr>"

definition blinks_of :: "nat list \<Rightarrow> 'a fish_scheme \<Rightarrow> mp1_blink_struct list" where
  "blinks_of ps s = map (\<lambda>p. contents (blink_array s ! p)) ps"

definition blinks_are :: "'a fish_scheme \<Rightarrow> mp1_blink_struct list \<Rightarrow> bool" where
  "blinks_are s xs \<longleftrightarrow> (\<exists>ps. links_ok ps s \<and> xs = blinks_of ps s)"

lemma chain_cong:
  "(\<And>p. p \<in> set ps \<Longrightarrow> next_blink (arr' ! p) = next_blink (arr ! p)) \<Longrightarrow> chain arr' h ps = chain arr h ps"
  by (induction ps arbitrary: h) auto

lemma chain_upd [simp]: "p \<notin> set ps \<Longrightarrow> chain (arr[p := b]) h ps = chain arr h ps"
  by (rule chain_cong) (metis nth_list_update_neq)

lemma links_okD:
  assumes "links_ok ps s" "p \<in> set ps"
  shows "p < 2000" "p < length (blink_array s)" "location (blink_array s ! p) \<noteq> 0"
  using assms by (auto simp: links_ok_def)

text \<open>Writes to the screen leave the list alone.\<close>

lemma poke_fields [simp]:
  "blink_array (mp1_poke v c a s) = blink_array s" "mp1_list_head (mp1_poke v c a s) = mp1_list_head s"
  by (simp_all add: mp1_poke_def st_def)

lemma links_poke [simp]: "links_ok ps (mp1_poke v c a s) = links_ok ps s" "blinks_of ps (mp1_poke v c a s) = blinks_of ps s"
  by (simp_all add: links_ok_def blinks_of_def)

section \<open>The operations on a plain list\<close>

text \<open>The first blink at a place is replaced by what \<open>f\<close> makes of it.\<close>

fun on_first :: "u16 \<Rightarrow> (mp1_blink_struct \<Rightarrow> mp1_blink_struct list) \<Rightarrow> mp1_blink_struct list \<Rightarrow> mp1_blink_struct list" where
  "on_first l f [] = []"
| "on_first l f (x # xs) = (if location x = l then f x @ xs else x # on_first l f xs)"

definition blink_fresh :: "mp1_blink_struct \<Rightarrow> mp1_blink_struct" where
  "blink_fresh b = b\<lparr>status := 1, countdown := on_length b, next_blink := None\<rparr>"

definition blink_sync :: "mp1_blink_struct \<Rightarrow> mp1_blink_struct \<Rightarrow> mp1_blink_struct" where
  "blink_sync a b = b\<lparr>on_length := on_length a, off_length := off_length a, countdown := countdown a, status := status a\<rparr>"

definition blink_tick :: "mp1_blink_struct \<Rightarrow> mp1_blink_struct" where
  "blink_tick b =
     (if 0 <s countdown b - 1 then b\<lparr>countdown := countdown b - 1\<rparr>
      else b\<lparr>countdown := (if status b AND 1 = 0 then on_length b else off_length b), status := status b XOR 1\<rparr>)"

abbreviation first_at :: "u16 \<Rightarrow> mp1_blink_struct list \<Rightarrow> mp1_blink_struct option" where
  "first_at l \<equiv> find (\<lambda>x. location x = l)"

definition blink_exec :: "mp1_command \<Rightarrow> mp1_blink_struct list \<Rightarrow> i32 \<times> mp1_blink_struct list" where
  "blink_exec cmd xs =
     (case cmd of
        RTC_ADD b \<Rightarrow> if location b < 2000 \<and> length xs < 2000 then (0, blink_fresh b # xs) else (-1, xs)
      | RTC_REMOVE a \<Rightarrow> (case first_at (ucast a) xs of None \<Rightarrow> (-1, xs) | Some _ \<Rightarrow> (0, on_first (ucast a) (\<lambda>_. []) xs))
      | RTC_FIND b \<Rightarrow> (case first_at (location b) xs of None \<Rightarrow> (-1, xs) | Some _ \<Rightarrow> (0, xs))
      | RTC_SYNC a \<Rightarrow> (case (first_at (ucast (drop_bit 16 a)) xs, first_at (ucast (a AND 0xFFFF)) xs) of
            (Some x, Some _) \<Rightarrow> (0, on_first (ucast (a AND 0xFFFF)) (\<lambda>y. [blink_sync x y]) xs)
          | _ \<Rightarrow> (-1, xs)))"

section \<open>Adding\<close>

lemma malloc_cases:
  assumes "links_ok ps s"
  shows "mp1_malloc s = None \<longleftrightarrow> length ps = 2000" "mp1_malloc s = Some p \<Longrightarrow> p < 2000 \<and> p \<notin> set ps"
proof -
  have "distinct ps" using assms by (simp add: links_ok_def)
  then have "length ps = card (set ps)" by (simp add: distinct_card)
  moreover have sub: "set ps \<subseteq> {i. i < 2000}" using assms by (auto simp: links_ok_def)
  have "card (set ps) = 2000 \<longleftrightarrow> set ps = {i. i < 2000}"
    using card_subset_eq [OF _ sub] by (metis card_Collect_less_nat finite_Collect_less_nat)
  moreover have "mp1_malloc s = None \<longleftrightarrow> set ps = {i. i < 2000}"
    using assms by (auto simp: mp1_malloc_def find_None_iff links_ok_def)
  ultimately show "mp1_malloc s = None \<longleftrightarrow> length ps = 2000" by simp
  show "mp1_malloc s = Some p \<Longrightarrow> p < 2000 \<and> p \<notin> set ps"
    using assms by (auto simp: mp1_malloc_def find_Some_iff links_ok_def)
qed

lemma blinks_length: "links_ok ps s \<Longrightarrow> length ps \<le> 2000"
  using card_mono [of "{i. i < 2000}" "set ps"] distinct_card [of ps] by (auto simp: links_ok_def)

lemma add_refines:
  assumes "blinks_are s xs" "location b \<noteq> 0" "mp1_ioctl vmem (RTC_ADD b) s = Some (r, t)"
  shows "r = fst (blink_exec (RTC_ADD b) xs)" "blinks_are t (snd (blink_exec (RTC_ADD b) xs))"
proof -
  obtain ps where ps: "links_ok ps s" "xs = blinks_of ps s" using assms(1) by (auto simp: blinks_are_def)
  have len: "length xs = length ps" by (simp add: ps(2) blinks_of_def)
  have "r = fst (blink_exec (RTC_ADD b) xs) \<and> blinks_are t (snd (blink_exec (RTC_ADD b) xs))"
  proof (cases "location b < 2000 \<and> length ps < 2000")
    case True
    then obtain p where p: "mp1_malloc s = Some p" using malloc_cases(1) [OF ps(1)] by fastforce
    note p2 = malloc_cases(2) [OF ps(1) p]
    define arr where "arr = (blink_array s)[p := b\<lparr>status := 1, countdown := on_length b, next_blink := mp1_list_head s\<rparr>]"
    have "\<not> location b \<ge> 2000" using True by (simp add: not_le)
    then have t: "r = 0" "blink_array t = arr" "mp1_list_head t = Some p"
      using assms(3) p by (auto simp: mp1_ioctl_def mp1_ioctl_add_def Let_def arr_def)
    have nth: "arr ! i = (if i = p then b\<lparr>status := 1, countdown := on_length b, next_blink := mp1_list_head s\<rparr> else blink_array s ! i)"
      if "i < 2000" for i using ps(1) that by (auto simp: arr_def links_ok_def)
    have lt: "i < 2000" if "i \<in> set ps" for i using links_okD(1) [OF ps(1) that] .
    have "chain arr (mp1_list_head s) ps = chain (blink_array s) (mp1_list_head s) ps"
      by (rule chain_cong) (use p2 nth lt in auto)
    moreover have "location (arr ! i) \<noteq> 0 \<longleftrightarrow> i = p \<or> i \<in> set ps" if "i < 2000" for i
      using nth [OF that] assms(2) ps(1) that by (simp add: links_ok_def)
    then have "set (p # ps) = {i. i < 2000 \<and> location (arr ! i) \<noteq> 0}" using p2 lt by auto
    moreover have "next_blink (arr ! p) = mp1_list_head s" "length arr = 2000"
      using nth [of p] p2 ps(1) by (simp_all add: arr_def links_ok_def)
    ultimately have "links_ok (p # ps) t"
      using ps(1) p2 by (simp add: links_ok_def t(2,3))
    moreover have "blinks_of (p # ps) t = blink_fresh b # xs"
      using p2 lt by (auto simp: blinks_of_def t(2) nth ps(2) blink_fresh_def)
    ultimately show ?thesis using True t(1) len by (auto simp: blink_exec_def blinks_are_def)
  next
    case False
    then have "location b \<ge> 2000 \<or> mp1_malloc s = None"
      using malloc_cases(1) [OF ps(1)] blinks_length [OF ps(1)] by (auto simp: not_less)
    then have "r = -1" "t = s" using assms(3) by (auto simp: mp1_ioctl_def mp1_ioctl_add_def Let_def split: if_splits)
    then show ?thesis using False assms(1) len by (simp add: blink_exec_def)
  qed
  then show "r = fst (blink_exec (RTC_ADD b) xs)" "blinks_are t (snd (blink_exec (RTC_ADD b) xs))" by simp_all
qed

section \<open>Finding and removing\<close>

lemma find_split: "find P xs = Some p \<Longrightarrow> \<exists>as bs. xs = as @ p # bs \<and> P p \<and> (\<forall>a \<in> set as. \<not> P a)"
proof (induction xs)
  case (Cons x xs)
  show ?case
  proof (cases "P x")
    case False
    then obtain as bs where "xs = as @ p # bs" "P p" "\<forall>a \<in> set as. \<not> P a" using Cons by auto
    then show ?thesis using False by (intro exI [of _ "x # as"] exI [of _ bs]) simp
  qed (use Cons.prems in \<open>auto intro: exI [of _ "[]"]\<close>)
qed simp

lemma find_loop_eq:
  "chain (blink_array s) h ps \<Longrightarrow> find_loop ax h s = Some (find (\<lambda>p. location (blink_array s ! p) = ax) ps)"
  by (induction ps arbitrary: h) (auto simp: find_loop.simps)

lemma first_at_blinks:
  "first_at l (blinks_of ps s) = map_option (\<lambda>p. contents (blink_array s ! p)) (find (\<lambda>p. location (blink_array s ! p) = l) ps)"
  by (induction ps) (auto simp: blinks_of_def)

lemma on_first_blinks:
  assumes "location (blink_array s ! p) = l" "\<forall>a \<in> set as. location (blink_array s ! a) \<noteq> l"
  shows "on_first l f (blinks_of (as @ p # bs) s) = blinks_of as s @ f (contents (blink_array s ! p)) @ blinks_of bs s"
  using assms by (induction as) (auto simp: blinks_of_def)

lemma find_helper_eq:
  "links_ok ps s \<Longrightarrow> mp1_find_helper l s = Some (find (\<lambda>p. location (blink_array s ! p) = ucast l) ps)"
  unfolding mp1_find_helper_def by (rule find_loop_eq) (simp add: links_ok_def)

lemma find_prev_eq:
  assumes "chain (blink_array s) (case edx of None \<Rightarrow> mp1_list_head s | Some q \<Rightarrow> next_blink (blink_array s ! q)) (as @ p # bs)"
    "p \<notin> set as"
  shows "find_prev p edx s = Some (if as = [] then edx else Some (last as))"
  using assms
proof (induction as arbitrary: edx)
  case Nil
  then show ?case by (simp add: find_prev.simps Let_def)
next
  case (Cons a as)
  then have "find_prev p (Some a) s = Some (if as = [] then Some a else Some (last as))" by simp
  then show ?case using Cons.prems by (subst find_prev.simps) (auto simp: Let_def)
qed

lemma chain_unlink:
  assumes "chain arr h (as @ p # bs)" "distinct (as @ p # bs)" "as \<noteq> []" "\<forall>i \<in> set as. i < length arr"
  shows "chain (arr[last as := (arr ! last as)\<lparr>next_blink := next_blink (arr ! p)\<rparr>]) h (as @ bs)"
  using assms
proof (induction as arbitrary: h)
  case (Cons a as)
  show ?case
  proof (cases "as = []")
    case True
    then show ?thesis using Cons.prems True by simp
  next
    case False
    then have "a \<noteq> last as" using Cons.prems(2) by auto
    then show ?thesis using Cons False by simp
  qed
qed simp

text \<open>Taking one element out of the list and freeing it leaves a list of the others.\<close>

lemma remove_links:
  assumes ok: "links_ok (as @ p # bs) s"
  defines "t \<equiv> mp1_free p (unlink p (if as = [] then None else Some (last as)) s)"
  shows "links_ok (as @ bs) t" "blinks_of (as @ bs) t = blinks_of as s @ blinks_of bs s"
proof -
  let ?arr = "blink_array s"
  define arr where "arr = (if as = [] then ?arr else ?arr[last as := (?arr ! last as)\<lparr>next_blink := next_blink (?arr ! p)\<rparr>])"
  define h where "h = (if as = [] then next_blink (?arr ! p) else mp1_list_head s)"
  have t: "blink_array t = arr[p := zero_blink]" "mp1_list_head t = h"
    by (auto simp: t_def unlink_def mp1_free_def arr_def h_def Let_def)
  have d: "distinct (as @ p # bs)" "p < 2000" "length ?arr = 2000" and ch: "chain ?arr (mp1_list_head s) (as @ p # bs)"
    and set: "set (as @ p # bs) = {i. i < 2000 \<and> location (?arr ! i) \<noteq> 0}"
    using ok links_okD(1) [OF ok, of p] by (auto simp: links_ok_def)
  have "chain arr h (as @ bs)"
  proof (cases "as = []")
    case False
    then show ?thesis using chain_unlink [OF ch d(1)] links_okD(2) [OF ok] by (simp add: arr_def h_def)
  qed (use ch in \<open>simp add: arr_def h_def\<close>)
  then have chain: "chain (blink_array t) (mp1_list_head t) (as @ bs)" using d(1) by (simp add: t)
  have len: "length arr = 2000" using d(3) by (simp add: arr_def)
  have nth: "contents (blink_array t ! i) = (if i = p then zero_blink else contents (?arr ! i))" if "i < 2000" for i
    using that len d(3) by (cases "i = last as") (auto simp: t(1) nth_list_update arr_def zero_blink_def)
  have loc: "location (blink_array t ! i) = (if i = p then 0 else location (?arr ! i))" if "i < 2000" for i
    using arg_cong [OF nth [OF that], of location] by (simp add: zero_blink_def split: if_splits)
  have rest: "i \<in> set (as @ bs) \<longleftrightarrow> i \<noteq> p \<and> i \<in> set (as @ p # bs)" for i using d(1) by auto
  have "i \<in> set (as @ bs) \<longleftrightarrow> i < 2000 \<and> location (blink_array t ! i) \<noteq> 0" for i
    unfolding rest [of i] set using loc [of i] by (cases "i < 2000"; cases "i = p") simp_all
  then have "set (as @ bs) = {i. i < 2000 \<and> location (blink_array t ! i) \<noteq> 0}" by blast
  then show "links_ok (as @ bs) t" using chain d(1) len by (simp add: links_ok_def t(1))
  have "i < 2000" "i \<noteq> p" if "i \<in> set (as @ bs)" for i using that d(1) links_okD(1) [OF ok] by auto
  then show "blinks_of (as @ bs) t = blinks_of as s @ blinks_of bs s"
    using nth by (auto simp: blinks_of_def)
qed

lemma remove_refines:
  assumes "blinks_are s xs"
  obtains t where "mp1_ioctl vmem (RTC_REMOVE a) s = Some (fst (blink_exec (RTC_REMOVE a) xs), t)"
    "blinks_are t (snd (blink_exec (RTC_REMOVE a) xs))"
proof -
  obtain ps where ps: "links_ok ps s" "xs = blinks_of ps s" using assms by (auto simp: blinks_are_def)
  note find = find_helper_eq [OF ps(1), of a]
  show thesis
  proof (cases "find (\<lambda>p. location (blink_array s ! p) = ucast a) ps")
    case None
    then show thesis using that [of s] assms find
      by (simp add: mp1_ioctl_def mp1_ioctl_remove_def blink_exec_def first_at_blinks ps(2))
  next
    case (Some p)
    then obtain as bs where p: "ps = as @ p # bs" "location (blink_array s ! p) = ucast a"
        "\<forall>i \<in> set as. location (blink_array s ! i) \<noteq> ucast a" using find_split [OF Some] by auto
    have "p \<notin> set as" using ps(1) by (simp add: p(1) links_ok_def)
    then have "find_prev p None s = Some (if as = [] then None else Some (last as))"
      using find_prev_eq [of s None as p bs] ps(1) by (simp add: p(1) links_ok_def)
    then have run: "mp1_ioctl vmem (RTC_REMOVE a) s =
        Some (0, mp1_free p (unlink p (if as = [] then None else Some (last as)) s))"
      using find Some by (simp add: mp1_ioctl_def mp1_ioctl_remove_def)
    note rem = remove_links [OF ps(1) [unfolded p(1)]]
    have "on_first (ucast a) (\<lambda>_. []) xs = blinks_of as s @ blinks_of bs s"
      using on_first_blinks [OF p(2,3), of "\<lambda>_. []" bs] by (simp add: ps(2) p(1))
    then have "blink_exec (RTC_REMOVE a) xs = (0, blinks_of as s @ blinks_of bs s)"
      using Some by (simp add: blink_exec_def first_at_blinks ps(2))
    then show thesis using that [OF run [THEN trans]] rem unfolding blinks_are_def by (metis fst_conv snd_conv)
  qed
qed

section \<open>Synchronising and ticking\<close>

text \<open>Replacing structures of the list by ones with the same place and link keeps the list.\<close>

lemma links_map:
  assumes "links_ok ps s" "mp1_list_head t = mp1_list_head s" "length (blink_array t) = 2000"
    "\<And>i. i < 2000 \<Longrightarrow> location (blink_array t ! i) = location (blink_array s ! i)
       \<and> next_blink (blink_array t ! i) = next_blink (blink_array s ! i)"
  shows "links_ok ps t"
proof -
  have "chain (blink_array t) h ps = chain (blink_array s) h ps" for h
    by (rule chain_cong) (use links_okD(1) [OF assms(1)] assms(4) in simp)
  then show ?thesis using assms by (auto simp: links_ok_def)
qed

lemma sync_links:
  assumes ok: "links_ok (as @ q # bs) s"
    and t: "blink_array t = (blink_array s)[q := blink_sync a (blink_array s ! q)]" "mp1_list_head t = mp1_list_head s"
  shows "links_ok (as @ q # bs) t"
    "blinks_of (as @ q # bs) t = blinks_of as s @ blink_sync (contents a) (contents (blink_array s ! q)) # blinks_of bs s"
proof -
  have "q < 2000" by (rule links_okD(1) [OF ok]) simp
  with ok have len: "length (blink_array s) = 2000" "q \<notin> set as" "q \<notin> set bs" "q < 2000"
    by (simp_all add: links_ok_def)
  show "links_ok (as @ q # bs) t"
    by (rule links_map [OF ok t(2)]) (use len in \<open>auto simp: t(1) nth_list_update blink_sync_def\<close>)
  have "blinks_of ps t = blinks_of ps s" if "q \<notin> set ps" for ps
    unfolding blinks_of_def t(1) using that by (intro map_cong refl) (metis nth_list_update_neq)
  then have "blinks_of as t = blinks_of as s" "blinks_of bs t = blinks_of bs s" using len by simp_all
  then show "blinks_of (as @ q # bs) t = blinks_of as s @ blink_sync (contents a) (contents (blink_array s ! q)) # blinks_of bs s"
    using len by (simp add: blinks_of_def t(1) blink_sync_def)
qed

lemma sync_refines:
  assumes "blinks_are s xs"
  obtains t where "mp1_ioctl vmem (RTC_SYNC a) s = Some (fst (blink_exec (RTC_SYNC a) xs), t)"
    "blinks_are t (snd (blink_exec (RTC_SYNC a) xs))"
proof -
  obtain ps where ps: "links_ok ps s" "xs = blinks_of ps s" using assms by (auto simp: blinks_are_def)
  let ?from = "find (\<lambda>p. location (blink_array s ! p) = ucast (drop_bit 16 a)) ps"
  let ?to = "find (\<lambda>p. location (blink_array s ! p) = ucast (a AND 0xFFFF)) ps"
  note find = find_helper_eq [OF ps(1)]
  show thesis
  proof (cases "?from = None \<or> ?to = None")
    case True
    then show thesis using that [of s] assms find
      by (auto simp: mp1_ioctl_def mp1_ioctl_sync_def blink_exec_def first_at_blinks ps(2) split: option.splits)
  next
    case False
    then obtain p q where pq: "?from = Some p" "?to = Some q" by auto
    then obtain as bs where q: "ps = as @ q # bs" "location (blink_array s ! q) = ucast (a AND 0xFFFF)"
        "\<forall>i \<in> set as. location (blink_array s ! i) \<noteq> ucast (a AND 0xFFFF)" using find_split [OF pq(2)] by auto
    define t where "t = snd (the (mp1_ioctl vmem (RTC_SYNC a) s))"
    have run: "mp1_ioctl vmem (RTC_SYNC a) s = Some (0, t)" and
      t: "blink_array t = (blink_array s)[q := blink_sync (blink_array s ! p) (blink_array s ! q)]" "mp1_list_head t = mp1_list_head s"
      using find pq by (simp_all add: t_def mp1_ioctl_def mp1_ioctl_sync_def Let_def blink_sync_def)
    note sync = sync_links [OF ps(1) [unfolded q(1)] t]
    have "blink_exec (RTC_SYNC a) xs = (0, blinks_of (as @ q # bs) t)"
      using pq on_first_blinks [OF q(2,3), of "\<lambda>y. [blink_sync (contents (blink_array s ! p)) y]" bs] sync(2)
      by (simp add: blink_exec_def first_at_blinks ps(2) q(1))
    then show thesis using that [of t] run sync(1) by (auto simp: blinks_are_def)
  qed
qed

lemma tick_keeps [simp]: "location (blink_tick b) = location b" "next_blink (blink_tick b) = next_blink b"
  "contents (blink_tick b) = blink_tick (contents b)"
  by (simp_all add: blink_tick_def)

lemma tasklet_step_eq:
  "blink_array (tasklet_step vmem p s) = (blink_array s)[p := blink_tick (blink_array s ! p)]"
  "mp1_list_head (tasklet_step vmem p s) = mp1_list_head s"
  by (simp_all add: tasklet_step_def blink_tick_def Let_def)

lemma tasklet_loop_eq:
  assumes "chain (blink_array s) h ps" "distinct ps" "\<forall>p \<in> set ps. p < length (blink_array s)"
  shows "\<exists>t. tasklet_loop vmem h s = Some t \<and> mp1_list_head t = mp1_list_head s \<and> length (blink_array t) = length (blink_array s)
    \<and> (\<forall>i. blink_array t ! i = (if i \<in> set ps then blink_tick (blink_array s ! i) else blink_array s ! i))"
  using assms
proof (induction ps arbitrary: h s)
  case Nil
  then show ?case by (simp add: tasklet_loop.simps)
next
  case (Cons p ps)
  let ?u = "tasklet_step vmem p s"
  have "\<exists>t. tasklet_loop vmem (next_blink (blink_array s ! p)) ?u = Some t \<and> mp1_list_head t = mp1_list_head ?u
      \<and> length (blink_array t) = length (blink_array ?u)
      \<and> (\<forall>i. blink_array t ! i = (if i \<in> set ps then blink_tick (blink_array ?u ! i) else blink_array ?u ! i))"
    by (rule Cons.IH) (use Cons.prems in \<open>simp_all add: tasklet_step_eq\<close>)
  then obtain t where t: "tasklet_loop vmem (next_blink (blink_array s ! p)) ?u = Some t" "mp1_list_head t = mp1_list_head s"
      "length (blink_array t) = length (blink_array s)"
      "\<And>i. blink_array t ! i = (if i \<in> set ps then blink_tick (blink_array ?u ! i) else blink_array ?u ! i)"
    by (auto simp: tasklet_step_eq)
  have "tasklet_loop vmem h s = Some t"
    using Cons.prems t(1) by (subst tasklet_loop.simps) (simp add: Let_def tasklet_step_eq)
  moreover have "blink_array t ! i = (if i \<in> set (p # ps) then blink_tick (blink_array s ! i) else blink_array s ! i)" for i
    using t(4) [of i] Cons.prems by (cases "i = p") (auto simp: tasklet_step_eq)
  ultimately show ?case using t(2,3) by blast
qed

lemma tick_refines:
  assumes "blinks_are s xs"
  obtains t where "mp1_rtc_tasklet vmem s = Some t" "blinks_are t (map blink_tick xs)"
proof -
  obtain ps where ps: "links_ok ps s" "xs = blinks_of ps s" using assms by (auto simp: blinks_are_def)
  obtain t where t: "mp1_rtc_tasklet vmem s = Some t" "mp1_list_head t = mp1_list_head s" "length (blink_array t) = length (blink_array s)"
      "\<And>i. blink_array t ! i = (if i \<in> set ps then blink_tick (blink_array s ! i) else blink_array s ! i)"
    using tasklet_loop_eq [of s "mp1_list_head s" ps vmem] ps(1) links_okD(2) [OF ps(1)]
    by (auto simp: mp1_rtc_tasklet_def links_ok_def)
  have "links_ok ps t" by (rule links_map [OF ps(1) t(2)]) (use t(3,4) ps(1) in \<open>simp_all add: links_ok_def\<close>)
  moreover have "blinks_of ps t = map blink_tick xs" by (simp add: blinks_of_def ps(2) t(4))
  ultimately show thesis using that t(1) unfolding blinks_are_def by metis
qed

section \<open>What the screen shows\<close>

definition blink_cell :: "addr \<Rightarrow> u16 \<Rightarrow> addr" where
  "blink_cell v l = v + push_bit 1 (ucast l)"

text \<open>The character a blink shows: bit 0 of its status says which.\<close>

definition face :: "mp1_blink_struct \<Rightarrow> u8" where
  "face b = (if status b AND 1 = 0 then off_char b else on_char b)"

text \<open>
  \<open>screen_at vmem v s\<close>: the variable at \<open>vmem\<close> holds the address \<open>v\<close> of the mapped screen, whose cells are
  different bytes and none of them is part of the variable.
\<close>

definition screen_at :: "addr \<Rightarrow> addr \<Rightarrow> 'a fish_scheme \<Rightarrow> bool" where
  "screen_at vmem v s \<longleftrightarrow> ld32 s vmem = v \<and> inj_on (\<lambda>l. xl s (blink_cell v l)) {l. l < 2000}
     \<and> (\<forall>l < 2000. xl s (blink_cell v l) \<notin> xl s ` {vmem, vmem + 1, vmem + 2, vmem + 3})"

definition faces_shown :: "addr \<Rightarrow> mp1_blink_struct list \<Rightarrow> 'a fish_scheme \<Rightarrow> bool" where
  "faces_shown v xs s \<longleftrightarrow> distinct (map location xs) \<and> (\<forall>x \<in> set xs. location x < 2000 \<and> ld s (blink_cell v (location x)) = face x)"

lemma fish_fields [simp]:
  "ld (s\<lparr>blink_array := a\<rparr>) = ld (s :: 'a fish_scheme)" "ld (s\<lparr>mp1_list_head := h\<rparr>) = ld s"
  "xl (s\<lparr>blink_array := a\<rparr>) = xl s" "xl (s\<lparr>mp1_list_head := h\<rparr>) = xl s"
  "ld32 (s\<lparr>blink_array := a\<rparr>) = ld32 s" "ld32 (s\<lparr>mp1_list_head := h\<rparr>) = ld32 s"
  by (auto simp: ld_def ld32_def fun_eq_iff)

lemma screen_at_fields [simp]:
  "screen_at vmem v (s\<lparr>blink_array := a\<rparr>) = screen_at vmem v s" "screen_at vmem v (s\<lparr>mp1_list_head := h\<rparr>) = screen_at vmem v s"
  by (simp_all add: screen_at_def)

lemma poke_cell:
  assumes "screen_at vmem v s" "l < 2000"
  shows "screen_at vmem v (mp1_poke vmem c (push_bit 1 (ucast l)) s)"
    "k < 2000 \<Longrightarrow> ld (mp1_poke vmem c (push_bit 1 (ucast l)) s) (blink_cell v k) = (if k = l then c else ld s (blink_cell v k))"
proof -
  have poke: "mp1_poke vmem c (push_bit 1 (ucast l)) s = st (blink_cell v l) c s"
    using assms(1) by (simp add: mp1_poke_def blink_cell_def screen_at_def)
  have "xl s (vmem + i) \<noteq> xl s (blink_cell v l)" if "i \<in> {0, 1, 2, 3}" for i
  proof -
    have "xl s (vmem + i) \<in> xl s ` {vmem, vmem + 1, vmem + 2, vmem + 3}" using that by auto
    then show ?thesis using assms unfolding screen_at_def by metis
  qed
  from this [of 0] this [of 1] this [of 2] this [of 3] have "ld32 (st (blink_cell v l) c s) vmem = ld32 s vmem"
    by (simp add: ld32_def ld_st)
  then show "screen_at vmem v (mp1_poke vmem c (push_bit 1 (ucast l)) s)"
    unfolding poke using assms(1) by (simp add: screen_at_def)
  show "k < 2000 \<Longrightarrow> ld (mp1_poke vmem c (push_bit 1 (ucast l)) s) (blink_cell v k) = (if k = l then c else ld s (blink_cell v k))"
    unfolding poke using assms by (auto simp: ld_st screen_at_def dest: inj_onD)
qed

lemma status_flip: "(x XOR 1) AND 1 = (0 :: u16) \<longleftrightarrow> x AND 1 \<noteq> 0"
  by (simp add: and_one_eq mod_2_eq_odd even_xor_iff)

lemma face_tick:
  "face (blink_tick b) = (if 0 <s countdown b - 1 then face b else if status b AND 1 = 0 then on_char b else off_char b)"
  by (simp add: blink_tick_def face_def status_flip)

lemma tasklet_step_shows:
  assumes "screen_at vmem v s" "location (blink_array s ! p) < 2000"
    "ld s (blink_cell v (location (blink_array s ! p))) = face (blink_array s ! p)"
  shows "screen_at vmem v (tasklet_step vmem p s)"
    "k < 2000 \<Longrightarrow> ld (tasklet_step vmem p s) (blink_cell v k) =
       (if k = location (blink_array s ! p) then face (blink_tick (blink_array s ! p)) else ld s (blink_cell v k))"
  using assms poke_cell [of vmem v "s\<lparr>blink_array := _\<rparr>" "location (blink_array s ! p)"]
  by (auto simp: tasklet_step_def Let_def face_tick)

lemma tasklet_loop_shows:
  assumes "chain (blink_array s) h ps" "distinct ps" "screen_at vmem v s" "tasklet_loop vmem h s = Some t"
    "\<forall>p \<in> set ps. p < length (blink_array s) \<and> location (blink_array s ! p) < 2000
       \<and> ld s (blink_cell v (location (blink_array s ! p))) = face (blink_array s ! p)"
    "distinct (map (\<lambda>p. location (blink_array s ! p)) ps)"
  shows "screen_at vmem v t \<and> (\<forall>p \<in> set ps. ld t (blink_cell v (location (blink_array s ! p))) = face (blink_tick (blink_array s ! p)))
    \<and> (\<forall>k < 2000. k \<notin> (\<lambda>p. location (blink_array s ! p)) ` set ps \<longrightarrow> ld t (blink_cell v k) = ld s (blink_cell v k))"
  using assms
proof (induction ps arbitrary: h s)
  case Nil
  then show ?case by (simp add: tasklet_loop.simps)
next
  case (Cons p ps)
  let ?u = "tasklet_step vmem p s"
  have p: "location (blink_array s ! p) < 2000" "ld s (blink_cell v (location (blink_array s ! p))) = face (blink_array s ! p)"
    using Cons.prems(5) by simp_all
  note step = tasklet_step_shows [OF Cons.prems(3) p]
  have arr: "blink_array ?u ! i = blink_array s ! i" if "i \<in> set ps" for i
    using that Cons.prems(2) by (cases "i = p") (simp_all add: tasklet_step_eq)
  have loc: "location (blink_array s ! i) \<noteq> location (blink_array s ! p)" if "i \<in> set ps" for i
    using Cons.prems(6) imageI [OF that, of "\<lambda>p. location (blink_array s ! p)"] by auto
  have "screen_at vmem v t \<and> (\<forall>p \<in> set ps. ld t (blink_cell v (location (blink_array ?u ! p))) = face (blink_tick (blink_array ?u ! p)))
      \<and> (\<forall>k < 2000. k \<notin> (\<lambda>p. location (blink_array ?u ! p)) ` set ps \<longrightarrow> ld t (blink_cell v k) = ld ?u (blink_cell v k))"
  proof (rule Cons.IH)
    show "chain (blink_array ?u) (next_blink (blink_array s ! p)) ps" using Cons.prems(1,2) by (simp add: tasklet_step_eq)
    show "tasklet_loop vmem (next_blink (blink_array s ! p)) ?u = Some t"
      using Cons.prems(1,4,5) by (subst (asm) tasklet_loop.simps) (simp add: Let_def tasklet_step_eq)
    show "distinct (map (\<lambda>p. location (blink_array ?u ! p)) ps)"
      using Cons.prems(6) by (simp add: arr cong: map_cong)
    show "\<forall>q \<in> set ps. q < length (blink_array ?u) \<and> location (blink_array ?u ! q) < 2000
        \<and> ld ?u (blink_cell v (location (blink_array ?u ! q))) = face (blink_array ?u ! q)"
      using Cons.prems(5) step(2) loc by (simp add: arr tasklet_step_eq(1) [of vmem p s, THEN arg_cong [of _ _ length]])
  qed (use Cons.prems(2) step(1) in simp_all)
  moreover have "(\<lambda>p. location (blink_array ?u ! p)) ` set ps = (\<lambda>p. location (blink_array s ! p)) ` set ps"
    using arr by (auto intro!: image_cong)
  moreover have "location (blink_array s ! p) \<notin> (\<lambda>p. location (blink_array s ! p)) ` set ps" using Cons.prems(6) by simp
  ultimately show ?case using step(2) p(1) by (auto simp: arr)
qed

section \<open>Runs\<close>

text \<open>
  A system whose steps give a value, and an abstract one that takes the same steps: if related states stay related after
  every admissible step, then the values of whole runs agree.
\<close>

primrec run_steps :: "('e \<Rightarrow> 's \<Rightarrow> ('r \<times> 's) option) \<Rightarrow> 'e list \<Rightarrow> 's \<Rightarrow> ('r list \<times> 's) option" where
  "run_steps f [] s = Some ([], s)"
| "run_steps f (e # es) s = do { (r, s) \<leftarrow> f e s; (rs, s) \<leftarrow> run_steps f es s; Some (r # rs, s) }"

primrec all_admissible :: "('e \<Rightarrow> 'x \<Rightarrow> 'r \<times> 'x) \<Rightarrow> ('e \<Rightarrow> 'x \<Rightarrow> bool) \<Rightarrow> 'e list \<Rightarrow> 'x \<Rightarrow> bool" where
  "all_admissible spec ok [] x \<longleftrightarrow> True"
| "all_admissible spec ok (e # es) x \<longleftrightarrow> ok e x \<and> all_admissible spec ok es (snd (spec e x))"

locale lockstep =
  fixes step :: "'e \<Rightarrow> 's \<Rightarrow> ('r \<times> 's) option"
    and spec :: "'e \<Rightarrow> 'x \<Rightarrow> 'r \<times> 'x"
    and related :: "'s \<Rightarrow> 'x \<Rightarrow> bool"
    and admissible :: "'e \<Rightarrow> 'x \<Rightarrow> bool"
  assumes step_related: "related s x \<Longrightarrow> admissible e x \<Longrightarrow> \<exists>t. step e s = Some (fst (spec e x), t) \<and> related t (snd (spec e x))"
begin

lemma run_related:
  "related s x \<Longrightarrow> all_admissible spec admissible es x \<Longrightarrow>
   \<exists>rs y t. run_steps (\<lambda>e x. Some (spec e x)) es x = Some (rs, y) \<and> run_steps step es s = Some (rs, t) \<and> related t y"
proof (induction es arbitrary: s x)
  case (Cons e es)
  obtain t where t: "step e s = Some (fst (spec e x), t)" "related t (snd (spec e x))"
    using step_related [OF Cons.prems(1), of e] Cons.prems(2) by auto
  obtain rs y u where "run_steps (\<lambda>e x. Some (spec e x)) es (snd (spec e x)) = Some (rs, y)"
      "run_steps step es t = Some (rs, u)" "related u y"
    using Cons.IH [OF t(2)] Cons.prems(2) by auto
  then show ?case using t(1) by (simp add: case_prod_unfold)
qed simp

end

text \<open>The steps of the animation: a command, whose value is the result, or a tick of the clock.\<close>

datatype blink_event = Command mp1_command | Tick

definition blink_step :: "addr \<Rightarrow> blink_event \<Rightarrow> 'a fish_scheme \<Rightarrow> (i32 \<times> 'a fish_scheme) option" where
  "blink_step vmem e s =
     (case e of Command c \<Rightarrow> mp1_ioctl vmem c s | Tick \<Rightarrow> do { s \<leftarrow> mp1_rtc_tasklet vmem s; Some (0, s) })"

definition blink_spec :: "blink_event \<Rightarrow> mp1_blink_struct list \<Rightarrow> i32 \<times> mp1_blink_struct list" where
  "blink_spec e xs = (case e of Command c \<Rightarrow> blink_exec c xs | Tick \<Rightarrow> (0, map blink_tick xs))"

text \<open>A place of 0 marks a free structure, so no blink may be added there.\<close>

definition not_at_zero :: "blink_event \<Rightarrow> bool" where
  "not_at_zero e \<longleftrightarrow> (case e of Command (RTC_ADD b) \<Rightarrow> location b \<noteq> 0 | _ \<Rightarrow> True)"

text \<open>For the screen, a blink is added at a place without one, and \<open>RTC_SYNC\<close> is left out.\<close>

definition screen_event :: "blink_event \<Rightarrow> mp1_blink_struct list \<Rightarrow> bool" where
  "screen_event e xs \<longleftrightarrow>
     (case e of Command (RTC_ADD b) \<Rightarrow> location b \<noteq> 0 \<and> location b \<notin> location ` set xs
      | Command (RTC_SYNC _) \<Rightarrow> False | _ \<Rightarrow> True)"

lemma ucast_u32_u16: "ucast (ucast (l :: u16) :: u32) = l"
  by (rule bit_word_eqI) (simp add: bit_simps)

lemma find_refines:
  assumes "blinks_are s xs"
  shows "mp1_ioctl vmem (RTC_FIND b) s = Some (fst (blink_exec (RTC_FIND b) xs), s)" "snd (blink_exec (RTC_FIND b) xs) = xs"
proof -
  obtain ps where ps: "links_ok ps s" "xs = blinks_of ps s" using assms by (auto simp: blinks_are_def)
  show "mp1_ioctl vmem (RTC_FIND b) s = Some (fst (blink_exec (RTC_FIND b) xs), s)"
    using find_helper_eq [OF ps(1), of "ucast (location b)"] ucast_u32_u16 [of "location b"]
    by (auto simp: mp1_ioctl_def mp1_ioctl_find_def blink_exec_def ps(2) first_at_blinks split: option.split)
  show "snd (blink_exec (RTC_FIND b) xs) = xs" by (simp add: blink_exec_def split: option.split)
qed

lemma step_refines:
  assumes "blinks_are s xs" "not_at_zero e"
  shows "\<exists>t. blink_step vmem e s = Some (fst (blink_spec e xs), t) \<and> blinks_are t (snd (blink_spec e xs))"
proof (cases e)
  case Tick
  obtain t where "mp1_rtc_tasklet vmem s = Some t" "blinks_are t (map blink_tick xs)" by (rule tick_refines [OF assms(1)])
  then show ?thesis using Tick by (simp add: blink_step_def blink_spec_def)
next
  case (Command c)
  show ?thesis
  proof (cases c)
    case (RTC_ADD b)
    obtain r t where "mp1_ioctl vmem (RTC_ADD b) s = Some (r, t)" by (cases "mp1_ioctl_add vmem b s") (simp add: mp1_ioctl_def)
    from add_refines [OF assms(1) _ this] this show ?thesis using Command RTC_ADD assms(2)
      by (simp add: blink_step_def blink_spec_def not_at_zero_def)
  next
    case (RTC_REMOVE a)
    show ?thesis by (rule remove_refines [OF assms(1), of vmem a]) (simp add: blink_step_def blink_spec_def Command RTC_REMOVE)
  next
    case (RTC_FIND b)
    show ?thesis using find_refines [OF assms(1)] assms(1)
      by (simp add: blink_step_def blink_spec_def Command RTC_FIND)
  next
    case (RTC_SYNC a)
    show ?thesis by (rule sync_refines [OF assms(1), of vmem a]) (simp add: blink_step_def blink_spec_def Command RTC_SYNC)
  qed
qed

interpretation blink_list: lockstep "blink_step vmem" blink_spec blinks_are "\<lambda>e _. not_at_zero e" for vmem
  by unfold_locales (rule step_refines)

text \<open>The screen under each event.\<close>

definition drawn :: "addr \<Rightarrow> addr \<Rightarrow> 'a fish_scheme \<Rightarrow> mp1_blink_struct list \<Rightarrow> bool" where
  "drawn vmem v s xs \<longleftrightarrow> blinks_are s xs \<and> screen_at vmem v s \<and> faces_shown v xs s"

lemma on_first_drop: "set (on_first l (\<lambda>_. []) xs) \<subseteq> set xs" "distinct (map location xs) \<Longrightarrow> distinct (map location (on_first l (\<lambda>_. []) xs))"
proof -
  show sub: "set (on_first l (\<lambda>_. []) xs) \<subseteq> set xs" for xs by (induction xs) auto
  show "distinct (map location xs) \<Longrightarrow> distinct (map location (on_first l (\<lambda>_. []) xs))"
    by (induction xs) (use sub in auto)
qed

lemma remove_shows:
  assumes "mp1_ioctl vmem (RTC_REMOVE a) s = Some (r, t)"
  shows "ld t = ld s" "screen_at vmem v t = screen_at vmem v s"
proof -
  have "t = s \<or> (\<exists>p edx. t = mp1_free p (unlink p edx s))"
    using assms by (auto simp: mp1_ioctl_def mp1_ioctl_remove_def Option.bind_eq_Some_conv split: option.splits)
  then show "ld t = ld s" "screen_at vmem v t = screen_at vmem v s"
    by (auto simp: mp1_free_def unlink_def Let_def split: option.splits)
qed

lemma add_shows:
  assumes "mp1_ioctl vmem (RTC_ADD b) s = Some (r, t)" "screen_at vmem v s"
  shows "screen_at vmem v t"
    "r = 0 \<Longrightarrow> k < 2000 \<Longrightarrow> ld t (blink_cell v k) = (if k = location b then on_char b else ld s (blink_cell v k))"
    "r \<noteq> 0 \<Longrightarrow> t = s"
  using assms poke_cell [of vmem v "s\<lparr>blink_array := _, mp1_list_head := _\<rparr>" "location b"]
  by (auto simp: mp1_ioctl_def mp1_ioctl_add_def Let_def not_le split: if_splits option.splits)

lemma tick_draws:
  assumes "drawn vmem v s xs" "mp1_rtc_tasklet vmem s = Some t"
  shows "screen_at vmem v t" "faces_shown v (map blink_tick xs) t"
proof -
  obtain ps where ps: "links_ok ps s" "xs = blinks_of ps s" using assms(1) by (auto simp: drawn_def blinks_are_def)
  have f: "screen_at vmem v s" "faces_shown v xs s" using assms(1) by (simp_all add: drawn_def)
  have dist: "distinct (map (\<lambda>p. location (blink_array s ! p)) ps)"
    using f(2) by (simp add: faces_shown_def ps(2) blinks_of_def comp_def)
  have face: "face (contents b) = face b" for b by (simp add: face_def)
  have all: "\<forall>p \<in> set ps. p < length (blink_array s) \<and> location (blink_array s ! p) < 2000
      \<and> ld s (blink_cell v (location (blink_array s ! p))) = face (blink_array s ! p)"
    using f(2) links_okD(2) [OF ps(1)] by (auto simp: faces_shown_def ps(2) blinks_of_def face)
  have "chain (blink_array s) (mp1_list_head s) ps" "distinct ps" using ps(1) by (simp_all add: links_ok_def)
  from tasklet_loop_shows [OF this f(1) assms(2) [unfolded mp1_rtc_tasklet_def] all dist]
  have t: "screen_at vmem v t" "\<forall>p \<in> set ps. ld t (blink_cell v (location (blink_array s ! p))) = face (blink_tick (blink_array s ! p))"
    by simp_all
  show "screen_at vmem v t" by (rule t(1))
  have "face (blink_tick (contents b)) = face (blink_tick b)" for b using face [of "blink_tick b"] by simp
  then show "faces_shown v (map blink_tick xs) t"
    using t(2) all dist by (auto simp: faces_shown_def ps(2) blinks_of_def comp_def)
qed

lemma add_draws:
  assumes "drawn vmem v s xs" "location b \<noteq> 0" "location b \<notin> location ` set xs" "mp1_ioctl vmem (RTC_ADD b) s = Some (r, t)"
  shows "faces_shown v (snd (blink_exec (RTC_ADD b) xs)) t"
proof (cases "r = 0")
  case True
  have f: "blinks_are s xs" "screen_at vmem v s" "faces_shown v xs s" using assms(1) by (simp_all add: drawn_def)
  have "r = fst (blink_exec (RTC_ADD b) xs)" by (rule add_refines(1) [OF f(1) assms(2,4)])
  then have ex: "location b < 2000" "blink_exec (RTC_ADD b) xs = (0, blink_fresh b # xs)"
    using True by (auto simp: blink_exec_def split: if_splits)
  have "face (blink_fresh b) = on_char b" "location (blink_fresh b) = location b" by (simp_all add: blink_fresh_def face_def)
  moreover have "ld t (blink_cell v (location x)) = face x" if "x \<in> set xs" for x
    using that f(3) add_shows(2) [OF assms(4) f(2) True, of "location x"] assms(3) by (auto simp: faces_shown_def image_iff)
  ultimately show ?thesis
    using ex f(3) assms(3) add_shows(2) [OF assms(4) f(2) True ex(1)] by (auto simp: faces_shown_def)
next
  case False
  have f: "blinks_are s xs" "screen_at vmem v s" "faces_shown v xs s" using assms(1) by (simp_all add: drawn_def)
  have "r = fst (blink_exec (RTC_ADD b) xs)" by (rule add_refines(1) [OF f(1) assms(2,4)])
  then have "snd (blink_exec (RTC_ADD b) xs) = xs" using False by (auto simp: blink_exec_def split: if_splits)
  then show ?thesis using add_shows(3) [OF assms(4) f(2) False] f(3) by simp
qed

lemma remove_draws:
  assumes "drawn vmem v s xs" "mp1_ioctl vmem (RTC_REMOVE a) s = Some (r, t)"
  shows "faces_shown v (snd (blink_exec (RTC_REMOVE a) xs)) t"
proof -
  have f: "faces_shown v xs s" using assms(1) by (simp add: drawn_def)
  have "snd (blink_exec (RTC_REMOVE a) xs) \<in> {xs, on_first (ucast a) (\<lambda>_. []) xs}"
    by (auto simp: blink_exec_def split: option.split)
  then show ?thesis
    using f on_first_drop [where xs = xs and l = "ucast a"] remove_shows(1) [OF assms(2)] by (auto simp: faces_shown_def)
qed

lemma step_draws:
  assumes "drawn vmem v s xs" "screen_event e xs"
  shows "\<exists>t. blink_step vmem e s = Some (fst (blink_spec e xs), t) \<and> drawn vmem v t (snd (blink_spec e xs))"
proof -
  have f: "blinks_are s xs" "screen_at vmem v s" "faces_shown v xs s" using assms(1) by (simp_all add: drawn_def)
  have "not_at_zero e" using assms(2) by (auto simp: not_at_zero_def screen_event_def split: blink_event.splits mp1_command.splits)
  then obtain t where t: "blink_step vmem e s = Some (fst (blink_spec e xs), t)" "blinks_are t (snd (blink_spec e xs))"
    using step_refines [OF f(1)] by blast
  have "screen_at vmem v t \<and> faces_shown v (snd (blink_spec e xs)) t"
  proof (cases e)
    case Tick
    then have "mp1_rtc_tasklet vmem s = Some t" using t(1) by (auto simp: blink_step_def Option.bind_eq_Some_conv)
    then show ?thesis using tick_draws [OF assms(1)] Tick by (simp add: blink_spec_def)
  next
    case (Command c)
    then have run: "mp1_ioctl vmem c s = Some (fst (blink_exec c xs), t)" using t(1) by (simp add: blink_step_def blink_spec_def)
    show ?thesis
    proof (cases c)
      case (RTC_ADD b)
      then show ?thesis using add_draws [OF assms(1)] add_shows(1) [OF _ f(2)] run assms(2) Command
        by (auto simp: screen_event_def blink_spec_def)
    next
      case (RTC_REMOVE a)
      note run' = run [unfolded RTC_REMOVE]
      show ?thesis using remove_draws [OF assms(1) run'] remove_shows(2) [OF run'] f(2) Command RTC_REMOVE
        by (simp add: blink_spec_def)
    next
      case (RTC_FIND b)
      then show ?thesis using find_refines [OF f(1)] run f(2,3) Command by (simp add: blink_spec_def)
    next
      case (RTC_SYNC a)
      then show ?thesis using assms(2) Command by (simp add: screen_event_def)
    qed
  qed
  then show ?thesis using t by (auto simp: drawn_def)
qed

interpretation blink_screen: lockstep "blink_step vmem" blink_spec "drawn vmem v" screen_event for vmem v
  by unfold_locales (rule step_draws)

section \<open>How long a blink is on\<close>

lemma signed_pos: "0 < n \<Longrightarrow> n < 2 ^ 15 \<Longrightarrow> 0 <s (word_of_nat n :: u16)" "\<not> 0 <s (0 :: u16)"
proof -
  assume "0 < n" "n < 2 ^ 15"
  then have "sint (word_of_nat n :: u16) = int n"
    by (simp add: signed_of_nat signed_take_bit_int_eq_self)
  then show "0 <s (word_of_nat n :: u16)" using \<open>0 < n\<close> by (simp add: word_sless_alt)
qed simp

text \<open>The state of a blink \<open>n\<close> ticks after it was added, in terms of the two lengths.\<close>

definition phase :: "nat \<Rightarrow> mp1_blink_struct \<Rightarrow> mp1_blink_struct" where
  "phase n b =
     (let up = unat (on_length b); dn = unat (off_length b); m = n mod (up + dn)
      in if m < up then b\<lparr>status := 1, countdown := word_of_nat (up - m), next_blink := None\<rparr>
         else b\<lparr>status := 0, countdown := word_of_nat (up + dn - m), next_blink := None\<rparr>)"

lemma tick_phase:
  assumes "0 < unat (on_length b)" "unat (on_length b) < 2 ^ 15" "0 < unat (off_length b)" "unat (off_length b) < 2 ^ 15"
  shows "blink_tick (phase n b) = phase (Suc n) b"
proof -
  define up dn where "up = unat (on_length b)" and "dn = unat (off_length b)"
  define m where "m = n mod (up + dn)"
  have m: "m < up + dn" and lens: "0 < up" "up < 2 ^ 15" "0 < dn" "dn < 2 ^ 15"
    using assms by (simp_all add: m_def up_def dn_def)
  have of_unat: "word_of_nat up = on_length b" "word_of_nat dn = off_length b" by (simp_all add: up_def dn_def)
  have suc: "Suc n mod (up + dn) = (if Suc m = up + dn then 0 else Suc m)" by (simp add: m_def mod_Suc)
  have pred: "word_of_nat (Suc k) - 1 = (word_of_nat k :: u16)" for k by simp
  consider "Suc m < up" | "Suc m = up" | "up \<le> m" "Suc m < up + dn" | "Suc m = up + dn" "up \<le> m" using m by linarith
  then show ?thesis
  proof cases
    case 1
    then have "up - m = Suc (up - Suc m)" "0 < up - Suc m" "up - Suc m < 2 ^ 15" using lens by simp_all
    then show ?thesis using 1 lens signed_pos(1) [of "up - Suc m"]
      by (simp add: blink_tick_def phase_def Let_def up_def [symmetric] dn_def [symmetric] m_def [symmetric] suc pred del: of_nat_Suc)
  next
    case 2
    then have "up - m = 1" by simp
    then show ?thesis using 2 lens of_unat
      by (simp add: blink_tick_def phase_def Let_def up_def [symmetric] dn_def [symmetric] m_def [symmetric] suc)
  next
    case 3
    then have "up + dn - m = Suc (up + dn - Suc m)" "0 < up + dn - Suc m" "up + dn - Suc m < 2 ^ 15" using lens by simp_all
    then show ?thesis using 3 lens signed_pos(1) [of "up + dn - Suc m"]
      by (simp add: blink_tick_def phase_def Let_def up_def [symmetric] dn_def [symmetric] m_def [symmetric] suc pred del: of_nat_Suc)
  next
    case 4
    then have "up + dn - m = 1" by simp
    then show ?thesis using 4 lens of_unat
      by (simp add: blink_tick_def phase_def Let_def up_def [symmetric] dn_def [symmetric] m_def [symmetric] suc)
  qed
qed

lemma phase_0: "0 < unat (on_length b) \<Longrightarrow> phase 0 b = blink_fresh b"
  by (simp add: phase_def blink_fresh_def)

lemma phase_ticks:
  assumes "0 < unat (on_length b)" "unat (on_length b) < 2 ^ 15" "0 < unat (off_length b)" "unat (off_length b) < 2 ^ 15"
  shows "run_steps (\<lambda>e x. Some (blink_spec e x)) (replicate n Tick) (phase k b # xs) =
    Some (replicate n 0, phase (k + n) b # map (blink_tick ^^ n) xs)"
proof (induction n arbitrary: k xs)
  case (Suc n)
  have "map (blink_tick ^^ n) (map blink_tick xs) = map (blink_tick ^^ Suc n) xs" by (simp add: funpow_swap1 comp_def)
  then show ?case using Suc [of "Suc k" "map blink_tick xs"] by (simp add: blink_spec_def tick_phase [OF assms])
qed simp

section \<open>A blink at place 0\<close>

text \<open>A list whose first element is its own successor: the tasklet never comes to its end.\<close>

lemma tasklet_cycle:
  assumes "p < length (blink_array s)" "next_blink (blink_array s ! p) = Some p"
  shows "tasklet_loop vmem (Some p) s = None"
proof (rule ccontr)
  assume "tasklet_loop vmem (Some p) s \<noteq> None"
  then obtain t where t: "tasklet_loop vmem (Some p) s = Some t" by blast
  have "\<not> (h = Some p \<and> p < length (blink_array s) \<and> next_blink (blink_array s ! p) = Some p)"
    if "tasklet_loop vmem h s = Some t" for h and s t :: "'a fish_scheme"
  proof (rule tasklet_loop.raw_induct [where P = "\<lambda>v h s t. \<not> (h = Some p \<and> p < length (blink_array s)
        \<and> next_blink (blink_array s ! p) = Some p)", OF _ that])
    fix f v h and s t :: "'a fish_scheme"
    assume IH: "\<And>v h s t. f v h s = Some t \<Longrightarrow>
        \<not> (h = Some p \<and> p < length (blink_array s) \<and> next_blink (blink_array s ! p) = Some p)"
      and run: "(case h of None \<Rightarrow> Some s
        | Some p \<Rightarrow> let s = tasklet_step v p s in f v (next_blink (blink_array s ! p)) s) = Some t"
    show "\<not> (h = Some p \<and> p < length (blink_array s) \<and> next_blink (blink_array s ! p) = Some p)"
    proof
      assume h: "h = Some p \<and> p < length (blink_array s) \<and> next_blink (blink_array s ! p) = Some p"
      then have "f v (Some p) (tasklet_step v p s) = Some t" using run by (simp add: Let_def tasklet_step_eq)
      from IH [OF this] show False using h by (simp add: tasklet_step_eq)
    qed
  qed
  then show False using t assms by blast
qed

lemma malloc_first: "location (blink_array s ! 0) = 0 \<Longrightarrow> mp1_malloc s = Some 0"
proof -
  assume "location (blink_array s ! 0) = 0"
  moreover have "[0..<80 * 25] = 0 # [Suc 0..<80 * 25]" by (rule upt_conv_Cons) simp
  ultimately show ?thesis by (simp only: mp1_malloc_def find.simps if_True simp_thms)
qed

lemma malloc_empty:
  assumes "blinks_are s []"
  shows "mp1_malloc s = Some 0" "length (blink_array s) = 2000" "mp1_list_head s = None"
proof -
  have s: "links_ok [] s" using assms by (auto simp: blinks_are_def blinks_of_def)
  then have "location (blink_array s ! 0) = 0" by (auto simp: links_ok_def)
  then show "mp1_malloc s = Some 0" by (rule malloc_first)
  show "length (blink_array s) = 2000" "mp1_list_head s = None" using s by (simp_all add: links_ok_def)
qed

section \<open>A concrete animation\<close>

definition fish0 :: fish where
  "fish0 = (sound.extend (sound.truncate user0) \<lparr>blink_array = replicate 2000 zero_blink, mp1_list_head = None\<rparr>)
     \<lparr>xl := \<lambda>a. a, phys := \<lambda>a. if a = 0x8048003 then 0x0D else 0\<rparr>"

definition im_blink :: mp1_blink_struct where
  "im_blink = zero_blink\<lparr>on_char := 0x49, off_char := 0x4D, on_length := 7, off_length := 6, location := 540\<rparr>"

lemma fish0_fields: "blink_array fish0 = replicate 2000 zero_blink" "mp1_list_head fish0 = None" "xl fish0 = (\<lambda>a. a)"
  "phys fish0 = (\<lambda>a. if a = 0x8048003 then 0x0D else 0)"
  by (simp_all add: fish0_def sound.defs)

lemma fish0_empty: "blinks_are fish0 []"
  by (auto simp: blinks_are_def links_ok_def blinks_of_def fish0_fields zero_blink_def intro!: exI [of _ "[]"])

lemma fish0_drawn: "drawn 0x8048000 0xD000000 fish0 []"
proof -
  have u: "unat (blink_cell 0xD000000 l) = 0xD000000 + 2 * unat l" if "l < 2000" for l
  proof -
    have l: "unat l < 2000" using that by (simp add: word_less_nat_alt)
    have "(push_bit 1 (ucast l) :: u32) = word_of_nat (2 * unat l)" by (simp add: word_unat_eq_iff unat_word_ariths mult.commute)
    then show ?thesis using unat_add_small [of "0xD000000 :: u32" "2 * unat l"] l by (simp add: blink_cell_def mult.commute)
  qed
  have "inj_on (blink_cell 0xD000000) {l. l < 2000}"
    by (rule inj_onI) (metis u mem_Collect_eq add_left_cancel mult_cancel1 zero_neq_numeral word_unat_eq_iff)
  moreover have "blink_cell 0xD000000 l \<notin> {0x8048000, 0x8048001, 0x8048002, 0x8048003}" if "l < 2000" for l
    using u [OF that] by auto
  moreover have "ld32 fish0 0x8048000 = 0xD000000" by (simp add: ld32_def ld_def fish0_fields)
  ultimately show ?thesis using fish0_empty by (simp add: drawn_def screen_at_def faces_shown_def fish0_fields)
qed

section \<open>Properties\<close>

text \<open>C33.  The linked list of blink structures is a list: for any sequence of commands (add, remove, find,
  synchronise) and clock ticks that adds no blink at place 0, the routines of the animation return, with the results of the
  same operations on a plain list of blinks, and the structures linked in the array are that list. A command fails with
  -1 exactly when the plain list says so: no room for 2000, a place off the screen, nothing at the place.\<close>

theorem blink_runs:
  assumes "blinks_are s xs" "\<forall>e \<in> set es. not_at_zero e"
  shows "\<exists>rs ys t. run_steps (\<lambda>e x. Some (blink_spec e x)) es xs = Some (rs, ys)
    \<and> run_steps (blink_step vmem) es s = Some (rs, t) \<and> blinks_are t ys"
proof -
  have "all_admissible blink_spec (\<lambda>e _. not_at_zero e) es xs" using assms(2) by (induction es arbitrary: xs) auto
  then show ?thesis by (rule blink_list.run_related [OF assms(1)])
qed

theorem blink_runs_witness:
  "\<exists>t. run_steps (blink_step 0x8048000)
      [Command (RTC_ADD im_blink), Tick, Command (RTC_REMOVE 540), Command (RTC_REMOVE 540)] fish0 = Some ([0, 0, 0, -1], t)
    \<and> blinks_are t []"
  using blink_runs [OF fish0_empty, of "[Command (RTC_ADD im_blink), Tick, Command (RTC_REMOVE 540), Command (RTC_REMOVE 540)]" "0x8048000"]
  by (simp add: blink_spec_def blink_exec_def blink_fresh_def not_at_zero_def im_blink_def)

text \<open>C34.  The screen shows what the list says: as long as every blink is added at a place of its own and no
  \<open>RTC_SYNC\<close> is issued, after every sequence of commands and ticks the cell of each blink of the list holds its on or off
  character, as bit 0 of its status says.\<close>

theorem blink_faces:
  assumes "drawn vmem v s xs" "all_admissible blink_spec screen_event es xs"
  shows "\<exists>rs ys t. run_steps (\<lambda>e x. Some (blink_spec e x)) es xs = Some (rs, ys)
    \<and> run_steps (blink_step vmem) es s = Some (rs, t) \<and> blinks_are t ys
    \<and> (\<forall>y \<in> set ys. ld t (blink_cell v (location y)) = face y)"
  using blink_screen.run_related [OF assms] by (auto simp: drawn_def faces_shown_def)

theorem blink_faces_witness:
  "\<exists>t. run_steps (blink_step 0x8048000) [Command (RTC_ADD (im_blink\<lparr>on_length := 2\<rparr>)), Tick, Tick] fish0 = Some ([0, 0, 0], t)
    \<and> ld t 0xD000438 = 0x4D"
proof -
  let ?es = "[Command (RTC_ADD (im_blink\<lparr>on_length := 2\<rparr>)), Tick, Tick]"
  have "all_admissible blink_spec screen_event ?es []" by (simp add: screen_event_def im_blink_def)
  from blink_faces [OF fish0_drawn this] obtain rs ys t where
      run: "run_steps (\<lambda>e x. Some (blink_spec e x)) ?es [] = Some (rs, ys)" "run_steps (blink_step 0x8048000) ?es fish0 = Some (rs, t)"
      and faces: "\<forall>y \<in> set ys. ld t (blink_cell 0xD000000 (location y)) = face y" by blast
  have tick: "blink_tick (blink_tick (blink_fresh (im_blink\<lparr>on_length := 2\<rparr>))) = im_blink\<lparr>on_length := 2, status := 0, countdown := 6\<rparr>"
    using signed_pos(1) [of 1] by (simp add: blink_tick_def blink_fresh_def im_blink_def zero_blink_def)
  have "location im_blink = 540" by (simp add: im_blink_def)
  then have "rs = [0, 0, 0]" "ys = [im_blink\<lparr>on_length := 2, status := 0, countdown := 6\<rparr>]"
    using run(1) by (simp_all add: blink_spec_def blink_exec_def tick)
  moreover from this have "ld t 0xD000438 = 0x4D" using faces by (simp add: im_blink_def face_def blink_cell_def)
  ultimately show ?thesis using run(2) by blast
qed

text \<open>C35.  The rhythm of a blink: \<open>n\<close> ticks after a blink with lengths between 1 and 32767 was added, it is in
  the state that \<open>n\<close> modulo the sum of its lengths gives, on for the first \<open>on_length\<close> ticks of each period and
  off for the \<open>off_length\<close> ticks after them.\<close>

theorem blink_rhythm:
  assumes "blinks_are s xs" "length xs < 2000" "location b \<noteq> 0" "location b < 2000"
    "0 < unat (on_length b)" "unat (on_length b) < 2 ^ 15" "0 < unat (off_length b)" "unat (off_length b) < 2 ^ 15"
  shows "\<exists>t ys. run_steps (blink_step vmem) (Command (RTC_ADD b) # replicate n Tick) s = Some (replicate (Suc n) 0, t)
    \<and> blinks_are t (phase n b # ys)"
proof -
  have ok: "all_admissible blink_spec (\<lambda>e _. not_at_zero e) (Command (RTC_ADD b) # replicate n Tick) xs"
  proof -
    have "all_admissible blink_spec (\<lambda>e _. not_at_zero e) (replicate n Tick) ys" for ys
      by (induction n arbitrary: ys) (simp_all add: not_at_zero_def)
    then show ?thesis using assms(3) by (simp add: not_at_zero_def)
  qed
  have "run_steps (\<lambda>e x. Some (blink_spec e x)) (Command (RTC_ADD b) # replicate n Tick) xs =
      Some (replicate (Suc n) 0, phase n b # map (blink_tick ^^ n) xs)"
    using phase_ticks [OF assms(5-8), of n 0 xs] assms(2,4) phase_0 [OF assms(5)] by (simp add: blink_spec_def blink_exec_def)
  then show ?thesis using blink_list.run_related [OF assms(1) ok, of vmem] by auto
qed

theorem blink_rhythm_witness:
  "\<exists>t ys. run_steps (blink_step 0x8048000) (Command (RTC_ADD im_blink) # replicate 100 Tick) fish0 = Some (replicate 101 0, t)
    \<and> blinks_are t (im_blink\<lparr>status := 0, countdown := 4\<rparr> # ys)"
proof -
  have "phase 100 im_blink = im_blink\<lparr>status := 0, countdown := 4\<rparr>" by (simp add: phase_def im_blink_def zero_blink_def)
  then show ?thesis using blink_rhythm [OF fish0_empty, of im_blink "0x8048000" 100] by (simp add: im_blink_def zero_blink_def)
qed

text \<open>C39.  A place of 0 marks a structure as free, so a blink there is overwritten by the next one: two of them make the
  structure its own successor, and the next clock tick never returns.\<close>

theorem blink_at_zero_hangs:
  assumes "blinks_are s []" "location b = 0" "location c = 0"
  shows "\<exists>t. run_steps (blink_step vmem) [Command (RTC_ADD b), Command (RTC_ADD c)] s = Some ([0, 0], t)
    \<and> mp1_rtc_tasklet vmem t = None"
proof -
  note s = malloc_empty [OF assms(1)]
  define u where "u = snd (mp1_ioctl_add vmem b s)"
  have u: "mp1_ioctl_add vmem b s = (0, u)" "mp1_list_head u = Some 0" "blink_array u ! 0 = b\<lparr>status := 1, countdown := on_length b, next_blink := None\<rparr>"
      "length (blink_array u) = 2000"
    using s assms(2) by (simp_all add: u_def mp1_ioctl_add_def Let_def)
  have m: "mp1_malloc u = Some 0" by (rule malloc_first) (simp add: u(3) assms(2))
  define t where "t = snd (mp1_ioctl_add vmem c u)"
  have t: "mp1_ioctl_add vmem c u = (0, t)" "mp1_list_head t = Some 0" "next_blink (blink_array t ! 0) = Some 0" "length (blink_array t) = 2000"
    using m u assms(3) by (simp_all add: t_def mp1_ioctl_add_def Let_def)
  have "mp1_rtc_tasklet vmem t = None" unfolding mp1_rtc_tasklet_def t(2) by (rule tasklet_cycle) (simp_all add: t(3,4))
  then show ?thesis using u(1) t(1) by (simp add: blink_step_def mp1_ioctl_def)
qed

theorem blink_at_zero_hangs_witness:
  "\<exists>t. run_steps (blink_step 0x8048000) [Command (RTC_ADD zero_blink), Command (RTC_ADD zero_blink)] fish0 = Some ([0, 0], t)
    \<and> mp1_rtc_tasklet 0x8048000 t = None"
  by (rule blink_at_zero_hangs [OF fish0_empty]) (simp_all add: zero_blink_def)

end
