(* ===== verification/User_Faults.thy ===== *)
theory User_Faults
  imports Boot User_Programs
begin

text \<open>
  The programs that fault on purpose: \<^verbatim>\<open>ece391exception.c\<close> reads address 0, \<^verbatim>\<open>ece391sigtest.c\<close> writes there after installing
  signal handlers. An access of a program that the page tables do not allow user code raises the page fault exception.
\<close>

section \<open>Page faults\<close>

text \<open>
  The processor saves the address in \<open>cr2\<close>, takes the kernel stack from the TSS and pushes five registers and an error
  code; \<open>depth\<close> is what the C function of the handler allocates below them.
\<close>

definition page_fault :: "u32 \<Rightarrow> addr \<Rightarrow> 'a boot_scheme \<Rightarrow> (control \<times> 'a boot_scheme) option" where
  "page_fault depth a s = page_fault_exception (s\<lparr>cr2 := a, esp := tss_esp0 s - 24 - depth\<rparr>)"

definition returns :: "(i32 \<times> 's) option \<Rightarrow> (control \<times> 's) option" where
  "returns r = do { (v, s) \<leftarrow> r; Some (Return v, s) }"

section \<open>exception\<close>

definition exception_main :: "u32 \<Rightarrow> 'a boot_scheme \<Rightarrow> (control \<times> 'a boot_scheme) option" where
  "exception_main depth s = (if user_walk s 0 = None then page_fault depth 0 s else Some (Return 0, s))"

section \<open>sigtest\<close>

text \<open>The numbers of the signals, from \<^verbatim>\<open>ece391syscall.h\<close>.\<close>

definition SEGFAULT :: i32 where "SEGFAULT = 1"
definition ALARM :: i32 where "ALARM = 3"

text \<open>The \<open>switch\<close> of both handlers.\<close>

definition say_signum :: "(string \<Rightarrow> addr) \<Rightarrow> i32 \<Rightarrow> 'a sound_scheme \<Rightarrow> 'a sound_scheme option" where
  "say_signum lit signum s =
     (if signum = 0 then ece391_fdputs 1 (lit (''0'' @ newline)) s
      else if signum = 1 then ece391_fdputs 1 (lit (''1'' @ newline)) s
      else if signum = 2 then ece391_fdputs 1 (lit (''2'' @ newline)) s
      else if signum = 3 then ece391_fdputs 1 (lit (''3'' @ newline)) s
      else ece391_fdputs 1 (lit (''invalid'' @ newline)) s)"

text \<open>
  \<open>signum_addr\<close> is where the argument is on the stack: seven words above it is the saved \<open>EAX\<close>, which the handler
  redirects to \<open>charbuf\<close> together with the pointer \<open>badbuf\<close>.
\<close>

definition segfault_sighandler ::
    "(string \<Rightarrow> addr) \<Rightarrow> ('a sound_scheme \<Rightarrow> 'a sound_scheme) \<Rightarrow> addr \<Rightarrow> addr \<Rightarrow> addr \<Rightarrow> addr \<Rightarrow> i32 \<Rightarrow> 'a sound_scheme
     \<Rightarrow> 'a sound_scheme option" where
  "segfault_sighandler lit wait badbuf charbuf buf signum_addr signum s =
     do {
       s \<leftarrow> ece391_fdputs 1 (lit ''Segfault signal handler called, signum: '') s;
       s \<leftarrow> say_signum lit signum s;
       s \<leftarrow> ece391_fdputs 1 (lit (''Press enter to continue...'' @ newline)) s;
       (_, s) \<leftarrow> ece391_read 0 buf 1 (wait s);
       let s = st32 badbuf charbuf s;
       let s = st32 (signum_addr + 7 * 4) charbuf s;
       ece391_fdputs 1 (lit (''Signal handler returning'' @ newline)) s
     }"

definition alarm_sighandler :: "(string \<Rightarrow> addr) \<Rightarrow> i32 \<Rightarrow> 'a sound_scheme \<Rightarrow> 'a sound_scheme option" where
  "alarm_sighandler lit signum s =
     do {
       s \<leftarrow> ece391_fdputs 1 (lit ''Alarm signal handler called, signum: '') s;
       say_signum lit signum s
     }"

text \<open>\<open>handler\<close> gives the addresses of the two handlers; \<open>badbuf\<close> and \<open>charbuf\<close> are those of the static variables.\<close>

definition sigtest_main ::
    "(string \<Rightarrow> addr) \<Rightarrow> ('a boot_scheme \<Rightarrow> 'a boot_scheme) \<Rightarrow> (i32 \<Rightarrow> addr) \<Rightarrow> u32 \<Rightarrow> addr \<Rightarrow> addr \<Rightarrow> addr \<Rightarrow> 'a boot_scheme
     \<Rightarrow> (control \<times> 'a boot_scheme) option" where
  "sigtest_main lit wait handler depth badbuf charbuf buf s =
     do {
       (r, s) \<leftarrow> ece391_getargs buf 1024 s;
       if r \<noteq> 0 then returns (complain lit (''could not read argument'' @ newline) 3 s)
       else do {
         s \<leftarrow> (if ld s buf = 0x31
               then do {
                 s \<leftarrow> ece391_fdputs 1 (lit (''Installing signal handlers'' @ newline)) s;
                 (_, s) \<leftarrow> ece391_set_handler SEGFAULT (handler SEGFAULT) s;
                 (_, s) \<leftarrow> ece391_set_handler ALARM (handler ALARM) s;
                 Some s
               }
               else Some s);
         s \<leftarrow> ece391_fdputs 1 (lit (''Hi, what'' @ [CHR 0x27] @ ''s your name? '')) s;
         (cnt, s) \<leftarrow> ece391_read 0 buf 1023 (wait s);
         if cnt = -1 then returns (complain lit (''Can'' @ [CHR 0x27] @ ''t read name from keyboard.'' @ newline) 3 s)
         else let p = ld32 s badbuf
              in if user_walk s p = None then page_fault depth p s
                 else do {
                   let s = st p 1 s;
                   let s = st (buf + cnt) 0 s;
                   s \<leftarrow> ece391_fdputs 1 (lit ''Hello, '') s;
                   s \<leftarrow> ece391_fdputs 1 buf s;
                   returns (complain lit ((if ld s charbuf = 1 then ''success'' else ''failure'') @ newline) 0 s)
                 }
       }
     }"

end
