(* ===== verification/Boot_Spec.thy ===== *)
theory Boot_Spec
  imports Boot Kernel_Invariant
begin

text \<open>
  What the interrupt descriptor table means after start-up: which vectors are live, which of them user code may raise, whether
  a gate masks interrupts, and where it leads.
\<close>

section \<open>The address in a gate\<close>

definition gate_offset :: "idt_desc_t \<Rightarrow> addr" where
  "gate_offset d = push_bit 16 (ucast (offset_31_16 d)) OR ucast (offset_15_00 d)"

lemma split_offset: "push_bit 16 (ucast (ucast (drop_bit 16 (a AND 0xFFFF0000)) :: u16)) OR ucast (ucast (a AND 0xFFFF) :: u16) = (a :: u32)"
proof -
  have m: "(0xFFFF :: u32) = mask 16" "(0xFFFF0000 :: u32) = push_bit 16 (mask 16)" by (simp_all add: mask_eq_exp_minus_1 push_bit_eq_mult)
  show ?thesis unfolding m by (rule bit_word_eqI) (auto simp: bit_simps)
qed

text \<open>A gate with the handler's address filled in.\<close>

definition aim :: "addr \<Rightarrow> idt_desc_t \<Rightarrow> idt_desc_t" where
  "aim a d = d\<lparr>offset_31_16 := ucast (drop_bit 16 (a AND 0xFFFF0000)), offset_15_00 := ucast (a AND 0xFFFF)\<rparr>"

lemma gate_offset_aim: "gate_offset (aim a d) = a"
  using split_offset [of a] by (simp add: gate_offset_def aim_def)

lemma aim_fields [simp]:
  "seg_selector (aim a d) = seg_selector d" "reserved4 (aim a d) = reserved4 d" "reserved3 (aim a d) = reserved3 d"
  "reserved2 (aim a d) = reserved2 d" "reserved1 (aim a d) = reserved1 d" "idt_size (aim a d) = idt_size d"
  "reserved0 (aim a d) = reserved0 d" "idt_dpl (aim a d) = idt_dpl d" "idt_present (aim a d) = idt_present d"
  by (simp_all add: aim_def)

section \<open>The two loops of \<open>init_idt\<close>\<close>

lemma SET_IDT_ENTRY_eq:
  "SET_IDT_ENTRY i h s = s\<lparr>idt := (idt s)[i := aim (handler_addr s h) (idt s ! i)]\<rparr>"
  by (cases "i < length (idt s)") (simp_all add: SET_IDT_ENTRY_def idt_upd_def aim_def list_update_beyond)

lemma set_entries:
  assumes "distinct (map fst hs)" "\<forall>(i, h) \<in> set hs. i < length (idt s)" "v < length (idt s)"
  shows "idt (fold (\<lambda>(i, h) s. SET_IDT_ENTRY i h s) hs s) ! v =
    (case map_of hs v of None \<Rightarrow> idt s ! v | Some h \<Rightarrow> aim (handler_addr s h) (idt s ! v))"
  using assms
proof (induction hs arbitrary: s)
  case (Cons x hs)
  obtain i h where x: "x = (i, h)" by (cases x)
  have "map_of hs i = None" using Cons.prems(1) by (simp add: x map_of_eq_None_iff)
  then show ?case using Cons by (simp add: x SET_IDT_ENTRY_eq nth_list_update split: option.splits)
qed simp

lemma gates_loop:
  assumes "n \<le> length (idt s)"
  shows "for_loop 0 n (\<lambda>i s. idt_upd i (init_gate i) s) s = s\<lparr>idt := map (\<lambda>i. if i < n then init_gate i (idt s ! i) else idt s ! i) [0..<length (idt s)]\<rparr>"
  using assms
proof (induction n)
  case 0
  then show ?case by (simp add: map_nth)
next
  case (Suc n)
  have "(map (\<lambda>i. if i < n then init_gate i (idt s ! i) else idt s ! i) [0..<length (idt s)])[n := init_gate n (idt s ! n)] =
      map (\<lambda>i. if i < Suc n then init_gate i (idt s ! i) else idt s ! i) [0..<length (idt s)]"
    by (rule nth_equalityI) (auto simp: nth_list_update less_Suc_eq)
  then show ?case using Suc by (simp add: for_loop_last idt_upd_def)
qed

lemma init_idt_entry:
  assumes "length (idt s) = 256" "v < 256"
  shows "idt (snd (init_idt s)) ! v =
    (case map_of idt_handlers v of None \<Rightarrow> init_gate v (idt s ! v) | Some h \<Rightarrow> aim (handler_addr s h) (init_gate v (idt s ! v)))"
proof -
  define u where "u = for_loop 0 256 (\<lambda>i s. idt_upd i (init_gate i) s) s"
  have u: "u = s\<lparr>idt := map (\<lambda>i. if i < 256 then init_gate i (idt s ! i) else idt s ! i) [0..<256]\<rparr>"
    unfolding u_def using gates_loop [of 256 s] assms(1) by simp
  then have len: "length (idt u) = 256" "idt u ! v = init_gate v (idt s ! v)" "handler_addr u = handler_addr s" using assms(2) by simp_all
  have "distinct (map fst idt_handlers)" "\<forall>(i, h) \<in> set idt_handlers. i < length (idt u)" by (simp_all add: idt_handlers_def len)
  from set_entries [OF this, of v] show ?thesis using assms(2) unfolding init_idt_def Let_def u_def [symmetric] by (cases "map_of idt_handlers v") (simp_all add: len)
qed

section \<open>Properties\<close>

text \<open>C31. The interrupt descriptor table is well formed: after \<open>init_idt\<close> every gate is a 32-bit gate of the kernel code segment; exactly the
  vectors 0x00 to 0x13, those of the timer, keyboard, sound card and real-time clock, and 0x80 are present; only 0x80 may be raised by user code;
  the device gates are interrupt gates, which keep interrupts masked in the handler, the exceptions and the
  system call are trap gates; and each assigned vector leads to its handler. Vector 0x0F is present without a handler: its offset is what the table held.\<close>

theorem init_idt_gates:
  assumes "length (idt s) = 256" "v < 256"
  defines "d \<equiv> idt (snd (init_idt s)) ! v"
  shows "(idt_present d = 1 \<longleftrightarrow> v \<le> 0x13 \<or> v \<in> {0x20, 0x21, 0x25, 0x28, 0x80})
    \<and> idt_dpl d = (if v = 0x80 then 3 else 0)
    \<and> (reserved3 d = 1 \<longleftrightarrow> v \<le> 0x13 \<or> v = 0x80)
    \<and> seg_selector d = 0x10 \<and> reserved4 d = 0 \<and> reserved2 d = 1 \<and> reserved1 d = 1 \<and> idt_size d = 1 \<and> reserved0 d = 0
    \<and> (\<forall>h. (v, h) \<in> set idt_handlers \<longrightarrow> gate_offset d = handler_addr s h)
    \<and> (idt_present d = 1 \<and> v \<noteq> 0x0F \<longrightarrow> v \<in> fst ` set idt_handlers)
    \<and> (v = 0x0F \<longrightarrow> idt_present d = 1 \<and> gate_offset d = gate_offset (idt s ! v))"
proof -
  define g where "g = init_gate v (idt s ! v)"
  have off: "gate_offset g = gate_offset (idt s ! v)" by (simp add: g_def init_gate_def gate_offset_def Let_def)
  have g: "idt_present g = (if v \<le> 0x13 \<or> v \<in> {0x20, 0x21, 0x25, 0x28, 0x80} then 1 else 0)" "idt_dpl g = (if v = 0x80 then 3 else 0)"
    "reserved3 g = (if v \<le> 0x13 \<or> v = 0x80 then 1 else 0)" "seg_selector g = 0x10" "reserved4 g = 0" "reserved2 g = 1" "reserved1 g = 1"
    "idt_size g = 1" "reserved0 g = 0"
    by (auto simp: g_def init_gate_def Let_def)
  have d: "d = (case map_of idt_handlers v of None \<Rightarrow> g | Some h \<Rightarrow> aim (handler_addr s h) g)"
    unfolding d_def g_def by (rule init_idt_entry [OF assms(1,2)])
  then have same: "idt_present d = idt_present g" "idt_dpl d = idt_dpl g" "reserved3 d = reserved3 g" "seg_selector d = seg_selector g"
    "reserved4 d = reserved4 g" "reserved2 d = reserved2 g" "reserved1 d = reserved1 g" "idt_size d = idt_size g" "reserved0 d = reserved0 g"
    by (simp_all split: option.split)
  have "gate_offset d = handler_addr s h" if "(v, h) \<in> set idt_handlers" for h
  proof -
    have "distinct (map fst idt_handlers)" by (simp add: idt_handlers_def)
    then have "map_of idt_handlers v = Some h" using that by simp
    then show ?thesis by (simp add: d gate_offset_aim)
  qed
  moreover have "v \<in> fst ` set idt_handlers" if "v \<le> 0x13 \<or> v \<in> {0x20, 0x21, 0x25, 0x28, 0x80}" "v \<noteq> 0x0F"
  proof -
    have "v \<in> {0, 1, 2, 3, 4, 5, 6, 7, 8, 9, 10, 11, 12, 13, 14, 16, 17, 18, 19, 0x20, 0x21, 0x25, 0x28, 0x80}"
      using that unfolding insert_iff empty_iff by presburger
    then show ?thesis by (simp add: idt_handlers_def)
  qed
  moreover have "map_of idt_handlers 0x0F = None" by (simp add: idt_handlers_def)
  ultimately show ?thesis unfolding same g using d off by (auto simp: g)
qed

text \<open>A table of 256 cleared gates, and the system call's handler at 0x401234.\<close>

definition power_on :: boot where
  "power_on = scheduling.extend sched0
     (boot.fields (replicate 256 \<lparr>offset_15_00 = 0, seg_selector = 0, reserved4 = 0, reserved3 = 0, reserved2 = 0, reserved1 = 0, idt_size = 0,
         reserved0 = 0, idt_dpl = 0, idt_present = 0, offset_31_16 = 0\<rparr>) False
       \<lparr>seg_lim_15_00 = 0, base_15_00 = 0, base_23_16 = 0, seg_type = 0, seg_sys = 0, seg_dpl = 0, seg_present = 0, seg_lim_19_16 = 0,
         seg_avail = 0, seg_reserved = 0, seg_opsize = 0, seg_granularity = 0, base_31_24 = 0\<rparr>
       \<lparr>seg_lim_15_00 = 0, base_15_00 = 0, base_23_16 = 0, seg_type = 0, seg_sys = 0, seg_dpl = 0, seg_present = 0, seg_lim_19_16 = 0,
         seg_avail = 0, seg_reserved = 0, seg_opsize = 0, seg_granularity = 0, base_31_24 = 0\<rparr>
       0 0 0 0 0 (\<lambda>h. if h = Syscall_assembly then 0x401234 else 0x405678) 0 0 0)"

theorem init_idt_gates_witness:
  "idt_dpl (idt (snd (init_idt power_on)) ! 0x80) = 3 \<and> gate_offset (idt (snd (init_idt power_on)) ! 0x80) = 0x401234"
proof -
  have "length (idt power_on) = 256" "handler_addr power_on Syscall_assembly = 0x401234" by (simp_all add: power_on_def scheduling.defs boot.defs)
  moreover have "(0x80, Syscall_assembly) \<in> set idt_handlers" by (simp add: idt_handlers_def)
  ultimately show ?thesis using init_idt_gates [of power_on "0x80"] by auto
qed

end
