(* ===== verification/Fault_Spec.thy ===== *)
theory Fault_Spec
  imports User_Faults Boot_Spec User_State
begin

text \<open>
  What becomes of a program that touches memory it may not: the page fault handler prints its messages on the visible terminal and
  never returns, so the program is neither ended nor continued.
\<close>

text \<open>A message of a handler on the visible terminal.\<close>

definition says :: "u8 list \<Rightarrow> 'a console_scheme \<Rightarrow> 'a console_scheme \<Rightarrow> bool" where
  "says out s u \<longleftrightarrow> terminals_ok u \<and> only_console s u \<and> esp u = esp s
     \<and> shown (terminal_of (current_terminal s) u) = fold (text_put (cur_attrib s)) out (shown (terminal_of (current_terminal s) s))
     \<and> (\<forall>r. unat r < 3 \<and> r \<noteq> current_terminal s \<longrightarrow> terminal_of r u = terminal_of r s)"

lemma says_trans: "says xs s u \<Longrightarrow> says ys u v \<Longrightarrow> says (xs @ ys) s v"
  using only_consoleD(2) [of s u] con.frame_trans [of s u v] by (simp add: says_def)

lemma printf_says:
  assumes "terminals_ok s" "scratch s cb 64" "buffer_off cb 64 s" "render None fmt args = Some out"
  shows "\<exists>u n. printf cb fmt args s = Some (n, u) \<and> says out s u"
  using printf_terminal [OF assms] by (auto simp: says_def)

lemma render_text: "0x25 \<notin> set xs \<Longrightarrow> render None (xs @ fmt) args = map_option (\<lambda>ys. xs @ ys) (render None fmt args)"
  by (cases "render None fmt args"; induction xs) auto

lemma render_line: "0x25 \<notin> set xs \<Longrightarrow> render None (xs @ [0x0A]) [] = Some (xs @ [0x0A])"
  by (simp add: render_text)

lemma render_hex: "0x25 \<notin> set xs \<Longrightarrow> render None (xs @ [0x25, 0x78, 0x0A]) [v] = Some (xs @ number_string 16 (unat v) @ [0x0A])"
  by (simp add: render_text hex_string_def)

text \<open>What the page fault handler prints for address \<open>a\<close> when the word it takes for the stack pointer is \<open>v\<close>.\<close>

definition fault_message :: "addr \<Rightarrow> u32 \<Rightarrow> u8 list" where
  "fault_message a v =
     bytes_of ''exception occur at address: 0x'' @ number_string 16 (unat a) @ [0x0A]
     @ bytes_of ''user esp at address: 0x'' @ number_string 16 (unat v) @ [0x0A]
     @ bytes_of ''EXCEPTION: page_fault_exception!'' @ [0x0A]"

lemma page_fault_spins:
  assumes "terminals_ok s" "scratch s (tss_esp0 s - 224 - depth) 64" "buffer_off (tss_esp0 s - 224 - depth) 64 s"
  shows "\<exists>u. page_fault depth a s = Some (Spin, u)
    \<and> says (fault_message a (ld32 s (tss_esp0 s - 36 - depth))) (s\<lparr>cr2 := a, esp := tss_esp0 s - 24 - depth\<rparr>) u"
proof -
  define s0 where "s0 = s\<lparr>cr2 := a, esp := tss_esp0 s - 24 - depth\<rparr>"
  define v where "v = ld32 s0 (esp s0 - 12)"
  have cb: "conv_buf u = tss_esp0 s - 224 - depth" if "esp u = esp s0" for u :: "'a boot_scheme"
    using that by (simp add: conv_buf_def s0_def)
  have room: "scratch u (tss_esp0 s - 224 - depth) 64" "buffer_off (tss_esp0 s - 224 - depth) 64 u" if "xl u = xl s0" for u :: "'a boot_scheme"
    using assms(2,3) that by (simp_all add: scratch_def buffer_off_def s0_def)
  have print: "\<exists>u n. printf (conv_buf u0) fmt args u0 = Some (n, u) \<and> says (xs @ out) s0 u" if "says xs s0 u0" "render None fmt args = Some out"
    for u0 xs fmt args out
  proof -
    have con: "only_console s0 u0" "terminals_ok u0" using that(1) by (simp_all add: says_def)
    have "esp u0 = esp s0" using that(1) by (simp add: says_def)
    then show ?thesis
      using printf_says [OF con(2) room [OF only_consoleD(4) [OF con(1)]] that(2)] says_trans [OF that(1)] by (auto simp: cb)
  qed
  have "terminals_ok s0 = terminals_ok s" by (rule terminals_cong; simp add: s0_def)
  then have start: "says [] s0 s0" using assms(1) by (simp add: says_def con.frame_refl)
  let ?m1 = "bytes_of ''exception occur at address: 0x''" and ?m2 = "bytes_of ''user esp at address: 0x''"
    and ?m3 = "bytes_of ''EXCEPTION: page_fault_exception!''"
  have fmt: "bytes_of ''exception occur at address: 0x%x'' = ?m1 @ [0x25, 0x78]" "bytes_of ''user esp at address: 0x%x'' = ?m2 @ [0x25, 0x78]"
    "0x25 \<notin> set ?m1" "0x25 \<notin> set ?m2" "0x25 \<notin> set ?m3" by (simp_all add: bytes_of_def)
  obtain u1 n1 where u1: "printf (conv_buf s0) (?m1 @ [0x25, 0x78, 0x0A]) [a] s0 = Some (n1, u1)" "says (?m1 @ number_string 16 (unat a) @ [0x0A]) s0 u1"
    using print [OF start render_hex [OF fmt(3), of a]] by auto
  obtain u2 n2 where u2: "printf (conv_buf u1) (?m2 @ [0x25, 0x78, 0x0A]) [v] u1 = Some (n2, u2)"
      "says ((?m1 @ number_string 16 (unat a) @ [0x0A]) @ ?m2 @ number_string 16 (unat v) @ [0x0A]) s0 u2"
    using print [OF u1(2) render_hex [OF fmt(4), of v]] by blast
  obtain u3 n3 where u3: "printf (conv_buf u2) (?m3 @ [0x0A]) [] u2 = Some (n3, u3)"
      "says (((?m1 @ number_string 16 (unat a) @ [0x0A]) @ ?m2 @ number_string 16 (unat v) @ [0x0A]) @ ?m3 @ [0x0A]) s0 u3"
    using print [OF u2(2) render_line [OF fmt(5)]] by blast
  have "page_fault depth a s = Some (Spin, u3)"
    using u1(1) u2(1) u3(1) by (simp add: page_fault_def page_fault_exception_def print_exception_def fmt(1,2) v_def [symmetric] s0_def [symmetric])
       (simp add: s0_def)
  moreover have "v = ld32 s (tss_esp0 s - 36 - depth)" by (simp add: v_def s0_def ld32_def ld_def diff_diff_eq add.commute)
  ultimately show ?thesis using u3(2) by (auto simp: fault_message_def s0_def [symmetric])
qed


text \<open>The machine of \<open>user0\<close> with the descriptor tables of the start-up.\<close>

definition fault0 :: boot where
  "fault0 = scheduling.extend user0 (scheduling.more power_on)"

lemma fault0_fields: "xl fault0 = xl user0" "phys fault0 = phys user0" "tss_esp0 fault0 = 0x7FDFFC" "current_terminal fault0 = 0"
  "page_directory fault0 = page_directory user0" "page_table fault0 = page_table user0" "page_table_vidmem fault0 = page_table_vidmem user0"
  "page_table_addr fault0 = page_table_addr user0" "page_table_vidmem_addr fault0 = page_table_vidmem_addr user0" "paging_on fault0 = paging_on user0"
  by (simp_all add: fault0_def user0_def desk0_def sched0_def keyboard.defs sound.defs scheduling.defs kernel.defs)

lemma fault0_mapped: "mapped fault0 None None"
proof -
  have "mapped user0 None None"
    using kernel0_mapped by (simp add: mapped_def tables_def user0_def desk0_def sched0_def keyboard.defs sound.defs kernel.defs scheduling.defs)
  then show ?thesis unfolding mapped_def tables_def fault0_fields .
qed

lemma fault0_terminals: "terminals_ok fault0"
proof -
  have "ld fault0 = ld user0" by (simp add: fun_eq_iff ld_def fault0_fields)
  then have "view j fault0 = view j user0" if "j < 4" for j using that by (auto simp: view_off fun_eq_iff)
  from terminals_view(1) [OF this] show ?thesis using user0_terminals(1) by (simp add: fault0_def scheduling.defs)
qed


end
