(* ===== verification/Spec2Isabelle.thy ===== *)
theory Spec2Isabelle
  imports Scheduling_Spec User_Grep User_Pingpong Fish_Spec Fault_Spec
begin

text \<open>
  A verification of Illinix, a small 32-bit x86 kernel with virtual memory, processes, three terminals, a read-only file system, a
  sound driver and a set of user programs. The kernel's C code is under \<^verbatim>\<open>src/student-distrib\<close>, the programs are under
  \<^verbatim>\<open>src/syscalls\<close> and \<^verbatim>\<open>src/fish\<close>.

  \<^bold>\<open>How the code is modelled.\<close> A C function is a HOL function on the machine state; the state is a record that grows from theory
  to theory the way the code's global variables do: \<open>machine\<close> (memory, address translation, ports, interrupt flag, stack registers),
  \<open>pic\<close>, \<open>console\<close>, \<open>fs\<close>, \<open>paging\<close>, \<open>rtc\<close>, \<open>kernel\<close> (control blocks and process tables), \<open>sound\<close>, \<open>keyboard\<close>, \<open>scheduling\<close>, \<open>boot\<close>.
  A function of an early record works on every later one (\<open>'a console_scheme\<close>).
  Integers have their C widths (\<open>u8\<close>, \<open>u16\<close>, \<open>u32\<close>; a signed \<open>i32\<close> is read with \<open>sint\<close>); \<open>int\<close> stands for a C \<open>int\<close> that stays
  far from its limits. Memory is bytes behind the page tables: a pointer access is \<open>ld\<close> or \<open>st\<close> through \<open>xl\<close>. A port access appends to
  the list of outputs or takes the next answer of the device, which is an arbitrary sequence. A result \<open>None\<close> is an access out of
  bounds, a division by zero, a call through a null pointer or a loop that never ends; loops without a bound are
  \<^theory_text>\<open>partial_function (option)\<close>, so no fuel is needed anywhere, and the theorems state that the code returns. Where control leaves the C code for
  good (entering a program, resuming another stack, spinning) the result is a value of \<open>control\<close>.

  \<^bold>\<open>The parts.\<close>
  \<^item> \<open>Illinix_Prelude\<close>, \<open>Machine\<close>: integer types, loops, rule collections; memory, ports, \<open>cli\<close> and \<open>sti\<close> (\<^verbatim>\<open>lib.h\<close>).
  \<^item> \<open>Lib_Memory\<close>, \<open>Lib_Printf\<close>: the memory, string and formatting routines of \<^verbatim>\<open>lib.c\<close>. \<open>memmove\<close> copies correctly whatever the overlap,
    \<open>itoa\<close> writes the digits, \<open>printf\<close> prints what \<open>render\<close> says.
  \<^item> \<open>Pic\<close>: \<^verbatim>\<open>i8259.c\<close> implements a set of enabled lines.
  \<^item> \<open>Console\<close>, \<open>Console_Spec\<close>: the console of \<^verbatim>\<open>lib.c\<close> refines an abstract text screen, for the visible page and for the saved
    pages; the locale \<open>char_printer\<close> is the common contract. The keyboard's line buffer and Backspace.
  \<^item> \<open>FileSystem\<close>, \<open>FileSystem_Spec\<close>: \<^verbatim>\<open>filesystem.c\<close>. \<open>read_data\<close> delivers the slice of the file the image means, the lookup the first entry
    with the name; the locale \<open>file_store\<close> is what the system calls rely on.
  \<^item> \<open>Paging\<close>: \<^verbatim>\<open>paging.c\<close>, the processor's walk over the tables the code fills, and the isolation of processes from each other and of the
    kernel from them.
  \<^item> \<open>Rtc\<close>, \<open>Sound\<close>: \<^verbatim>\<open>rtc.c\<close> with its virtual clocks; \<^verbatim>\<open>sb16.c\<close> with its port protocol.
  \<^item> \<open>Process\<close>, \<open>Process_Spec\<close>, \<open>Syscall_Spec\<close>: the tables and the system calls on descriptors of \<^verbatim>\<open>syscall.c\<close>; descriptors as streams (locale
    \<open>byte_stream\<close>), arguments, error returns.
  \<^item> \<open>Execute\<close>, \<open>Execute_Spec\<close>, \<open>Execute_Props\<close>, \<open>Halt_Spec\<close>: \<open>execute\<close>, \<open>halt\<close> and signals of \<^verbatim>\<open>syscall.c\<close>: what a new process gets, who
    continues when it ends, and that the two are inverse to each other.
  \<^item> \<open>Terminal\<close>, \<open>Terminal_Spec\<close>, \<open>Terminal_IO\<close>, \<open>Terminal_Read\<close>: \<^verbatim>\<open>terminal.c\<close>. \<open>terminal_of\<close> is what a terminal is for its user, visible or
    not; switching loses nothing, writing prints on the caller's terminal only (locale \<open>text_writer\<close>), reading hands over the typed line.
  \<^item> \<open>Keyboard\<close>, \<open>Keyboard_Spec\<close>: \<^verbatim>\<open>keyboard.c\<close> against a layout given independently of its tables.
  \<^item> \<open>Scheduling\<close>, \<open>Scheduling_Spec\<close>: \<^verbatim>\<open>scheduling.c\<close>: the timer keeps every process's context and serves every terminal in turn.
  \<^item> \<open>Kernel_Frame\<close>, \<open>Kernel_Invariant\<close>: \<open>kernel_step\<close> has one rule for every way into the kernel; in every reachable state the process tables are
    consistent and user code reaches its own page and screens only. The locales \<open>frame_relation\<close> and \<open>print_frame\<close> carry what an operation leaves
    alone through loops and through everything \<open>printf\<close> does.
  \<^item> \<open>Boot\<close>, \<open>Boot_Spec\<close>: \<^verbatim>\<open>exception.c\<close>, \<^verbatim>\<open>idt.c\<close>, \<^verbatim>\<open>kernel.c\<close>, the descriptor types of \<^verbatim>\<open>x86_desc.h\<close>; the gates of the interrupt table.
  \<^item> \<open>User_Lib\<close>, \<open>User_Programs\<close>, \<open>User_Tests\<close>: the system call entry (\<^verbatim>\<open>syscall_linkage.S\<close>), its wrappers (\<^verbatim>\<open>ece391syscall.S\<close>), the support library
    (\<^verbatim>\<open>ece391support.c\<close>) and the programs \<open>cat\<close>, \<open>ls\<close>, \<open>grep\<close>, \<open>shell\<close>, \<open>hello\<close>, \<open>counter\<close>, \<open>testprint\<close>, \<open>pingpong\<close> and \<open>syserr\<close>.
  \<^item> \<open>User_Spec\<close>, \<open>User_State\<close>, \<open>User_Files\<close>, \<open>User_Errors\<close>, \<open>User_Listing\<close>, \<open>User_Counter\<close>, \<open>User_Shell\<close>, \<open>User_Grep\<close>, \<open>User_Pingpong\<close>: programs on the kernel, end to end. \<open>tty p t s\<close> says that process
    \<open>p\<close> runs on terminal \<open>t\<close>, \<open>shows_more\<close> what a run has added to the terminal. \<open>cat\<close> prints its file, \<open>ls\<close> the directory, \<open>counter\<close> its
    numbers, \<open>pingpong\<close> its frames, \<open>grep\<close> the matching lines of a file, the shell reads a line, runs it and reports the result, and the repository's own test program for error returns passes.
  \<^item> \<open>User_Faults\<close>, \<open>Fault_Spec\<close>: the programs \<open>exception\<close> and \<open>sigtest\<close>, which access address 0. The access goes through the page tables; it reaches the
    page fault handler, which never returns.
  \<^item> \<open>Fish\<close>, \<open>Fish_Spec\<close>: \<^verbatim>\<open>fish.c\<close> and the assembly routines of \<^verbatim>\<open>blink.S\<close> on a linked list of blinking characters. The locale \<open>lockstep\<close> runs the
    code and a plain list through the same commands and ticks; its two interpretations give the contents of the list and of the screen.

  \<^bold>\<open>Parameters.\<close> The answers of devices; the addresses only the linker knows (string literals, handlers, tables), as fields or as the argument
  \<open>lit\<close>; what the interrupts do while a program waits for a line (\<open>wait\<close>); the run of a child process (\<open>child\<close>). The stack slots of a function's
  local arrays are at fixed distances from \<open>esp\<close>. The concrete machines of the witnesses are built from the code's own initialisation
  (\<open>fs0\<close>, \<open>boot0\<close>, \<open>kernel0\<close>, \<open>sched0\<close>, \<open>desk0\<close>, \<open>user0\<close>).

  \<^bold>\<open>Not modelled.\<close> The register saving of \<^verbatim>\<open>int_linkage.S\<close>, the boot code \<^verbatim>\<open>boot.S\<close> and the static tables of \<^verbatim>\<open>x86_desc.S\<close>: assembly below the C
  code's state. The contents of kernel stacks besides local arrays. \<^verbatim>\<open>tests.c\<close>: interactive drivers the kernel does not
  call. \<^verbatim>\<open>ece391emulate.c\<close>, which replaces the kernel by the host's C library. An access of a program to an unmapped address is a fault in \<open>exception\<close>
  and \<open>sigtest\<close> only; the other programs are run on buffers that are mapped. \<open>sigtest\<close> and \<open>main\<close> of \<open>fish\<close> and of \<open>grep\<close> are
  modelled without theorems about their runs.
\<close>

end
